(* ===== verification/Lmt_Prelude.thy ===== *)
theory Lmt_Prelude
  imports Complex_Main "HOL-Library.Word" "HOL-Library.Monad_Syntax"
    "HOL-Library.List_Lexorder" "HOL-Library.Char_ord" "HOL-Library.Code_Target_Nat"
begin

text \<open>
  Shared vocabulary of the development: C integers and \<open>errno\<close>, C strings as character lists
  without the terminating NUL, character classes of the C locale, decimal numerals, and the
  floating-point values of the metric strings.

  Conventions used by every theory:
  \<^item> a function that may hit a failing \<open>assert\<close> (the process aborts) returns an \<open>option\<close>, with
    \<open>None\<close> for the abort; running out of memory in \<open>xmalloc\<close> and its kin also ends the process
    and is not a value of the model;
  \<^item> \<open>errno\<close> is passed in and returned wherever the code tests or sets it;
  \<^item> \<open>uint64_t\<close> is \<open>64 word\<close>, the hash value is \<open>32 word\<close>, an \<open>int\<close> that cannot overflow on the
    modelled paths is \<open>int\<close>.
\<close>

section \<open>Collections of rules\<close>

named_theorems scan_simps \<open>what a scanner returns on text a printer wrote\<close>
named_theorems errno_simps \<open>effect of the library calls on errno\<close>

section \<open>Types shared by the components\<close>

type_synonym u64 = "64 word"
type_synonym u32 = "32 word"

datatype errno = E0 | ENOENT | ENOTDIR | EACCES | EINVAL | EIO | EEXIST | ENOMEM | EPERM | EOTHER nat

section \<open>Character classes (C locale)\<close>

definition isspace :: "char \<Rightarrow> bool" where
  "isspace c \<longleftrightarrow> c = CHR '' '' \<or> (9 \<le> (of_char c :: nat) \<and> (of_char c :: nat) \<le> 13)"

definition isdigit :: "char \<Rightarrow> bool" where
  "isdigit c \<longleftrightarrow> 48 \<le> (of_char c :: nat) \<and> (of_char c :: nat) \<le> 57"

definition digit_val :: "char \<Rightarrow> nat" where
  "digit_val c = of_char c - 48"

definition digit_char :: "nat \<Rightarrow> char" where
  "digit_char d = char_of (48 + d)"

abbreviation newline :: char where
  "newline \<equiv> CHR 0x0A"

lemma of_char_digit_char: "d < 10 \<Longrightarrow> (of_char (digit_char d) :: nat) = 48 + d"
  by (simp add: digit_char_def)

lemma isdigit_digit_char [simp]: "d < 10 \<Longrightarrow> isdigit (digit_char d)"
  by (simp add: isdigit_def of_char_digit_char)

lemma digit_val_digit_char [simp]: "d < 10 \<Longrightarrow> digit_val (digit_char d) = d"
  by (simp add: digit_val_def of_char_digit_char)

lemma isdigit_not_isspace [simp]: "isdigit c \<Longrightarrow> \<not> isspace c"
  by (auto simp: isdigit_def isspace_def)

lemma isdigit_not_sep [simp]:
  "\<not> isdigit CHR '';''" "\<not> isdigit CHR ''.''" "\<not> isdigit CHR ''-''" "\<not> isdigit CHR ''+''"
  "\<not> isdigit CHR '' ''" "\<not> isdigit CHR 0x0A" "\<not> isdigit CHR ''e''" "\<not> isdigit CHR ''E''"
  "\<not> isdigit CHR ''n''" "\<not> isdigit CHR ''N''" "\<not> isdigit CHR ''i''" "\<not> isdigit CHR ''I''"
  by (simp_all add: isdigit_def)

lemma isspace_consts [simp]:
  "isspace CHR '' ''" "isspace CHR 0x0A" "\<not> isspace CHR '';''" "\<not> isspace CHR ''-''"
  "\<not> isspace CHR ''n''" "\<not> isspace CHR ''i''" "\<not> isspace CHR '':''" "\<not> isspace CHR ''.''"
  by (simp_all add: isspace_def)

section \<open>Lists: spans and delimiters\<close>

lemma takeWhile_append_stop [simp]:
  "\<forall>x\<in>set xs. P x \<Longrightarrow> \<not> P y \<Longrightarrow> takeWhile P (xs @ y # ys) = xs"
  by (induction xs) auto

lemma dropWhile_append_stop [simp]:
  "\<forall>x\<in>set xs. P x \<Longrightarrow> \<not> P y \<Longrightarrow> dropWhile P (xs @ y # ys) = y # ys"
  by (induction xs) auto

lemma takeWhile_all [simp]: "\<forall>x\<in>set xs. P x \<Longrightarrow> takeWhile P xs = xs"
  by (induction xs) auto

lemma dropWhile_all [simp]: "\<forall>x\<in>set xs. P x \<Longrightarrow> dropWhile P xs = []"
  by (induction xs) auto

lemma dropWhile_hd_stop: "xs \<noteq> [] \<Longrightarrow> \<not> P (hd xs) \<Longrightarrow> dropWhile P xs = xs"
  by (cases xs) auto

section \<open>Decimal numerals\<close>

text \<open>\<open>dec_string n\<close> is what the conversion \<open>%"PRIu64"\<close> prints.\<close>

fun dec_string :: "nat \<Rightarrow> string" where
  "dec_string n =
     (if n < 10 then [digit_char n] else dec_string (n div 10) @ [digit_char (n mod 10)])"

declare dec_string.simps [simp del]

definition nat_of_digits :: "string \<Rightarrow> nat" where
  "nat_of_digits ds = foldl (\<lambda>a c. 10 * a + digit_val c) 0 ds"

lemma nat_of_digits_snoc [simp]: "nat_of_digits (ds @ [c]) = 10 * nat_of_digits ds + digit_val c"
  by (simp add: nat_of_digits_def)

lemma nat_of_digits_Nil [simp]: "nat_of_digits [] = 0"
  by (simp add: nat_of_digits_def)

lemma nat_of_digits_dec_string [simp]: "nat_of_digits (dec_string n) = n"
proof (induction n rule: dec_string.induct)
  case (1 n)
  show ?case
  proof (cases "n < 10")
    case True
    then show ?thesis
      by (subst dec_string.simps) (simp add: nat_of_digits_def)
  next
    case False
    with 1 have "nat_of_digits (dec_string (n div 10)) = n div 10"
      by simp
    with False show ?thesis
      by (subst dec_string.simps) simp
  qed
qed

lemma dec_string_digits: "c \<in> set (dec_string n) \<Longrightarrow> isdigit c"
proof (induction n rule: dec_string.induct)
  case (1 n)
  then show ?case
    by (cases "n < 10") (auto simp: dec_string.simps [of n])
qed

lemma dec_string_nonempty [simp]: "dec_string n \<noteq> []"
  by (subst dec_string.simps) simp

lemma dec_string_all_digits [simp]: "\<forall>c\<in>set (dec_string n). isdigit c"
  by (simp add: dec_string_digits)

lemma hd_dec_string [simp]: "isdigit (hd (dec_string n))"
  by (rule dec_string_digits) (rule list.set_sel(1), simp)

lemma dec_string_no_sep [simp]: "\<not> isdigit c \<Longrightarrow> c \<notin> set (dec_string n)"
  by (auto dest: dec_string_digits)

section \<open>Words\<close>

lemma unat_u64_bound [simp]: "unat (w :: u64) < 18446744073709551616"
  using unsigned_less [where 'a = nat, of w] by simp

lemma unat_sum_list_word:
  "unat (sum_list (ws :: u64 list)) = (\<Sum>w\<leftarrow>ws. unat w) mod 18446744073709551616"
proof (induction ws)
  case Nil
  then show ?case by simp
next
  case (Cons w ws)
  then show ?case by (simp add: unat_word_ariths mod_add_right_eq)
qed

end
