(* ===== verification/Lsd_Hash.thy ===== *)
theory Lsd_Hash
  imports Lmt_Prelude
begin

text \<open>
  \<open>liblsd/hash.c\<close>: the chained hash table. A chain of \<open>struct hash_node\<close> is the list of its
  (key, data) pairs from the slot's head on; the handle is a value, and a \<open>NULL\<close> key, datum or
  callback is \<open>None\<close>. The mutex calls only serialise callers and have no effect on the values.
  A callback receives the item and the caller's \<open>arg\<close>; it returns its result and \<open>arg\<close> after
  the call, and for \<open>hash_for_each\<close> also the item, which the callback can modify in place
  because the table stores pointers. The table refines a finite map; the locale
  \<open>keyed_store\<close> is the interface its clients use.
\<close>

section \<open>State\<close>

record ('k, 'v) hash_tab =
  hcount :: int
  hsize :: nat
  table :: "('k \<times> 'v) list list"
  cmp_f :: "'k \<Rightarrow> 'k \<Rightarrow> int"
  del_f :: bool \<comment> \<open>whether a deletion function was given\<close>
  key_f :: "'k \<Rightarrow> u32"

section \<open>Operations\<close>

definition hash_def_size :: nat where "hash_def_size = 1213"

text \<open>\<open>mem1\<close> and \<open>mem2\<close>: whether \<open>malloc\<close> of the handle and \<open>calloc\<close> of the table succeed.\<close>

definition hash_create :: "int \<Rightarrow> ('k \<Rightarrow> u32) option \<Rightarrow> ('k \<Rightarrow> 'k \<Rightarrow> int) option \<Rightarrow> bool \<Rightarrow>
    bool \<Rightarrow> bool \<Rightarrow> errno \<Rightarrow> ('k, 'v) hash_tab option \<times> errno" where
  "hash_create sz kf cf df mem1 mem2 e =
     (case (cf, kf) of
        (Some c, Some k) \<Rightarrow>
          let n = (if sz \<le> 0 then hash_def_size else nat sz)
          in if \<not> mem1 then (None, ENOMEM)
             else if \<not> mem2 then (None, ENOMEM)
             else (Some \<lparr>hcount = 0, hsize = n, table = replicate n [], cmp_f = c, del_f = df,
                         key_f = k\<rparr>, e)
      | _ \<Rightarrow> (None, EINVAL))"

text \<open>The data handed to the deletion function, in order.\<close>

definition hash_destroy :: "('k, 'v) hash_tab \<Rightarrow> 'v list" where
  "hash_destroy h = (if del_f h then map snd (concat (table h)) else [])"

definition hash_is_empty :: "('k, 'v) hash_tab \<Rightarrow> bool" where
  "hash_is_empty h \<longleftrightarrow> hcount h = 0"

definition hash_count :: "('k, 'v) hash_tab \<Rightarrow> int" where
  "hash_count h = hcount h"

definition slot :: "('k, 'v) hash_tab \<Rightarrow> 'k \<Rightarrow> nat" where
  "slot h k = unat (key_f h k) mod hsize h"

fun chain_find :: "('k \<Rightarrow> 'k \<Rightarrow> int) \<Rightarrow> 'k \<Rightarrow> ('k \<times> 'v) list \<Rightarrow> 'v option" where
  "chain_find cmp key [] = None"
| "chain_find cmp key ((hkey, d) # ps) =
     (if cmp hkey key = 0 then Some d else chain_find cmp key ps)"

definition hash_find :: "('k, 'v) hash_tab \<Rightarrow> 'k option \<Rightarrow> 'v option \<times> errno" where
  "hash_find h key =
     (case key of None \<Rightarrow> (None, EINVAL)
      | Some k \<Rightarrow> (chain_find (cmp_f h) k (table h ! slot h k), E0))"

definition hash_insert :: "('k, 'v) hash_tab \<Rightarrow> 'k option \<Rightarrow> 'v option \<Rightarrow> bool \<Rightarrow> errno \<Rightarrow>
    'v option \<times> ('k, 'v) hash_tab \<times> errno" where
  "hash_insert h key d mem e =
     (case (key, d) of
        (Some k, Some v) \<Rightarrow>
          let i = slot h k; c = table h ! i
          in if chain_find (cmp_f h) k c \<noteq> None then (None, h, EEXIST)
             else if \<not> mem then (None, h, ENOMEM)
             else (Some v, h\<lparr>table := (table h)[i := (k, v) # c], hcount := hcount h + 1\<rparr>, e)
      | _ \<Rightarrow> (None, h, EINVAL))"

fun chain_remove :: "('k \<Rightarrow> 'k \<Rightarrow> int) \<Rightarrow> 'k \<Rightarrow> ('k \<times> 'v) list \<Rightarrow> 'v option \<times> ('k \<times> 'v) list" where
  "chain_remove cmp key [] = (None, [])"
| "chain_remove cmp key ((hkey, d) # ps) =
     (if cmp hkey key = 0 then (Some d, ps)
      else case chain_remove cmp key ps of (r, ps') \<Rightarrow> (r, (hkey, d) # ps'))"

definition hash_remove :: "('k, 'v) hash_tab \<Rightarrow> 'k option \<Rightarrow>
    'v option \<times> ('k, 'v) hash_tab \<times> errno" where
  "hash_remove h key =
     (case key of None \<Rightarrow> (None, h, EINVAL)
      | Some k \<Rightarrow>
          (let i = slot h k
           in case chain_remove (cmp_f h) k (table h ! i) of
                (None, _) \<Rightarrow> (None, h, E0)
              | (Some d, c) \<Rightarrow>
                  (Some d, h\<lparr>table := (table h)[i := c], hcount := hcount h - 1\<rparr>, E0)))"

text \<open>One chain of \<open>hash_delete_if\<close>: the surviving nodes, the deleted data, and \<open>arg\<close>.\<close>

fun chain_delete_if :: "('v \<Rightarrow> 'k \<Rightarrow> 's \<Rightarrow> int \<times> 's) \<Rightarrow> ('k \<times> 'v) list \<Rightarrow> 's \<Rightarrow>
    ('k \<times> 'v) list \<times> 'v list \<times> 's" where
  "chain_delete_if f [] s = ([], [], s)"
| "chain_delete_if f ((k, d) # ps) s =
     (case f d k s of (r, s1) \<Rightarrow>
        case chain_delete_if f ps s1 of (ps', ds, s2) \<Rightarrow>
          if r > 0 then (ps', d # ds, s2) else ((k, d) # ps', ds, s2))"

fun table_delete_if :: "('v \<Rightarrow> 'k \<Rightarrow> 's \<Rightarrow> int \<times> 's) \<Rightarrow> ('k \<times> 'v) list list \<Rightarrow> 's \<Rightarrow>
    ('k \<times> 'v) list list \<times> 'v list \<times> 's" where
  "table_delete_if f [] s = ([], [], s)"
| "table_delete_if f (c # cs) s =
     (case chain_delete_if f c s of (c', ds1, s1) \<Rightarrow>
        case table_delete_if f cs s1 of (cs', ds2, s2) \<Rightarrow> (c' # cs', ds1 @ ds2, s2))"

text \<open>The return value, the table, the deleted data (handed to the deletion function if there
  is one), \<open>arg\<close> and \<open>errno\<close>.\<close>

definition hash_delete_if :: "('k, 'v) hash_tab \<Rightarrow> ('v \<Rightarrow> 'k \<Rightarrow> 's \<Rightarrow> int \<times> 's) option \<Rightarrow> 's \<Rightarrow>
    errno \<Rightarrow> int \<times> ('k, 'v) hash_tab \<times> 'v list \<times> 's \<times> errno" where
  "hash_delete_if h arg_f s e =
     (case arg_f of None \<Rightarrow> (- 1, h, [], s, EINVAL)
      | Some f \<Rightarrow>
          (case table_delete_if f (table h) s of (cs, ds, s') \<Rightarrow>
             (int (length ds), h\<lparr>table := cs, hcount := hcount h - int (length ds)\<rparr>, ds, s', e)))"

fun chain_for_each :: "('v \<Rightarrow> 'k \<Rightarrow> 's \<Rightarrow> int \<times> ('k \<times> 'v) \<times> 's) \<Rightarrow> ('k \<times> 'v) list \<Rightarrow> 's \<Rightarrow>
    int \<times> ('k \<times> 'v) list \<times> 's" where
  "chain_for_each f [] s = (0, [], s)"
| "chain_for_each f ((k, d) # ps) s =
     (case f d k s of (r, p, s1) \<Rightarrow>
        case chain_for_each f ps s1 of (n, ps', s2) \<Rightarrow>
          ((if r > 0 then n + 1 else n), p # ps', s2))"

fun table_for_each :: "('v \<Rightarrow> 'k \<Rightarrow> 's \<Rightarrow> int \<times> ('k \<times> 'v) \<times> 's) \<Rightarrow> ('k \<times> 'v) list list \<Rightarrow> 's \<Rightarrow>
    int \<times> ('k \<times> 'v) list list \<times> 's" where
  "table_for_each f [] s = (0, [], s)"
| "table_for_each f (c # cs) s =
     (case chain_for_each f c s of (n1, c', s1) \<Rightarrow>
        case table_for_each f cs s1 of (n2, cs', s2) \<Rightarrow> (n1 + n2, c' # cs', s2))"

definition hash_for_each :: "('k, 'v) hash_tab \<Rightarrow>
    ('v \<Rightarrow> 'k \<Rightarrow> 's \<Rightarrow> int \<times> ('k \<times> 'v) \<times> 's) option \<Rightarrow> 's \<Rightarrow> errno \<Rightarrow>
    int \<times> ('k, 'v) hash_tab \<times> 's \<times> errno" where
  "hash_for_each h arg_f s e =
     (case arg_f of None \<Rightarrow> (- 1, h, s, EINVAL)
      | Some f \<Rightarrow> (case table_for_each f (table h) s of (n, cs, s') \<Rightarrow> (n, h\<lparr>table := cs\<rparr>, s', e)))"

definition hash_key_string :: "string \<Rightarrow> u32" where
  "hash_key_string str = foldl (\<lambda>hval p. hval + (31 * hval + of_nat (of_char p))) 0 str"

text \<open>\<open>strcmp\<close> as the comparison function: only its sign matters.\<close>

definition strcmp :: "string \<Rightarrow> string \<Rightarrow> int" where
  "strcmp a b = (if a = b then 0 else if a < b then - 1 else 1)"

section \<open>Node allocation\<close>

text \<open>
  \<open>hash_free_list\<close> is the list of the free nodes' addresses (in node units). When it is empty,
  \<open>malloc\<close> gives a block of \<open>HASH_ALLOC\<close> nodes at an address, or nothing.
\<close>

definition hash_alloc_chunk :: nat where "hash_alloc_chunk = 1024"

definition hash_node_alloc :: "nat option \<Rightarrow> nat list \<Rightarrow> nat option \<times> nat list" where
  "hash_node_alloc blk free =
     (let fl = (if free = [] then (case blk of None \<Rightarrow> [] | Some a \<Rightarrow> [a..<a + hash_alloc_chunk])
                else free)
      in case fl of [] \<Rightarrow> (None, []) | p # ps \<Rightarrow> (Some p, ps))"

definition hash_node_free :: "nat \<Rightarrow> nat list \<Rightarrow> nat list" where
  "hash_node_free node free = node # free"

section \<open>Invariant and abstraction\<close>

definition cmp_ok :: "('k, 'v) hash_tab \<Rightarrow> bool" where
  "cmp_ok h \<longleftrightarrow> (\<forall>a b. cmp_f h a b = 0 \<longleftrightarrow> a = b)"

definition placed :: "('k, 'v) hash_tab \<Rightarrow> bool" where
  "placed h \<longleftrightarrow> (\<forall>i < length (table h). \<forall>p \<in> set (table h ! i). slot h (fst p) = i)"

definition hash_inv :: "('k, 'v) hash_tab \<Rightarrow> bool" where
  "hash_inv h \<longleftrightarrow> 0 < hsize h \<and> length (table h) = hsize h \<and> cmp_ok h \<and> placed h \<and>
     distinct (map fst (concat (table h))) \<and> hcount h = int (length (concat (table h)))"

definition lookup :: "('k, 'v) hash_tab \<Rightarrow> 'k \<Rightarrow> 'v option" where
  "lookup h = map_of (concat (table h))"

lemma slot_less [simp]: "0 < hsize h \<Longrightarrow> slot h k < hsize h"
  by (simp add: slot_def)

lemma slot_upd [simp]: "slot (h\<lparr>table := t\<rparr>) = slot h" "slot (h\<lparr>hcount := n\<rparr>) = slot h"
  by (simp_all add: fun_eq_iff slot_def)

lemma chain_find_map_of:
  assumes "\<And>a b. cmp a b = 0 \<longleftrightarrow> a = b"
  shows "chain_find cmp k c = map_of c k"
  using assms by (induction c) auto

lemma chain_remove_spec:
  assumes "\<And>a b. cmp a b = 0 \<longleftrightarrow> a = b" "distinct (map fst c)"
  shows "chain_remove cmp k c = (map_of c k, filter (\<lambda>p. fst p \<noteq> k) c)"
  using assms(2)
proof (induction c)
  case Nil
  then show ?case by simp
next
  case (Cons p c)
  moreover have "fst p \<notin> fst ` set c \<Longrightarrow> filter (\<lambda>q. fst q \<noteq> fst p) c = c"
    by (induction c) auto
  ultimately show ?case by (cases p) (auto simp: assms(1))
qed

subsection \<open>Chains and the whole table\<close>

lemma concat_split:
  "i < length t \<Longrightarrow> concat t = concat (take i t) @ t ! i @ concat (drop (Suc i) t)"
  by (metis concat.simps(2) concat_append id_take_nth_drop)

lemma distinct_mid:
  "distinct (map fst (xs @ ys)) \<Longrightarrow> fst p \<notin> fst ` set (xs @ ys) \<Longrightarrow> distinct (map fst (xs @ p # ys))"
  by auto

lemma map_of_mid:
  "k \<notin> fst ` set (xs @ ys) \<Longrightarrow> map_of (xs @ (k, v) # ys) = (map_of (xs @ ys))(k \<mapsto> v)"
  by (induction xs) (auto simp: fun_eq_iff)

lemma concat_update_split:
  "i < length t \<Longrightarrow> concat (t[i := c]) = concat (take i t) @ c @ concat (drop (Suc i) t)"
  by (simp add: upd_conv_take_nth_drop)

text \<open>In an update of one chain, the rest of the table keeps its keys away from that slot.\<close>

lemma placed_other_slots:
  assumes "placed h" "length (table h) = hsize h" "i < length (table h)" "slot h k = i"
  shows "k \<notin> fst ` set (concat (take i (table h)))"
    and "k \<notin> fst ` set (concat (drop (Suc i) (table h)))"
proof -
  have at: "j = i" if "j < length (table h)" "k \<in> fst ` set (table h ! j)" for j
    using assms(1,4) that by (auto simp: placed_def)
  show "k \<notin> fst ` set (concat (take i (table h)))"
  proof
    assume "k \<in> fst ` set (concat (take i (table h)))"
    then obtain c where "c \<in> set (take i (table h))" "k \<in> fst ` set c" by auto
    then obtain j where "j < length (take i (table h))" "c = take i (table h) ! j" "k \<in> fst ` set c"
      unfolding in_set_conv_nth [of c] by blast
    then have "j < i" "k \<in> fst ` set (table h ! j)" by simp_all
    then show False using at [of j] assms(3) by simp
  qed
  show "k \<notin> fst ` set (concat (drop (Suc i) (table h)))"
  proof
    assume "k \<in> fst ` set (concat (drop (Suc i) (table h)))"
    then obtain c where "c \<in> set (drop (Suc i) (table h))" "k \<in> fst ` set c" by auto
    then obtain j where "j < length (drop (Suc i) (table h))" "c = drop (Suc i) (table h) ! j"
      "k \<in> fst ` set c"
      unfolding in_set_conv_nth [of c] by blast
    then have "Suc i + j < length (table h)" "k \<in> fst ` set (table h ! (Suc i + j))"
      using assms(3) by simp_all
    then show False using at [of "Suc i + j"] by simp
  qed
qed

lemma placed_chain: "placed h \<Longrightarrow> i < length (table h) \<Longrightarrow> p \<in> set (table h ! i) \<Longrightarrow> slot h (fst p) = i"
  by (simp add: placed_def)

lemma length_filter_neq:
  "distinct ks \<Longrightarrow> k \<in> set ks \<Longrightarrow> length (filter (\<lambda>x. x \<noteq> k) ks) + 1 = length ks"
proof (induction ks)
  case (Cons a ks)
  moreover have "k \<notin> set ks \<Longrightarrow> filter (\<lambda>x. x \<noteq> k) ks = ks"
    by (rule filter_True) auto
  ultimately show ?case by (cases "a = k") auto
qed simp

lemma map_of_filter_neq: "map_of (filter (\<lambda>p. fst p \<noteq> k) ps) = (map_of ps)(k := None)"
  by (induction ps) (auto simp: fun_eq_iff)

lemma hash_invD:
  assumes "hash_inv h"
  shows "0 < hsize h" "length (table h) = hsize h" "cmp_f h a b = 0 \<longleftrightarrow> a = b" "placed h"
    "distinct (map fst (concat (table h)))" "hcount h = int (length (concat (table h)))"
  using assms by (simp_all add: hash_inv_def cmp_ok_def)

lemma slot_bound: "hash_inv h \<Longrightarrow> slot h k < length (table h)"
  using hash_invD(1,2) [of h] by simp

lemma lookup_slot:
  assumes "hash_inv h"
  shows "lookup h k = map_of (table h ! slot h k) k"
proof -
  let ?i = "slot h k"
  note others = placed_other_slots [OF hash_invD(4,2) [OF assms] slot_bound [OF assms] refl, of k]
  have "map_of (concat (take ?i (table h))) k = None" "map_of (concat (drop (Suc ?i) (table h))) k = None"
    using others by (simp_all only: map_of_eq_None_iff not_False_eq_True)
  then show ?thesis
    unfolding lookup_def concat_split [OF slot_bound [OF assms, of k]]
    by (simp add: map_add_def split: option.splits)
qed

lemma chain_find_lookup:
  "hash_inv h \<Longrightarrow> chain_find (cmp_f h) k (table h ! slot h k) = lookup h k"
  using chain_find_map_of [of "cmp_f h" k] hash_invD(3) [of h] lookup_slot [of h k] by metis

lemma hash_find_spec: "hash_inv h \<Longrightarrow> hash_find h (Some k) = (lookup h k, E0)"
  by (simp add: hash_find_def chain_find_lookup)

lemma lookup_None_iff: "lookup h k = None \<longleftrightarrow> k \<notin> fst ` set (concat (table h))"
  unfolding lookup_def by (rule map_of_eq_None_iff)

lemma dom_lookup: "dom (lookup h) = fst ` set (concat (table h))"
  unfolding lookup_def by (rule dom_map_of_conv_image_fst)

lemma hash_count_card: "hash_inv h \<Longrightarrow> hash_count h = int (card (dom (lookup h)))"
  using hash_invD(5,6) [of h] unfolding dom_lookup hash_count_def
  by (metis distinct_card length_map set_map)

subsection \<open>Creation\<close>

lemma hash_create_inv:
  assumes "hash_create sz (Some kf) (Some cf) df True True e = (Some h, e')"
    and "\<And>a b. cf a b = 0 \<longleftrightarrow> a = b"
  shows "hash_inv h" "lookup h = Map.empty"
  using assms
  by (auto simp: hash_create_def hash_inv_def cmp_ok_def placed_def lookup_def hash_def_size_def Let_def
      split: if_splits)

subsection \<open>Insertion\<close>

lemma placed_update:
  assumes "placed h" "i < length (table h)" "\<forall>p\<in>set c. slot h (fst p) = i"
  shows "placed (h\<lparr>table := (table h)[i := c], hcount := n\<rparr>)"
  using assms by (auto simp: placed_def nth_list_update)

lemma hash_insert_dup:
  assumes "hash_inv h" "lookup h k = Some w"
  shows "hash_insert h (Some k) (Some v) mem e = (None, h, EEXIST)"
  using assms by (simp add: hash_insert_def chain_find_lookup)

lemma hash_insert_new:
  assumes inv: "hash_inv h" and new: "lookup h k = None"
  obtains h' where "hash_insert h (Some k) (Some v) True e = (Some v, h', e)"
    "hash_inv h'" "lookup h' = (lookup h)(k \<mapsto> v)"
proof -
  let ?i = "slot h k"
  let ?c = "table h ! ?i"
  let ?h = "h\<lparr>table := (table h)[?i := (k, v) # ?c], hcount := hcount h + 1\<rparr>"
  note i = slot_bound [OF inv, of k]
  have con: "concat (table ?h) = concat (take ?i (table h)) @ (k, v) # ?c @ concat (drop (Suc ?i) (table h))"
    using i by (simp add: concat_update_split)
  have old: "concat (table h) = concat (take ?i (table h)) @ ?c @ concat (drop (Suc ?i) (table h))"
    using i by (rule concat_split)
  have notin: "k \<notin> fst ` set (concat (table h))"
    using new by (simp add: lookup_None_iff)
  have "placed ?h"
    using placed_chain [OF hash_invD(4) [OF inv] i]
    by (intro placed_update [OF hash_invD(4) [OF inv] i]) simp
  moreover have "distinct (map fst (concat (table ?h)))"
    unfolding con using notin hash_invD(5) [OF inv] unfolding old by (intro distinct_mid) simp_all
  moreover have "hcount ?h = int (length (concat (table ?h)))"
    using hash_invD(6) [OF inv] unfolding con unfolding old by simp
  ultimately have "hash_inv ?h"
    using hash_invD(1,2) [OF inv] inv by (simp add: hash_inv_def cmp_ok_def)
  moreover have "lookup ?h = (lookup h)(k \<mapsto> v)"
    using notin unfolding lookup_def con unfolding old by (rule map_of_mid)
  moreover have "hash_insert h (Some k) (Some v) True e = (Some v, ?h, e)"
    using inv new by (simp add: hash_insert_def chain_find_lookup Let_def)
  ultimately show thesis using that by blast
qed

subsection \<open>Removal\<close>

lemma hash_remove_spec:
  assumes inv: "hash_inv h"
  obtains h' where "hash_remove h (Some k) = (lookup h k, h', E0)" "hash_inv h'"
    "lookup h' = (lookup h)(k := None)"
proof -
  let ?i = "slot h k"
  let ?c = "table h ! ?i"
  let ?c' = "filter (\<lambda>p. fst p \<noteq> k) ?c"
  note i = slot_bound [OF inv, of k]
  have old: "concat (table h) = concat (take ?i (table h)) @ ?c @ concat (drop (Suc ?i) (table h))"
    using i by (rule concat_split)
  have dc: "distinct (map fst ?c)" using hash_invD(5) [OF inv] unfolding old by auto
  have rem: "chain_remove (cmp_f h) k ?c = (lookup h k, ?c')"
    using chain_remove_spec [of "cmp_f h" ?c k, OF hash_invD(3) [OF inv] dc] lookup_slot [OF inv, of k]
    by simp
  show thesis
  proof (cases "lookup h k")
    case None
    then have "(lookup h)(k := None) = lookup h" by auto
    with None rem inv that [of h] show thesis by (simp add: hash_remove_def)
  next
    case (Some d)
    let ?h = "h\<lparr>table := (table h)[?i := ?c'], hcount := hcount h - 1\<rparr>"
    have con: "concat (table ?h) = concat (take ?i (table h)) @ ?c' @ concat (drop (Suc ?i) (table h))"
      using i by (simp add: concat_update_split)
    have filt: "concat (table ?h) = filter (\<lambda>p. fst p \<noteq> k) (concat (table h))"
    proof -
      have id: "filter (\<lambda>p. fst p \<noteq> k) xs = xs" if "k \<notin> fst ` set xs" for xs :: "('a \<times> 'b) list"
        using that by (induction xs) auto
      show ?thesis
        using placed_other_slots [OF hash_invD(4,2) [OF inv] i refl] unfolding con
        by (subst old) (simp only: filter_append id not_False_eq_True)
    qed
    have "length (filter (\<lambda>p. fst p \<noteq> k) (concat (table h))) + 1 = length (concat (table h))"
    proof -
      have "k \<in> set (map fst (concat (table h)))"
        using Some lookup_None_iff [of h k] by (simp only: set_map) auto
      from length_filter_neq [OF hash_invD(5) [OF inv] this] show ?thesis
        by (simp only: filter_map length_map o_def)
    qed
    then have "hcount ?h = int (length (concat (table ?h)))"
      using hash_invD(6) [OF inv] unfolding filt by simp
    moreover have "placed ?h"
      using placed_chain [OF hash_invD(4) [OF inv] i]
      by (intro placed_update [OF hash_invD(4) [OF inv] i]) simp
    moreover have "distinct (map fst (concat (table ?h)))"
      using hash_invD(5) [OF inv] unfolding filt by (rule distinct_map_filter)
    ultimately have "hash_inv ?h"
      using hash_invD(1,2) [OF inv] inv by (simp add: hash_inv_def cmp_ok_def)
    moreover have "lookup ?h = (lookup h)(k := None)"
      unfolding lookup_def filt by (rule map_of_filter_neq)
    moreover have "hash_remove h (Some k) = (lookup h k, ?h, E0)"
      using rem Some by (simp add: hash_remove_def Let_def)
    ultimately show thesis using that by blast
  qed
qed

subsection \<open>Conditional deletion and traversal\<close>

lemma chain_delete_if_pure:
  "chain_delete_if (\<lambda>d k s. (g d k, s)) c s =
    (filter (\<lambda>(k, d). g d k \<le> 0) c, map snd (filter (\<lambda>(k, d). 0 < g d k) c), s)"
  by (induction c) (auto simp: not_le)

lemma table_delete_if_pure:
  "table_delete_if (\<lambda>d k s. (g d k, s)) t s =
    (map (filter (\<lambda>(k, d). g d k \<le> 0)) t, map snd (filter (\<lambda>(k, d). 0 < g d k) (concat t)), s)"
  by (induction t) (auto simp: chain_delete_if_pure)

lemma chain_for_each_pure:
  "chain_for_each (\<lambda>d k s. (g d k, m k d, s)) c s =
    (int (length (filter (\<lambda>(k, d). 0 < g d k) c)), map (\<lambda>(k, d). m k d) c, s)"
  by (induction c) auto

lemma table_for_each_pure:
  "table_for_each (\<lambda>d k s. (g d k, m k d, s)) t s =
    (int (length (filter (\<lambda>(k, d). 0 < g d k) (concat t))), map (map (\<lambda>(k, d). m k d)) t, s)"
  by (induction t) (auto simp: chain_for_each_pure)

lemma concat_map_filter: "concat (map (filter P) t) = filter P (concat t)"
  by (induction t) auto

lemma map_of_filter_pred:
  "distinct (map fst ps) \<Longrightarrow> map_of (filter (\<lambda>(k, d). P k d) ps) k =
    (case map_of ps k of None \<Rightarrow> None | Some d \<Rightarrow> if P k d then Some d else None)"
proof (induction ps)
  case (Cons p ps)
  moreover have "fst p \<notin> fst ` set ps \<Longrightarrow> map_of (filter (\<lambda>(k, d). P k d) ps) (fst p) = None"
    by (auto simp: map_of_eq_None_iff)
  ultimately show ?case by (cases p) auto
qed simp

lemma placed_filter:
  assumes "placed h" shows "placed (h\<lparr>table := map (filter P) (table h), hcount := n\<rparr>)"
  using assms by (simp add: placed_def)

text \<open>What \<open>hash_delete_if\<close> leaves, for a callback that decides by the item alone.\<close>

lemma hash_delete_if_spec:
  assumes inv: "hash_inv h"
  obtains h' ds where
    "hash_delete_if h (Some (\<lambda>d k s. (g d k, s))) s e = (int (length ds), h', ds, s, e)"
    "hash_inv h'"
    "\<And>k. lookup h' k = (case lookup h k of None \<Rightarrow> None | Some d \<Rightarrow> if 0 < g d k then None else Some d)"
    "hash_count h' = hash_count h - int (length ds)"
proof -
  let ?ds = "map snd (filter (\<lambda>(k, d). 0 < g d k) (concat (table h)))"
  let ?h = "h\<lparr>table := map (filter (\<lambda>(k, d). g d k \<le> 0)) (table h), hcount := hcount h - int (length ?ds)\<rparr>"
  have con: "concat (table ?h) = filter (\<lambda>(k, d). g d k \<le> 0) (concat (table h))"
    by (simp add: concat_map_filter)
  have len: "length (filter (\<lambda>(k, d). g d k \<le> 0) ps) + length (filter (\<lambda>(k, d). 0 < g d k) ps) = length ps"
    for ps by (induction ps) auto
  have "hcount ?h = int (length (concat (table ?h)))"
    using len [of "concat (table h)"] hash_invD(6) [OF inv] unfolding con by simp
  moreover have "placed ?h" using placed_filter [OF hash_invD(4) [OF inv]] by blast
  moreover have "distinct (map fst (concat (table ?h)))"
    using hash_invD(5) [OF inv] unfolding con by (rule distinct_map_filter)
  ultimately have "hash_inv ?h"
    using hash_invD(1,2) [OF inv] inv by (simp add: hash_inv_def cmp_ok_def)
  moreover have "lookup ?h k = (case lookup h k of None \<Rightarrow> None | Some d \<Rightarrow> if 0 < g d k then None else Some d)" for k
    unfolding lookup_def con
    by (subst map_of_filter_pred [OF hash_invD(5) [OF inv]]) (auto split: option.splits)
  moreover have "hash_delete_if h (Some (\<lambda>d k s. (g d k, s))) s e = (int (length ?ds), ?h, ?ds, s, e)"
    by (simp add: hash_delete_if_def table_delete_if_pure)
  ultimately show thesis using that by (simp add: hash_count_def)
qed

subsection \<open>String keys\<close>

lemma strcmp_eq_0 [simp]: "strcmp a b = 0 \<longleftrightarrow> a = b"
  by (simp add: strcmp_def)

lemma hash_key_string_snoc:
  "hash_key_string (s @ [c]) = 32 * hash_key_string s + of_nat (of_char c)"
  by (simp add: hash_key_string_def algebra_simps)

lemma mod_64_of_32bit: "(x::nat) mod 4294967296 mod 64 = x mod 64"
  by (rule mod_mod_cancel) simp

lemma unat_mod_64:
  "unat (32 * w + of_nat n :: u32) mod 64 = (32 * unat w + n) mod 64"
  by (simp add: unat_word_ariths unat_of_nat mod_64_of_32bit mod_add_left_eq mod_add_right_eq)

lemma mod_64_scale: "(32 * (y mod 64) + b) mod 64 = (32 * y + b) mod (64 :: nat)"
  by (metis mod_add_left_eq mod_mult_right_eq)

text \<open>Modulo 64 only the last two characters count: the multiplier is a power of two.\<close>

lemma hash_key_string_mod_64:
  "unat (hash_key_string (s @ [a, b])) mod 64 = (32 * of_char a + of_char b) mod (64 :: nat)"
proof -
  have "s @ [a, b] = (s @ [a]) @ [b]" by simp
  then have "unat (hash_key_string (s @ [a, b])) mod 64 =
      (32 * unat (hash_key_string (s @ [a])) + of_char b) mod 64"
    by (simp only: hash_key_string_snoc unat_mod_64)
  also have "\<dots> = (32 * (unat (hash_key_string (s @ [a])) mod 64) + of_char b) mod 64"
    by (simp only: mod_64_scale)
  also have "\<dots> = (32 * (32 * unat (hash_key_string s) + of_char a) + of_char b) mod 64"
    by (simp only: hash_key_string_snoc unat_mod_64 mod_64_scale)
  also have "\<dots> = (64 * (16 * unat (hash_key_string s)) + (32 * of_char a + of_char b)) mod 64"
    by (simp add: algebra_simps)
  also have "\<dots> = (32 * of_char a + of_char b) mod 64"
    by (rule mod_mult_self4)
  finally show ?thesis .
qed

section \<open>Interface\<close>

locale keyed_store =
  fixes inv :: "'h \<Rightarrow> bool"
    and look :: "'h \<Rightarrow> 'k \<Rightarrow> 'v option"
    and ins :: "'k \<Rightarrow> 'v \<Rightarrow> 'h \<Rightarrow> 'v option \<times> 'h"
    and rem :: "'k \<Rightarrow> 'h \<Rightarrow> 'v option \<times> 'h"
    and cnt :: "'h \<Rightarrow> int"
  assumes ins_new: "inv h \<Longrightarrow> look h k = None \<Longrightarrow>
      \<exists>h'. ins k v h = (Some v, h') \<and> inv h' \<and> look h' = (look h)(k \<mapsto> v)"
    and ins_dup: "inv h \<Longrightarrow> look h k = Some w \<Longrightarrow> ins k v h = (None, h)"
    and rem_spec: "inv h \<Longrightarrow>
      \<exists>h'. rem k h = (look h k, h') \<and> inv h' \<and> look h' = (look h)(k := None)"
    and cnt_card: "inv h \<Longrightarrow> cnt h = int (card (dom (look h)))"
    and finite_dom: "inv h \<Longrightarrow> finite (dom (look h))"
begin

lemma ins_other: "inv h \<Longrightarrow> k' \<noteq> k \<Longrightarrow> look (snd (ins k v h)) k' = look h k'"
  using ins_new [of h k v] ins_dup [of h k _ v] by (cases "look h k") auto

lemma ins_inv: "inv h \<Longrightarrow> inv (snd (ins k v h))"
  using ins_new [of h k v] ins_dup [of h k _ v] by (cases "look h k") auto

lemma rem_inv: "inv h \<Longrightarrow> inv (snd (rem k h))"
  using rem_spec [of h k] by auto

text \<open>Removing a key and inserting it again replaces its value.\<close>

lemma replace:
  assumes "inv h"
  shows "\<exists>h'. ins k v (snd (rem k h)) = (Some v, h') \<and> inv h' \<and> look h' = (look h)(k \<mapsto> v)"
proof -
  obtain h1 where h1: "rem k h = (look h k, h1)" "inv h1" "look h1 = (look h)(k := None)"
    using rem_spec [OF assms] by blast
  then obtain h2 where "ins k v h1 = (Some v, h2)" "inv h2" "look h2 = (look h1)(k \<mapsto> v)"
    using ins_new [of h1 k v] by auto
  with h1 show ?thesis by auto
qed

lemma cnt_ins_new: "inv h \<Longrightarrow> look h k = None \<Longrightarrow> cnt (snd (ins k v h)) = cnt h + 1"
proof -
  assume a: "inv h" "look h k = None"
  then obtain h' where h': "ins k v h = (Some v, h')" "inv h'" "look h' = (look h)(k \<mapsto> v)"
    using ins_new [of h k v] by blast
  have "k \<notin> dom (look h)" using a(2) by auto
  then have "card (dom (look h')) = Suc (card (dom (look h)))"
    using h'(3) finite_dom [OF a(1)] by simp
  then show ?thesis using h' cnt_card [OF a(1)] cnt_card [OF h'(2)] by simp
qed

end

text \<open>Insertion and removal without \<open>errno\<close>, as the store's clients see them.\<close>

definition hash_put :: "'k \<Rightarrow> 'v \<Rightarrow> ('k, 'v) hash_tab \<Rightarrow> 'v option \<times> ('k, 'v) hash_tab" where
  "hash_put k v h = (case hash_insert h (Some k) (Some v) True E0 of (r, h', e) \<Rightarrow> (r, h'))"

definition hash_del :: "'k \<Rightarrow> ('k, 'v) hash_tab \<Rightarrow> 'v option \<times> ('k, 'v) hash_tab" where
  "hash_del k h = (case hash_remove h (Some k) of (r, h', e) \<Rightarrow> (r, h'))"

interpretation hs: keyed_store hash_inv lookup hash_put hash_del hash_count
proof (unfold_locales, goal_cases)
  case (1 h k v)
  obtain h' where "hash_insert h (Some k) (Some v) True E0 = (Some v, h', E0)"
    "hash_inv h'" "lookup h' = (lookup h)(k \<mapsto> v)"
    using hash_insert_new [OF 1] by blast
  then show ?case by (auto simp: hash_put_def)
next
  case (2 h k w v)
  then show ?case by (simp add: hash_put_def hash_insert_dup)
next
  case (3 h k)
  obtain h' where "hash_remove h (Some k) = (lookup h k, h', E0)" "hash_inv h'"
    "lookup h' = (lookup h)(k := None)"
    using hash_remove_spec [OF 3] by blast
  then show ?case by (auto simp: hash_del_def)
next
  case (4 h)
  then show ?case by (rule hash_count_card)
next
  case (5 h)
  then show ?case by (simp add: dom_lookup)
qed

subsection \<open>Allocation\<close>

text \<open>The pool invariant: free nodes are distinct and none of them is in use.\<close>

definition pool_ok :: "nat set \<Rightarrow> nat list \<Rightarrow> bool" where
  "pool_ok used free \<longleftrightarrow> distinct free \<and> set free \<inter> used = {}"

lemma hash_node_alloc_fresh:
  assumes "pool_ok used free" "hash_node_alloc blk free = (Some p, free')"
    and "\<And>a. blk = Some a \<Longrightarrow> {a..<a + hash_alloc_chunk} \<inter> (used \<union> set free) = {}"
  shows "p \<notin> used \<and> pool_ok (insert p used) free'"
proof -
  define fl where "fl = (if free = [] then (case blk of None \<Rightarrow> [] | Some a \<Rightarrow> [a..<a + hash_alloc_chunk])
    else free)"
  have "fl = p # free'"
    using assms(2) by (auto simp: hash_node_alloc_def fl_def Let_def split: list.splits)
  moreover have "distinct fl \<and> set fl \<inter> used = {}"
  proof (cases "free = []")
    case True
    then show ?thesis using assms(3) by (cases blk) (fastforce simp: fl_def)+
  next
    case False
    then show ?thesis using assms(1) by (simp add: pool_ok_def fl_def)
  qed
  ultimately show ?thesis by (auto simp: pool_ok_def)
qed

lemma hash_node_free_ok:
  "pool_ok used free \<Longrightarrow> p \<in> used \<Longrightarrow> pool_ok (used - {p}) (hash_node_free p free)"
  by (auto simp: pool_ok_def hash_node_free_def)

section \<open>Properties\<close>

text \<open>A small table the witnesses use.\<close>

definition hash_example :: "(string, nat) hash_tab" where
  "hash_example = \<lparr>hcount = 1, hsize = 1, table = [[(''k'', 5)]], cmp_f = strcmp, del_f = False,
     key_f = hash_key_string\<rparr>"

lemma hash_example_inv: "hash_inv hash_example"
  by (simp add: hash_example_def hash_inv_def cmp_ok_def placed_def slot_def)

lemma hash_example_lookup: "lookup hash_example ''k'' = Some 5" "lookup hash_example ''a'' = None"
  by (simp_all add: hash_example_def lookup_def)

text \<open>C9: \<open>hash_insert\<close> on a well-formed table either stores a new key, which \<open>hash_find\<close> then returns
  while every other key keeps its datum, or leaves the table alone and reports \<open>EEXIST\<close>.\<close>

theorem hash_insert_correct:
  assumes "hash_inv h"
  shows "\<exists>r h' e'. hash_insert h (Some k) (Some v) True e = (r, h', e') \<and> hash_inv h' \<and>
    (if lookup h k = None then r = Some v \<and> e' = e \<and> hash_find h' (Some k) = (Some v, E0) \<and>
       (\<forall>k'. k' \<noteq> k \<longrightarrow> hash_find h' (Some k') = hash_find h (Some k')) \<and> hash_count h' = hash_count h + 1
     else r = None \<and> e' = EEXIST \<and> h' = h)"
proof (cases "lookup h k")
  case None
  obtain h' where h': "hash_insert h (Some k) (Some v) True e = (Some v, h', e)" "hash_inv h'"
    "lookup h' = (lookup h)(k \<mapsto> v)" by (rule hash_insert_new [OF assms None])
  have "hash_count h' = hash_count h + 1"
    using h'(1) None chain_find_lookup [OF assms, of k] by (auto simp: hash_insert_def hash_count_def Let_def)
  then show ?thesis using h' None assms by (simp add: hash_find_spec)
qed (use assms hash_insert_dup [OF assms] in simp)

theorem hash_insert_correct_witness:
  "\<exists>h' e'. hash_insert hash_example (Some ''a'') (Some 7) True E0 = (Some 7, h', e') \<and> hash_inv h' \<and>
    hash_find h' (Some ''a'') = (Some 7, E0)"
  using hash_insert_correct [OF hash_example_inv, of "''a''" 7 E0]
  unfolding hash_example_lookup(2) by (simp only: if_True simp_thms) metis

text \<open>C10: \<open>hash_remove\<close> returns the datum of the key, after which the key is absent, every other key is
  untouched, and the key can be inserted again with a new datum.\<close>

theorem hash_remove_correct:
  assumes "hash_inv h"
  shows "\<exists>h'. hash_remove h (Some k) = (fst (hash_find h (Some k)), h', E0) \<and> hash_inv h' \<and>
    hash_find h' (Some k) = (None, E0) \<and> (\<forall>k'. k' \<noteq> k \<longrightarrow> hash_find h' (Some k') = hash_find h (Some k')) \<and>
    (\<exists>h''. hash_insert h' (Some k) (Some v) True E0 = (Some v, h'', E0) \<and> hash_inv h'' \<and> lookup h'' = (lookup h)(k \<mapsto> v))"
proof -
  obtain h' where h': "hash_remove h (Some k) = (lookup h k, h', E0)" "hash_inv h'" "lookup h' = (lookup h)(k := None)"
    by (rule hash_remove_spec [OF assms])
  have "lookup h' k = None" by (simp add: h'(3))
  then obtain h'' where "hash_insert h' (Some k) (Some v) True E0 = (Some v, h'', E0)" "hash_inv h''"
    "lookup h'' = (lookup h')(k \<mapsto> v)" by (rule hash_insert_new [OF h'(2)])
  then show ?thesis using h' assms by (simp add: hash_find_spec)
qed

theorem hash_remove_correct_witness:
  "\<exists>h'. hash_remove hash_example (Some ''k'') = (Some 5, h', E0) \<and> hash_inv h' \<and> hash_find h' (Some ''k'') = (None, E0)"
  using hash_remove_correct [OF hash_example_inv, of "''k''"]
  unfolding hash_find_spec [OF hash_example_inv] hash_example_lookup(1) fst_conv by metis

text \<open>\<open>hash_delete_if\<close> removes exactly the items its callback selects and returns their number.\<close>

theorem hash_delete_if_correct:
  assumes "hash_inv h"
  shows "\<exists>h' ds. hash_delete_if h (Some (\<lambda>d k s. (g d k, s))) s e = (int (length ds), h', ds, s, e) \<and> hash_inv h' \<and>
    (\<forall>k. lookup h' k = (case lookup h k of None \<Rightarrow> None | Some d \<Rightarrow> if 0 < g d k then None else Some d)) \<and>
    hash_count h' = hash_count h - int (length ds)"
proof -
  obtain h' ds where "hash_delete_if h (Some (\<lambda>d k s. (g d k, s))) s e = (int (length ds), h', ds, s, e)"
    "hash_inv h'" "\<And>k. lookup h' k = (case lookup h k of None \<Rightarrow> None | Some d \<Rightarrow> if 0 < g d k then None else Some d)"
    "hash_count h' = hash_count h - int (length ds)" using hash_delete_if_spec [OF assms, of g s e] by blast
  then show ?thesis by (intro exI [of _ h'] exI [of _ ds] conjI allI)
qed

theorem hash_delete_if_correct_witness:
  "\<exists>h' ds. hash_delete_if hash_example (Some (\<lambda>d k s. (1, s))) () E0 = (int (length ds), h', ds, (), E0) \<and>
     lookup h' ''k'' = None"
proof -
  obtain h' ds where "hash_delete_if hash_example (Some (\<lambda>d k s. (1, s))) () E0 = (int (length ds), h', ds, (), E0)"
    "\<forall>k. lookup h' k = (case lookup hash_example k of None \<Rightarrow> None | Some d \<Rightarrow> if 0 < (1 :: int) then None else Some d)"
    using hash_delete_if_correct [OF hash_example_inv, of "\<lambda>_ _. 1" "()" E0] by blast
  then show ?thesis by (auto simp: hash_example_lookup)
qed

end
