(* ===== verification/Lsd_List.thy ===== *)
theory Lsd_List
  imports Lmt_Prelude "HOL-Library.Multiset"
begin

text \<open>
  \<open>liblsd/list.c\<close> at the level of its pointers. Nodes live in a heap from addresses to data and
  next pointer; the address of a pointer (\<open>ListNode *\<close>) is either that of the list's \<open>head\<close> or
  of a node's \<open>next\<close> field; iterators keep \<open>pos\<close> and \<open>prev\<close> as in the code, in the order of the
  \<open>iNext\<close> chain. A failing \<open>assert\<close> is \<open>None\<close>. The mutex calls and the magic numbers have no
  effect on the values and are left out; \<open>mem\<close> is the address \<open>list_alloc_aux\<close> returns, \<open>None\<close>
  when it fails. Loops over the chain carry fuel \<open>count + 1\<close>, which is proved to be enough.

  The invariant says that the chain from \<open>head\<close> is a list of distinct allocated nodes, that
  \<open>tail\<close> and \<open>count\<close> describe it, and that every iterator stands between two of its nodes;
  every operation keeps it and never fails an assertion. The locale \<open>sequence_adt\<close> is the
  interface the other components use: a list of data.
\<close>

section \<open>State\<close>

record 'd lnode =
  ndata :: 'd
  nnext :: "nat option"

datatype loc = LHead | LNext nat

record iter =
  ipos :: "nat option"
  iprev :: loc

record 'd lst =
  lheap :: "nat \<Rightarrow> 'd lnode option"
  lhead :: "nat option"
  ltail :: loc
  literators :: "(nat \<times> iter) list"
  lfdel :: bool
  lcount :: int

section \<open>Pointers\<close>

definition deref :: "'d lst \<Rightarrow> loc \<Rightarrow> nat option" where
  "deref l pp =
     (case pp of LHead \<Rightarrow> lhead l | LNext p \<Rightarrow> (case lheap l p of None \<Rightarrow> None | Some n \<Rightarrow> nnext n))"

definition assign :: "'d lst \<Rightarrow> loc \<Rightarrow> nat option \<Rightarrow> 'd lst" where
  "assign l pp v =
     (case pp of LHead \<Rightarrow> l\<lparr>lhead := v\<rparr>
      | LNext p \<Rightarrow> (case lheap l p of None \<Rightarrow> l
                    | Some n \<Rightarrow> l\<lparr>lheap := (lheap l)(p \<mapsto> n\<lparr>nnext := v\<rparr>)\<rparr>))"

text \<open>\<open>(i->pos == *i->prev) || (i->pos == (*i->prev)->next)\<close>.\<close>

definition iter_assert :: "'d lst \<Rightarrow> iter \<Rightarrow> bool" where
  "iter_assert l i \<longleftrightarrow> ipos i = deref l (iprev i) \<or>
     (case deref l (iprev i) of None \<Rightarrow> False | Some q \<Rightarrow> ipos i = deref l (LNext q))"

section \<open>Nodes\<close>

definition adjust_create :: "loc \<Rightarrow> nat \<Rightarrow> nat option \<Rightarrow> iter \<Rightarrow> iter" where
  "adjust_create pp p nxt i =
     (if iprev i = pp then i\<lparr>iprev := LNext p\<rparr>
      else if ipos i = nxt then i\<lparr>ipos := Some p\<rparr> else i)"

definition list_node_create :: "'d lst \<Rightarrow> loc \<Rightarrow> 'd \<Rightarrow> nat option \<Rightarrow> ('d option \<times> 'd lst) option" where
  "list_node_create l pp x mem =
     (case mem of None \<Rightarrow> Some (None, l)
      | Some p \<Rightarrow>
          (let nxt = deref l pp;
               l1 = l\<lparr>lheap := (lheap l)(p \<mapsto> \<lparr>ndata = x, nnext = nxt\<rparr>)\<rparr>;
               l2 = (if nxt = None then l1\<lparr>ltail := LNext p\<rparr> else l1);
               l3 = assign l2 pp (Some p);
               l4 = l3\<lparr>lcount := lcount l3 + 1,
                       literators := map (\<lambda>(a, i). (a, adjust_create pp p nxt i)) (literators l3)\<rparr>
           in if \<forall>(a, i) \<in> set (literators l4). iter_assert l4 i then Some (Some x, l4) else None))"

definition adjust_destroy :: "loc \<Rightarrow> nat \<Rightarrow> nat option \<Rightarrow> iter \<Rightarrow> iter" where
  "adjust_destroy pp p nxt i =
     (if ipos i = Some p then \<lparr>ipos = nxt, iprev = pp\<rparr>
      else if iprev i = LNext p then i\<lparr>iprev := pp\<rparr> else i)"

definition list_node_destroy :: "'d lst \<Rightarrow> loc \<Rightarrow> ('d option \<times> 'd lst) option" where
  "list_node_destroy l pp =
     (case deref l pp of None \<Rightarrow> Some (None, l)
      | Some p \<Rightarrow>
          (case lheap l p of None \<Rightarrow> None
           | Some n \<Rightarrow>
               (let nxt = nnext n;
                    l1 = assign l pp nxt;
                    l2 = (if nxt = None then l1\<lparr>ltail := pp\<rparr> else l1);
                    l3 = l2\<lparr>lcount := lcount l2 - 1,
                            literators := map (\<lambda>(a, i). (a, adjust_destroy pp p nxt i)) (literators l2)\<rparr>
                in if \<forall>(a, i) \<in> set (literators l3). iter_assert l3 i
                   then Some (Some (ndata n), l3\<lparr>lheap := (lheap l3)(p := None)\<rparr>) else None)))"

section \<open>List operations\<close>

definition list_create :: "bool \<Rightarrow> bool \<Rightarrow> 'd lst option" where
  "list_create fdel mem =
     (if \<not> mem then None
      else Some \<lparr>lheap = Map.empty, lhead = None, ltail = LHead, literators = [], lfdel = fdel,
                 lcount = 0\<rparr>)"

text \<open>Walk the chain from a pointer: the data in order; \<open>None\<close> if the fuel does not reach the end.\<close>

fun chain_data :: "nat \<Rightarrow> 'd lst \<Rightarrow> nat option \<Rightarrow> 'd list option" where
  "chain_data fuel l None = Some []"
| "chain_data 0 l (Some p) = None"
| "chain_data (Suc fuel) l (Some p) =
     (case lheap l p of None \<Rightarrow> None
      | Some n \<Rightarrow> map_option (\<lambda>ds. ndata n # ds) (chain_data fuel l (nnext n)))"

definition chain_fuel :: "'d lst \<Rightarrow> nat" where
  "chain_fuel l = Suc (nat (lcount l))"

text \<open>The data handed to the deletion function; all nodes and iterators are freed.\<close>

definition list_destroy :: "'d lst \<Rightarrow> 'd list option" where
  "list_destroy l =
     map_option (\<lambda>ds. if lfdel l then ds else []) (chain_data (chain_fuel l) l (lhead l))"

definition list_is_empty :: "'d lst \<Rightarrow> bool" where
  "list_is_empty l \<longleftrightarrow> lcount l = 0"

definition list_count :: "'d lst \<Rightarrow> int" where
  "list_count l = lcount l"

definition list_append :: "'d lst \<Rightarrow> 'd \<Rightarrow> nat option \<Rightarrow> ('d option \<times> 'd lst) option" where
  "list_append l x mem = list_node_create l (ltail l) x mem"

definition list_prepend :: "'d lst \<Rightarrow> 'd \<Rightarrow> nat option \<Rightarrow> ('d option \<times> 'd lst) option" where
  "list_prepend l x mem = list_node_create l LHead x mem"

fun find_first_loop :: "nat \<Rightarrow> 'd lst \<Rightarrow> ('d \<Rightarrow> bool) \<Rightarrow> nat option \<Rightarrow> 'd option option" where
  "find_first_loop fuel l f None = Some None"
| "find_first_loop 0 l f (Some p) = None"
| "find_first_loop (Suc fuel) l f (Some p) =
     (case lheap l p of None \<Rightarrow> None
      | Some n \<Rightarrow> if f (ndata n) then Some (Some (ndata n)) else find_first_loop fuel l f (nnext n))"

definition list_find_first :: "'d lst \<Rightarrow> ('d \<Rightarrow> bool) \<Rightarrow> 'd option option" where
  "list_find_first l f = find_first_loop (chain_fuel l) l f (lhead l)"

text \<open>The number of deletions, the deleted data, and the list.\<close>

fun delete_all_loop :: "nat \<Rightarrow> 'd lst \<Rightarrow> ('d \<Rightarrow> bool) \<Rightarrow> loc \<Rightarrow> ('d list \<times> 'd lst) option" where
  "delete_all_loop 0 l f pp = None"
| "delete_all_loop (Suc fuel) l f pp =
     (case deref l pp of None \<Rightarrow> Some ([], l)
      | Some p \<Rightarrow>
          (case lheap l p of None \<Rightarrow> None
           | Some n \<Rightarrow>
               if f (ndata n) then
                 (case list_node_destroy l pp of None \<Rightarrow> None
                  | Some (None, l') \<Rightarrow> delete_all_loop fuel l' f pp
                  | Some (Some v, l') \<Rightarrow>
                      map_option (\<lambda>(vs, l''). (v # vs, l'')) (delete_all_loop fuel l' f pp))
               else delete_all_loop fuel l f (LNext p)))"

definition list_delete_all :: "'d lst \<Rightarrow> ('d \<Rightarrow> bool) \<Rightarrow> (int \<times> 'd list \<times> 'd lst) option" where
  "list_delete_all l f =
     map_option (\<lambda>(vs, l'). (int (length vs), if lfdel l then vs else [], l'))
       (delete_all_loop (chain_fuel l) l f LHead)"

text \<open>The callback threads the caller's argument.\<close>

fun for_each_loop :: "nat \<Rightarrow> 'd lst \<Rightarrow> ('d \<Rightarrow> 's \<Rightarrow> int \<times> 's) \<Rightarrow> nat option \<Rightarrow> int \<Rightarrow> 's \<Rightarrow> (int \<times> 's) option" where
  "for_each_loop fuel l f None n s = Some (n, s)"
| "for_each_loop 0 l f (Some p) n s = None"
| "for_each_loop (Suc fuel) l f (Some p) n s =
     (case lheap l p of None \<Rightarrow> None
      | Some nd \<Rightarrow>
          (case f (ndata nd) s of (r, s') \<Rightarrow>
             if r < 0 then Some (- (n + 1), s') else for_each_loop fuel l f (nnext nd) (n + 1) s'))"

definition list_for_each :: "'d lst \<Rightarrow> ('d \<Rightarrow> 's \<Rightarrow> int \<times> 's) \<Rightarrow> 's \<Rightarrow> (int \<times> 's) option" where
  "list_for_each l f s = for_each_loop (chain_fuel l) l f (lhead l) 0 s"

definition list_push :: "'d lst \<Rightarrow> 'd \<Rightarrow> nat option \<Rightarrow> ('d option \<times> 'd lst) option" where
  "list_push l x mem = list_node_create l LHead x mem"

definition list_pop :: "'d lst \<Rightarrow> ('d option \<times> 'd lst) option" where
  "list_pop l = list_node_destroy l LHead"

definition list_peek :: "'d lst \<Rightarrow> 'd option" where
  "list_peek l =
     (case lhead l of None \<Rightarrow> None | Some p \<Rightarrow> (case lheap l p of None \<Rightarrow> None | Some n \<Rightarrow> Some (ndata n)))"

definition list_enqueue :: "'d lst \<Rightarrow> 'd \<Rightarrow> nat option \<Rightarrow> ('d option \<times> 'd lst) option" where
  "list_enqueue l x mem = list_node_create l (ltail l) x mem"

definition list_dequeue :: "'d lst \<Rightarrow> ('d option \<times> 'd lst) option" where
  "list_dequeue l = list_node_destroy l LHead"

section \<open>Iterators\<close>

text \<open>An iterator is named by its address; \<open>None\<close> stands for a failed allocation.\<close>

definition list_iterator_create :: "'d lst \<Rightarrow> nat option \<Rightarrow> nat option \<times> 'd lst" where
  "list_iterator_create l mem =
     (case mem of None \<Rightarrow> (None, l)
      | Some a \<Rightarrow> (Some a, l\<lparr>literators := (a, \<lparr>ipos = lhead l, iprev = LHead\<rparr>) # literators l\<rparr>))"

definition get_iter :: "'d lst \<Rightarrow> nat \<Rightarrow> iter option" where
  "get_iter l a = map_of (literators l) a"

definition set_iter :: "'d lst \<Rightarrow> nat \<Rightarrow> iter \<Rightarrow> 'd lst" where
  "set_iter l a i = l\<lparr>literators := map (\<lambda>(b, j). if b = a then (b, i) else (b, j)) (literators l)\<rparr>"

definition list_iterator_reset :: "'d lst \<Rightarrow> nat \<Rightarrow> 'd lst" where
  "list_iterator_reset l a = set_iter l a \<lparr>ipos = lhead l, iprev = LHead\<rparr>"

fun unlink_iter :: "nat \<Rightarrow> (nat \<times> iter) list \<Rightarrow> (nat \<times> iter) list" where
  "unlink_iter a [] = []"
| "unlink_iter a ((b, i) # is) = (if b = a then is else (b, i) # unlink_iter a is)"

definition list_iterator_destroy :: "'d lst \<Rightarrow> nat \<Rightarrow> 'd lst" where
  "list_iterator_destroy l a = l\<lparr>literators := unlink_iter a (literators l)\<rparr>"

definition list_next :: "'d lst \<Rightarrow> nat \<Rightarrow> ('d option \<times> 'd lst) option" where
  "list_next l a =
     (case get_iter l a of None \<Rightarrow> None
      | Some i \<Rightarrow>
          (let p = ipos i;
               i1 = (case p of None \<Rightarrow> i | Some q \<Rightarrow> i\<lparr>ipos := deref l (LNext q)\<rparr>)
           in case (if deref l (iprev i) \<noteq> p
                    then (case deref l (iprev i) of None \<Rightarrow> None | Some q \<Rightarrow> Some (i1\<lparr>iprev := LNext q\<rparr>))
                    else Some i1) of
                None \<Rightarrow> None
              | Some i2 \<Rightarrow>
                  (case p of None \<Rightarrow> Some (None, set_iter l a i2)
                   | Some q \<Rightarrow> (case lheap l q of None \<Rightarrow> None
                                | Some n \<Rightarrow> Some (Some (ndata n), set_iter l a i2)))))"

definition list_insert :: "'d lst \<Rightarrow> nat \<Rightarrow> 'd \<Rightarrow> nat option \<Rightarrow> ('d option \<times> 'd lst) option" where
  "list_insert l a x mem =
     (case get_iter l a of None \<Rightarrow> None | Some i \<Rightarrow> list_node_create l (iprev i) x mem)"

fun list_find_loop :: "nat \<Rightarrow> 'd lst \<Rightarrow> nat \<Rightarrow> ('d \<Rightarrow> bool) \<Rightarrow> ('d option \<times> 'd lst) option" where
  "list_find_loop 0 l a f = None"
| "list_find_loop (Suc fuel) l a f =
     (case list_next l a of None \<Rightarrow> None
      | Some (None, l') \<Rightarrow> Some (None, l')
      | Some (Some v, l') \<Rightarrow> if f v then Some (Some v, l') else list_find_loop fuel l' a f)"

definition list_find :: "'d lst \<Rightarrow> nat \<Rightarrow> ('d \<Rightarrow> bool) \<Rightarrow> ('d option \<times> 'd lst) option" where
  "list_find l a f = list_find_loop (chain_fuel l) l a f"

definition list_remove :: "'d lst \<Rightarrow> nat \<Rightarrow> ('d option \<times> 'd lst) option" where
  "list_remove l a =
     (case get_iter l a of None \<Rightarrow> None
      | Some i \<Rightarrow> if deref l (iprev i) \<noteq> ipos i then list_node_destroy l (iprev i) else Some (None, l))"

text \<open>The return value and the data handed to the deletion function.\<close>

definition list_delete :: "'d lst \<Rightarrow> nat \<Rightarrow> (int \<times> 'd list \<times> 'd lst) option" where
  "list_delete l a =
     (case list_remove l a of None \<Rightarrow> None
      | Some (None, l') \<Rightarrow> Some (0, [], l')
      | Some (Some v, l') \<Rightarrow> Some (1, if lfdel l then [v] else [], l'))"

section \<open>Sorting\<close>

text \<open>\<open>while (f ((*pp)->data, (*ppPos)->data) >= 0) ppPos = &(*ppPos)->next;\<close>\<close>

fun sort_pos :: "nat \<Rightarrow> 'd lst \<Rightarrow> ('d \<Rightarrow> 'd \<Rightarrow> int) \<Rightarrow> 'd \<Rightarrow> loc \<Rightarrow> loc option" where
  "sort_pos 0 l f d pos = None"
| "sort_pos (Suc fuel) l f d pos =
     (case deref l pos of None \<Rightarrow> None
      | Some q \<Rightarrow>
          (case lheap l q of None \<Rightarrow> None
           | Some n \<Rightarrow> if f d (ndata n) \<ge> 0 then sort_pos fuel l f d (LNext q) else Some pos))"

text \<open>The four assignments that move the node \<open>*pp\<close> to \<open>*ppPos\<close>.\<close>

definition sort_move :: "'d lst \<Rightarrow> loc \<Rightarrow> loc \<Rightarrow> nat \<Rightarrow> 'd lst" where
  "sort_move l pp pos q =
     (let tmp = deref l (LNext q);
          l1 = assign l (LNext q) (deref l pos);
          l2 = assign l1 pos (Some q)
      in assign l2 pp tmp)"

fun sort_loop :: "nat \<Rightarrow> 'd lst \<Rightarrow> ('d \<Rightarrow> 'd \<Rightarrow> int) \<Rightarrow> loc \<Rightarrow> loc \<Rightarrow> ('d lst \<times> loc) option" where
  "sort_loop 0 l f prev pp = None"
| "sort_loop (Suc fuel) l f prev pp =
     (case deref l pp of None \<Rightarrow> Some (l, pp)
      | Some q \<Rightarrow>
          (case (lheap l q, Option.bind (deref l prev) (lheap l)) of
             (Some nq, Some nr) \<Rightarrow>
               if f (ndata nq) (ndata nr) < 0 then
                 (case sort_pos (chain_fuel l) l f (ndata nq) LHead of None \<Rightarrow> None
                  | Some pos \<Rightarrow>
                      (let l' = sort_move l pp pos q
                       in case (if prev = pos then map_option LNext (deref l' prev) else Some prev) of
                            None \<Rightarrow> None
                          | Some prev' \<Rightarrow> sort_loop fuel l' f prev' pp))
               else sort_loop fuel l f pp (LNext q)
           | _ \<Rightarrow> None))"

definition list_sort :: "'d lst \<Rightarrow> ('d \<Rightarrow> 'd \<Rightarrow> int) \<Rightarrow> 'd lst option" where
  "list_sort l f =
     (if lcount l > 1 then
        (case lhead l of None \<Rightarrow> None
         | Some h \<Rightarrow>
             (case sort_loop (chain_fuel l) l f LHead (LNext h) of None \<Rightarrow> None
              | Some (l', pp) \<Rightarrow>
                  Some (l'\<lparr>ltail := pp,
                           literators := map (\<lambda>(a, i). (a, \<lparr>ipos = lhead l', iprev = LHead\<rparr>))
                             (literators l')\<rparr>)))
      else Some l)"

section \<open>Chains\<close>

primrec chain :: "(nat \<Rightarrow> 'd lnode option) \<Rightarrow> nat option \<Rightarrow> nat list \<Rightarrow> nat option \<Rightarrow> bool" where
  "chain h a [] b \<longleftrightarrow> a = b"
| "chain h a (p # ps) b \<longleftrightarrow> a = Some p \<and> (\<exists>n. h p = Some n \<and> chain h (nnext n) ps b)"

definition hdo :: "'a list \<Rightarrow> 'a option" where
  "hdo xs = (case xs of [] \<Rightarrow> None | x # _ \<Rightarrow> Some x)"

definition loc_of :: "nat list \<Rightarrow> loc" where
  "loc_of xs = (if xs = [] then LHead else LNext (last xs))"

lemma hdo_simps [simp]: "hdo [] = None" "hdo (x # xs) = Some x"
  by (simp_all add: hdo_def)

lemma hdo_append [simp]: "xs \<noteq> [] \<Longrightarrow> hdo (xs @ ys) = hdo xs"
  by (cases xs) auto

lemma hdo_eq_None [simp]: "hdo xs = None \<longleftrightarrow> xs = []"
  by (cases xs) auto

lemma hdo_eq_Some: "hdo xs = Some x \<longleftrightarrow> (\<exists>ys. xs = x # ys)"
  by (cases xs) auto

lemma loc_of_simps [simp]: "loc_of [] = LHead" "loc_of (xs @ [p]) = LNext p" "loc_of [p] = LNext p"
  by (simp_all add: loc_of_def)

lemma loc_of_mid [simp]: "ws \<noteq> [] \<Longrightarrow> loc_of (xs @ ws) = loc_of ws" "ws \<noteq> [] \<Longrightarrow> loc_of (p # ws) = loc_of ws"
  by (simp_all add: loc_of_def)

lemma loc_of_inj:
  assumes "distinct (xs @ ys)" "xs @ ys = xs' @ ys'" "loc_of xs = loc_of xs'"
  shows "xs = xs'"
proof (cases xs rule: rev_cases)
  case Nil
  with assms(3) show ?thesis by (cases xs' rule: rev_cases) auto
next
  case (snoc us u)
  with assms(3) obtain us' where us': "xs' = us' @ [u]"
    by (cases xs' rule: rev_cases) auto
  have "us @ u # ys = us' @ u # ys'" using assms(2) snoc us' by simp
  moreover have "u \<notin> set us" "u \<notin> set ys" using assms(1) snoc by auto
  ultimately have "us = us'" by (simp add: append_Cons_eq_iff)
  then show ?thesis using snoc us' by simp
qed

lemma chain_append: "chain h a (xs @ ys) b \<longleftrightarrow> (\<exists>m. chain h a xs m \<and> chain h m ys b)"
  by (induction xs arbitrary: a) auto

lemma chain_frame [simp]: "p \<notin> set ps \<Longrightarrow> chain (h(p := v)) a ps b = chain h a ps b"
  by (induction ps arbitrary: a) auto

lemma chain_hdo: "chain h a ps None \<Longrightarrow> a = hdo ps"
  by (cases ps) auto

lemma chain_alloc: "chain h a ps b \<Longrightarrow> set ps \<subseteq> dom h"
  by (induction ps arbitrary: a) auto

lemma chain_last_upd:
  assumes "chain h a (xs @ [q]) m" "q \<notin> set xs" "h q = Some n"
  shows "chain (h(q \<mapsto> n\<lparr>nnext := m'\<rparr>)) a (xs @ [q]) m'"
  using assms by (auto simp: chain_append)

section \<open>Invariant\<close>

definition iter_rep :: "nat list \<Rightarrow> iter \<Rightarrow> bool" where
  "iter_rep ps i \<longleftrightarrow> (\<exists>xs ys. ps = xs @ ys \<and> iprev i = loc_of xs \<and>
     (ipos i = hdo ys \<or> ys \<noteq> [] \<and> ipos i = hdo (tl ys)))"

definition list_rep :: "'d lst \<Rightarrow> nat list \<Rightarrow> bool" where
  "list_rep l ps \<longleftrightarrow> chain (lheap l) (lhead l) ps None \<and> distinct ps \<and> dom (lheap l) = set ps \<and>
     ltail l = loc_of ps \<and> lcount l = int (length ps) \<and> distinct (map fst (literators l)) \<and>
     (\<forall>(a, i) \<in> set (literators l). iter_rep ps i)"

definition node_data :: "'d lst \<Rightarrow> nat \<Rightarrow> 'd" where
  "node_data l p = ndata (the (lheap l p))"

text \<open>The abstract value of a list: its data from \<open>head\<close> on.\<close>

definition elems :: "'d lst \<Rightarrow> 'd list option" where
  "elems l = chain_data (chain_fuel l) l (lhead l)"

definition list_inv :: "'d lst \<Rightarrow> bool" where
  "list_inv l \<longleftrightarrow> (\<exists>ps. list_rep l ps)"

lemma list_repD:
  assumes "list_rep l ps"
  shows "chain (lheap l) (lhead l) ps None" "distinct ps" "dom (lheap l) = set ps"
    "ltail l = loc_of ps" "lcount l = int (length ps)" "distinct (map fst (literators l))"
    "(a, i) \<in> set (literators l) \<Longrightarrow> iter_rep ps i" "lhead l = hdo ps"
  using assms chain_hdo by (auto simp: list_rep_def)

lemma chain_data_eq:
  "chain (lheap l) a ps None \<Longrightarrow> length ps \<le> fuel \<Longrightarrow> chain_data fuel l a = Some (map (node_data l) ps)"
proof (induction ps arbitrary: a fuel)
  case Nil
  then show ?case by simp
next
  case (Cons p ps)
  then show ?case by (cases fuel) (auto simp: node_data_def)
qed

lemma chain_fuel_rep: "list_rep l ps \<Longrightarrow> chain_fuel l = Suc (length ps)"
  by (simp add: chain_fuel_def list_repD(5))

lemma elems_rep: "list_rep l ps \<Longrightarrow> elems l = Some (map (node_data l) ps)"
  unfolding elems_def by (rule chain_data_eq) (simp_all add: list_repD(1) chain_fuel_rep)

lemma deref_loc_of:
  assumes "chain (lheap l) (lhead l) (xs @ ys) None"
  shows "deref l (loc_of xs) = hdo ys"
proof (cases xs rule: rev_cases)
  case Nil
  then show ?thesis using chain_hdo [OF assms] by (simp add: deref_def)
next
  case (snoc us u)
  with assms obtain n where "lheap l u = Some n" "chain (lheap l) (nnext n) ys None"
    by (auto simp: chain_append)
  then show ?thesis using snoc by (simp add: deref_def chain_hdo)
qed

lemma iter_rep_assert:
  assumes "chain (lheap l) (lhead l) ps None" "iter_rep ps i"
  shows "iter_assert l i"
proof -
  obtain xs ys where s: "ps = xs @ ys" "iprev i = loc_of xs"
    "ipos i = hdo ys \<or> ys \<noteq> [] \<and> ipos i = hdo (tl ys)"
    using assms(2) by (auto simp: iter_rep_def)
  have d: "deref l (iprev i) = hdo ys" using deref_loc_of assms(1) s by auto
  show ?thesis
  proof (cases "ipos i = hdo ys")
    case True
    then show ?thesis using d by (simp add: iter_assert_def)
  next
    case False
    with s obtain z zs where z: "ys = z # zs" "ipos i = hdo zs" by (cases ys) auto
    then have "deref l (LNext z) = hdo zs"
      using deref_loc_of [of l "xs @ [z]" zs] assms(1) s(1) by simp
    then show ?thesis using d z by (simp add: iter_assert_def)
  qed
qed

section \<open>Node creation\<close>

lemma iter_rep_create:
  assumes d: "distinct (xs @ ys)" and i: "iter_rep (xs @ ys) i"
  shows "iter_rep (xs @ p # ys) (adjust_create (loc_of xs) p (hdo ys) i)"
proof -
  obtain us vs where s: "xs @ ys = us @ vs" "iprev i = loc_of us"
    "ipos i = hdo vs \<or> vs \<noteq> [] \<and> ipos i = hdo (tl vs)"
    using i by (auto simp: iter_rep_def)
  consider "us = xs" "vs = ys" | zs where "xs = us @ zs" "vs = zs @ ys" "zs \<noteq> []"
    | ws where "us = xs @ ws" "ys = ws @ vs" "ws \<noteq> []"
    using s(1) by (auto simp: append_eq_append_conv2)
  then show ?thesis
  proof cases
    case 1
    then show ?thesis using s
      unfolding iter_rep_def adjust_create_def by (intro exI [of _ "xs @ [p]"] exI [of _ ys]) auto
  next
    case 2
    have ne: "iprev i \<noteq> loc_of xs"
      using loc_of_inj [of us vs xs ys] d s 2 by auto
    show ?thesis
    proof (cases "ipos i = hdo ys")
      case True
      then have "length zs = 1"
      proof -
        have "ipos i \<noteq> hdo vs"
          using True 2 d by (cases zs; cases ys) auto
        with s(3) have "hdo (tl vs) = hdo ys" using True by simp
        then show ?thesis using 2 d by (cases zs; cases "tl zs"; cases ys) auto
      qed
      then obtain z where "zs = [z]" by (auto simp: length_Suc_conv)
      with True ne 2 s(2) show ?thesis
        unfolding iter_rep_def adjust_create_def
        by (intro exI [of _ us] exI [of _ "z # p # ys"]) simp
    next
      case False
      have "ipos i = hdo (zs @ p # ys) \<or> ipos i = hdo (tl (zs @ p # ys))"
        using s(3) 2 False by (cases zs; cases "tl zs") auto
      with False ne 2 s(2) show ?thesis
        unfolding iter_rep_def adjust_create_def
        by (intro exI [of _ us] exI [of _ "zs @ p # ys"]) auto
    qed
  next
    case 3
    have ne: "iprev i \<noteq> loc_of xs"
      using loc_of_inj [of us vs xs ys] d s 3 by auto
    have np: "ipos i \<noteq> hdo ys"
      using s(3) 3 d by (cases ws; cases vs; cases "tl vs") auto
    show ?thesis using ne np 3 s(2,3)
      unfolding iter_rep_def adjust_create_def
      by (intro exI [of _ "xs @ p # ws"] exI [of _ vs]) auto
  qed
qed

lemma assign_loc_of:
  assumes "chain (lheap l) (lhead l) (xs @ ys) None" "distinct (xs @ ys)"
  shows "chain (lheap (assign l (loc_of xs) v)) (lhead (assign l (loc_of xs) v)) xs v"
    and "chain (lheap l) a ys b \<Longrightarrow> chain (lheap (assign l (loc_of xs) v)) a ys b"
    and "ltail (assign l (loc_of xs) v) = ltail l" "lcount (assign l (loc_of xs) v) = lcount l"
    and "literators (assign l (loc_of xs) v) = literators l" "lfdel (assign l (loc_of xs) v) = lfdel l"
    and "dom (lheap (assign l (loc_of xs) v)) = dom (lheap l)"
    and "node_data (assign l (loc_of xs) v) = node_data l"
    and "p \<notin> set xs \<Longrightarrow> lheap (assign l (loc_of xs) v) p = lheap l p"
proof -
  have "chain (lheap (assign l (loc_of xs) v)) (lhead (assign l (loc_of xs) v)) xs v \<and>
    (chain (lheap l) a ys b \<longrightarrow> chain (lheap (assign l (loc_of xs) v)) a ys b) \<and>
    ltail (assign l (loc_of xs) v) = ltail l \<and> lcount (assign l (loc_of xs) v) = lcount l \<and>
    literators (assign l (loc_of xs) v) = literators l \<and> lfdel (assign l (loc_of xs) v) = lfdel l \<and>
    dom (lheap (assign l (loc_of xs) v)) = dom (lheap l) \<and>
    node_data (assign l (loc_of xs) v) = node_data l \<and>
    (p \<notin> set xs \<longrightarrow> lheap (assign l (loc_of xs) v) p = lheap l p)"
  proof (cases xs rule: rev_cases)
    case Nil
    then show ?thesis by (simp add: assign_def node_data_def fun_eq_iff)
  next
    case (snoc us u)
    with assms(1) obtain n m where n: "lheap l u = Some n" and c: "chain (lheap l) (lhead l) (us @ [u]) m"
      by (auto simp: chain_append)
    have "u \<notin> set us" "u \<notin> set ys" using assms(2) snoc by auto
    then show ?thesis using chain_last_upd [OF c _ n, of v] n snoc
      by (auto simp: assign_def node_data_def fun_eq_iff)
  qed
  then show "chain (lheap (assign l (loc_of xs) v)) (lhead (assign l (loc_of xs) v)) xs v"
    and "chain (lheap l) a ys b \<Longrightarrow> chain (lheap (assign l (loc_of xs) v)) a ys b"
    and "ltail (assign l (loc_of xs) v) = ltail l" "lcount (assign l (loc_of xs) v) = lcount l"
    and "literators (assign l (loc_of xs) v) = literators l" "lfdel (assign l (loc_of xs) v) = lfdel l"
    and "dom (lheap (assign l (loc_of xs) v)) = dom (lheap l)"
    and "node_data (assign l (loc_of xs) v) = node_data l"
    and "p \<notin> set xs \<Longrightarrow> lheap (assign l (loc_of xs) v) p = lheap l p"
    by blast+
qed

text \<open>Creating a node at \<open>*pp\<close> inserts it there; no assertion fails.\<close>

lemma list_node_create_rep:
  assumes rep: "list_rep l (xs @ ys)" and fresh: "lheap l p = None"
  obtains l' where "list_node_create l (loc_of xs) x (Some p) = Some (Some x, l')"
    "list_rep l' (xs @ p # ys)"
    "map (node_data l') (xs @ p # ys) = map (node_data l) xs @ x # map (node_data l) ys"
    "lfdel l' = lfdel l"
    "literators l' = map (\<lambda>(a, i). (a, adjust_create (loc_of xs) p (hdo ys) i)) (literators l)"
proof -
  note c = list_repD(1) [OF rep] and dist = list_repD(2) [OF rep] and dm = list_repD(3) [OF rep]
  have np: "p \<notin> set (xs @ ys)" using fresh dm by (metis domIff)
  have d: "deref l (loc_of xs) = hdo ys" by (rule deref_loc_of [OF c])
  define l1 where "l1 = l\<lparr>lheap := (lheap l)(p \<mapsto> \<lparr>ndata = x, nnext = hdo ys\<rparr>)\<rparr>"
  define l2 where "l2 = (if hdo ys = None then l1\<lparr>ltail := LNext p\<rparr> else l1)"
  define l3 where "l3 = assign l2 (loc_of xs) (Some p)"
  define its where "its = map (\<lambda>(a, i). (a, adjust_create (loc_of xs) p (hdo ys) i)) (literators l3)"
  define l4 where "l4 = l3\<lparr>lcount := lcount l3 + 1, literators := its\<rparr>"
  have l2: "lheap l2 = (lheap l)(p \<mapsto> \<lparr>ndata = x, nnext = hdo ys\<rparr>)" "lhead l2 = lhead l"
    "lcount l2 = lcount l" "literators l2 = literators l" "lfdel l2 = lfdel l"
    "ltail l2 = (if ys = [] then LNext p else loc_of (xs @ ys))"
    using list_repD(4) [OF rep] by (simp_all add: l2_def l1_def)
  have c2: "chain (lheap l2) (lhead l2) (xs @ ys) None" using c np l2 by simp
  note as = assign_loc_of [OF c2 dist, where v = "Some p", folded l3_def]
  have its: "its = map (\<lambda>(a, i). (a, adjust_create (loc_of xs) p (hdo ys) i)) (literators l)"
    using as(5) l2(4) by (simp add: its_def)
  have ys2: "chain (lheap l2) (hdo ys) ys None"
    using c2 chain_hdo by (metis chain_append)
  have c4: "chain (lheap l4) (lhead l4) (xs @ p # ys) None"
    using as(1) as(2) [OF ys2] as(9) [of p] np l2(1) by (auto simp: l4_def chain_append)
  have dm4: "dom (lheap l4) = set (xs @ p # ys)" using as(7) dm l2(1) by (auto simp: l4_def)
  have it4: "\<forall>(a, i) \<in> set its. iter_rep (xs @ p # ys) i"
    using list_repD(7) [OF rep] iter_rep_create [OF dist] by (fastforce simp: its)
  have fst4: "map fst its = map fst (literators l)"
    by (auto simp: its)
  have tl4: "ltail l4 = loc_of (xs @ p # ys)" using as(3) l2(6) by (simp add: l4_def)
  have rep4: "list_rep l4 (xs @ p # ys)"
    unfolding list_rep_def
    using c4 dist np dm4 tl4 it4 fst4 as(4) l2(3) list_repD(5,6) [OF rep]
    by (auto simp: l4_def)
  have ok: "\<forall>(a, i) \<in> set (literators l4). iter_assert l4 i"
    using it4 iter_rep_assert [OF c4] by (auto simp: l4_def)
  have "list_node_create l (loc_of xs) x (Some p) =
    (if \<forall>(a, i) \<in> set (literators l4). iter_assert l4 i then Some (Some x, l4) else None)"
    by (simp only: list_node_create_def option.case Let_def d l4_def its_def l3_def l2_def l1_def)
  then have "list_node_create l (loc_of xs) x (Some p) = Some (Some x, l4)"
    unfolding if_P [OF ok] .
  moreover have "map (node_data l4) (xs @ p # ys) = map (node_data l) xs @ x # map (node_data l) ys"
  proof -
    have nd: "node_data l4 q = (if q = p then x else node_data l q)" for q
      using as(8) l2(1) by (simp add: l4_def node_data_def fun_eq_iff)
    then show ?thesis using np by auto
  qed
  moreover have "lfdel l4 = lfdel l" "literators l4 = its" using as(6) l2(5) by (simp_all add: l4_def)
  ultimately show thesis using that rep4 by (simp add: its)
qed

section \<open>Node destruction\<close>

lemma iter_rep_destroy:
  assumes d: "distinct (xs @ p # ys)" and i: "iter_rep (xs @ p # ys) i"
  shows "iter_rep (xs @ ys) (adjust_destroy (loc_of xs) p (hdo ys) i)"
proof (cases "ipos i = Some p")
  case True
  then show ?thesis
    unfolding iter_rep_def adjust_destroy_def by (intro exI [of _ xs] exI [of _ ys]) simp
next
  case pos: False
  obtain us vs where s: "xs @ p # ys = us @ vs" "iprev i = loc_of us"
    "ipos i = hdo vs \<or> vs \<noteq> [] \<and> ipos i = hdo (tl vs)"
    using i by (auto simp: iter_rep_def)
  consider zs where "xs = us @ zs" "vs = zs @ p # ys"
    | ws where "us = xs @ p # ws" "ys = ws @ vs"
    using s(1) by (auto simp: append_eq_append_conv2 Cons_eq_append_conv)
  then show ?thesis
  proof cases
    case 1
    have ne: "iprev i \<noteq> LNext p"
      using loc_of_inj [of us vs "xs @ [p]" ys] d s 1 by auto
    have "ipos i = hdo (zs @ ys) \<or> zs @ ys \<noteq> [] \<and> ipos i = hdo (tl (zs @ ys))"
      using s(3) 1 pos by (cases zs; cases "tl zs") auto
    with ne pos 1 s(2) show ?thesis
      unfolding iter_rep_def adjust_destroy_def by (intro exI [of _ us] exI [of _ "zs @ ys"]) simp
  next
    case 2
    show ?thesis
    proof (cases "ws = []")
      case True
      then show ?thesis using pos 2 s(2,3)
        unfolding iter_rep_def adjust_destroy_def by (intro exI [of _ xs] exI [of _ ys]) auto
    next
      case False
      have "iprev i \<noteq> LNext p"
        using s(2) 2 False d by (cases ws rule: rev_cases) auto
      with pos 2 False s(2,3) show ?thesis
        unfolding iter_rep_def adjust_destroy_def by (intro exI [of _ "xs @ ws"] exI [of _ vs]) auto
    qed
  qed
qed

lemma list_node_destroy_rep:
  assumes rep: "list_rep l (xs @ p # ys)"
  obtains l' where "list_node_destroy l (loc_of xs) = Some (Some (node_data l p), l')"
    "list_rep l' (xs @ ys)" "map (node_data l') (xs @ ys) = map (node_data l) (xs @ ys)"
    "lfdel l' = lfdel l"
    "literators l' = map (\<lambda>(a, i). (a, adjust_destroy (loc_of xs) p (hdo ys) i)) (literators l)"
proof -
  note c = list_repD(1) [OF rep] and dist = list_repD(2) [OF rep] and dm = list_repD(3) [OF rep]
  have d: "deref l (loc_of xs) = Some p" using deref_loc_of [OF c] by simp
  obtain n where n: "lheap l p = Some n" "nnext n = hdo ys" "chain (lheap l) (hdo ys) ys None"
    using c chain_hdo by (fastforce simp: chain_append)
  define l1 where "l1 = assign l (loc_of xs) (hdo ys)"
  define l2 where "l2 = (if hdo ys = None then l1\<lparr>ltail := loc_of xs\<rparr> else l1)"
  define its where "its = map (\<lambda>(a, i). (a, adjust_destroy (loc_of xs) p (hdo ys) i)) (literators l2)"
  define l3 where "l3 = l2\<lparr>lcount := lcount l2 - 1, literators := its\<rparr>"
  define l4 where "l4 = l3\<lparr>lheap := (lheap l3)(p := None)\<rparr>"
  note as = assign_loc_of [OF c dist, where v = "hdo ys", folded l1_def]
  have its: "its = map (\<lambda>(a, i). (a, adjust_destroy (loc_of xs) p (hdo ys) i)) (literators l)"
    using as(5) by (simp add: its_def l2_def)
  have l3: "lheap l3 = lheap l1" "lhead l3 = lhead l1" "lcount l3 = lcount l - 1" "literators l3 = its"
    "lfdel l3 = lfdel l" "ltail l3 = loc_of (xs @ ys)"
    using as list_repD(4) [OF rep] by (auto simp: l3_def l2_def)
  have "chain (lheap l) (Some p) (p # ys) None" using n by simp
  from as(2) [OF this] have "chain (lheap l3) (hdo ys) ys None"
    using chain_hdo l3 by fastforce
  then have c3: "chain (lheap l3) (lhead l3) (xs @ ys) None"
    using as(1) l3 by (auto simp: chain_append)
  have c4: "chain (lheap l4) (lhead l4) (xs @ ys) None"
    using c3 dist by (simp add: l4_def)
  have it4: "\<forall>(a, i) \<in> set its. iter_rep (xs @ ys) i"
    using list_repD(7) [OF rep] iter_rep_destroy [OF dist] by (fastforce simp: its)
  have fst4: "map fst its = map fst (literators l)" by (auto simp: its)
  have rep4: "list_rep l4 (xs @ ys)"
    unfolding list_rep_def
    using c4 dist it4 fst4 as(7) dm l3 list_repD(5,6) [OF rep] by (auto simp: l4_def)
  have ok: "\<forall>(a, i) \<in> set (literators l3). iter_assert l3 i"
    using it4 iter_rep_assert [OF c3] l3(4) by auto
  have "list_node_destroy l (loc_of xs) =
    (if \<forall>(a, i) \<in> set (literators l3). iter_assert l3 i then Some (Some (ndata n), l4) else None)"
    by (simp only: list_node_destroy_def option.case Let_def d n(1,2) l4_def l3_def its_def l2_def l1_def)
  then have "list_node_destroy l (loc_of xs) = Some (Some (node_data l p), l4)"
    unfolding if_P [OF ok] node_data_def n(1) option.sel .
  moreover have "map (node_data l4) (xs @ ys) = map (node_data l) (xs @ ys)"
  proof -
    have "\<forall>q. q \<noteq> p \<longrightarrow> node_data l4 q = node_data l q"
      using as(8) l3(1) by (simp add: l4_def node_data_def fun_eq_iff)
    then show ?thesis using dist by (intro map_cong) auto
  qed
  moreover have "lfdel l4 = lfdel l" "literators l4 = its" using l3 by (simp_all add: l4_def)
  ultimately show thesis using that rep4 by (simp add: its)
qed

section \<open>Operations on the abstract list\<close>

text \<open>\<open>elems_ok l xs\<close>: the list is well formed and holds the data \<open>xs\<close> in this order.\<close>

definition elems_ok :: "'d lst \<Rightarrow> 'd list \<Rightarrow> bool" where
  "elems_ok l xs \<longleftrightarrow> list_inv l \<and> elems l = Some xs"

lemma elems_ok_rep: "elems_ok l xs \<longleftrightarrow> (\<exists>ps. list_rep l ps \<and> xs = map (node_data l) ps)"
  by (auto simp: elems_ok_def list_inv_def elems_rep)

lemma elems_okI: "list_rep l ps \<Longrightarrow> xs = map (node_data l) ps \<Longrightarrow> elems_ok l xs"
  by (auto simp: elems_ok_rep)

lemma elems_ok_inj: "elems_ok l xs \<Longrightarrow> elems_ok l ys \<Longrightarrow> xs = ys"
  by (simp add: elems_ok_def)

lemma list_create_ok: "list_create fdel True = Some l \<Longrightarrow> elems_ok l [] \<and> lfdel l = fdel"
  by (auto simp: list_create_def elems_ok_def list_inv_def list_rep_def elems_def chain_fuel_def)

lemma list_append_ok:
  assumes "elems_ok l xs" "lheap l p = None"
  shows "\<exists>l'. list_append l x (Some p) = Some (Some x, l') \<and> elems_ok l' (xs @ [x]) \<and> lfdel l' = lfdel l"
proof -
  obtain ps where ps: "list_rep l ps" "xs = map (node_data l) ps" using assms by (auto simp: elems_ok_rep)
  then have "list_rep l (ps @ [])" by simp
  from list_node_create_rep [OF this assms(2), of x] ps list_repD(4) [OF ps(1)]
  show ?thesis unfolding list_append_def by (metis append_Nil2 list.simps(8) elems_okI)
qed

lemma list_prepend_ok:
  assumes "elems_ok l xs" "lheap l p = None"
  shows "\<exists>l'. list_prepend l x (Some p) = Some (Some x, l') \<and> elems_ok l' (x # xs) \<and> lfdel l' = lfdel l"
proof -
  obtain ps where ps: "list_rep l ps" "xs = map (node_data l) ps" using assms by (auto simp: elems_ok_rep)
  then have "list_rep l ([] @ ps)" by simp
  from list_node_create_rep [OF this assms(2), of x] ps
  show ?thesis unfolding list_prepend_def by (metis append_Nil loc_of_simps(1) list.simps(8) elems_okI)
qed

lemma list_pop_ok:
  assumes "elems_ok l xs"
  shows "\<exists>l'. list_pop l = Some (hdo xs, l') \<and> elems_ok l' (tl xs) \<and> lfdel l' = lfdel l"
proof -
  obtain ps where ps: "list_rep l ps" "xs = map (node_data l) ps" using assms by (auto simp: elems_ok_rep)
  show ?thesis
  proof (cases ps)
    case Nil
    then show ?thesis using ps assms list_repD(8) [OF ps(1)]
      by (auto simp: list_pop_def list_node_destroy_def deref_def)
  next
    case (Cons p qs)
    then have "list_rep l ([] @ p # qs)" using ps by simp
    then obtain l' where "list_node_destroy l LHead = Some (Some (node_data l p), l')" "list_rep l' qs"
      "map (node_data l') qs = map (node_data l) qs" "lfdel l' = lfdel l"
      using list_node_destroy_rep [of l "[]" p qs] by auto
    then show ?thesis using ps(2) Cons by (auto simp: list_pop_def intro: elems_okI)
  qed
qed

lemma list_peek_ok: "elems_ok l xs \<Longrightarrow> list_peek l = hdo xs"
proof -
  assume "elems_ok l xs"
  then obtain ps where ps: "list_rep l ps" "xs = map (node_data l) ps" by (auto simp: elems_ok_rep)
  then show ?thesis using list_repD(1) [OF ps(1)]
    by (cases ps) (auto simp: list_peek_def node_data_def)
qed

lemma list_count_ok: "elems_ok l xs \<Longrightarrow> list_count l = int (length xs)"
  by (auto simp: elems_ok_rep list_count_def list_repD(5))

lemma list_is_empty_ok: "elems_ok l xs \<Longrightarrow> list_is_empty l \<longleftrightarrow> xs = []"
  by (auto simp: elems_ok_rep list_is_empty_def list_repD(5))

lemma list_destroy_ok: "elems_ok l xs \<Longrightarrow> list_destroy l = Some (if lfdel l then xs else [])"
  by (simp add: elems_ok_def list_destroy_def elems_def)

lemma find_first_loop_eq:
  "chain (lheap l) a ps None \<Longrightarrow> length ps \<le> fuel \<Longrightarrow>
   find_first_loop fuel l f a = Some (List.find f (map (node_data l) ps))"
proof (induction ps arbitrary: a fuel)
  case Nil
  then show ?case by simp
next
  case (Cons p ps)
  then show ?case by (cases fuel) (auto simp: node_data_def)
qed

lemma list_find_first_ok: "elems_ok l xs \<Longrightarrow> list_find_first l f = Some (List.find f xs)"
  unfolding list_find_first_def
  by (auto simp: elems_ok_rep chain_fuel_rep list_repD(1) intro!: find_first_loop_eq)

text \<open>\<open>list_for_each\<close> as a fold that stops at the first negative result.\<close>

fun each_spec :: "('d \<Rightarrow> 's \<Rightarrow> int \<times> 's) \<Rightarrow> 'd list \<Rightarrow> int \<Rightarrow> 's \<Rightarrow> int \<times> 's" where
  "each_spec f [] n s = (n, s)"
| "each_spec f (x # xs) n s =
     (case f x s of (r, s') \<Rightarrow> if r < 0 then (- (n + 1), s') else each_spec f xs (n + 1) s')"

lemma for_each_loop_eq:
  "chain (lheap l) a ps None \<Longrightarrow> length ps \<le> fuel \<Longrightarrow>
   for_each_loop fuel l f a n s = Some (each_spec f (map (node_data l) ps) n s)"
proof (induction ps arbitrary: a fuel n s)
  case Nil
  then show ?case by simp
next
  case (Cons p ps)
  then show ?case by (cases fuel) (auto simp: node_data_def split: prod.splits)
qed

lemma list_for_each_ok: "elems_ok l xs \<Longrightarrow> list_for_each l f s = Some (each_spec f xs 0 s)"
  unfolding list_for_each_def
  by (auto simp: elems_ok_rep chain_fuel_rep list_repD(1) intro!: for_each_loop_eq)

lemma delete_all_loop_rep:
  "list_rep l (xs @ ys) \<Longrightarrow> length ys < fuel \<Longrightarrow>
   \<exists>l'. delete_all_loop fuel l f (loc_of xs) = Some (filter f (map (node_data l) ys), l') \<and>
     elems_ok l' (map (node_data l) xs @ filter (Not \<circ> f) (map (node_data l) ys)) \<and> lfdel l' = lfdel l"
proof (induction ys arbitrary: l xs fuel)
  case Nil
  then show ?case using deref_loc_of [OF list_repD(1) [OF Nil(1)]]
    by (cases fuel) (auto intro: elems_okI)
next
  case (Cons p ys)
  then obtain fu where fu: "fuel = Suc fu" "length ys < fu" by (cases fuel) auto
  have d: "deref l (loc_of xs) = Some p" using deref_loc_of [OF list_repD(1) [OF Cons(2)]] by simp
  obtain n where n: "lheap l p = Some n" using list_repD(1) [OF Cons(2)] by (auto simp: chain_append)
  then have nd: "ndata n = node_data l p" by (simp add: node_data_def)
  show ?case
  proof (cases "f (node_data l p)")
    case False
    then show ?thesis using Cons(1) [of l "xs @ [p]" fu] Cons(2) fu d n nd by simp
  next
    case True
    obtain l' where l': "list_node_destroy l (loc_of xs) = Some (Some (node_data l p), l')"
      "list_rep l' (xs @ ys)" "map (node_data l') (xs @ ys) = map (node_data l) (xs @ ys)"
      "lfdel l' = lfdel l"
      using list_node_destroy_rep [OF Cons(2)] by metis
    then have eq: "map (node_data l') xs = map (node_data l) xs" "map (node_data l') ys = map (node_data l) ys"
      by auto
    obtain l'' where "delete_all_loop fu l' f (loc_of xs) = Some (filter f (map (node_data l) ys), l'')"
      "elems_ok l'' (map (node_data l) xs @ filter (Not \<circ> f) (map (node_data l) ys))" "lfdel l'' = lfdel l"
      using Cons(1) [OF l'(2) fu(2)] unfolding eq l'(4) by blast
    then show ?thesis using True fu(1) d n nd l'(1) by (simp add: comp_def)
  qed
qed

lemma list_delete_all_ok:
  assumes "elems_ok l xs"
  shows "\<exists>l'. list_delete_all l f =
      Some (int (length (filter f xs)), if lfdel l then filter f xs else [], l') \<and>
    elems_ok l' (filter (Not \<circ> f) xs) \<and> lfdel l' = lfdel l"
proof -
  obtain ps where ps: "list_rep l ps" "xs = map (node_data l) ps" using assms by (auto simp: elems_ok_rep)
  then show ?thesis using delete_all_loop_rep [of l "[]" ps "chain_fuel l" f]
    by (auto simp: list_delete_all_def chain_fuel_rep)
qed

section \<open>Iteration\<close>

text \<open>
  What an iterator promises: \<open>us\<close> has been passed, \<open>cur\<close> (at most one element) is the one
  \<open>list_next\<close> returned last and \<open>list_remove\<close> would unlink, \<open>vs\<close> is to come.
\<close>

definition iter_view :: "'d lst \<Rightarrow> nat \<Rightarrow> 'd list \<Rightarrow> 'd list \<Rightarrow> 'd list \<Rightarrow> bool" where
  "iter_view l a us cur vs \<longleftrightarrow> (\<exists>ps qs rs. list_rep l (ps @ qs @ rs) \<and>
     get_iter l a = Some \<lparr>ipos = hdo rs, iprev = loc_of ps\<rparr> \<and> length qs \<le> 1 \<and>
     us = map (node_data l) ps \<and> cur = map (node_data l) qs \<and> vs = map (node_data l) rs)"

lemma iter_view_elems: "iter_view l a us cur vs \<Longrightarrow> elems_ok l (us @ cur @ vs)"
  by (auto simp: iter_view_def intro: elems_okI)

lemma iter_rep_split: "length qs \<le> 1 \<Longrightarrow> iter_rep (ps @ qs @ rs) \<lparr>ipos = hdo rs, iprev = loc_of ps\<rparr>"
  unfolding iter_rep_def by (intro exI [of _ ps] exI [of _ "qs @ rs"]) (cases qs; auto)

lemma set_iter_simps [simp]:
  "lheap (set_iter l a i) = lheap l" "lhead (set_iter l a i) = lhead l" "ltail (set_iter l a i) = ltail l"
  "lcount (set_iter l a i) = lcount l" "lfdel (set_iter l a i) = lfdel l"
  "node_data (set_iter l a i) = node_data l"
  "map fst (literators (set_iter l a i)) = map fst (literators l)"
  by (auto simp: set_iter_def node_data_def fun_eq_iff)

lemma get_set_iter: "get_iter l a = Some j \<Longrightarrow> get_iter (set_iter l a i) a = Some i"
proof -
  have "map_of is a = Some j \<Longrightarrow>
    map_of (map (\<lambda>(b, j). if b = a then (b, i) else (b, j)) is) a = Some i" for "is"
    by (induction "is") (auto split: if_splits)
  then show "get_iter l a = Some j \<Longrightarrow> get_iter (set_iter l a i) a = Some i"
    by (simp add: get_iter_def set_iter_def)
qed

lemma set_iter_rep:
  assumes "list_rep l ps" "iter_rep ps i"
  shows "list_rep (set_iter l a i) ps"
proof -
  have "\<forall>(b, j) \<in> set (literators (set_iter l a i)). iter_rep ps j"
    using assms by (auto simp: set_iter_def list_rep_def split: if_splits)
  then show ?thesis using assms by (simp add: list_rep_def)
qed

lemma set_iter_view:
  assumes "list_rep l (ps @ qs @ rs)" "length qs \<le> 1" "get_iter l a = Some j"
  shows "iter_view (set_iter l a \<lparr>ipos = hdo rs, iprev = loc_of ps\<rparr>) a
    (map (node_data l) ps) (map (node_data l) qs) (map (node_data l) rs)"
  unfolding iter_view_def
  using set_iter_rep [OF assms(1) iter_rep_split [OF assms(2)]] get_set_iter [OF assms(3)] assms(2)
  by (intro exI [of _ ps] exI [of _ qs] exI [of _ rs]) simp

lemma list_iterator_create_view:
  assumes "elems_ok l xs" "a \<notin> fst ` set (literators l)"
  shows "\<exists>l'. list_iterator_create l (Some a) = (Some a, l') \<and> iter_view l' a [] [] xs"
proof -
  obtain ps where ps: "list_rep l ps" "xs = map (node_data l) ps" using assms by (auto simp: elems_ok_rep)
  define l' where "l' = l\<lparr>literators := (a, \<lparr>ipos = lhead l, iprev = LHead\<rparr>) # literators l\<rparr>"
  have "list_rep l' ps"
    using ps(1) assms(2) iter_rep_split [of "[]" "[]" ps] list_repD(8) [OF ps(1)]
    by (auto simp: list_rep_def l'_def)
  then have "iter_view l' a [] [] xs"
    unfolding iter_view_def using ps list_repD(8) [OF ps(1)]
    by (intro exI [of _ "[]"] exI [of _ "[]"] exI [of _ ps]) (simp add: l'_def get_iter_def node_data_def)
  then show ?thesis by (simp add: list_iterator_create_def l'_def)
qed

lemma list_iterator_reset_view:
  assumes "iter_view l a us cur vs"
  shows "iter_view (list_iterator_reset l a) a [] [] (us @ cur @ vs)"
proof -
  obtain ps qs rs where s: "list_rep l (ps @ qs @ rs)" "get_iter l a = Some \<lparr>ipos = hdo rs, iprev = loc_of ps\<rparr>"
    "us = map (node_data l) ps" "cur = map (node_data l) qs" "vs = map (node_data l) rs"
    using assms by (auto simp: iter_view_def)
  then have "list_rep l ([] @ [] @ (ps @ qs @ rs))" by simp
  from set_iter_view [OF this _ s(2)] show ?thesis
    using list_repD(8) [OF s(1)] s by (simp add: list_iterator_reset_def)
qed

lemma list_iterator_destroy_ok: "elems_ok l xs \<Longrightarrow> elems_ok (list_iterator_destroy l a) xs"
proof -
  assume "elems_ok l xs"
  then obtain ps where ps: "list_rep l ps" "xs = map (node_data l) ps" by (auto simp: elems_ok_rep)
  have un: "set (unlink_iter a is) \<subseteq> set is" for "is" :: "(nat \<times> iter) list"
    by (induction a "is" rule: unlink_iter.induct) auto
  have "distinct (map fst is) \<Longrightarrow> distinct (map fst (unlink_iter a is))" for "is" :: "(nat \<times> iter) list"
    using un by (induction a "is" rule: unlink_iter.induct) (force simp: image_iff)+
  then have "list_rep (list_iterator_destroy l a) ps"
    using ps(1) un [of "literators l"] by (auto simp: list_rep_def list_iterator_destroy_def)
  then show ?thesis using ps(2) by (auto simp: list_iterator_destroy_def node_data_def intro!: elems_okI)
qed

text \<open>\<open>list_next\<close> returns the elements in order, then \<open>None\<close> for ever.\<close>

lemma list_next_view:
  assumes "iter_view l a us cur vs"
  shows "\<exists>l'. list_next l a = Some (hdo vs, l') \<and> iter_view l' a (us @ cur) (take 1 vs) (drop 1 vs) \<and>
    lfdel l' = lfdel l"
proof -
  obtain ps qs rs where s: "list_rep l (ps @ qs @ rs)" "get_iter l a = Some \<lparr>ipos = hdo rs, iprev = loc_of ps\<rparr>"
    "length qs \<le> 1" "us = map (node_data l) ps" "cur = map (node_data l) qs" "vs = map (node_data l) rs"
    using assms by (auto simp: iter_view_def)
  have d: "deref l (loc_of ps) = hdo (qs @ rs)"
    using deref_loc_of list_repD(1) [OF s(1)] by blast
  have dr: "deref l (LNext q) = hdo rs'" if "rs = q # rs'" for q rs'
    using deref_loc_of [of l "ps @ qs @ [q]" rs'] list_repD(1) [OF s(1)] that
    by (cases "qs") (simp_all add: loc_of_def)
  have lp: "loc_of (ps @ qs) = (if qs = [] then loc_of ps else LNext (hd qs))"
    using s(3) by (cases qs) (auto simp: loc_of_def)
  have eq: "hdo (qs @ rs) = hdo rs \<longleftrightarrow> qs = []"
    using list_repD(2) [OF s(1)] by (cases qs; cases rs) auto
  have rep: "list_rep l ((ps @ qs) @ take 1 rs @ drop 1 rs)" using s(1) by simp
  note v = set_iter_view [OF rep _ s(2), unfolded lp]
  have "list_next l a =
    Some (hdo vs, set_iter l a \<lparr>ipos = hdo (drop 1 rs), iprev = loc_of (ps @ qs)\<rparr>)"
  proof (cases rs)
    case Nil
    then show ?thesis using s(2,3,6) d
      by (cases qs) (simp_all add: list_next_def lp)
  next
    case (Cons q rs')
    obtain n where n: "lheap l q = Some n"
      using list_repD(1) [OF s(1)] Cons by (auto simp: chain_append)
    show ?thesis using Cons s(2,3,6) d dr [OF Cons] n eq
      by (cases qs) (simp_all add: list_next_def lp node_data_def)
  qed
  then show ?thesis using v s(4-6) by (simp add: lp take_map drop_map)
qed

text \<open>Removing the current element unlinks it and leaves the rest of the iteration as it was.\<close>

lemma list_remove_view:
  assumes "iter_view l a us [c] vs"
  shows "\<exists>l'. list_remove l a = Some (Some c, l') \<and> iter_view l' a us [] vs \<and> lfdel l' = lfdel l"
proof -
  obtain ps q rs where s: "list_rep l (ps @ q # rs)" "get_iter l a = Some \<lparr>ipos = hdo rs, iprev = loc_of ps\<rparr>"
    "us = map (node_data l) ps" "c = node_data l q" "vs = map (node_data l) rs"
    using assms by (auto simp: iter_view_def)
  obtain l' where l': "list_node_destroy l (loc_of ps) = Some (Some c, l')" "list_rep l' (ps @ rs)"
    "map (node_data l') (ps @ rs) = map (node_data l) (ps @ rs)" "lfdel l' = lfdel l"
    "literators l' = map (\<lambda>(b, i). (b, adjust_destroy (loc_of ps) q (hdo rs) i)) (literators l)"
    using list_node_destroy_rep [OF s(1)] s(4) by metis
  have nq: "hdo rs \<noteq> Some q" "loc_of ps \<noteq> LNext q"
    using list_repD(2) [OF s(1)] by (auto simp: hdo_eq_Some loc_of_def split: if_splits)
  have "get_iter l' a = Some (adjust_destroy (loc_of ps) q (hdo rs) \<lparr>ipos = hdo rs, iprev = loc_of ps\<rparr>)"
    using s(2) l'(5) by (simp add: get_iter_def map_of_map)
  then have "get_iter l' a = Some \<lparr>ipos = hdo rs, iprev = loc_of ps\<rparr>"
    using nq by (simp add: adjust_destroy_def)
  then have "iter_view l' a us [] vs"
    unfolding iter_view_def using l'(2,3) s(3,5) by (intro exI [of _ ps] exI [of _ "[]"] exI [of _ rs]) auto
  moreover have "list_remove l a = Some (Some c, l')"
    using s(2) nq l'(1) deref_loc_of [OF list_repD(1) [OF s(1)]]
    by (auto simp: list_remove_def)
  ultimately show ?thesis using l'(4) by blast
qed

lemma list_remove_view_none:
  assumes "iter_view l a us [] vs"
  shows "list_remove l a = Some (None, l)"
proof -
  obtain ps rs where s: "list_rep l (ps @ rs)" "get_iter l a = Some \<lparr>ipos = hdo rs, iprev = loc_of ps\<rparr>"
    using assms by (auto simp: iter_view_def)
  then show ?thesis using deref_loc_of [OF list_repD(1) [OF s(1)]] by (simp add: list_remove_def)
qed

lemma list_insert_view:
  assumes "iter_view l a us cur vs" "lheap l p = None"
  shows "\<exists>l'. list_insert l a x (Some p) = Some (Some x, l') \<and> iter_view l' a (us @ [x]) cur vs"
proof -
  obtain ps qs rs where s: "list_rep l (ps @ (qs @ rs))" "get_iter l a = Some \<lparr>ipos = hdo rs, iprev = loc_of ps\<rparr>"
    "length qs \<le> 1" "us = map (node_data l) ps" "cur = map (node_data l) qs" "vs = map (node_data l) rs"
    using assms by (auto simp: iter_view_def)
  obtain l' where l': "list_node_create l (loc_of ps) x (Some p) = Some (Some x, l')"
    "list_rep l' (ps @ p # qs @ rs)"
    "map (node_data l') (ps @ p # qs @ rs) = map (node_data l) ps @ x # map (node_data l) (qs @ rs)"
    "literators l' = map (\<lambda>(b, i). (b, adjust_create (loc_of ps) p (hdo (qs @ rs)) i)) (literators l)"
    using list_node_create_rep [OF s(1) assms(2)] by metis
  have "get_iter l' a = Some \<lparr>ipos = hdo rs, iprev = LNext p\<rparr>"
    using s(2) l'(4) by (simp add: get_iter_def map_of_map adjust_create_def)
  then have "iter_view l' a (us @ [x]) cur vs"
    unfolding iter_view_def using l'(2,3) s(3-6)
    by (intro exI [of _ "ps @ [p]"] exI [of _ qs] exI [of _ rs]) auto
  then show ?thesis using s(2) l'(1) by (simp add: list_insert_def)
qed

lemma list_find_loop_view:
  "iter_view l a us cur vs \<Longrightarrow> length vs < fuel \<Longrightarrow>
   \<exists>l' us' cur'. list_find_loop fuel l a f = Some (List.find f vs, l') \<and>
     iter_view l' a us' cur' (drop 1 (dropWhile (Not \<circ> f) vs)) \<and> us' @ cur' @ drop 1 (dropWhile (Not \<circ> f) vs) = us @ cur @ vs"
proof (induction fuel arbitrary: l us cur vs)
  case 0
  then show ?case by simp
next
  case (Suc fuel)
  obtain l' where l': "list_next l a = Some (hdo vs, l')" "iter_view l' a (us @ cur) (take 1 vs) (drop 1 vs)"
    using list_next_view [OF Suc(2)] by blast
  show ?case
  proof (cases vs)
    case Nil
    then show ?thesis using l' by (intro exI [of _ l'] exI [of _ "us @ cur"] exI [of _ "[]"]) simp
  next
    case (Cons v ws)
    show ?thesis
    proof (cases "f v")
      case True
      then show ?thesis using l' Cons
        by (intro exI [of _ l'] exI [of _ "us @ cur"] exI [of _ "[v]"]) simp
    next
      case False
      then show ?thesis using l' Cons Suc(1) [of l' "us @ cur" "[v]" ws] Suc(3) by simp
    qed
  qed
qed

text \<open>\<open>list_find\<close> has fuel enough from every position of the iterator.\<close>

lemma list_find_view:
  assumes "iter_view l a us cur vs"
  shows "\<exists>l' us' cur'. list_find l a f = Some (List.find f vs, l') \<and>
     iter_view l' a us' cur' (drop 1 (dropWhile (Not \<circ> f) vs)) \<and> us' @ cur' @ drop 1 (dropWhile (Not \<circ> f) vs) = us @ cur @ vs"
proof -
  have "length vs < chain_fuel l"
    using list_count_ok [OF iter_view_elems [OF assms]] by (simp add: chain_fuel_def list_count_def)
  from list_find_loop_view [OF assms this] show ?thesis unfolding list_find_def .
qed

section \<open>Sorting\<close>

lemma assign_frame [simp]:
  "node_data (assign l pp v) = node_data l" "dom (lheap (assign l pp v)) = dom (lheap l)"
  "lcount (assign l pp v) = lcount l" "literators (assign l pp v) = literators l" "lfdel (assign l pp v) = lfdel l"
  "ltail (assign l pp v) = ltail l"
  by (auto simp: assign_def node_data_def fun_eq_iff split: loc.splits option.splits)

lemma assign_seg:
  assumes "chain (lheap l) (lhead l) xs m" "distinct xs"
  shows "chain (lheap (assign l (loc_of xs) v)) (lhead (assign l (loc_of xs) v)) xs v"
    and "set ys \<inter> set xs = {} \<Longrightarrow> chain (lheap (assign l (loc_of xs) v)) a ys b = chain (lheap l) a ys b"
proof -
  have "chain (lheap (assign l (loc_of xs) v)) (lhead (assign l (loc_of xs) v)) xs v \<and>
    (set ys \<inter> set xs = {} \<longrightarrow> chain (lheap (assign l (loc_of xs) v)) a ys b = chain (lheap l) a ys b)"
  proof (cases xs rule: rev_cases)
    case Nil
    then show ?thesis by (simp add: assign_def)
  next
    case (snoc us u)
    with assms(1) obtain n where n: "lheap l u = Some n" by (auto simp: chain_append)
    show ?thesis using chain_last_upd [OF assms(1) [unfolded snoc] _ n, of v] n snoc assms(2)
      by (auto simp: assign_def)
  qed
  then show "chain (lheap (assign l (loc_of xs) v)) (lhead (assign l (loc_of xs) v)) xs v"
    and "set ys \<inter> set xs = {} \<Longrightarrow> chain (lheap (assign l (loc_of xs) v)) a ys b = chain (lheap l) a ys b"
    by blast+
qed

text \<open>The four pointer assignments move the node \<open>q\<close> behind \<open>us\<close>.\<close>

lemma sort_move_chain:
  assumes c: "chain (lheap l) (lhead l) (us @ ws @ [r] @ q # ys) None" and d: "distinct (us @ ws @ [r] @ q # ys)"
  shows "chain (lheap (sort_move l (LNext r) (loc_of us) q)) (lhead (sort_move l (LNext r) (loc_of us) q))
    (us @ q # ws @ [r] @ ys) None"
proof -
  let ?wr = "ws @ [r]"
  have dp: "deref l (loc_of us) = hdo ?wr" using deref_loc_of [OF c] by (cases ws) auto
  have "chain (lheap l) (lhead l) (us @ ?wr @ q # ys) None" using c by simp
  then obtain m m' where "chain (lheap l) (lhead l) us m" "chain (lheap l) m ?wr m'"
    "chain (lheap l) m' (q # ys) None"
    unfolding chain_append [of _ _ us] chain_append [of _ _ ?wr] by blast
  then obtain nq where seg: "chain (lheap l) (lhead l) us m" "chain (lheap l) m ?wr (Some q)"
    "lheap l q = Some nq" "chain (lheap l) (nnext nq) ys None"
    unfolding chain.simps by blast
  have m: "m = hdo ?wr" using seg(2) by (cases ws) auto
  have nn: "nnext nq = hdo ys" using chain_hdo [OF seg(4)] .
  define l1 where "l1 = assign l (LNext q) (hdo ?wr)"
  define l2 where "l2 = assign l1 (loc_of us) (Some q)"
  define l3 where "l3 = assign l2 (LNext r) (hdo ys)"
  have h1: "lheap l1 = (lheap l)(q \<mapsto> nq\<lparr>nnext := hdo ?wr\<rparr>)" "lhead l1 = lhead l"
    by (simp_all add: l1_def assign_def seg(3))
  have dj: "q \<notin> set us" "q \<notin> set ?wr" "q \<notin> set ys" "set (q # ?wr) \<inter> set us = {}" "set ys \<inter> set us = {}"
    "distinct us" using d by auto
  have s1: "chain (lheap l1) (lhead l1) us m" "chain (lheap l1) (hdo ys) ys None"
    using seg nn dj by (simp_all add: h1)
  have "chain (lheap l1) (hdo ?wr) ?wr (Some q)" using seg(2) m unfolding h1 chain_frame [OF dj(2)] by simp
  then have s1': "chain (lheap l1) (Some q) (q # ?wr) (Some q)" unfolding h1 chain.simps by simp
  have s2: "chain (lheap l2) (lhead l2) us (Some q)" "chain (lheap l2) (Some q) (q # ?wr) (Some q)"
    "chain (lheap l2) (hdo ys) ys None"
    unfolding l2_def using assign_seg(1) [OF s1(1) dj(6)] apply blast
    using assign_seg(2) [OF s1(1) dj(6) dj(4)] s1' apply blast
    using assign_seg(2) [OF s1(1) dj(6) dj(5)] s1(2) by blast
  have s2': "chain (lheap l2) (lhead l2) (us @ q # ?wr) (Some q)"
    using s2(1,2) unfolding chain_append [of _ _ us] by blast
  have d2: "distinct (us @ q # ?wr)" "set ys \<inter> set (us @ q # ?wr) = {}" using d by auto
  have "loc_of (us @ q # ?wr) = LNext r" by (simp add: loc_of_def)
  then have "chain (lheap l3) (lhead l3) (us @ q # ?wr) (hdo ys)" "chain (lheap l3) (hdo ys) ys None"
    using assign_seg(1) [OF s2' d2(1), of "hdo ys"] assign_seg(2) [OF s2' d2(1) d2(2), of "hdo ys"] s2(3)
    by (simp_all add: l3_def)
  then have "chain (lheap l3) (lhead l3) ((us @ q # ?wr) @ ys) None" by (subst chain_append) blast
  moreover have "sort_move l (LNext r) (loc_of us) q = l3"
    unfolding l3_def l2_def l1_def sort_move_def Let_def dp by (simp add: deref_def seg(3) nn)
  ultimately show ?thesis by simp
qed

text \<open>
  The reference: one element after the other goes to the place \<open>list_sort\<close> gives it among those before
  it. It is stated for every comparison function, an order or not.
\<close>

definition sort_ins :: "('d \<Rightarrow> 'd \<Rightarrow> int) \<Rightarrow> 'd \<Rightarrow> 'd list \<Rightarrow> 'd list" where
  "sort_ins f d zs =
     (if zs \<noteq> [] \<and> f d (last zs) < 0
      then takeWhile (\<lambda>e. f d e \<ge> 0) zs @ d # dropWhile (\<lambda>e. f d e \<ge> 0) zs else zs @ [d])"

definition sort_spec :: "('d \<Rightarrow> 'd \<Rightarrow> int) \<Rightarrow> 'd list \<Rightarrow> 'd list" where
  "sort_spec f xs = fold (sort_ins f) xs []"

lemma sort_pos_eq:
  "chain (lheap l) (lhead l) (us @ zs @ r # ys) None \<Longrightarrow> length zs < fuel \<Longrightarrow> f d (node_data l r) < 0 \<Longrightarrow>
   sort_pos fuel l f d (loc_of us) = Some (loc_of (us @ takeWhile (\<lambda>p. f d (node_data l p) \<ge> 0) zs))"
proof (induction zs arbitrary: us fuel)
  case Nil
  then obtain fu n where "fuel = Suc fu" "lheap l r = Some n" by (cases fuel) (auto simp: chain_append)
  then show ?case using Nil deref_loc_of [of l us "r # ys"] by (simp add: node_data_def)
next
  case (Cons z zs)
  then obtain fu n where fu: "fuel = Suc fu" "lheap l z = Some n" by (cases fuel) (auto simp: chain_append)
  have "deref l (loc_of us) = Some z" using Cons(2) deref_loc_of [of l us "z # zs @ r # ys"] by simp
  then show ?case using fu Cons(1) [of "us @ [z]" fu] Cons(2-4) by (simp add: node_data_def)
qed

lemma sort_move_frame [simp]:
  "node_data (sort_move l pp pos q) = node_data l" "dom (lheap (sort_move l pp pos q)) = dom (lheap l)"
  "lcount (sort_move l pp pos q) = lcount l" "literators (sort_move l pp pos q) = literators l"
  "lfdel (sort_move l pp pos q) = lfdel l"
  by (simp_all add: sort_move_def Let_def)

text \<open>What the loop keeps of the rest of the list.\<close>

definition same_frame :: "'d lst \<Rightarrow> 'd lst \<Rightarrow> bool" where
  "same_frame l l' \<longleftrightarrow> node_data l' = node_data l \<and> dom (lheap l') = dom (lheap l) \<and>
     lcount l' = lcount l \<and> literators l' = literators l \<and> lfdel l' = lfdel l"

lemma same_frame_refl: "same_frame l l" by (simp add: same_frame_def)

lemma same_frame_move: "same_frame (sort_move l pp pos q) l' \<Longrightarrow> same_frame l l'"
  by (simp add: same_frame_def)

lemma sort_ins_map:
  assumes "f (g q) (g r) < 0" "us = takeWhile (\<lambda>p. f (g q) (g p) \<ge> 0) xs" "xs = us @ ws"
  shows "sort_ins f (g q) (map g (xs @ [r])) = map g (us @ q # ws @ [r])"
proof -
  have "map g us = takeWhile (\<lambda>e. f (g q) e \<ge> 0) (map g (xs @ [r]))"
    using assms(1,2) by (simp add: takeWhile_map comp_def takeWhile_append)
  moreover have "dropWhile (\<lambda>e. f (g q) e \<ge> 0) (map g (xs @ [r])) = map g (ws @ [r])"
    using calculation assms(3)
    by (metis append_assoc append_same_eq map_append takeWhile_dropWhile_id same_append_eq)
  ultimately show ?thesis using assms(1) by (simp add: sort_ins_def)
qed

text \<open>Where the loop goes on after the node has been moved.\<close>

lemma sort_loop_step:
  assumes c: "chain (lheap l) (lhead l) (xs @ [r] @ q # ys) None" and d: "distinct (xs @ [r] @ q # ys)"
    and n: "lcount l = int (length (xs @ [r] @ q # ys))"
    and lt: "f (node_data l q) (node_data l r) < 0"
    and us: "us = takeWhile (\<lambda>p. f (node_data l q) (node_data l p) \<ge> 0) xs" "xs = us @ ws"
  shows "sort_loop (Suc fuel) l f (loc_of xs) (LNext r) =
    sort_loop fuel (sort_move l (LNext r) (loc_of us) q) f (loc_of (us @ q # ws)) (LNext r)"
proof -
  have dd: "deref l (LNext r) = Some q" "deref l (loc_of xs) = Some r"
    using deref_loc_of [of l "xs @ [r]" "q # ys"] deref_loc_of [of l xs "r # q # ys"] c by auto
  obtain nq nr where h: "lheap l q = Some nq" "lheap l r = Some nr" using c by (auto simp: chain_append)
  then have nd: "ndata nq = node_data l q" "ndata nr = node_data l r" by (simp_all add: node_data_def)
  have "sort_pos (chain_fuel l) l f (node_data l q) (loc_of []) =
    Some (loc_of ([] @ takeWhile (\<lambda>p. f (node_data l q) (node_data l p) \<ge> 0) xs))"
    by (rule sort_pos_eq [where r = r and ys = "q # ys"]) (use c n lt in \<open>auto simp: chain_fuel_def\<close>)
  then have pos: "sort_pos (chain_fuel l) l f (node_data l q) LHead = Some (loc_of us)"
    using us(1) by simp
  let ?l = "sort_move l (LNext r) (loc_of us) q"
  have prev: "(if loc_of xs = loc_of us then map_option LNext (deref ?l (loc_of xs)) else Some (loc_of xs)) =
    Some (loc_of (us @ q # ws))"
  proof (cases "ws = []")
    case True
    have "chain (lheap ?l) (lhead ?l) (us @ q # ws @ [r] @ ys) None"
      by (rule sort_move_chain) (use c d us(2) in simp_all)
    then have "deref ?l (loc_of us) = Some q" using deref_loc_of [of ?l us "q # ws @ [r] @ ys"] by simp
    then show ?thesis using us(2) True by simp
  next
    case False
    have "loc_of xs \<noteq> loc_of us"
      using loc_of_inj [of us "ws @ [r] @ q # ys" xs "[r] @ q # ys"] d us(2) False by auto
    then show ?thesis using us(2) False by simp
  qed
  show ?thesis by (simp add: dd h nd lt pos Let_def prev)
qed

lemma sort_loop_rep:
  "chain (lheap l) (lhead l) (xs @ [r] @ ys) None \<Longrightarrow> distinct (xs @ [r] @ ys) \<Longrightarrow>
   lcount l = int (length (xs @ [r] @ ys)) \<Longrightarrow> length ys < fuel \<Longrightarrow>
   \<exists>l' zs u. sort_loop fuel l f (loc_of xs) (LNext r) = Some (l', LNext u) \<and>
     chain (lheap l') (lhead l') (zs @ [u]) None \<and> set (zs @ [u]) = set (xs @ [r] @ ys) \<and>
     distinct (zs @ [u]) \<and> same_frame l l' \<and> length (zs @ [u]) = length (xs @ [r] @ ys) \<and>
     map (node_data l) (zs @ [u]) = fold (sort_ins f) (map (node_data l) ys) (map (node_data l) (xs @ [r]))"
proof (induction ys arbitrary: l xs r fuel)
  case Nil
  have "deref l (LNext r) = None" using deref_loc_of [of l "xs @ [r]" "[]"] Nil(1) by simp
  with Nil show ?case
    by (intro exI [of _ l] exI [of _ xs] exI [of _ r]) (cases fuel; simp add: same_frame_refl)
next
  case (Cons q ys)
  obtain fu where fu: "fuel = Suc fu" "length ys < fu" using Cons(5) by (cases fuel) auto
  show ?case
  proof (cases "f (node_data l q) (node_data l r) < 0")
    case False
    have dd: "deref l (LNext r) = Some q" "deref l (loc_of xs) = Some r"
      using deref_loc_of [of l "xs @ [r]" "q # ys"] deref_loc_of [of l xs "r # q # ys"] Cons(2) by auto
    obtain nq nr where h: "lheap l q = Some nq" "lheap l r = Some nr" using Cons(2) by (auto simp: chain_append)
    then have nd: "ndata nq = node_data l q" "ndata nr = node_data l r" by (simp_all add: node_data_def)
    have st: "sort_loop fuel l f (loc_of xs) (LNext r) = sort_loop fu l f (loc_of (xs @ [r])) (LNext q)"
      using fu dd h nd False by simp
    have "sort_ins f (node_data l q) (map (node_data l) (xs @ [r])) = map (node_data l) ((xs @ [r]) @ [q])"
      using False by (simp add: sort_ins_def)
    then show ?thesis using Cons(1) [of l "xs @ [r]" q fu] Cons(2-4) fu(2) unfolding st
      by (simp add: insert_commute)
  next
    case True
    define us where "us = takeWhile (\<lambda>p. f (node_data l q) (node_data l p) \<ge> 0) xs"
    obtain ws where ws: "xs = us @ ws" by (metis us_def takeWhile_dropWhile_id)
    let ?l = "sort_move l (LNext r) (loc_of us) q"
    note st = sort_loop_step [of l xs r q ys f us ws fu, OF Cons(2-4) True us_def ws, folded fu(1)]
    have "chain (lheap ?l) (lhead ?l) (us @ q # ws @ [r] @ ys) None"
      by (rule sort_move_chain) (use Cons(2,3) ws in simp_all)
    then have c': "chain (lheap ?l) (lhead ?l) ((us @ q # ws) @ [r] @ ys) None" by simp
    have d': "distinct ((us @ q # ws) @ [r] @ ys)" "lcount ?l = int (length ((us @ q # ws) @ [r] @ ys))"
      using Cons(3,4) ws by auto
    obtain l' zs u where ih: "sort_loop fu ?l f (loc_of (us @ q # ws)) (LNext r) = Some (l', LNext u)"
      "chain (lheap l') (lhead l') (zs @ [u]) None" "set (zs @ [u]) = set ((us @ q # ws) @ [r] @ ys)"
      "distinct (zs @ [u])" "same_frame ?l l'" "length (zs @ [u]) = length ((us @ q # ws) @ [r] @ ys)"
      "map (node_data ?l) (zs @ [u]) =
        fold (sort_ins f) (map (node_data ?l) ys) (map (node_data ?l) ((us @ q # ws) @ [r]))"
      using Cons(1) [OF c' d' fu(2)] by metis
    have "fold (sort_ins f) (map (node_data l) (q # ys)) (map (node_data l) (xs @ [r])) =
      map (node_data l) (zs @ [u])"
      using ih(7) sort_ins_map [of f "node_data l" q r us xs ws, OF True us_def ws] by simp
    moreover have "set (zs @ [u]) = set (xs @ [r] @ q # ys)" using ih(3) ws by auto
    moreover have "length (zs @ [u]) = length (xs @ [r] @ q # ys)" using ih(6) ws by simp
    ultimately show ?thesis using ih(1,2,4) same_frame_move [OF ih(5)] unfolding st by metis
  qed
qed

lemma list_sort_ok:
  assumes "elems_ok l xs"
  shows "\<exists>l'. list_sort l f = Some l' \<and> elems_ok l' (sort_spec f xs) \<and> lfdel l' = lfdel l"
proof -
  obtain ps where ps: "list_rep l ps" "xs = map (node_data l) ps" using assms by (auto simp: elems_ok_rep)
  show ?thesis
  proof (cases "lcount l > 1")
    case False
    then have "sort_spec f xs = xs" using ps list_repD(5) [OF ps(1)]
      by (cases ps) (auto simp: sort_spec_def sort_ins_def)
    then show ?thesis using False assms by (simp add: list_sort_def)
  next
    case True
    then obtain r ys where r: "ps = r # ys" using list_repD(5) [OF ps(1)] by (cases ps) auto
    then have "length ys < chain_fuel l" using chain_fuel_rep [OF ps(1)] by simp
    with r ps(1) obtain l' zs u where l': "sort_loop (chain_fuel l) l f (loc_of []) (LNext r) = Some (l', LNext u)"
      "chain (lheap l') (lhead l') (zs @ [u]) None" "set (zs @ [u]) = set ps"
      "distinct (zs @ [u])" "same_frame l l'" "length (zs @ [u]) = length ps"
      "map (node_data l) (zs @ [u]) = fold (sort_ins f) (map (node_data l) ys) (map (node_data l) [r])"
      using sort_loop_rep [of l "[]" r ys "chain_fuel l" f] list_repD [OF ps(1)]
      by (metis append_Nil append_Cons)
    define l2 where "l2 = l'\<lparr>ltail := LNext u,
      literators := map (\<lambda>(a, i). (a, \<lparr>ipos = lhead l', iprev = LHead\<rparr>)) (literators l')\<rparr>"
    have eq: "list_sort l f = Some l2"
      using True l'(1) list_repD(8) [OF ps(1)] r by (simp add: list_sort_def l2_def)
    have it: "iter_rep (zs @ [u]) \<lparr>ipos = lhead l', iprev = LHead\<rparr>"
      using iter_rep_split [of "[]" "[]" "zs @ [u]"] chain_hdo [OF l'(2)] by simp
    have ff: "map fst (literators l2) = map fst (literators l)"
      using l'(5) by (auto simp: l2_def same_frame_def)
    have "list_rep l2 (zs @ [u])"
      unfolding list_rep_def ff using l'(2-6) list_repD(3,5,6) [OF ps(1)] it
      by (auto simp: l2_def same_frame_def)
    moreover have "sort_spec f xs = map (node_data l2) (zs @ [u])"
    proof -
      have "node_data l2 = node_data l" using l'(5) by (simp add: l2_def node_data_def same_frame_def fun_eq_iff)
      moreover have "sort_spec f xs = fold (sort_ins f) (map (node_data l) ys) (map (node_data l) [r])"
        using ps(2) r by (simp add: sort_spec_def sort_ins_def)
      ultimately show ?thesis using l'(7) by simp
    qed
    ultimately have "elems_ok l2 (sort_spec f xs)" by (intro elems_okI)
    then show ?thesis using eq l'(5) by (simp add: l2_def same_frame_def)
  qed
qed

text \<open>
  For a comparison that orders by a key, the result is that of the library's stable sort: the list is
  sorted, and elements with equal keys keep their order.
\<close>

lemma sort_ins_sorted:
  fixes key :: "'d \<Rightarrow> 'k :: linorder"
  assumes f: "\<And>x y. f x y < 0 \<longleftrightarrow> key x < key y" and s: "sorted (map key zs)"
  shows "sorted (map key (sort_ins f d zs))"
    "filter (\<lambda>x. key k = key x) (sort_ins f d zs) = filter (\<lambda>x. key k = key x) (zs @ [d])"
    "mset (sort_ins f d zs) = mset (zs @ [d])"
proof -
  have ge: "f x y \<ge> 0 \<longleftrightarrow> key y \<le> key x" for x y using f [of x y] by auto
  define T where "T = takeWhile (\<lambda>e. key e \<le> key d) zs"
  define D where "D = dropWhile (\<lambda>e. key e \<le> key d) zs"
  have zs: "zs = T @ D" by (simp add: T_def D_def)
  have T: "\<forall>e \<in> set T. key e \<le> key d" using set_takeWhileD by (fastforce simp: T_def)
  have D: "\<forall>e \<in> set D. key d < key e"
  proof (cases D)
    case (Cons e D')
    then have "key d < key e" using hd_dropWhile [of "\<lambda>e. key e \<le> key d" zs] by (simp add: D_def)
    moreover have "\<forall>e' \<in> set D'. key e \<le> key e'" using s zs Cons by (simp add: sorted_append)
    ultimately show ?thesis using Cons by auto
  qed simp
  have ins: "sort_ins f d zs = T @ d # D"
  proof (cases "zs \<noteq> [] \<and> f d (last zs) < 0")
    case True
    then show ?thesis by (simp add: sort_ins_def ge T_def D_def)
  next
    case False
    have "D = []"
    proof (rule ccontr)
      assume "D \<noteq> []"
      then have "last zs \<in> set D" "zs \<noteq> []" using zs by auto
      then show False using False D f by auto
    qed
    then show ?thesis using False zs by (auto simp: sort_ins_def)
  qed
  show "sorted (map key (sort_ins f d zs))"
    using T D s zs unfolding ins by (fastforce simp: sorted_append)
  show "filter (\<lambda>x. key k = key x) (sort_ins f d zs) = filter (\<lambda>x. key k = key x) (zs @ [d])"
  proof -
    have "key k = key d \<Longrightarrow> filter (\<lambda>x. key k = key x) D = []" using D by (auto simp: filter_empty_conv)
    then show ?thesis unfolding ins by (auto simp: zs)
  qed
  show "mset (sort_ins f d zs) = mset (zs @ [d])" unfolding ins by (simp add: zs)
qed

lemma sort_spec_snoc: "sort_spec f (xs @ [x]) = sort_ins f x (sort_spec f xs)"
  by (simp add: sort_spec_def)

lemma sort_spec_key:
  fixes key :: "'d \<Rightarrow> 'k :: linorder"
  assumes f: "\<And>x y. f x y < 0 \<longleftrightarrow> key x < key y"
  shows "sort_spec f xs = sort_key key xs"
proof -
  have "sorted (map key (sort_spec f xs)) \<and> mset (sort_spec f xs) = mset xs \<and>
    (\<forall>k. filter (\<lambda>x. key k = key x) (sort_spec f xs) = filter (\<lambda>x. key k = key x) xs)"
  proof (induction xs rule: rev_induct)
    case Nil
    then show ?case by (simp add: sort_spec_def)
  next
    case (snoc x xs)
    then have s: "sorted (map key (sort_spec f xs))" by blast
    show ?case using sort_ins_sorted [where zs = "sort_spec f xs" and d = x and f = f and key = key, OF f s] snoc
      unfolding sort_spec_snoc by simp
  qed
  then show ?thesis by (intro properties_for_sort_key [symmetric]) auto
qed

lemma sort_ins_mset: "mset (sort_ins f d zs) = mset (d # zs)"
proof -
  have "mset zs = mset (takeWhile (\<lambda>e. f d e \<ge> 0) zs) + mset (dropWhile (\<lambda>e. f d e \<ge> 0) zs)"
    by (metis mset_append takeWhile_dropWhile_id)
  then show ?thesis by (simp add: sort_ins_def)
qed

lemma sort_spec_mset: "mset (sort_spec f xs) = mset xs"
  by (induction xs rule: rev_induct) (simp_all add: sort_spec_snoc sort_ins_mset, simp add: sort_spec_def)

section \<open>Node memory\<close>

text \<open>
  \<open>list_alloc_aux\<close> takes a node from the free chain, which it refills with \<open>LIST_ALLOC\<close> nodes of one
  \<open>malloc\<close> (\<open>chunk\<close>: its base address in nodes, \<open>None\<close> on failure); \<open>list_free_aux\<close> puts it back.
\<close>

definition list_alloc_chunk :: nat where "list_alloc_chunk = 32"

definition list_alloc_aux :: "nat list \<Rightarrow> nat option \<Rightarrow> errno \<Rightarrow> nat option \<times> nat list \<times> errno" where
  "list_alloc_aux free chunk e =
     (let free' = (if free = [] then (case chunk of None \<Rightarrow> [] | Some b \<Rightarrow> [b..<b + list_alloc_chunk]) else free)
      in case free' of [] \<Rightarrow> (None, [], ENOMEM) | p # ps \<Rightarrow> (Some p, ps, e))"

definition list_free_aux :: "nat list \<Rightarrow> nat \<Rightarrow> nat list" where
  "list_free_aux free p = p # free"

definition pool_free :: "'d lst \<Rightarrow> nat list \<Rightarrow> bool" where
  "pool_free l free \<longleftrightarrow> distinct free \<and> (\<forall>p \<in> set free. lheap l p = None)"

lemma list_alloc_aux_free:
  assumes "pool_free l free" "list_alloc_aux free chunk e = (Some p, free', e')"
    and "\<And>b. free = [] \<Longrightarrow> chunk = Some b \<Longrightarrow> \<forall>q \<in> {b..<b + list_alloc_chunk}. lheap l q = None"
  shows "lheap l p = None \<and> p \<notin> set free' \<and> pool_free l free' \<and> e' = e"
proof -
  define fr where "fr = (if free = [] then (case chunk of None \<Rightarrow> [] | Some b \<Rightarrow> [b..<b + list_alloc_chunk]) else free)"
  have "pool_free l fr"
    using assms(1,3) by (auto simp: fr_def pool_free_def split: option.splits)
  moreover have "fr = p # free'" "e' = e"
    using assms(2) by (simp_all add: list_alloc_aux_def fr_def [symmetric] split: list.splits)
  ultimately show ?thesis by (simp add: pool_free_def)
qed

text \<open>The first allocation of an empty pool gives the base of the chunk and keeps the other 31 nodes.\<close>

lemma list_alloc_aux_refill:
  "list_alloc_aux [] (Some b) e = (Some b, [Suc b..<b + 32], e)" "list_alloc_aux [] None e = (None, [], ENOMEM)"
proof -
  have "[b..<b + 32] = b # [Suc b..<b + 32]" by (rule upt_conv_Cons) simp
  then show "list_alloc_aux [] (Some b) e = (Some b, [Suc b..<b + 32], e)"
    unfolding list_alloc_aux_def list_alloc_chunk_def by (simp only: Let_def option.case if_True list.case simp_thms)
qed (simp add: list_alloc_aux_def)

section \<open>Interface\<close>

text \<open>
  A sequence behind an abstract type: \<open>view l xs\<close> says that \<open>l\<close> holds the data \<open>xs\<close>, \<open>avail l m\<close>
  that \<open>m\<close> is memory a node can be made in.
\<close>

fun append_all :: "('l \<Rightarrow> 'd \<Rightarrow> 'm option \<Rightarrow> ('d option \<times> 'l) option) \<Rightarrow> 'l \<Rightarrow> ('d \<times> 'm) list \<Rightarrow> 'l option" where
  "append_all app l [] = Some l"
| "append_all app l ((x, m) # xs) =
     (case app l x (Some m) of Some (Some _, l') \<Rightarrow> append_all app l' xs | _ \<Rightarrow> None)"

fun drain :: "('l \<Rightarrow> ('d option \<times> 'l) option) \<Rightarrow> nat \<Rightarrow> 'l \<Rightarrow> 'd list option" where
  "drain pop 0 l = None"
| "drain pop (Suc fuel) l =
     (case pop l of None \<Rightarrow> None | Some (None, l') \<Rightarrow> Some []
      | Some (Some x, l') \<Rightarrow> map_option (\<lambda>xs. x # xs) (drain pop fuel l'))"

locale sequence_adt =
  fixes view :: "'l \<Rightarrow> 'd list \<Rightarrow> bool"
    and avail :: "'l \<Rightarrow> 'm \<Rightarrow> bool"
    and app :: "'l \<Rightarrow> 'd \<Rightarrow> 'm option \<Rightarrow> ('d option \<times> 'l) option"
    and pop :: "'l \<Rightarrow> ('d option \<times> 'l) option"
    and cnt :: "'l \<Rightarrow> int"
  assumes app_view: "view l xs \<Longrightarrow> avail l m \<Longrightarrow>
      \<exists>l'. app l x (Some m) = Some (Some x, l') \<and> view l' (xs @ [x]) \<and> (\<forall>m'. m' \<noteq> m \<longrightarrow> avail l m' \<longrightarrow> avail l' m')"
    and pop_view: "view l xs \<Longrightarrow> \<exists>l'. pop l = Some (if xs = [] then None else Some (hd xs), l') \<and> view l' (tl xs)"
    and cnt_view: "view l xs \<Longrightarrow> cnt l = int (length xs)"
begin

lemma append_all_view:
  "view l xs \<Longrightarrow> distinct (map snd ys) \<Longrightarrow> \<forall>m \<in> snd ` set ys. avail l m \<Longrightarrow>
   \<exists>l'. append_all app l ys = Some l' \<and> view l' (xs @ map fst ys)"
proof (induction ys arbitrary: l xs)
  case Nil
  then show ?case by simp
next
  case (Cons y ys)
  obtain x m where y: "y = (x, m)" by fastforce
  obtain l' where l': "app l x (Some m) = Some (Some x, l')" "view l' (xs @ [x])"
    "\<forall>m'. m' \<noteq> m \<longrightarrow> avail l m' \<longrightarrow> avail l' m'"
    using app_view [OF Cons(2), of m x] Cons(4) y by auto
  have "\<forall>m \<in> snd ` set ys. avail l' m" using Cons(3,4) y l'(3) by auto
  then show ?case using Cons(1) [OF l'(2)] Cons(3) l'(1) y by simp
qed

lemma drain_view: "view l xs \<Longrightarrow> length xs < fuel \<Longrightarrow> drain pop fuel l = Some xs"
proof (induction fuel arbitrary: l xs)
  case 0
  then show ?case by simp
next
  case (Suc fuel)
  obtain l' where "pop l = Some (if xs = [] then None else Some (hd xs), l')" "view l' (tl xs)"
    using pop_view [OF Suc(2)] by blast
  then show ?case using Suc(1) [of l' "tl xs"] Suc(3) by (cases xs) auto
qed

lemma fifo:
  assumes "view l []" "distinct (map snd ys)" "\<forall>m \<in> snd ` set ys. avail l m"
  shows "\<exists>l'. append_all app l ys = Some l' \<and> cnt l' = int (length ys) \<and>
    drain pop (Suc (length ys)) l' = Some (map fst ys)"
  using append_all_view [OF assms] drain_view cnt_view by fastforce

end

lemma assign_heap_None: "lheap l q = None \<Longrightarrow> lheap (assign l pp v) q = None"
  by (auto simp: assign_def split: loc.splits option.splits)

lemma list_append_heap:
  assumes "list_append l x (Some p) = Some (r, l')" "q \<noteq> p" "lheap l q = None"
  shows "lheap l' q = None"
proof -
  define l1 where "l1 = l\<lparr>lheap := (lheap l)(p \<mapsto> \<lparr>ndata = x, nnext = deref l (ltail l)\<rparr>)\<rparr>"
  define l2 where "l2 = (if deref l (ltail l) = None then l1\<lparr>ltail := LNext p\<rparr> else l1)"
  have "lheap l2 q = None" using assms(2,3) by (simp add: l2_def l1_def)
  then have "lheap (assign l2 (ltail l) (Some p)) q = None" by (rule assign_heap_None)
  moreover have "lheap l' = lheap (assign l2 (ltail l) (Some p))"
    using assms(1) unfolding list_append_def list_node_create_def Let_def option.case
      l1_def [symmetric] l2_def [symmetric] by (auto split: if_splits)
  ultimately show ?thesis by simp
qed

interpretation sq: sequence_adt elems_ok "\<lambda>l p. lheap l p = None" list_append list_pop list_count
proof
  fix l :: "'a lst" and xs p x
  assume "elems_ok l xs" "lheap l p = None"
  from list_append_ok [OF this] obtain l' where l': "list_append l x (Some p) = Some (Some x, l')"
    "elems_ok l' (xs @ [x])" by blast
  moreover have "\<forall>m'. m' \<noteq> p \<longrightarrow> lheap l m' = None \<longrightarrow> lheap l' m' = None"
    using list_append_heap [OF l'(1)] by blast
  ultimately show "\<exists>l'. list_append l x (Some p) = Some (Some x, l') \<and> elems_ok l' (xs @ [x]) \<and>
    (\<forall>m'. m' \<noteq> p \<longrightarrow> lheap l m' = None \<longrightarrow> lheap l' m' = None)"
    by (intro exI [of _ l'] conjI)
next
  fix l :: "'a lst" and xs
  assume "elems_ok l xs"
  from list_pop_ok [OF this] obtain l' where "list_pop l = Some (hdo xs, l')" "elems_ok l' (tl xs)" by blast
  then show "\<exists>l'. list_pop l = Some (if xs = [] then None else Some (hd xs), l') \<and> elems_ok l' (tl xs)"
    by (cases xs) simp_all
qed (rule list_count_ok)

section \<open>Properties\<close>

text \<open>A list with the data 3, 1, 2 at the addresses 10, 11, 12, as \<open>list_append\<close> builds it.\<close>

definition list_example :: "int lst" where
  "list_example = \<lparr>lheap = [10 \<mapsto> \<lparr>ndata = 3, nnext = Some 11\<rparr>, 11 \<mapsto> \<lparr>ndata = 1, nnext = Some 12\<rparr>,
      12 \<mapsto> \<lparr>ndata = 2, nnext = None\<rparr>], lhead = Some 10, ltail = LNext 12, literators = [], lfdel = True, lcount = 3\<rparr>"

lemma list_example_ok: "elems_ok list_example [3, 1, 2]"
proof (rule elems_okI)
  show "list_rep list_example [10, 11, 12]"
    by (auto simp: list_rep_def list_example_def loc_of_def split: if_splits)
qed (simp add: list_example_def node_data_def)

text \<open>C11: appending data one after the other and popping until the list is empty returns the data in order,
  in as many nodes as were appended; no assertion of the pointer code fails.\<close>

theorem list_fifo:
  assumes "elems_ok l []" "distinct (map snd ys)" "\<forall>p \<in> snd ` set ys. lheap l p = None"
  shows "\<exists>l'. append_all list_append l ys = Some l' \<and> list_count l' = int (length ys) \<and>
    drain list_pop (Suc (length ys)) l' = Some (map fst ys)"
  by (rule sq.fifo [OF assms])

theorem list_fifo_witness:
  "\<exists>l'. append_all list_append (the (list_create True True)) [(''a'', 3), (''b'', 7)] = Some l' \<and> list_count l' = 2 \<and>
    drain list_pop 3 l' = Some [''a'', ''b'']"
  using list_fifo [of "the (list_create True True)" "[(''a'', 3), (''b'', 7)]"] list_create_ok [of True "the (list_create True True)"]
  by (simp add: list_create_def numeral_3_eq_3)

text \<open>C13: \<open>list_next\<close> returns the element behind the current one and moves on, keeping the list; at the end it
  returns \<open>NULL\<close>.\<close>

theorem list_next_correct:
  assumes "iter_view l a us cur vs"
  shows "\<exists>l'. list_next l a = Some (if vs = [] then None else Some (hd vs), l') \<and>
    iter_view l' a (us @ cur) (take 1 vs) (drop 1 vs) \<and> elems l' = elems l"
proof -
  obtain l' where l': "list_next l a = Some (hdo vs, l')" "iter_view l' a (us @ cur) (take 1 vs) (drop 1 vs)"
    using list_next_view [OF assms] by blast
  moreover have "elems l' = elems l"
    using iter_view_elems [OF assms] iter_view_elems [OF l'(2)] by (simp add: elems_ok_def)
  ultimately show ?thesis by (cases vs) auto
qed

lemma list_example_iter: "iter_view (snd (list_iterator_create list_example (Some 5))) 5 [] [] [3, 1, 2]"
  using list_iterator_create_view [OF list_example_ok, of 5] by (auto simp: list_example_def)

theorem list_next_correct_witness:
  "\<exists>l'. list_next (snd (list_iterator_create list_example (Some 5))) 5 = Some (Some 3, l') \<and> iter_view l' 5 [] [3] [1, 2]"
  using list_next_correct [OF list_example_iter] by auto

text \<open>C14: \<open>list_remove\<close> unlinks the element \<open>list_next\<close> returned last, and only that one; the iteration goes on
  behind it.\<close>

theorem list_remove_correct:
  assumes "iter_view l a us [x] vs"
  shows "\<exists>l'. list_remove l a = Some (Some x, l') \<and> iter_view l' a us [] vs \<and> elems l' = Some (us @ vs) \<and>
    list_count l' = list_count l - 1"
proof -
  obtain l' where l': "list_remove l a = Some (Some x, l')" "iter_view l' a us [] vs"
    using list_remove_view [OF assms] by blast
  have e: "elems_ok l' (us @ vs)" using iter_view_elems [OF l'(2)] by simp
  then have "list_count l' = list_count l - 1"
    using list_count_ok [OF iter_view_elems [OF assms]] list_count_ok [OF e] by simp
  then show ?thesis using l' e by (auto simp: elems_ok_def)
qed

theorem list_remove_correct_witness:
  "\<exists>l l'. list_remove l 5 = Some (Some (3 :: int), l') \<and> elems l' = Some [1, 2]"
proof -
  obtain l where "iter_view l 5 [] [3 :: int] [1, 2]"
    using list_next_view [OF list_example_iter] by auto
  from list_remove_correct [OF this] show ?thesis by auto
qed

text \<open>C12: for a comparison by a key, \<open>list_sort\<close> leaves the list stably sorted, as the library's \<open>sort_key\<close>.\<close>

theorem list_sort_correct:
  fixes key :: "'d \<Rightarrow> 'k :: linorder"
  assumes "elems_ok l xs" "\<And>x y. f x y < 0 \<longleftrightarrow> key x < key y"
  shows "\<exists>l'. list_sort l f = Some l' \<and> list_inv l' \<and> elems l' = Some (sort_key key xs)"
proof -
  obtain l' where "list_sort l f = Some l'" "elems_ok l' (sort_spec f xs)"
    using list_sort_ok [OF assms(1), of f] by blast
  then show ?thesis using sort_spec_key [of f key xs, OF assms(2)] by (simp add: elems_ok_def)
qed

theorem list_sort_correct_witness:
  "\<exists>l'. list_sort list_example (\<lambda>x y. x - y) = Some l' \<and> elems l' = Some [1, 2, 3]"
proof -
  have "\<exists>l'. list_sort list_example (\<lambda>x y. x - y) = Some l' \<and> list_inv l' \<and> elems l' = Some (sort_key (\<lambda>x. x) [3, 1, 2])"
    by (rule list_sort_correct [OF list_example_ok]) simp
  then show ?thesis by (auto simp: insort_key.simps)
qed

text \<open>\<open>list_delete_all\<close> removes exactly the selected elements, keeps the order of the others and returns how
  many it removed.\<close>

theorem list_delete_all_correct:
  assumes "elems_ok l xs"
  shows "\<exists>n ds l'. list_delete_all l f = Some (n, ds, l') \<and> n = int (length (filter f xs)) \<and> list_inv l' \<and>
    elems l' = Some (filter (Not \<circ> f) xs) \<and> ds = (if lfdel l then filter f xs else [])"
  using list_delete_all_ok [OF assms, of f] by (auto simp: elems_ok_def)

theorem list_delete_all_correct_witness:
  "\<exists>l'. list_delete_all list_example (\<lambda>x. x > 1) = Some (2, [3, 2], l') \<and> elems l' = Some [1]"
  using list_delete_all_correct [OF list_example_ok, of "\<lambda>x. x > 1"] by (auto simp: list_example_def)

end
