(* ===== verification/Lmt_Cstdio.thy ===== *)
theory Lmt_Cstdio
  imports Lmt_Prelude
begin

text \<open>
  The parts of the C library the sources print and parse metric strings with: binary
  floating point (round to nearest, ties to even, with the precision of \<open>float\<close> and
  \<open>double\<close> and no bound on the exponent), the conversions \<open>%f\<close>, \<open>%"PRIu64"\<close>, \<open>%d\<close>, \<open>%s\<close>,
  \<open>%[...]\<close> of \<open>scanf\<close> as an interpreter of directive lists, and \<open>snprintf\<close>. The interpreter
  follows glibc: an input failure before the first assignment returns EOF (-1), unsigned
  overflow saturates, a minus sign negates modulo \<open>2^64\<close>. Hexadecimal floats and signed
  zeros are not modelled.
\<close>

section \<open>Floating point\<close>

datatype fp = FFin rat | FInf bool | FNaN

fun bit_length :: "nat \<Rightarrow> nat" where
  "bit_length n = (if n = 0 then 0 else Suc (bit_length (n div 2)))"

declare bit_length.simps [simp del]

definition pow2 :: "int \<Rightarrow> rat" where
  "pow2 k = (if k \<ge> 0 then 2 ^ nat k else 1 / 2 ^ nat (- k))"

text \<open>The exponent \<open>e\<close> with \<open>2^e \<le> |x| < 2^(e+1)\<close>.\<close>

definition rat_exp2 :: "rat \<Rightarrow> int" where
  "rat_exp2 x =
     (let (n, d) = quotient_of x;
          e = int (bit_length (nat \<bar>n\<bar>)) - int (bit_length (nat d))
      in if \<bar>x\<bar> < pow2 e then e - 1 else e)"

definition round_half_even :: "rat \<Rightarrow> int" where
  "round_half_even x =
     (let f = \<lfloor>x\<rfloor>; d = x - of_int f
      in if d < 1/2 then f else if 1/2 < d then f + 1 else if even f then f else f + 1)"

definition rnd :: "nat \<Rightarrow> rat \<Rightarrow> rat" where
  "rnd p x =
     (if x = 0 then 0
      else let k = int p - 1 - rat_exp2 x in of_int (round_half_even (x * pow2 k)) * pow2 (- k))"

definition dbl :: "rat \<Rightarrow> fp" where "dbl r = FFin (rnd 53 r)"

definition flt :: "rat \<Rightarrow> fp" where "flt r = FFin (rnd 24 r)"

definition fp_of_u64 :: "u64 \<Rightarrow> fp" where "fp_of_u64 w = dbl (of_nat (unat w))"

fun fp_neg :: "fp \<Rightarrow> fp" where
  "fp_neg (FFin a) = FFin (- a)"
| "fp_neg (FInf s) = FInf (\<not> s)"
| "fp_neg FNaN = FNaN"

fun fp_add :: "fp \<Rightarrow> fp \<Rightarrow> fp" where
  "fp_add FNaN _ = FNaN"
| "fp_add _ FNaN = FNaN"
| "fp_add (FInf s) (FInf t) = (if s = t then FInf s else FNaN)"
| "fp_add (FInf s) (FFin _) = FInf s"
| "fp_add (FFin _) (FInf t) = FInf t"
| "fp_add (FFin a) (FFin b) = dbl (a + b)"

definition fp_sub :: "fp \<Rightarrow> fp \<Rightarrow> fp" where
  "fp_sub a b = fp_add a (fp_neg b)"

fun fp_mul :: "fp \<Rightarrow> fp \<Rightarrow> fp" where
  "fp_mul FNaN _ = FNaN"
| "fp_mul _ FNaN = FNaN"
| "fp_mul (FInf s) (FInf t) = FInf (s \<noteq> t)"
| "fp_mul (FInf s) (FFin b) = (if b = 0 then FNaN else FInf (s \<noteq> (b < 0)))"
| "fp_mul (FFin a) (FInf t) = (if a = 0 then FNaN else FInf ((a < 0) \<noteq> t))"
| "fp_mul (FFin a) (FFin b) = dbl (a * b)"

fun fp_div :: "fp \<Rightarrow> fp \<Rightarrow> fp" where
  "fp_div FNaN _ = FNaN"
| "fp_div _ FNaN = FNaN"
| "fp_div (FInf s) (FInf t) = FNaN"
| "fp_div (FInf s) (FFin b) = FInf (s \<noteq> (b < 0))"
| "fp_div (FFin a) (FInf t) = FFin 0"
| "fp_div (FFin a) (FFin b) =
     (if b = 0 then (if a = 0 then FNaN else FInf (a < 0)) else dbl (a / b))"

fun fp_less :: "fp \<Rightarrow> fp \<Rightarrow> bool" where
  "fp_less FNaN _ = False"
| "fp_less _ FNaN = False"
| "fp_less (FInf s) (FInf t) = (s \<and> \<not> t)"
| "fp_less (FInf s) (FFin _) = s"
| "fp_less (FFin _) (FInf t) = (\<not> t)"
| "fp_less (FFin a) (FFin b) = (a < b)"

fun fp_eq :: "fp \<Rightarrow> fp \<Rightarrow> bool" where
  "fp_eq FNaN _ = False"
| "fp_eq _ FNaN = False"
| "fp_eq a b = (a = b)"

lemma pow2_code [code]:
  "pow2 k = (if k \<ge> 0 then of_int (2 ^ nat k) else Fract 1 (2 ^ nat (- k)))"
  by (simp add: pow2_def Fract_of_int_quotient)

lemma pow2_pos [simp]: "0 < pow2 k"
  by (simp add: pow2_def)

lemma pow2_nonneg [simp]: "0 \<le> pow2 k"
  by (rule less_imp_le) simp

lemma round_half_even_nonneg: "0 \<le> x \<Longrightarrow> 0 \<le> round_half_even x"
  by (simp add: round_half_even_def Let_def)

lemma round_half_even_mono: "x \<le> y \<Longrightarrow> round_half_even x \<le> round_half_even y"
proof -
  assume le: "x \<le> y"
  then have fl: "\<lfloor>x\<rfloor> \<le> \<lfloor>y\<rfloor>" by (rule floor_mono)
  show ?thesis
  proof (cases "\<lfloor>x\<rfloor> = \<lfloor>y\<rfloor>")
    case True
    with le show ?thesis by (auto simp: round_half_even_def Let_def)
  next
    case False
    with fl have "\<lfloor>x\<rfloor> + 1 \<le> \<lfloor>y\<rfloor>" by simp
    then show ?thesis by (auto simp: round_half_even_def Let_def)
  qed
qed

lemma round_half_even_of_int [simp]: "round_half_even (of_int i) = i"
  by (simp add: round_half_even_def)

lemma rnd_0 [simp]: "rnd p 0 = 0"
  by (simp add: rnd_def)

lemma rnd_nonneg: "0 \<le> x \<Longrightarrow> 0 \<le> rnd p x"
  by (simp add: rnd_def Let_def round_half_even_nonneg)

text \<open>The exponent is the one of the leading bit, so rounding keeps the order and the integers.\<close>

lemma pow2_powi: "pow2 k = 2 powi k"
  by (simp add: pow2_def power_int_def field_simps)

lemma pow2_add: "pow2 (a + b) = pow2 a * pow2 b"
  by (simp add: pow2_powi power_int_add)

lemma pow2_mono: "a \<le> b \<Longrightarrow> pow2 a \<le> pow2 b"
  by (simp add: pow2_powi power_int_increasing)

lemma pow2_nat: "pow2 (int n) = 2 ^ n"
  by (simp add: pow2_def)

lemma bit_length_bounds: "0 < n \<Longrightarrow> 2 ^ (bit_length n - 1) \<le> n \<and> n < 2 ^ bit_length n \<and> 0 < bit_length n"
proof (induction n rule: bit_length.induct)
  case (1 n)
  show ?case
  proof (cases "n < 2")
    case True
    with 1 have "n = 1" by simp
    then show ?thesis by (simp add: bit_length.simps)
  next
    case False
    with 1 have ih: "2 ^ (bit_length (n div 2) - 1) \<le> n div 2" "n div 2 < 2 ^ bit_length (n div 2)"
      "0 < bit_length (n div 2)" by auto
    have bl: "bit_length n = Suc (bit_length (n div 2))" using 1 by (subst bit_length.simps) simp
    have "2 * 2 ^ (bit_length (n div 2) - 1) \<le> n" using ih(1) by linarith
    then have "2 ^ bit_length (n div 2) \<le> n" using ih(3) by (simp add: power_eq_if split: if_splits)
    moreover have "n < 2 * 2 ^ bit_length (n div 2)" using ih(2) by linarith
    ultimately show ?thesis unfolding bl by simp
  qed
qed

lemma bit_length_pow2:
  assumes "0 < m"
  shows "pow2 (int (bit_length m) - 1) \<le> of_nat m" "of_nat m < pow2 (int (bit_length m))"
proof -
  note b = bit_length_bounds [OF assms]
  have "(of_nat m :: rat) < of_nat (2 ^ bit_length m)" unfolding of_nat_less_iff using b by blast
  then show "of_nat m < pow2 (int (bit_length m))" by (simp add: pow2_nat)
  have "(of_nat (2 ^ (bit_length m - 1)) :: rat) \<le> of_nat m" unfolding of_nat_le_iff using b by blast
  moreover have "int (bit_length m) - 1 = int (bit_length m - 1)" using b by simp
  ultimately show "pow2 (int (bit_length m) - 1) \<le> of_nat m" by (simp only: pow2_nat) simp
qed

lemma rat_exp2_bounds:
  assumes "0 < x"
  shows "pow2 (rat_exp2 x) \<le> x" "x < pow2 (rat_exp2 x + 1)"
proof -
  obtain n d where q: "quotient_of x = (n, d)" by fastforce
  then have d: "0 < d" and x: "x = of_int n / of_int d"
    using quotient_of_denom_pos quotient_of_div by blast+
  have n: "0 < n" using assms d by (simp add: x zero_less_divide_iff)
  define a where "a = bit_length (nat n)"
  define b where "b = bit_length (nat d)"
  have rn: "(of_int n :: rat) = of_nat (nat n)" "(of_int d :: rat) = of_nat (nat d)" using n d by simp_all
  have N: "pow2 (int a - 1) \<le> (of_int n :: rat)" "(of_int n :: rat) < pow2 (int a)"
    unfolding rn a_def using n bit_length_pow2 [of "nat n"] by simp_all
  have D: "pow2 (int b - 1) \<le> (of_int d :: rat)" "(of_int d :: rat) < pow2 (int b)"
    unfolding rn b_def using d bit_length_pow2 [of "nat d"] by simp_all
  have dpos: "(0 :: rat) < of_int d" using d by simp
  have lo: "pow2 (int a - int b - 1) \<le> x"
  proof -
    have "pow2 (int a - int b - 1) * of_int d \<le> pow2 (int a - int b - 1) * pow2 (int b)"
      using D(2) by (simp add: mult_left_mono)
    also have "\<dots> = pow2 (int a - 1)" by (simp add: pow2_add [symmetric])
    finally show ?thesis using N(1) dpos by (simp add: x pos_le_divide_eq)
  qed
  have hi: "x < pow2 (int a - int b + 1)"
  proof -
    have "pow2 (int a) = pow2 (int a - int b + 1) * pow2 (int b - 1)" by (simp add: pow2_add [symmetric])
    also have "\<dots> \<le> pow2 (int a - int b + 1) * of_int d" using D(1) by (simp add: mult_left_mono)
    finally show ?thesis using N(2) dpos by (simp add: x pos_divide_less_eq)
  qed
  have e: "rat_exp2 x = (if x < pow2 (int a - int b) then int a - int b - 1 else int a - int b)"
    using assms n d by (simp add: rat_exp2_def q a_def b_def)
  show "pow2 (rat_exp2 x) \<le> x" "x < pow2 (rat_exp2 x + 1)" using lo hi by (simp_all add: e)
qed

lemma pow2_cancel [simp]: "pow2 k * pow2 (- k) = 1" "pow2 (- k) * pow2 k = 1"
  using pow2_add [of k "- k"] pow2_add [of "- k" k] by (simp_all add: pow2_def)

lemma pow2_of_int: "0 \<le> k \<Longrightarrow> pow2 k = of_int (2 ^ nat k)"
  by (simp add: pow2_def)

lemma rnd_upper:
  assumes "0 < x" "x \<le> pow2 m" "rat_exp2 x < m" "1 \<le> p"
  shows "rnd p x \<le> pow2 m"
proof -
  define k where "k = int p - 1 - rat_exp2 x"
  have mk: "0 \<le> m + k" using assms(3,4) by (simp add: k_def)
  have "x * pow2 k \<le> pow2 (m + k)" using assms(2) by (simp add: pow2_add mult_right_mono)
  then have "round_half_even (x * pow2 k) \<le> 2 ^ nat (m + k)"
    using round_half_even_mono round_half_even_of_int pow2_of_int [OF mk] by metis
  then have "of_int (round_half_even (x * pow2 k)) \<le> pow2 (m + k)"
    unfolding pow2_of_int [OF mk] of_int_le_iff .
  then have "of_int (round_half_even (x * pow2 k)) * pow2 (- k) \<le> pow2 (m + k) * pow2 (- k)"
    by (rule mult_right_mono) simp
  also have "\<dots> = pow2 m" by (simp add: pow2_add [symmetric])
  finally show ?thesis using assms(1) by (simp add: rnd_def Let_def k_def [symmetric])
qed

lemma rnd_lower:
  assumes "0 < x" "1 \<le> p"
  shows "pow2 (rat_exp2 x) \<le> rnd p x"
proof -
  define k where "k = int p - 1 - rat_exp2 x"
  have mk: "0 \<le> rat_exp2 x + k" using assms(2) by (simp add: k_def)
  have "pow2 (rat_exp2 x + k) \<le> x * pow2 k" using rat_exp2_bounds(1) [OF assms(1)] by (simp add: pow2_add mult_right_mono)
  then have "2 ^ nat (rat_exp2 x + k) \<le> round_half_even (x * pow2 k)"
    using round_half_even_mono round_half_even_of_int pow2_of_int [OF mk] by metis
  then have "pow2 (rat_exp2 x + k) \<le> of_int (round_half_even (x * pow2 k))"
    unfolding pow2_of_int [OF mk] of_int_le_iff .
  then have "pow2 (rat_exp2 x + k) * pow2 (- k) \<le> of_int (round_half_even (x * pow2 k)) * pow2 (- k)"
    by (rule mult_right_mono) simp
  then show ?thesis using assms(1) by (simp add: rnd_def Let_def k_def [symmetric] pow2_add mult.assoc)
qed

lemma rnd_mono:
  assumes "0 \<le> x" "x \<le> y" "1 \<le> p"
  shows "rnd p x \<le> rnd p y"
proof (cases "x = 0")
  case True
  then show ?thesis using assms rnd_nonneg [of y p] by simp
next
  case False
  with assms have x: "0 < x" and y: "0 < y" by auto
  have "pow2 (rat_exp2 x) < pow2 (rat_exp2 y + 1)"
    using rat_exp2_bounds [OF x] rat_exp2_bounds [OF y] assms(2) by linarith
  then have le: "rat_exp2 x \<le> rat_exp2 y" using pow2_mono [of "rat_exp2 y + 1" "rat_exp2 x"] by force
  show ?thesis
  proof (cases "rat_exp2 x = rat_exp2 y")
    case True
    have "round_half_even (x * pow2 k) \<le> round_half_even (y * pow2 k)" for k
      by (rule round_half_even_mono) (simp add: assms(2) mult_right_mono)
    then show ?thesis using x y True by (simp add: rnd_def Let_def mult_right_mono)
  next
    case False
    with le have lt: "rat_exp2 x < rat_exp2 y" by simp
    have "x \<le> pow2 (rat_exp2 y)" using rat_exp2_bounds(2) [OF x] pow2_mono [of "rat_exp2 x + 1" "rat_exp2 y"] lt by simp
    then have "rnd p x \<le> pow2 (rat_exp2 y)" using rnd_upper [OF x _ lt assms(3)] by blast
    then show ?thesis using rnd_lower [OF y assms(3)] by linarith
  qed
qed

lemma rnd_pos: "0 < x \<Longrightarrow> 1 \<le> p \<Longrightarrow> 0 < rnd p x"
  using rnd_lower [of x p] pow2_pos [of "rat_exp2 x"] by linarith

text \<open>Integers of at most \<open>p\<close> bits are exact.\<close>

lemma rnd_of_nat:
  assumes "n < 2 ^ p" "1 \<le> p"
  shows "rnd p (of_nat n) = of_nat n"
proof (cases "n = 0")
  case False
  define k where "k = int p - 1 - rat_exp2 (of_nat n)"
  have x: "(0 :: rat) < of_nat n" using False by simp
  have "(of_nat n :: rat) < of_nat (2 ^ p)" using assms(1) unfolding of_nat_less_iff .
  also have "\<dots> = pow2 (int p)" by (simp add: pow2_nat)
  finally have "pow2 (rat_exp2 (of_nat n)) < pow2 (int p)"
    using rat_exp2_bounds(1) [OF x] by (rule le_less_trans [rotated])
  then have "rat_exp2 (of_nat n) < int p" using pow2_mono [of "int p" "rat_exp2 (of_nat n)"] by force
  then have k: "0 \<le> k" by (simp add: k_def)
  have "of_nat n * pow2 k = of_int (int n * 2 ^ nat k)" by (simp add: pow2_of_int [OF k])
  then have "round_half_even (of_nat n * pow2 k) = int n * 2 ^ nat k"
    by (simp only: round_half_even_of_int)
  then have "rnd p (of_nat n) = of_int (int n * 2 ^ nat k) * pow2 (- k)"
    using x by (simp add: rnd_def Let_def k_def [symmetric])
  also have "\<dots> = of_nat n * (pow2 k * pow2 (- k))" by (simp add: pow2_of_int [OF k])
  finally show ?thesis by simp
qed simp

lemma fp_eq_sym: "fp_eq a b = fp_eq b a"
  by (cases a; cases b) auto

lemma fp_less_irrefl [simp]: "\<not> fp_less a a"
  by (cases a) auto

lemma fp_less_asym: "fp_less a b \<Longrightarrow> \<not> fp_less b a"
  by (cases a; cases b) auto

lemma fp_less_trans: "fp_less a b \<Longrightarrow> fp_less b c \<Longrightarrow> fp_less a c"
  by (cases a; cases b; cases c) auto

section \<open>Printing with \<open>%f\<close>\<close>

definition pad6 :: "nat \<Rightarrow> string" where
  "pad6 m = replicate (6 - length (dec_string m)) (digit_char 0) @ dec_string m"

definition micro :: "rat \<Rightarrow> nat" where
  "micro r = nat (round_half_even (\<bar>r\<bar> * 1000000))"

fun print_f :: "fp \<Rightarrow> string" where
  "print_f (FFin r) =
     (if r < 0 then ''-'' else []) @ dec_string (micro r div 1000000) @ ''.'' @
     pad6 (micro r mod 1000000)"
| "print_f (FInf s) = (if s then ''-inf'' else ''inf'')"
| "print_f FNaN = ''-nan''"

text \<open>The value the printed text denotes, read back as a \<open>float\<close>.\<close>

fun reread_f :: "fp \<Rightarrow> fp" where
  "reread_f (FFin r) = flt ((if r < 0 then - 1 else 1) * (of_nat (micro r) / 1000000))"
| "reread_f (FInf s) = FInf s"
| "reread_f FNaN = FNaN"

section \<open>Scanning\<close>

datatype 'a scan = SEof | SFail string | SOk 'a string

datatype sval = VU u64 | VI int | VS string | VF fp

definition skip_ws :: "string \<Rightarrow> string" where
  "skip_ws s = dropWhile isspace s"

definition take_sign :: "string \<Rightarrow> bool \<times> string" where
  "take_sign s =
     (case s of [] \<Rightarrow> (False, [])
      | c # cs \<Rightarrow> if c = CHR ''-'' then (True, cs) else if c = CHR ''+'' then (False, cs)
                else (False, s))"

text \<open>An integer conversion: white space, a sign, digits; the value is the sign and the digits.\<close>

definition conv_int :: "string \<Rightarrow> (bool \<times> nat) scan" where
  "conv_int s =
     (let s1 = skip_ws s
      in if s1 = [] then SEof
         else let (neg, s2) = take_sign s1; ds = takeWhile isdigit s2
              in if ds = [] then SFail s2
                 else SOk (neg, nat_of_digits ds) (dropWhile isdigit s2))"

text \<open>\<open>strtoull\<close> on what was matched: saturate, then negate modulo \<open>2^64\<close>.\<close>

definition strtou64 :: "bool \<times> nat \<Rightarrow> u64" where
  "strtou64 = (\<lambda>(neg, n). if 2 ^ 64 \<le> n then - 1 else if neg then - of_nat n else of_nat n)"

text \<open>\<open>strtol\<close> saturates at the range of \<open>long\<close>; \<open>%d\<close> then stores the low 32 bits.\<close>

definition strtoint :: "bool \<times> nat \<Rightarrow> int" where
  "strtoint = (\<lambda>(neg, n).
     let v = (if neg then max (- (2 ^ 63)) (- int n) else min (2 ^ 63 - 1) (int n))
     in sint (word_of_int v :: u32))"

definition lower :: "char \<Rightarrow> char" where
  "lower c = (if 65 \<le> (of_char c :: nat) \<and> (of_char c :: nat) \<le> 90
              then char_of ((of_char c :: nat) + 32) else c)"

definition conv_exp :: "string \<Rightarrow> int \<times> string" where
  "conv_exp s =
     (case s of [] \<Rightarrow> (0, [])
      | c # cs \<Rightarrow>
          if lower c = CHR ''e'' then
            let (neg, s1) = take_sign cs; ds = takeWhile isdigit s1; n = int (nat_of_digits ds)
            in (if neg then - n else n, dropWhile isdigit s1)
          else (0, s))"

definition pow10 :: "int \<Rightarrow> rat" where
  "pow10 k = (if k \<ge> 0 then 10 ^ nat k else 1 / 10 ^ nat (- k))"

definition conv_decimal :: "bool \<Rightarrow> string \<Rightarrow> rat scan" where
  "conv_decimal neg s =
     (let ds1 = takeWhile isdigit s; r1 = dropWhile isdigit s;
          (ds2, r2) = (case r1 of [] \<Rightarrow> ([], [])
             | c # cs \<Rightarrow> if c = CHR ''.'' then (takeWhile isdigit cs, dropWhile isdigit cs)
                        else ([], r1));
          (e, r3) = conv_exp r2;
          m = of_nat (nat_of_digits (ds1 @ ds2)) / 10 ^ length ds2 * pow10 e
      in if ds1 = [] \<and> ds2 = [] then SFail r1 else SOk (if neg then - m else m) r3)"

definition conv_float :: "string \<Rightarrow> fp scan" where
  "conv_float s =
     (let s1 = skip_ws s
      in if s1 = [] then SEof
         else let (neg, s2) = take_sign s1; l = map lower s2
              in if take 3 l = ''nan'' then SOk FNaN (drop 3 s2)
                 else if take 8 l = ''infinity'' then SOk (FInf neg) (drop 8 s2)
                 else if take 4 l = ''infi'' then SFail (drop 4 s2)
                 else if take 3 l = ''inf'' then SOk (FInf neg) (drop 3 s2)
                 else case conv_decimal neg s2 of SEof \<Rightarrow> SEof | SFail r \<Rightarrow> SFail r
                      | SOk m r \<Rightarrow> SOk (flt m) r)"

text \<open>
  Directives of the formats the sources use: white space, a literal character,
  \<open>%"PRIu64"\<close>, \<open>%*u\<close> and \<open>%*d\<close>, \<open>%d\<close>, \<open>%f\<close>, \<open>%*f\<close>, \<open>%Ns\<close>, \<open>%*s\<close>, \<open>%[^c]\<close> with an optional
  width, and \<open>%*[c]\<close>.
\<close>

datatype dir = DWs | DLit char | DU64 | DSkipInt | DInt | DFloat | DSkipFloat
  | DStr nat | DSkipStr | DNot char "nat option" | DSkipIn char

definition span_max :: "nat option \<Rightarrow> (char \<Rightarrow> bool) \<Rightarrow> string \<Rightarrow> string \<times> string" where
  "span_max w P s =
     (let t = takeWhile P s; t' = (case w of None \<Rightarrow> t | Some n \<Rightarrow> take n t)
      in (t', drop (length t') s))"

definition conv_str :: "nat option \<Rightarrow> string \<Rightarrow> string scan" where
  "conv_str w s =
     (let s1 = skip_ws s; (t, r) = span_max w (\<lambda>c. \<not> isspace c) s1
      in if s1 = [] then SEof else SOk t r)"

definition conv_set :: "nat option \<Rightarrow> (char \<Rightarrow> bool) \<Rightarrow> string \<Rightarrow> string scan" where
  "conv_set w P s =
     (let (t, r) = span_max w P s
      in if s = [] then SEof else if t = [] then SFail s else SOk t r)"

fun scan_step :: "dir \<Rightarrow> string \<Rightarrow> sval option scan" where
  "scan_step DWs s = SOk None (skip_ws s)"
| "scan_step (DLit c) s =
     (case s of [] \<Rightarrow> SEof | x # xs \<Rightarrow> if x = c then SOk None xs else SFail s)"
| "scan_step DU64 s = map_scan (\<lambda>v. Some (VU (strtou64 v))) (conv_int s)"
| "scan_step DSkipInt s = map_scan (\<lambda>_. None) (conv_int s)"
| "scan_step DInt s = map_scan (\<lambda>v. Some (VI (strtoint v))) (conv_int s)"
| "scan_step DFloat s = map_scan (\<lambda>v. Some (VF v)) (conv_float s)"
| "scan_step DSkipFloat s = map_scan (\<lambda>_. None) (conv_float s)"
| "scan_step (DStr n) s = map_scan (\<lambda>t. Some (VS t)) (conv_str (Some n) s)"
| "scan_step DSkipStr s = map_scan (\<lambda>_. None) (conv_str None s)"
| "scan_step (DNot c w) s = map_scan (\<lambda>t. Some (VS t)) (conv_set w (\<lambda>x. x \<noteq> c) s)"
| "scan_step (DSkipIn c) s = map_scan (\<lambda>_. None) (conv_set None (\<lambda>x. x = c) s)"

text \<open>The return value, the assigned values, what is left of the input, and whether the end
  of the input was hit.\<close>

fun scan_dirs :: "dir list \<Rightarrow> string \<Rightarrow> sval list \<times> string \<times> bool" where
  "scan_dirs [] s = ([], s, False)"
| "scan_dirs (d # ds) s =
     (case scan_step d s of SEof \<Rightarrow> ([], [], True) | SFail r \<Rightarrow> ([], r, False)
      | SOk v r \<Rightarrow>
          (case scan_dirs ds r of (vs, r', eof) \<Rightarrow>
             ((case v of None \<Rightarrow> vs | Some x \<Rightarrow> x # vs), r', eof)))"

definition scanf_result :: "sval list \<times> string \<times> bool \<Rightarrow> int" where
  "scanf_result = (\<lambda>(vs, r, eof). if vs = [] \<and> eof then - 1 else int (length vs))"

definition sscanf :: "dir list \<Rightarrow> string \<Rightarrow> int \<times> sval list" where
  "sscanf ds s = (let r = scan_dirs ds s in (scanf_result r, fst r))"

section \<open>\<open>snprintf\<close>\<close>

text \<open>The return value is the length of the whole output; the buffer receives what fits.\<close>

definition snprintf :: "nat \<Rightarrow> string \<Rightarrow> int \<times> string" where
  "snprintf len out = (int (length out), take (len - 1) out)"

definition print_u64 :: "u64 \<Rightarrow> string" where
  "print_u64 w = dec_string (unat w)"

text \<open>\<open>strtoul (s, &endptr, 10)\<close>: the value and the text at \<open>endptr\<close>.\<close>

definition strtoul10 :: "string \<Rightarrow> u64 \<times> string" where
  "strtoul10 s = (case conv_int s of SOk v r \<Rightarrow> (strtou64 v, r) | _ \<Rightarrow> (0, s))"

section \<open>What the scanners read back\<close>

lemma skip_ws_nonspace: "s \<noteq> [] \<Longrightarrow> \<not> isspace (hd s) \<Longrightarrow> skip_ws s = s"
  by (simp add: skip_ws_def dropWhile_hd_stop)

lemma skip_ws_Nil [simp]: "skip_ws [] = []"
  by (simp add: skip_ws_def)

lemma skip_ws_Cons_nonspace [simp]: "\<not> isspace c \<Longrightarrow> skip_ws (c # s) = c # s"
  by (simp add: skip_ws_def)

lemma skip_ws_dec_string [simp]: "skip_ws (dec_string n @ r) = dec_string n @ r"
  by (rule skip_ws_nonspace) simp_all

lemma isdigit_not_sign: "isdigit c \<Longrightarrow> c \<noteq> CHR ''-'' \<and> c \<noteq> CHR ''+''"
  by auto

lemma take_sign_digit: "s \<noteq> [] \<Longrightarrow> isdigit (hd s) \<Longrightarrow> take_sign s = (False, s)"
  by (cases s) (auto simp: take_sign_def dest: isdigit_not_sign)

lemma take_sign_dec_string [simp]: "take_sign (dec_string n @ r) = (False, dec_string n @ r)"
  by (rule take_sign_digit) simp_all

lemma conv_int_dec_string [scan_simps]:
  "\<not> isdigit c \<Longrightarrow> conv_int (dec_string n @ c # r) = SOk (False, n) (c # r)"
  by (simp add: conv_int_def)

lemma conv_int_dec_string_end [scan_simps]:
  "conv_int (dec_string n) = SOk (False, n) []"
  using skip_ws_dec_string [of n "[]"] take_sign_dec_string [of n "[]"] by (simp add: conv_int_def)

lemma strtou64_unat [simp]: "strtou64 (False, unat w) = w"
  using unat_u64_bound [of w] by (simp add: strtou64_def del: unat_u64_bound)

lemma scan_U64 [scan_simps]:
  "\<not> isdigit c \<Longrightarrow> scan_step DU64 (print_u64 w @ c # r) = SOk (Some (VU w)) (c # r)"
  by (simp add: print_u64_def scan_simps)

lemma scan_U64_end [scan_simps]: "scan_step DU64 (print_u64 w) = SOk (Some (VU w)) []"
  by (simp add: print_u64_def scan_simps)

lemma takeWhile_neq_sep [simp]:
  "c \<notin> set t \<Longrightarrow> takeWhile (\<lambda>x. x \<noteq> c) (t @ c # r) = t"
  "c \<notin> set t \<Longrightarrow> takeWhile (\<lambda>x. x \<noteq> c) t = t"
  by (induction t) auto

lemma scan_Not [scan_simps]:
  "t \<noteq> [] \<Longrightarrow> c \<notin> set t \<Longrightarrow> scan_step (DNot c None) (t @ c # r) = SOk (Some (VS t)) (c # r)"
  by (simp add: conv_set_def span_max_def Let_def)

lemma scan_Not_end [scan_simps]:
  "t \<noteq> [] \<Longrightarrow> c \<notin> set t \<Longrightarrow> scan_step (DNot c None) t = SOk (Some (VS t)) []"
  by (simp add: conv_set_def span_max_def Let_def)

lemma scan_Lit [scan_simps]: "scan_step (DLit c) (c # r) = SOk None r"
  by simp

lemma lower_digit [simp]: "isdigit c \<Longrightarrow> lower c = c"
  by (auto simp: isdigit_def lower_def)

lemma conv_exp_sep [simp]: "lower c \<noteq> CHR ''e'' \<Longrightarrow> conv_exp (c # r) = (0, c # r)"
  by (simp add: conv_exp_def)

lemma lower_sep [simp]: "lower CHR '';'' = CHR '';''" "lower CHR ''.'' = CHR ''.''"
  by (simp_all add: lower_def)

lemma pow10_0 [simp]: "pow10 0 = 1"
  by (simp add: pow10_def)

lemma conv_decimal_fraction:
  assumes "ds1 \<noteq> []" "\<forall>c\<in>set ds1. isdigit c" "\<forall>c\<in>set ds2. isdigit c"
    and "\<not> isdigit c" "lower c \<noteq> CHR ''e''"
  shows "conv_decimal neg (ds1 @ CHR ''.'' # ds2 @ c # r) =
    SOk ((if neg then - 1 else 1) * (of_nat (nat_of_digits (ds1 @ ds2)) / 10 ^ length ds2)) (c # r)"
  using assms by (simp add: conv_decimal_def)

lemma conv_decimal_integer:
  assumes "ds \<noteq> []" "\<forall>c\<in>set ds. isdigit c" "\<not> isdigit c" "c \<noteq> CHR ''.''" "lower c \<noteq> CHR ''e''"
  shows "conv_decimal neg (ds @ c # r) =
    SOk ((if neg then - 1 else 1) * of_nat (nat_of_digits ds)) (c # r)"
  using assms by (simp add: conv_decimal_def)

lemma isdigit_not_letter: "isdigit c \<Longrightarrow> c \<noteq> CHR ''n'' \<and> c \<noteq> CHR ''i''"
  by auto

lemma conv_float_digits:
  assumes "ds \<noteq> []" "isdigit (hd ds)"
  shows "conv_float (ds @ r) =
    (case conv_decimal False (ds @ r) of SEof \<Rightarrow> SEof | SFail r' \<Rightarrow> SFail r' | SOk m r' \<Rightarrow> SOk (flt m) r')"
proof -
  obtain d ds' where ds: "ds = d # ds'" using assms(1) by (cases ds) auto
  with assms(2) have d: "isdigit d" by simp
  have "skip_ws (d # ds' @ r) = d # ds' @ r" using d by simp
  moreover have "take_sign (d # ds' @ r) = (False, d # ds' @ r)"
    using d take_sign_digit [of "d # ds' @ r"] by simp
  ultimately show ?thesis
    using d isdigit_not_letter [OF d] unfolding ds conv_float_def
    by (simp add: Let_def)
qed

lemma nat_of_digits_append:
  "nat_of_digits (a @ b) = nat_of_digits a * 10 ^ length b + nat_of_digits b"
proof (induction b rule: rev_induct)
  case Nil
  then show ?case by simp
next
  case (snoc c b)
  have "nat_of_digits (a @ b @ [c]) = nat_of_digits ((a @ b) @ [c])" by simp
  also have "\<dots> = 10 * nat_of_digits (a @ b) + digit_val c" by (simp only: nat_of_digits_snoc)
  finally show ?case using snoc by simp
qed

lemma nat_of_digits_zeros: "nat_of_digits (replicate n (digit_char 0)) = 0"
proof (induction n)
  case 0
  then show ?case by simp
next
  case (Suc n)
  have "replicate (Suc n) (digit_char 0) = replicate n (digit_char 0) @ [digit_char 0]"
    by (simp add: replicate_append_same)
  with Suc show ?case by (simp only: nat_of_digits_snoc) simp
qed

lemma length_dec_string_le: "n < 10 ^ k \<Longrightarrow> 0 < k \<Longrightarrow> length (dec_string n) \<le> k"
proof (induction n arbitrary: k rule: dec_string.induct)
  case (1 n)
  show ?case
  proof (cases "n < 10")
    case True
    with 1 show ?thesis by (subst dec_string.simps) simp
  next
    case False
    with "1.prems" obtain k' where k: "k = Suc k'" "0 < k'"
      by (cases k; cases "k - 1") auto
    with "1.prems" have "n div 10 < 10 ^ k'" by (simp add: less_mult_imp_div_less mult.commute)
    with "1.IH" [of k'] False k have "length (dec_string (n div 10)) \<le> k'" by simp
    with False k show ?thesis by (subst dec_string.simps) simp
  qed
qed

lemma length_pad6: "m < 1000000 \<Longrightarrow> length (pad6 m) = 6"
  using length_dec_string_le [of m 6] by (simp add: pad6_def)

lemma pad6_digits [simp]: "\<forall>c\<in>set (pad6 m). isdigit c"
  by (auto simp: pad6_def simp del: dec_string_no_sep intro: dec_string_digits)

lemma nat_of_digits_micro:
  "nat_of_digits (dec_string (k div 1000000) @ pad6 (k mod 1000000)) = k"
proof -
  have "nat_of_digits (pad6 (k mod 1000000)) = k mod 1000000"
    by (simp add: pad6_def nat_of_digits_append nat_of_digits_zeros)
  then show ?thesis
    by (simp add: nat_of_digits_append length_pad6)
qed

lemma conv_decimal_print_f:
  assumes "\<not> isdigit c" "lower c \<noteq> CHR ''e''"
  shows "conv_decimal neg (dec_string (k div 1000000) @ CHR ''.'' # pad6 (k mod 1000000) @ c # r) =
    SOk ((if neg then - 1 else 1) * (of_nat k / 1000000)) (c # r)"
  using assms by (subst conv_decimal_fraction) (simp_all add: nat_of_digits_micro length_pad6)

lemma conv_float_minus:
  assumes "ds \<noteq> []" "isdigit (hd ds)"
  shows "conv_float (CHR ''-'' # ds @ r) =
    (case conv_decimal True (ds @ r) of SEof \<Rightarrow> SEof | SFail r' \<Rightarrow> SFail r' | SOk m r' \<Rightarrow> SOk (flt m) r')"
proof -
  obtain d ds' where ds: "ds = d # ds'" using assms(1) by (cases ds) auto
  with assms(2) have d: "isdigit d" by simp
  then show ?thesis
    using isdigit_not_letter [OF d] unfolding ds conv_float_def
    by (simp add: Let_def take_sign_def)
qed

lemma conv_float_print_f:
  assumes "\<not> isdigit c" "lower c \<noteq> CHR ''e''" "lower c \<noteq> CHR ''i''"
  shows "conv_float (print_f x @ c # r) = SOk (reread_f x) (c # r)"
proof (cases x)
  case (FFin q)
  show ?thesis
  proof (cases "q < 0")
    case True
    then show ?thesis
      using conv_float_minus [of "dec_string (micro q div 1000000)"
          "CHR ''.'' # pad6 (micro q mod 1000000) @ c # r"] assms FFin
      by (simp add: conv_decimal_print_f)
  next
    case False
    then show ?thesis
      using conv_float_digits [of "dec_string (micro q div 1000000)"
          "CHR ''.'' # pad6 (micro q mod 1000000) @ c # r"] assms FFin
      by (simp add: conv_decimal_print_f)
  qed
next
  case (FInf s)
  with assms show ?thesis
    by (auto simp: conv_float_def take_sign_def lower_def numeral_eq_Suc)
next
  case FNaN
  then show ?thesis
    by (simp add: conv_float_def take_sign_def lower_def numeral_eq_Suc)
qed

lemma scan_Float [scan_simps]:
  "scan_step DFloat (print_f x @ CHR '';'' # r) = SOk (Some (VF (reread_f x))) (CHR '';'' # r)"
  by (simp add: conv_float_print_f)

text \<open>The version number in front of every metric string, an integer or \<open>1.0\<close>.\<close>

lemma conv_float_integer:
  "conv_float (dec_string n @ CHR '';'' # r) = SOk (flt (of_nat n)) (CHR '';'' # r)"
  using conv_float_digits [of "dec_string n" "CHR '';'' # r"]
  by (simp add: conv_decimal_integer)

lemma dec_string_digit: "n < 10 \<Longrightarrow> dec_string n = [digit_char n]"
  by (simp add: dec_string.simps)

lemma scan_SkipFloat_version [scan_simps]:
  "n < 10 \<Longrightarrow> scan_step DSkipFloat (digit_char n # CHR '';'' # r) = SOk None (CHR '';'' # r)"
  using conv_float_integer [of n r] by (simp add: dec_string_digit)

lemma digit_char_numeral:
  "digit_char 1 = CHR ''1''" "digit_char 2 = CHR ''2''" "digit_char 3 = CHR ''3''"
  by (simp_all add: digit_char_def char_of_eq_iff)

lemmas version_chars = scan_SkipFloat_version [of 1] scan_SkipFloat_version [of 2]
  scan_SkipFloat_version [of 3]

lemma scan_SkipFloat_1 [scan_simps]:
  "scan_step DSkipFloat (CHR ''1'' # CHR '';'' # r) = SOk None (CHR '';'' # r)"
  "scan_step DSkipFloat (CHR ''2'' # CHR '';'' # r) = SOk None (CHR '';'' # r)"
  "scan_step DSkipFloat (CHR ''3'' # CHR '';'' # r) = SOk None (CHR '';'' # r)"
  using version_chars [of r] by (simp_all add: digit_char_numeral [symmetric])

lemma scan_SkipFloat_1_0 [scan_simps]:
  "scan_step DSkipFloat (CHR ''1'' # CHR ''.'' # CHR ''0'' # CHR '';'' # r) = SOk None (CHR '';'' # r)"
  by (simp add: conv_float_def conv_decimal_def take_sign_def isdigit_def isspace_def lower_def
      numeral_eq_Suc)

lemma scan_dirs_Some [scan_simps]:
  "scan_step d s = SOk (Some v) r \<Longrightarrow>
   scan_dirs (d # ds) s = (case scan_dirs ds r of (vs, r', eof) \<Rightarrow> (v # vs, r', eof))"
  by simp

lemma scan_dirs_None [scan_simps]:
  "scan_step d s = SOk None r \<Longrightarrow> scan_dirs (d # ds) s = scan_dirs ds r"
  by (simp split: prod.splits)

lemma snprintf_fits: "length out < len \<Longrightarrow> snprintf len out = (int (length out), out)"
  by (simp add: snprintf_def)

lemma snprintf_ret [simp]: "fst (snprintf len out) = int (length out)"
  by (simp add: snprintf_def)

lemma print_u64_no_sep [simp]: "\<not> isdigit c \<Longrightarrow> c \<notin> set (print_u64 w)"
  by (simp add: print_u64_def)

lemma print_u64_nonempty [simp]: "print_u64 w \<noteq> []"
  by (simp add: print_u64_def)

lemma print_f_no_semicolon [simp]: "CHR '';'' \<notin> set (print_f x)"
proof (cases x)
  case (FFin q)
  have "CHR '';'' \<notin> set (pad6 m)" for m
    using pad6_digits [of m] isdigit_not_sep(1) by blast
  with FFin show ?thesis by simp
qed simp_all

end
