(* ===== verification/Lmt_Util.thy ===== *)
theory Lmt_Util
  imports Lmt_Cstdio
begin

text \<open>
  \<open>liblmt/util.c\<close>: skipping and copying delimiter-separated fields of a metric string.
  A \<open>const char *\<close> into a string is the suffix it points at. The locale \<open>record_stream\<close>
  states what the decoders of every metric rely on: a stream of records, each a fixed number
  of terminated fields, is split by the \<open>strskipcpy\<close> loop into exactly those records.
\<close>

section \<open>Operations\<close>

text \<open>\<open>strchr (s, sep)\<close> and one past it, or the end of the string.\<close>

definition after_sep :: "char \<Rightarrow> string \<Rightarrow> string" where
  "after_sep sep s = (case dropWhile (\<lambda>c. c \<noteq> sep) s of [] \<Rightarrow> [] | _ # r \<Rightarrow> r)"

fun strskip :: "string \<Rightarrow> nat \<Rightarrow> char \<Rightarrow> string option" where
  "strskip s 0 sep = Some s"
| "strskip [] (Suc n) sep = None"
| "strskip (c # cs) (Suc n) sep = strskip (after_sep sep (c # cs)) n sep"

lemma strskip_code [code]:
  "strskip s n sep =
     (if n = 0 then Some s else case s of [] \<Rightarrow> None | c # cs \<Rightarrow> strskip (after_sep sep s) (n - 1) sep)"
  by (cases n; cases s) simp_all

definition xstrndup :: "string \<Rightarrow> nat \<Rightarrow> string" where
  "xstrndup s n = take n s"

text \<open>The result and the advanced \<open>*sp\<close>.\<close>

definition strskipcpy :: "string \<Rightarrow> nat \<Rightarrow> char \<Rightarrow> string option \<times> string" where
  "strskipcpy s n sep =
     (let len = (case strskip s n sep of None \<Rightarrow> 0 | Some p \<Rightarrow> length s - length p)
      in if len > 0
         then (Some (xstrndup s (if s ! (len - 1) = sep then len - 1 else len)), drop len s)
         else (None, s))"

definition strappendfield :: "string \<Rightarrow> string \<Rightarrow> char \<Rightarrow> string" where
  "strappendfield s1 s2 sep = s1 @ [sep] @ s2"

text \<open>\<open>strtok\<close> over the whole string: maximal runs of characters not in \<open>sep\<close>.\<close>

function list_tok :: "string \<Rightarrow> string \<Rightarrow> string list" where
  "list_tok s sep =
     (let s1 = dropWhile (\<lambda>c. c \<in> set sep) s
      in if s1 = [] then []
         else takeWhile (\<lambda>c. c \<notin> set sep) s1 #
              list_tok (dropWhile (\<lambda>c. c \<notin> set sep) s1) sep)"
  by pat_completeness auto
termination
proof (relation "measure (\<lambda>(s, sep). length s)", goal_cases)
  case (2 s sep s1)
  then have "hd s1 \<notin> set sep"
    using hd_dropWhile [of "\<lambda>c. c \<in> set sep" s] by simp
  moreover obtain c r where s1': "s1 = c # r" using 2(2) by (cases s1) blast+
  ultimately have s1: "s1 = c # r" "c \<notin> set sep" by simp_all
  have "length (dropWhile (\<lambda>c. c \<notin> set sep) s1) \<le> length r"
    using s1 by (simp add: length_dropWhile_le)
  also have "length r < length s1" using s1 by simp
  also have "length s1 \<le> length s" using 2 by (simp add: length_dropWhile_le)
  finally show ?case by simp
qed simp

declare list_tok.simps [simp del]

lemma after_sep_suffix: "\<exists>q. s = q @ after_sep sep s"
proof (cases "dropWhile (\<lambda>c. c \<noteq> sep) s")
  case Nil
  then show ?thesis by (simp add: after_sep_def)
next
  case (Cons a r)
  then have "s = (takeWhile (\<lambda>c. c \<noteq> sep) s @ [a]) @ r"
    using takeWhile_dropWhile_id [of "\<lambda>c. c \<noteq> sep" s] by simp
  with Cons show ?thesis unfolding after_sep_def by (simp only: list.case) blast
qed

lemma strskip_suffix: "strskip s n sep = Some r \<Longrightarrow> \<exists>p. s = p @ r"
proof (induction s n sep rule: strskip.induct)
  case (3 c cs n sep)
  then obtain p where "after_sep sep (c # cs) = p @ r" by auto
  then show ?case using after_sep_suffix [of "c # cs" sep] by (metis append.assoc)
qed auto

lemma strskipcpy_length:
  "strskipcpy s n sep = (Some c, s') \<Longrightarrow> length s' < length s"
  by (auto simp: strskipcpy_def Let_def split: if_splits option.splits)

lemma strskipcpy_suffix:
  assumes "strskip s n sep = Some p" "length p < length s"
  shows "snd (strskipcpy s n sep) = p"
proof -
  obtain q where "s = q @ p" using strskip_suffix [OF assms(1)] by auto
  then show ?thesis using assms by (simp add: strskipcpy_def Let_def)
qed

text \<open>\<open>while ((cpy = strskipcpy (&s, n, sep))) list_append (l, cpy);\<close> with the position it stops at.\<close>

function strskipcpy_loop :: "string \<Rightarrow> nat \<Rightarrow> char \<Rightarrow> string list \<times> string" where
  "strskipcpy_loop s n sep =
     (case strskipcpy s n sep of (None, s') \<Rightarrow> ([], s')
      | (Some cpy, s') \<Rightarrow> (case strskipcpy_loop s' n sep of (l, r) \<Rightarrow> (cpy # l, r)))"
  by pat_completeness auto
termination
  by (relation "measure (\<lambda>(s, n, sep). length s)") (auto dest: strskipcpy_length [OF sym])

declare strskipcpy_loop.simps [simp del]

section \<open>Fields\<close>

text \<open>A record as the encoders print it: every field followed by the delimiter.\<close>

definition fields_string :: "char \<Rightarrow> string list \<Rightarrow> string" where
  "fields_string sep fs = concat (map (\<lambda>f. f @ [sep]) fs)"

lemma fields_string_simps [simp]:
  "fields_string sep [] = []"
  "fields_string sep (f # fs) = f @ sep # fields_string sep fs"
  by (simp_all add: fields_string_def)

lemma fields_string_append [simp]:
  "fields_string sep (fs @ gs) = fields_string sep fs @ fields_string sep gs"
  by (simp add: fields_string_def)

lemma dropWhile_neq_sep [simp]:
  "c \<notin> set t \<Longrightarrow> dropWhile (\<lambda>x. x \<noteq> c) (t @ c # r) = c # r"
  "c \<notin> set t \<Longrightarrow> dropWhile (\<lambda>x. x \<noteq> c) t = []"
  by (induction t) auto

lemma after_sep_field [simp]: "sep \<notin> set f \<Longrightarrow> after_sep sep (f @ sep # r) = r"
  by (simp add: after_sep_def)

lemma after_sep_last [simp]: "sep \<notin> set f \<Longrightarrow> after_sep sep f = []"
  by (simp add: after_sep_def)

lemma strskip_Suc: "s \<noteq> [] \<Longrightarrow> strskip s (Suc n) sep = strskip (after_sep sep s) n sep"
  by (cases s) auto

lemma strskip_fields:
  "\<forall>f\<in>set fs. sep \<notin> set f \<Longrightarrow> strskip (fields_string sep fs @ r) (length fs) sep = Some r"
  by (induction fs) (auto simp: strskip_Suc)

lemma strskip_fields_unterminated:
  "\<forall>f\<in>set fs. sep \<notin> set f \<Longrightarrow> sep \<notin> set g \<Longrightarrow> g \<noteq> [] \<Longrightarrow>
   strskip (fields_string sep fs @ g) (Suc (length fs)) sep = Some []"
  by (induction fs) (auto simp: strskip_Suc)

lemma fields_string_nonempty [simp]: "fields_string sep fs = [] \<longleftrightarrow> fs = []"
  by (cases fs) auto

lemma fields_string_last: "fs \<noteq> [] \<Longrightarrow> last (fields_string sep fs) = sep"
  by (induction fs rule: rev_induct) auto

lemma fields_string_snoc: "fs \<noteq> [] \<Longrightarrow> fields_string sep fs = butlast (fields_string sep fs) @ [sep]"
  using fields_string_last [of fs sep] by (metis append_butlast_last_id fields_string_nonempty)

lemma strskipcpy_fields:
  assumes "\<forall>f\<in>set fs. sep \<notin> set f" "fs \<noteq> []"
  shows "strskipcpy (fields_string sep fs @ r) (length fs) sep =
    (Some (butlast (fields_string sep fs)), r)"
proof -
  let ?e = "fields_string sep fs"
  have ne: "?e \<noteq> []" using assms(2) by simp
  then have "(?e @ r) ! (length ?e - 1) = sep"
    using fields_string_last [OF assms(2), of sep] by (simp add: nth_append last_conv_nth)
  moreover have "take (length ?e - 1) (?e @ r) = butlast ?e"
    by (simp add: butlast_conv_take)
  ultimately show ?thesis
    using ne strskip_fields [OF assms(1), of r]
    by (simp add: strskipcpy_def xstrndup_def Let_def)
qed

lemma strskipcpy_fields_unterminated:
  assumes "\<forall>f\<in>set fs. sep \<notin> set f" "sep \<notin> set g" "g \<noteq> []"
  shows "strskipcpy (fields_string sep fs @ g) (Suc (length fs)) sep =
    (Some (fields_string sep fs @ g), [])"
proof -
  let ?s = "fields_string sep fs @ g"
  have "?s ! (length ?s - 1) = last g"
    using assms(3) last_conv_nth [of ?s] by simp
  moreover have "last g \<noteq> sep" using assms(2,3) last_in_set by fastforce
  ultimately show ?thesis
    using assms strskip_fields_unterminated [OF assms]
    by (simp add: strskipcpy_def xstrndup_def Let_def)
qed

lemma strskipcpy_end [simp]: "0 < n \<Longrightarrow> strskipcpy [] n sep = (None, [])"
  by (cases n) (simp_all add: strskipcpy_def)

section \<open>Streams of records\<close>

locale record_stream =
  fixes fields :: "'r \<Rightarrow> string list" and nf :: nat and sep :: char and ok :: "'r \<Rightarrow> bool"
  assumes nf_pos: "0 < nf"
    and fields_length: "ok r \<Longrightarrow> length (fields r) = nf"
    and fields_sep: "ok r \<Longrightarrow> f \<in> set (fields r) \<Longrightarrow> sep \<notin> set f"
begin

lemma fields_ne: "ok r \<Longrightarrow> fields r \<noteq> []"
  using fields_length nf_pos by fastforce

lemma skipcpy_record:
  "ok r \<Longrightarrow> strskipcpy (fields_string sep (fields r) @ s) nf sep =
     (Some (butlast (fields_string sep (fields r))), s)"
  using strskipcpy_fields [of "fields r" sep s] fields_sep fields_ne fields_length by fastforce

text \<open>A terminated stream is split into its records, each without its last delimiter.\<close>

lemma loop_records:
  "\<forall>r\<in>set rs. ok r \<Longrightarrow>
   strskipcpy_loop (concat (map (\<lambda>r. fields_string sep (fields r)) rs)) nf sep =
     (map (\<lambda>r. butlast (fields_string sep (fields r))) rs, [])"
proof (induction rs)
  case Nil
  then show ?case using nf_pos by (simp add: strskipcpy_loop.simps [of "[]"])
next
  case (Cons r rs)
  then show ?case
    by (subst strskipcpy_loop.simps) (simp add: skipcpy_record)
qed

text \<open>Dropping the last delimiter of the stream does not change the result, as long as the
  last field is not empty.\<close>

lemma skipcpy_chomped:
  assumes "ok r" "last (fields r) \<noteq> []"
  shows "strskipcpy (butlast (fields_string sep (fields r))) nf sep =
    (Some (butlast (fields_string sep (fields r))), [])"
proof -
  obtain fs g where fr: "fields r = fs @ [g]"
    using fields_ne [OF assms(1)] by (metis rev_exhaust)
  have "\<forall>f\<in>set fs. sep \<notin> set f" and "sep \<notin> set g"
    using fields_sep [OF assms(1)] fr by auto
  moreover have "g \<noteq> []" using assms(2) fr by simp
  moreover have "nf = Suc (length fs)" using fields_length [OF assms(1)] fr by simp
  ultimately show ?thesis
    using strskipcpy_fields_unterminated [of fs sep g] fr by (simp add: butlast_append)
qed

lemma loop_records_chomped:
  assumes "\<forall>r\<in>set rs. ok r" "rs \<noteq> []" "last (fields (last rs)) \<noteq> []"
  shows "strskipcpy_loop (butlast (concat (map (\<lambda>r. fields_string sep (fields r)) rs))) nf sep =
    (map (\<lambda>r. butlast (fields_string sep (fields r))) rs, [])"
  using assms
proof (induction rs)
  case Nil
  then show ?case by simp
next
  case (Cons r rs)
  show ?case
  proof (cases "rs = []")
    case True
    then have "strskipcpy (butlast (fields_string sep (fields r))) nf sep =
      (Some (butlast (fields_string sep (fields r))), [])"
      using Cons.prems skipcpy_chomped [of r] by simp
    with True show ?thesis
      using nf_pos by (subst strskipcpy_loop.simps) (simp add: strskipcpy_loop.simps [of "[]"])
  next
    case False
    let ?tl = "concat (map (\<lambda>r. fields_string sep (fields r)) rs)"
    have tl: "?tl \<noteq> []" using False fields_ne Cons.prems(1) by (cases rs) auto
    have "butlast (fields_string sep (fields r) @ ?tl) =
        fields_string sep (fields r) @ butlast ?tl"
      unfolding butlast_append using tl by (simp only: if_False)
    then show ?thesis
      using Cons False by (subst strskipcpy_loop.simps) (simp add: skipcpy_record)
  qed
qed

end

section \<open>Tokens\<close>

lemma dropWhile_append_sep:
  "c \<in> set sep \<Longrightarrow> dropWhile (\<lambda>c. c \<notin> set sep) (s @ c # x) = dropWhile (\<lambda>c. c \<notin> set sep) s @ c # x"
  by (induction s) auto

lemma takeWhile_append_sep:
  "c \<in> set sep \<Longrightarrow> takeWhile (\<lambda>c. c \<notin> set sep) (s @ c # x) = takeWhile (\<lambda>c. c \<notin> set sep) s"
  by (induction s) auto

lemma list_tok_skip: "list_tok (dropWhile (\<lambda>c. c \<in> set sep) s) sep = list_tok s sep"
  by (subst (1 2) list_tok.simps) simp

lemma list_tok_append:
  "c \<in> set sep \<Longrightarrow> list_tok (s @ c # x) sep = list_tok s sep @ list_tok x sep"
proof (induction s sep rule: list_tok.induct)
  case (1 s sep)
  define s1 where "s1 = dropWhile (\<lambda>c. c \<in> set sep) s"
  let ?t = "takeWhile (\<lambda>c. c \<notin> set sep) s1" and ?r = "dropWhile (\<lambda>c. c \<notin> set sep) s1"
  show ?case
  proof (cases "s1 = []")
    case True
    then have "dropWhile (\<lambda>c. c \<in> set sep) (s @ c # x) = dropWhile (\<lambda>c. c \<in> set sep) x"
      using 1(2) by (simp add: s1_def dropWhile_append)
    moreover have "list_tok s sep = []" using True by (subst list_tok.simps) (simp add: s1_def)
    ultimately show ?thesis using list_tok_skip [of sep "s @ c # x"] list_tok_skip [of sep x] by simp
  next
    case False
    then have d: "dropWhile (\<lambda>c. c \<in> set sep) (s @ c # x) = s1 @ c # x"
      by (auto simp: s1_def dropWhile_append)
    have "list_tok (s @ c # x) sep = ?t # list_tok (?r @ c # x) sep"
      using 1(2) by (subst list_tok.simps) (simp add: d takeWhile_append_sep dropWhile_append_sep Let_def)
    moreover have "list_tok s sep = ?t # list_tok ?r sep"
      using False by (subst list_tok.simps) (simp add: s1_def [symmetric] Let_def)
    ultimately show ?thesis using 1(1) [OF s1_def False 1(2)] by simp
  qed
qed

lemma list_tok_single:
  assumes "set s \<inter> set sep = {}" "s \<noteq> []"
  shows "list_tok s sep = [s]"
proof -
  have "dropWhile (\<lambda>c. c \<in> set sep) s = s" using assms by (cases s) auto
  moreover have "takeWhile (\<lambda>c. c \<notin> set sep) s = s" "dropWhile (\<lambda>c. c \<notin> set sep) s = []"
    using assms(1) by (auto simp: takeWhile_eq_all_conv dropWhile_eq_Nil_conv)
  moreover have "list_tok [] sep = []" by (subst list_tok.simps) simp
  ultimately show ?thesis using assms(2) by (subst list_tok.simps) (simp add: Let_def)
qed

text \<open>\<open>list_tok\<close> is the split of a string at every separator with the empty pieces left out: a piece without
  separator is one token, and a separator between two strings separates their tokens.\<close>

theorem list_tok_correct:
  assumes "c \<in> set sep" "set s \<inter> set sep = {}"
  shows "list_tok (s @ c # rest) sep = (if s = [] then [] else [s]) @ list_tok rest sep \<and>
    list_tok s sep = (if s = [] then [] else [s])"
proof -
  have "list_tok [] sep = []" by (subst list_tok.simps) simp
  then show ?thesis using list_tok_append [OF assms(1), of s rest] list_tok_single [OF assms(2)] by simp
qed

theorem list_tok_correct_witness: "list_tok ''ab,;cd'' '',;'' = [''ab'', ''cd'']"
  using list_tok_correct [of "CHR '',''" "'',;''" "''ab''" "'';cd''"] list_tok_correct [of "CHR '';''" "'',;''" "[]" "''cd''"]
    list_tok_correct [of "CHR '';''" "'',;''" "''cd''" "[]"] by simp

end
