(* ===== verification/Lmt_Proc.thy ===== *)
theory Lmt_Proc
  imports Lmt_Util
begin

text \<open>
  \<open>libproc/proc.c\<close>, \<open>libproc/stat.c\<close> and \<open>libproc/meminfo.c\<close>: the context through which the
  other components read \<open>/proc\<close> and \<open>/sys\<close>. The kernel's files are a parameter \<open>sys\<close> of every
  operation: what \<open>stat\<close>, \<open>opendir\<close> and \<open>fopen\<close> answer for a path. An open file is the text still
  to be read with the error that ends it (\<open>E0\<close> for end of file), an open directory the entries
  still to be read; texts hold no NUL. \<open>errno\<close> is kept in the context. A result \<open>None\<close> is a
  failing \<open>assert\<close> or the use of a \<open>NULL\<close> stream; an inner \<open>None\<close> is the return value -1.
\<close>

section \<open>The system\<close>

datatype dtype = DT_DIR | DT_LNK | DT_REG | DT_UNKNOWN

record dirent =
  d_name :: string
  d_type :: dtype

record stream =
  sdata :: string
  serr :: errno

record dirstream =
  dents :: "dirent list"
  derr :: errno

record sys =
  sys_stat :: "string \<Rightarrow> errno"
  sys_opendir :: "string \<Rightarrow> errno + dirstream"
  sys_fopen :: "string \<Rightarrow> errno + stream"
  sys_junk :: string \<comment> \<open>what an uninitialised buffer reads as\<close>

record pctx =
  pctx_root :: string
  pctx_real_root :: string
  pctx_fp :: "stream option"
  pctx_dp :: "dirstream option"
  perrno :: errno

section \<open>\<open>proc.c\<close>\<close>

definition path_max :: nat where "path_max = 4096"

definition proc_create :: "string \<Rightarrow> errno \<Rightarrow> pctx" where
  "proc_create rt e =
     \<lparr>pctx_root = [], pctx_real_root = rt, pctx_fp = None, pctx_dp = None, perrno = e\<rparr>"

definition ctx_closed :: "pctx \<Rightarrow> bool" where
  "ctx_closed c \<longleftrightarrow> pctx_fp c = None \<and> pctx_dp c = None"

definition proc_destroy :: "pctx \<Rightarrow> unit option" where
  "proc_destroy c = (if ctx_closed c then Some () else None)"

definition open_root :: "sys \<Rightarrow> pctx \<Rightarrow> int \<times> pctx" where
  "open_root sy c =
     (case sys_opendir sy (pctx_root c) of
        Inr d \<Rightarrow> (0, c\<lparr>pctx_dp := Some d\<rparr>)
      | Inl e \<Rightarrow>
          if e \<noteq> ENOTDIR then (- 1, c\<lparr>pctx_dp := None, perrno := e\<rparr>)
          else (case sys_fopen sy (pctx_root c) of
                  Inl e' \<Rightarrow> (- 1, c\<lparr>pctx_dp := None, pctx_fp := None, perrno := e'\<rparr>)
                | Inr f \<Rightarrow> (0, c\<lparr>pctx_dp := None, pctx_fp := Some f, perrno := E0\<rparr>)))"

text \<open>The two \<open>snprintf\<close> calls that fill \<open>pctx_root\<close>, each bounded by the space left in it.\<close>

definition set_path :: "string \<Rightarrow> string \<Rightarrow> pctx \<Rightarrow> pctx" where
  "set_path sub path c =
     (let r = snd (snprintf path_max (pctx_real_root c @ sub @ ''/''))
      in c\<lparr>pctx_root := r @ snd (snprintf (path_max - length r) path)\<rparr>)"

text \<open>\<open>stat\<close> sets \<open>errno\<close> only when it fails.\<close>

definition stat_root :: "sys \<Rightarrow> pctx \<Rightarrow> int \<times> pctx" where
  "stat_root sy c =
     (let e = sys_stat sy (pctx_root c) in if e = E0 then (0, c) else (- 1, c\<lparr>perrno := e\<rparr>))"

definition proc_exists :: "sys \<Rightarrow> pctx \<Rightarrow> string \<Rightarrow> int \<times> pctx" where
  "proc_exists sy c path =
     (case stat_root sy (set_path ''sys'' path c) of (stat_sys, c1) \<Rightarrow>
        case stat_root sy (set_path ''proc'' path c1) of (stat_proc, c2) \<Rightarrow>
          if stat_sys \<noteq> 0 \<and> stat_proc \<noteq> 0 then (- 1, c2) else (0, c2))"

definition proc_open :: "sys \<Rightarrow> pctx \<Rightarrow> string \<Rightarrow> (int \<times> pctx) option" where
  "proc_open sy c path =
     (if \<not> ctx_closed c then None
      else case stat_root sy (set_path ''sys'' path c) of (r, c1) \<Rightarrow>
             Some (open_root sy (if r \<noteq> 0 then set_path ''proc'' path c1 else c1)))"

text \<open>\<open>path\<close> is what the format and its arguments expand to.\<close>

definition proc_vopenf :: "sys \<Rightarrow> pctx \<Rightarrow> string \<Rightarrow> (int \<times> pctx) option" where
  "proc_vopenf sy c path =
     (if \<not> ctx_closed c then None else proc_open sy c (snd (snprintf path_max path)))"

definition proc_openf :: "sys \<Rightarrow> pctx \<Rightarrow> string \<Rightarrow> (int \<times> pctx) option" where
  "proc_openf sy c path = (if \<not> ctx_closed c then None else proc_vopenf sy c path)"

definition proc_close :: "pctx \<Rightarrow> pctx option" where
  "proc_close c = (if ctx_closed c then None else Some (c\<lparr>pctx_fp := None, pctx_dp := None\<rparr>))"

text \<open>\<open>vfscanf\<close>: the result, the values and the stream, with \<open>errno\<close> set by a read error.\<close>

definition vfscanf :: "pctx \<Rightarrow> dir list \<Rightarrow> ((int \<times> sval list) \<times> pctx) option" where
  "vfscanf c fmt =
     (case pctx_fp c of None \<Rightarrow> None
      | Some f \<Rightarrow>
          (case scan_dirs fmt (sdata f) of (vs, rest, eof) \<Rightarrow>
             Some ((scanf_result (vs, rest, eof), vs),
                   c\<lparr>pctx_fp := Some (f\<lparr>sdata := rest\<rparr>),
                     perrno := if eof \<and> serr f \<noteq> E0 then serr f else perrno c\<rparr>)))"

definition proc_vscanf :: "sys \<Rightarrow> pctx \<Rightarrow> string option \<Rightarrow> dir list \<Rightarrow>
    ((int \<times> sval list) \<times> pctx) option" where
  "proc_vscanf sy c path fmt =
     (if path = None \<and> pctx_fp c = None \<or> pctx_dp c \<noteq> None then None
      else case path of
             None \<Rightarrow> vfscanf c fmt
           | Some p \<Rightarrow> do {
               (r, c1) \<leftarrow> proc_open sy c p;
               if r < 0 then Some ((- 1, []), c1)
               else do {
                 (n, c2) \<leftarrow> vfscanf c1 fmt;
                 c3 \<leftarrow> proc_close c2;
                 Some (n, c3)
               }
             })"

definition proc_scanf :: "sys \<Rightarrow> pctx \<Rightarrow> string option \<Rightarrow> dir list \<Rightarrow>
    ((int \<times> sval list) \<times> pctx) option" where
  "proc_scanf sy c path fmt =
     (if path = None \<and> pctx_fp c = None \<or> pctx_dp c \<noteq> None then None
      else proc_vscanf sy c path fmt)"

text \<open>
  \<open>fgets\<close> into \<open>len\<close> bytes: the text up to and including a newline, as far as it fits; \<open>NULL\<close> at the
  end of the stream, and when an error ends a line that is not complete.
\<close>

definition fgets_text :: "nat \<Rightarrow> string \<Rightarrow> string" where
  "fgets_text len s =
     take (len - 1) (takeWhile (\<lambda>x. x \<noteq> newline) s @ take 1 (dropWhile (\<lambda>x. x \<noteq> newline) s))"

definition fgets :: "nat \<Rightarrow> pctx \<Rightarrow> (string option \<times> pctx) option" where
  "fgets len c =
     (case pctx_fp c of None \<Rightarrow> None
      | Some f \<Rightarrow>
          (let t = fgets_text len (sdata f); rest = drop (length t) (sdata f);
               c' = c\<lparr>pctx_fp := Some (f\<lparr>sdata := rest\<rparr>)\<rparr>;
               cut = rest = [] \<and> length t < len - 1 \<and> newline \<notin> set t
           in if t = [] \<or> cut \<and> serr f \<noteq> E0
              then Some (None, if serr f \<noteq> E0 then c'\<lparr>perrno := serr f\<rparr> else c')
              else Some (Some t, c')))"

definition trim_newline :: "string \<Rightarrow> string" where
  "trim_newline s = (if s \<noteq> [] \<and> last s = newline then butlast s else s)"

definition proc_gets :: "sys \<Rightarrow> pctx \<Rightarrow> string option \<Rightarrow> nat \<Rightarrow> (string option \<times> pctx) option" where
  "proc_gets sy c path len =
     (if path = None \<and> pctx_fp c = None \<or> pctx_dp c \<noteq> None then None
      else case path of
             None \<Rightarrow> do {
               (buf, c1) \<leftarrow> fgets len (c\<lparr>perrno := E0\<rparr>);
               Some (map_option trim_newline buf, c1)
             }
           | Some p \<Rightarrow> do {
               (r, c1) \<leftarrow> proc_open sy c p;
               if r < 0 then Some (None, c1)
               else do {
                 (buf, c2) \<leftarrow> fgets len (c1\<lparr>perrno := E0\<rparr>);
                 c3 \<leftarrow> proc_close c2;
                 Some (map_option trim_newline buf, c3)
               }
             })"

text \<open>\<open>PROC_READDIR_NODIR\<close> and \<open>PROC_READDIR_NOFILE\<close> are the two flags.\<close>

fun readdir_loop :: "bool \<Rightarrow> bool \<Rightarrow> dirent list \<Rightarrow> string option \<times> dirent list" where
  "readdir_loop nodir nofile [] = (None, [])"
| "readdir_loop nodir nofile (d # ds) =
     (if d_name d \<noteq> [] \<and> hd (d_name d) = CHR ''.'' then readdir_loop nodir nofile ds
      else if nodir \<and> d_type d = DT_DIR then readdir_loop nodir nofile ds
      else if nofile \<and> d_type d \<noteq> DT_DIR \<and> d_type d \<noteq> DT_LNK then readdir_loop nodir nofile ds
      else (Some (d_name d), ds))"

definition proc_readdir :: "pctx \<Rightarrow> bool \<Rightarrow> bool \<Rightarrow> (string option \<times> pctx) option" where
  "proc_readdir c nodir nofile =
     (case (pctx_fp c, pctx_dp c) of
        (None, Some d) \<Rightarrow>
          (case readdir_loop nodir nofile (dents d) of
             (Some name, ds) \<Rightarrow> Some (Some name, c\<lparr>pctx_dp := Some (d\<lparr>dents := ds\<rparr>), perrno := E0\<rparr>)
           | (None, ds) \<Rightarrow> Some (None, c\<lparr>pctx_dp := Some (d\<lparr>dents := ds\<rparr>), perrno := derr d\<rparr>))
      | _ \<Rightarrow> None)"

section \<open>\<open>stat.c\<close> and \<open>meminfo.c\<close>\<close>

definition lits :: "string \<Rightarrow> dir list" where
  "lits s = map (\<lambda>c. if isspace c then DWs else DLit c) s"

definition sval_u64 :: "sval \<Rightarrow> u64" where
  "sval_u64 v = (case v of VU w \<Rightarrow> w | _ \<Rightarrow> 0)"

definition stat_fmt :: "dir list" where
  "stat_fmt = lits '' cpu'' @ [DSkipIn CHR '' '', DWs, DU64, DWs, DU64, DWs, DU64, DWs, DU64, DWs,
     DU64, DWs, DU64, DWs, DU64]"

text \<open>usr, nice, sys, idle, iowait, irq, softirq.\<close>

definition proc_stat :: "sys \<Rightarrow> pctx \<Rightarrow> (u64 list option \<times> pctx) option" where
  "proc_stat sy c = do {
     ((n, vs), c1) \<leftarrow> proc_scanf sy c (Some ''stat'') stat_fmt;
     if n < 0 then Some (None, c1)
     else if n \<noteq> 7 then Some (None, c1\<lparr>perrno := EIO\<rparr>)
     else Some (Some (map sval_u64 vs), c1)
   }"

text \<open>The arguments are \<open>*usagep\<close> and \<open>*totalp\<close>; the results are their new values and \<open>*pctp\<close>.\<close>

definition cpu_pct :: "u64 \<Rightarrow> u64 \<Rightarrow> u64 \<Rightarrow> u64 \<Rightarrow> fp" where
  "cpu_pct ousage ototal usage tot =
     (if tot - ototal > 0
      then fp_mul (fp_div (fp_of_u64 (usage - ousage)) (fp_of_u64 (tot - ototal))) (FFin 100)
      else FFin 0)"

definition proc_stat2 :: "sys \<Rightarrow> pctx \<Rightarrow> u64 \<Rightarrow> u64 \<Rightarrow> ((u64 \<times> u64 \<times> fp) option \<times> pctx) option" where
  "proc_stat2 sy c ousage ototal = do {
     (r, c1) \<leftarrow> proc_stat sy c;
     case r of
       Some [usr, nice, sy', idle, iowait, irq, softirq] \<Rightarrow>
         (let usage = usr + nice + sy' + irq + softirq;
              tot = usr + nice + sy' + idle + iowait + irq + softirq
          in Some (Some (usage, tot, cpu_pct ousage ototal usage tot), c1))
     | _ \<Rightarrow> Some (None, c1)
   }"

definition meminfo_fmt :: "dir list" where
  "meminfo_fmt = lits '' MemTotal: '' @ [DU64] @ lits '' kB MemFree: '' @ [DU64] @ lits '' kB''"

definition proc_meminfo :: "sys \<Rightarrow> pctx \<Rightarrow> ((u64 \<times> u64) option \<times> pctx) option" where
  "proc_meminfo sy c = do {
     ((n, vs), c1) \<leftarrow> proc_scanf sy c (Some ''meminfo'') meminfo_fmt;
     if n < 0 then Some (None, c1)
     else if n \<noteq> 2 then Some (None, c1\<lparr>perrno := EIO\<rparr>)
     else Some (Some (sval_u64 (vs ! 0), sval_u64 (vs ! 1)), c1)
   }"

section \<open>Opening and closing\<close>

lemma ctx_closed_simps [simp]:
  "ctx_closed (c\<lparr>pctx_root := r\<rparr>) = ctx_closed c" "ctx_closed (c\<lparr>perrno := e\<rparr>) = ctx_closed c"
  "ctx_closed (set_path sub path c) = ctx_closed c" "ctx_closed (snd (stat_root sy c)) = ctx_closed c"
  "ctx_closed (proc_create rt e)"
  by (simp_all add: ctx_closed_def set_path_def Let_def stat_root_def proc_create_def)

text \<open>A path is looked up below \<open>sys\<close> when it exists there, else below \<open>proc\<close>.\<close>

definition full_path :: "pctx \<Rightarrow> string \<Rightarrow> string \<Rightarrow> string" where
  "full_path c sub path = pctx_root (set_path sub path c)"

definition resolve :: "sys \<Rightarrow> pctx \<Rightarrow> string \<Rightarrow> string" where
  "resolve sy c path =
     (if sys_stat sy (full_path c ''sys'' path) = E0 then full_path c ''sys'' path else full_path c ''proc'' path)"

lemma full_path_short:
  "length (pctx_real_root c) + length sub + length path + 1 < path_max \<Longrightarrow>
   full_path c sub path = pctx_real_root c @ sub @ ''/'' @ path"
  by (simp add: full_path_def set_path_def snprintf_def Let_def)

lemma set_path_sel [simp]:
  "pctx_fp (set_path sub path c) = pctx_fp c" "pctx_dp (set_path sub path c) = pctx_dp c"
  "pctx_real_root (set_path sub path c) = pctx_real_root c" "perrno (set_path sub path c) = perrno c"
  "set_path sub path (c\<lparr>perrno := e\<rparr>) = (set_path sub path c)\<lparr>perrno := e\<rparr>"
  "set_path sub path (c\<lparr>pctx_root := r\<rparr>) = set_path sub path c"
  "set_path sub path (set_path sub' path' c) = set_path sub path c"
  by (simp_all add: set_path_def Let_def)

lemma proc_open_cases:
  assumes "ctx_closed c"
  obtains (isdir) d c' where "sys_opendir sy (resolve sy c path) = Inr d" "proc_open sy c path = Some (0, c')"
      "pctx_dp c' = Some d" "pctx_fp c' = None" "pctx_real_root c' = pctx_real_root c"
  | (isfile) f c' where "sys_opendir sy (resolve sy c path) = Inl ENOTDIR" "sys_fopen sy (resolve sy c path) = Inr f"
      "proc_open sy c path = Some (0, c')" "pctx_dp c' = None" "pctx_fp c' = Some f"
      "pctx_real_root c' = pctx_real_root c"
  | (failed) c' e where "proc_open sy c path = Some (- 1, c')" "ctx_closed c'" "perrno c' = e"
      "sys_opendir sy (resolve sy c path) = Inl e \<and> e \<noteq> ENOTDIR \<or>
       sys_opendir sy (resolve sy c path) = Inl ENOTDIR \<and> sys_fopen sy (resolve sy c path) = Inl e"
      "pctx_real_root c' = pctx_real_root c"
proof -
  define c1 where "c1 = (if sys_stat sy (full_path c ''sys'' path) = E0 then set_path ''sys'' path c
    else (set_path ''proc'' path c)\<lparr>perrno := sys_stat sy (full_path c ''sys'' path)\<rparr>)"
  have o: "proc_open sy c path = Some (open_root sy c1)"
    using assms by (simp add: proc_open_def stat_root_def c1_def full_path_def Let_def)
  have c1: "pctx_root c1 = resolve sy c path" "pctx_dp c1 = None" "pctx_fp c1 = None"
    "pctx_real_root c1 = pctx_real_root c"
    using assms by (simp_all add: c1_def resolve_def full_path_def ctx_closed_def)
  show thesis
  proof (cases "sys_opendir sy (resolve sy c path)")
    case (Inr d)
    then show thesis using o c1
      by (intro isdir [where c' = "c1\<lparr>pctx_dp := Some d\<rparr>"]) (simp_all add: open_root_def)
  next
    case (Inl e)
    show thesis
    proof (cases "e = ENOTDIR")
      case False
      then show thesis using o c1 Inl
        by (intro failed [where c' = "c1\<lparr>pctx_dp := None, perrno := e\<rparr>"])
          (simp_all add: open_root_def ctx_closed_def)
    next
      case True
      show thesis
      proof (cases "sys_fopen sy (resolve sy c path)")
        case (Inl e')
        then show thesis using o c1 True \<open>sys_opendir _ _ = Inl e\<close>
          by (intro failed [where c' = "c1\<lparr>pctx_dp := None, pctx_fp := None, perrno := e'\<rparr>" and e = e'])
            (simp_all add: open_root_def ctx_closed_def)
      next
        case (Inr f)
        then show thesis using o c1 True \<open>sys_opendir _ _ = Inl e\<close>
          by (intro isfile [where c' = "c1\<lparr>pctx_dp := None, pctx_fp := Some f, perrno := E0\<rparr>"])
            (simp_all add: open_root_def)
      qed
    qed
  qed
qed

text \<open>
  The discipline of the asserts: an operation is balanced when, started on a closed context, it
  leaves it closed whenever it returns.
\<close>

definition balanced :: "(pctx \<Rightarrow> ('a \<times> pctx) option) \<Rightarrow> bool" where
  "balanced op \<longleftrightarrow> (\<forall>c r c'. ctx_closed c \<longrightarrow> op c = Some (r, c') \<longrightarrow> ctx_closed c')"

lemma balancedI: "(\<And>c r c'. ctx_closed c \<Longrightarrow> op c = Some (r, c') \<Longrightarrow> ctx_closed c') \<Longrightarrow> balanced op"
  by (auto simp: balanced_def)

lemma balancedD: "balanced op \<Longrightarrow> ctx_closed c \<Longrightarrow> op c = Some (r, c') \<Longrightarrow> ctx_closed c'"
  by (auto simp: balanced_def)

lemma proc_close_closed: "proc_close c = Some c' \<Longrightarrow> ctx_closed c'"
  by (auto simp: proc_close_def ctx_closed_def split: if_splits)

lemma proc_scanf_path_balanced: "balanced (\<lambda>c. proc_scanf sy c (Some path) fmt)"
proof (rule balancedI)
  fix c r c'
  assume c: "ctx_closed c" and s: "proc_scanf sy c (Some path) fmt = Some (r, c')"
  show "ctx_closed c'"
    using c s by (cases rule: proc_open_cases [of c sy path])
      (auto simp: proc_scanf_def proc_vscanf_def proc_close_closed Option.bind_eq_Some_conv split: if_splits)
qed

lemma proc_gets_path_balanced: "balanced (\<lambda>c. proc_gets sy c (Some path) len)"
proof (rule balancedI)
  fix c r c'
  assume c: "ctx_closed c" and s: "proc_gets sy c (Some path) len = Some (r, c')"
  show "ctx_closed c'"
    using c s by (cases rule: proc_open_cases [of c sy path])
      (auto simp: proc_gets_def proc_close_closed Option.bind_eq_Some_conv split: if_splits)
qed

text \<open>Reading a file by path: what \<open>scanf\<close> makes of its text.\<close>

lemma proc_scanf_file:
  assumes "ctx_closed c" "sys_opendir sy (resolve sy c path) = Inl ENOTDIR" "sys_fopen sy (resolve sy c path) = Inr f"
  shows "\<exists>c'. proc_scanf sy c (Some path) fmt = Some ((scanf_result (scan_dirs fmt (sdata f)), fst (scan_dirs fmt (sdata f))), c') \<and>
    ctx_closed c' \<and> pctx_real_root c' = pctx_real_root c"
  using assms(1)
proof (cases rule: proc_open_cases [of c sy path])
  case (isfile f' c')
  then show ?thesis using assms
    by (auto simp: proc_scanf_def proc_vscanf_def vfscanf_def proc_close_def ctx_closed_def split: prod.splits)
qed (use assms in auto)

section \<open>Lines\<close>

text \<open>One line that fits in the buffer is returned without its newline; the stream is behind it.\<close>

lemma fgets_text_line:
  "newline \<notin> set l \<Longrightarrow> Suc (length l) < len \<Longrightarrow> fgets_text len (l @ newline # rest) = l @ [newline]"
  by (simp add: fgets_text_def)

lemma fgets_text_nonempty: "1 < len \<Longrightarrow> fgets_text len s = [] \<longleftrightarrow> s = []"
proof (cases s)
  case (Cons a t)
  assume "1 < len"
  then show ?thesis using Cons by (cases "a = newline") (auto simp: fgets_text_def)
qed (simp add: fgets_text_def)

lemma proc_gets_line:
  assumes "pctx_fp c = Some f" "pctx_dp c = None" "sdata f = l @ newline # rest" "newline \<notin> set l"
    and "Suc (length l) < len"
  shows "proc_gets sy c None len =
    Some (Some l, c\<lparr>perrno := E0, pctx_fp := Some (f\<lparr>sdata := rest\<rparr>)\<rparr>)"
  using assms by (simp add: proc_gets_def fgets_def fgets_text_line trim_newline_def Let_def)

lemma proc_gets_eof:
  assumes "pctx_fp c = Some f" "pctx_dp c = None" "sdata f = []"
  shows "proc_gets sy c None len = Some (None, c\<lparr>perrno := serr f, pctx_fp := Some f\<rparr>)"
  using assms by (simp add: proc_gets_def fgets_def fgets_text_def Let_def)

text \<open>Every successful call consumes input: the loops over \<open>proc_gets\<close> terminate.\<close>

definition remaining :: "pctx \<Rightarrow> nat" where
  "remaining c = (case pctx_fp c of None \<Rightarrow> 0 | Some f \<Rightarrow> length (sdata f))"

lemma proc_gets_remaining:
  assumes "proc_gets sy c None len = Some (Some l, c')"
  shows "remaining c' < remaining c"
proof -
  obtain f where f: "pctx_fp c = Some f" using assms by (auto simp: proc_gets_def split: if_splits)
  let ?t = "fgets_text len (sdata f)"
  have t: "?t \<noteq> []" "remaining c' = length (drop (length ?t) (sdata f))"
    using assms f by (auto simp: proc_gets_def fgets_def Let_def remaining_def split: if_splits)
  then have "sdata f \<noteq> []" by (auto simp: fgets_text_def)
  then have "length (drop (length ?t) (sdata f)) < length (sdata f)" using t(1) by simp
  then show ?thesis using t(2) f by (simp add: remaining_def)
qed

lemma proc_gets_open:
  assumes "proc_gets sy c None len = Some (l, c')"
  shows "pctx_dp c' = None \<and> (\<exists>f f'. pctx_fp c = Some f \<and> pctx_fp c' = Some f' \<and> serr f' = serr f) \<and>
    (l = None \<longrightarrow> (\<exists>f. pctx_fp c = Some f \<and> perrno c' = serr f)) \<and> (l \<noteq> None \<longrightarrow> perrno c' = E0)"
  using assms by (auto simp: proc_gets_def fgets_def Let_def split: if_splits option.splits)

section \<open>Directories\<close>

text \<open>The names \<open>proc_readdir\<close> returns one after the other.\<close>

definition listed :: "bool \<Rightarrow> bool \<Rightarrow> dirent \<Rightarrow> bool" where
  "listed nodir nofile d \<longleftrightarrow> \<not> (d_name d \<noteq> [] \<and> hd (d_name d) = CHR ''.'') \<and>
     \<not> (nodir \<and> d_type d = DT_DIR) \<and> \<not> (nofile \<and> d_type d \<noteq> DT_DIR \<and> d_type d \<noteq> DT_LNK)"

lemma readdir_loop_eq:
  "readdir_loop nodir nofile ds =
     (case dropWhile (Not \<circ> listed nodir nofile) ds of [] \<Rightarrow> (None, []) | d # ds' \<Rightarrow> (Some (d_name d), ds'))"
  by (induction ds) (auto simp: listed_def)

section \<open>Utilisation\<close>

text \<open>Whatever the counters do, the percentage is a finite number and not negative; as long as the
  busy time grows no faster than the total, it is at most 100.\<close>

lemma fp_of_u64_eq: "fp_of_u64 w = FFin (rnd 53 (of_nat (unat w)))"
  by (simp add: fp_of_u64_def dbl_def)

lemma rnd53_le_nat:
  assumes "0 \<le> x" "x \<le> of_nat n" "n < 2 ^ 53"
  shows "rnd 53 x \<le> of_nat n"
  using rnd_mono [OF assms(1,2), of 53] rnd_of_nat [of n 53] assms(3) by simp

lemma cpu_pct_value:
  assumes "0 < tot - ototal"
  shows "cpu_pct ousage ototal usage tot =
    FFin (rnd 53 (rnd 53 (rnd 53 (of_nat (unat (usage - ousage))) / rnd 53 (of_nat (unat (tot - ototal)))) * 100))"
proof -
  have "0 < unat (tot - ototal)" using assms by (simp add: word_less_nat_alt)
  then have "0 < rnd 53 (of_nat (unat (tot - ototal)))" by (intro rnd_pos; simp only: of_nat_0_less_iff)
  then show ?thesis using assms by (simp add: cpu_pct_def fp_of_u64_eq dbl_def)
qed

lemma cpu_pct_bounds:
  assumes "unat (usage - ousage) \<le> unat (tot - ototal)"
  shows "\<exists>r. cpu_pct ousage ototal usage tot = FFin r \<and> 0 \<le> r \<and> r \<le> 100"
proof (cases "0 < tot - ototal")
  case True
  then have pos: "0 < unat (tot - ototal)" by (simp add: word_less_nat_alt)
  define a where "a = rnd 53 (of_nat (unat (usage - ousage)))"
  define b where "b = rnd 53 (of_nat (unat (tot - ototal)))"
  have ab: "0 \<le> a" "a \<le> b" "0 < b"
    unfolding a_def b_def using assms pos
    by (intro rnd_nonneg rnd_mono rnd_pos; simp only: of_nat_0_less_iff of_nat_0_le_iff of_nat_le_iff; simp)+
  have q: "0 \<le> rnd 53 (a / b)" "rnd 53 (a / b) \<le> 1"
    using ab rnd53_le_nat [of "a / b" 1] by (auto intro!: rnd_nonneg)
  have "0 \<le> rnd 53 (rnd 53 (a / b) * 100)" "rnd 53 (rnd 53 (a / b) * 100) \<le> 100"
    using q rnd53_le_nat [of "rnd 53 (a / b) * 100" 100] by (auto intro!: rnd_nonneg)
  then show ?thesis using cpu_pct_value [OF True] unfolding a_def b_def by metis
qed (simp add: cpu_pct_def)

section \<open>Properties\<close>

text \<open>The CPU utilisation reported is a number between 0 and 100 whenever the busy time has grown by no more
  than the total time since the last call, also when a counter wraps around.\<close>

theorem cpu_pct_correct:
  assumes "unat (usage - ousage) \<le> unat (tot - ototal)"
  shows "\<exists>r. cpu_pct ousage ototal usage tot = FFin r \<and> 0 \<le> r \<and> r \<le> 100"
  by (rule cpu_pct_bounds [OF assms])

theorem cpu_pct_correct_witness: "\<exists>r. cpu_pct (- 1) 10 4 30 = FFin r \<and> 0 \<le> r \<and> r \<le> 100"
  by (rule cpu_pct_correct) simp

text \<open>\<open>proc_gets\<close> returns the next line without its newline and leaves the stream behind it; every line is
  read once.\<close>

theorem proc_gets_correct:
  assumes "pctx_fp c = Some f" "pctx_dp c = None" "sdata f = l @ newline # rest" "newline \<notin> set l" "Suc (length l) < len"
  shows "\<exists>c'. proc_gets sy c None len = Some (Some l, c') \<and> perrno c' = E0 \<and> pctx_fp c' = Some (f\<lparr>sdata := rest\<rparr>)"
  using proc_gets_line [OF assms] by simp

theorem proc_gets_correct_witness:
  "\<exists>c'. proc_gets \<lparr>sys_stat = \<lambda>_. ENOENT, sys_opendir = \<lambda>_. Inl ENOENT, sys_fopen = \<lambda>_. Inl ENOENT, sys_junk = []\<rparr>
     ((proc_create ''/'' E0)\<lparr>pctx_fp := Some \<lparr>sdata = ''ab'' @ newline # ''c'', serr = E0\<rparr>\<rparr>) None 16 = Some (Some ''ab'', c')"
proof -
  let ?sy = "\<lparr>sys_stat = \<lambda>_. ENOENT, sys_opendir = \<lambda>_. Inl ENOENT, sys_fopen = \<lambda>_. Inl ENOENT, sys_junk = []\<rparr>"
  let ?f = "\<lparr>sdata = ''ab'' @ newline # ''c'', serr = E0\<rparr>"
  have "\<exists>c'. proc_gets ?sy ((proc_create ''/'' E0)\<lparr>pctx_fp := Some ?f\<rparr>) None 16 = Some (Some ''ab'', c') \<and> perrno c' = E0 \<and>
    pctx_fp c' = Some (?f\<lparr>sdata := ''c''\<rparr>)"
    by (rule proc_gets_correct) (simp_all add: proc_create_def)
  then show ?thesis by blast
qed

end
