(* ===== verification/Lmt_Lustre.thy ===== *)
theory Lmt_Lustre
  imports Lmt_Proc Lsd_Hash Lsd_List
begin

text \<open>
  \<open>libproc/lustre.c\<close>: the queries on the Lustre files below \<open>/proc\<close> and \<open>/sys\<close>. A path template is
  the string of the source, expanded by \<open>expand\<close>. Messages to the log and freed memory are left
  out. An inner \<open>None\<close> is the return value -1, with \<open>errno\<close> in the context.
\<close>

section \<open>Strings\<close>

fun strstr :: "string \<Rightarrow> string \<Rightarrow> bool" where
  "strstr [] sub = (sub = [])"
| "strstr (c # cs) sub = (take (length sub) (c # cs) = sub \<or> strstr cs sub)"

text \<open>A format whose only conversions are \<open>%s\<close>.\<close>

fun expand :: "string \<Rightarrow> string list \<Rightarrow> string" where
  "expand [] as = []"
| "expand [c] as = [c]"
| "expand (c # d # t) as =
     (if c = CHR ''%'' \<and> d = CHR ''s''
      then (case as of [] \<Rightarrow> expand t [] | a # as' \<Rightarrow> a @ expand t as')
      else c # expand (d # t) as)"

section \<open>Statistics\<close>

record shash =
  shash_key :: string
  shash_val :: string

type_synonym stats = "(string, shash) hash_tab"

definition create_shash :: "string \<Rightarrow> string \<Rightarrow> shash" where
  "create_shash key val = \<lparr>shash_key = key, shash_val = val\<rparr>"

definition stats_hash_size :: int where "stats_hash_size = 64"

definition stats_hash_create :: stats where
  "stats_hash_create =
     the (fst (hash_create stats_hash_size (Some hash_key_string) (Some strcmp) True True True E0))"

text \<open>\<open>None\<close> is -1 with \<open>errno = EIO\<close>.\<close>

definition parse_stat :: "string \<Rightarrow> shash option" where
  "parse_stat s =
     (let key = takeWhile (\<lambda>c. \<not> isspace c) s; r = dropWhile (\<lambda>c. \<not> isspace c) s
      in if r = [] then None
         else let v = dropWhile isspace (tl r)
              in if v = [] then None else Some (create_shash key v))"

text \<open>The inserted datum, the table and \<open>errno\<close>.\<close>

definition hash_insert_lastinwins :: "stats \<Rightarrow> string \<Rightarrow> shash \<Rightarrow> errno \<Rightarrow> shash option \<times> stats \<times> errno" where
  "hash_insert_lastinwins h key data e =
     (case hash_insert h (Some key) (Some data) True e of
        (Some res, h1, e1) \<Rightarrow> (Some res, h1, e1)
      | (None, h1, e1) \<Rightarrow>
          if e1 \<noteq> EEXIST then (None, h1, e1)
          else (case hash_remove h1 (Some key) of (old, h2, e2) \<Rightarrow>
                  hash_insert h2 (Some key) (Some data) True e2))"

function hash_stats_loop :: "sys \<Rightarrow> pctx \<Rightarrow> stats \<Rightarrow> (int \<times> stats \<times> pctx) option" where
  "hash_stats_loop sy c h =
     (case proc_gets sy c None 256 of
        None \<Rightarrow> None
      | Some (None, c1) \<Rightarrow> Some (- 1, h, c1)
      | Some (Some line, c1) \<Rightarrow>
          (case parse_stat line of
             None \<Rightarrow> Some (- 1, h, c1\<lparr>perrno := EIO\<rparr>)
           | Some s \<Rightarrow>
               (case hash_insert_lastinwins h (shash_key s) s (perrno c1) of
                  (None, h1, e) \<Rightarrow> Some (- 1, h1, c1\<lparr>perrno := e\<rparr>)
                | (Some _, h1, e) \<Rightarrow> hash_stats_loop sy (c1\<lparr>perrno := e\<rparr>) h1)))"
  by pat_completeness auto
termination
proof (relation "measure (\<lambda>(sy, c, h). remaining c)", goal_cases)
  case (2 sy c h x y c1 line z s)
  have "remaining (c1\<lparr>perrno := e\<rparr>) = remaining c1" for e by (simp add: remaining_def)
  with 2 show ?case by (auto dest: proc_gets_remaining)
qed simp

declare hash_stats_loop.simps [simp del]

definition hash_stats :: "sys \<Rightarrow> pctx \<Rightarrow> stats \<Rightarrow> (int \<times> stats \<times> pctx) option" where
  "hash_stats sy c h = do {
     (ret, h1, c1) \<leftarrow> hash_stats_loop sy (c\<lparr>perrno := E0\<rparr>) h;
     Some (if ret = - 1 \<and> perrno c1 = E0 then 0 else ret, h1, c1)
   }"

section \<open>Version\<close>

definition sval_int :: "sval \<Rightarrow> int" where
  "sval_int v = (case v of VI i \<Rightarrow> i | _ \<Rightarrow> 0)"

definition sval_str :: "sval \<Rightarrow> string" where
  "sval_str v = (case v of VS t \<Rightarrow> t | _ \<Rightarrow> [])"

text \<open>The return value and \<open>*version_string\<close>.\<close>

definition read_lustre_version_string :: "sys \<Rightarrow> pctx \<Rightarrow> ((int \<times> string option) \<times> pctx) option" where
  "read_lustre_version_string sy c = do {
     (ret, c1) \<leftarrow> proc_openf sy c ''fs/lustre/version'';
     if ret < 0 then Some ((ret, None), c1)
     else do {
       (ret2, rh, c2) \<leftarrow> hash_stats sy c1 stats_hash_create;
       c3 \<leftarrow> proc_close c2;
       if hash_count rh > 0 then
         (case hash_find rh (Some ''lustre:'') of
            (None, e) \<Rightarrow> Some ((- 1, None), c3\<lparr>perrno := e\<rparr>)
          | (Some version, e) \<Rightarrow> Some ((0, Some (shash_val version)), c3\<lparr>perrno := e\<rparr>))
       else do {
         (buf, c4) \<leftarrow> proc_gets sy c3 (Some ''fs/lustre/version'') 64;
         Some ((0, Some (case buf of None \<Rightarrow> sys_junk sy | Some b \<Rightarrow> b)), c4)
       }
     }
   }"

definition version_fmt :: "dir list" where
  "version_fmt = [DInt, DLit CHR ''.'', DInt, DLit CHR ''.'', DInt]"

definition version_fix_fmt :: "dir list" where
  "version_fix_fmt =
     [DSkipInt, DLit CHR ''.'', DSkipInt, DLit CHR ''.'', DSkipInt, DLit CHR ''.'', DInt]"

text \<open>The return value and, when it is not negative, major, minor, patch and fix.\<close>

definition proc_fs_lustre_version :: "sys \<Rightarrow> pctx \<Rightarrow> ((int \<times> int list) \<times> pctx) option" where
  "proc_fs_lustre_version sy c = do {
     ((ret, v), c1) \<leftarrow> read_lustre_version_string sy c;
     case v of
       None \<Rightarrow> Some ((ret, []), c1)
     | Some version_string \<Rightarrow>
         (case sscanf version_fmt version_string of (n, vs) \<Rightarrow>
            if n \<noteq> 3 then Some ((- 3 + n, []), c1\<lparr>perrno := EIO\<rparr>)
            else (case sscanf version_fix_fmt version_string of (m, ws) \<Rightarrow>
                    Some ((n, map sval_int vs @ [if m \<noteq> 1 then 0 else sval_int (hd ws)]), c1)))
   }"

text \<open>The macro computes in 32-bit \<open>int\<close>; the result wraps for a major version above 127.\<close>

definition packed_version :: "int \<Rightarrow> int \<Rightarrow> int \<Rightarrow> int \<Rightarrow> int" where
  "packed_version major minor patch fix =
     sint (push_bit 24 (word_of_int major) + push_bit 16 (word_of_int minor) + push_bit 8 (word_of_int patch) +
       word_of_int fix :: u32)"

definition lustre_1_8 :: int where "lustre_1_8 = packed_version 1 8 0 0"
definition lustre_2_0 :: int where "lustre_2_0 = packed_version 2 0 0 0"
definition lustre_2_10_8 :: int where "lustre_2_10_8 = packed_version 2 10 8 0"

definition packed_lustre_version :: "sys \<Rightarrow> pctx \<Rightarrow> (int \<times> pctx) option" where
  "packed_lustre_version sy c = do {
     ((ret, vs), c1) \<leftarrow> proc_fs_lustre_version sy c;
     (let r = (if ret < 0 then ret
               else case vs of [major, minor, patch, fix] \<Rightarrow> packed_version major minor patch fix | _ \<Rightarrow> ret)
      in Some (if r < - 1 then - 1 else r, c1))
   }"

definition use_proc_layout :: "int \<Rightarrow> bool" where
  "use_proc_layout lustre_version \<longleftrightarrow>
     lustre_version \<ge> lustre_1_8 \<and> lustre_version \<le> lustre_2_10_8 \<or> lustre_version < 0"

section \<open>Paths\<close>

definition find_mdt_dir :: "sys \<Rightarrow> pctx \<Rightarrow> (string \<times> pctx) option" where
  "find_mdt_dir sy c = do {
     (v, c1) \<leftarrow> packed_lustre_version sy c;
     Some (if v \<ge> lustre_2_0 then ''fs/lustre/mdt'' else ''fs/lustre/mds'', c1)
   }"

text \<open>The return value of \<open>snprintf\<close> and the template.\<close>

definition build_mdt_path :: "sys \<Rightarrow> pctx \<Rightarrow> string \<Rightarrow> ((int \<times> string) \<times> pctx) option" where
  "build_mdt_path sy c tmpl = do {
     (mdt_dir, c1) \<leftarrow> find_mdt_dir sy c;
     Some (snprintf (length tmpl + length mdt_dir + 2) (mdt_dir @ ''/'' @ tmpl), c1)
   }"

datatype backfs = BACKFS_LDISKFS | BACKFS_ZFS

definition find_lustre_backfs_type :: "sys \<Rightarrow> pctx \<Rightarrow> (backfs \<times> pctx) option" where
  "find_lustre_backfs_type sy c = do {
     (r, c1) \<leftarrow> proc_open sy c ''fs/lustre/osd-zfs'';
     if r = 0 then do { c2 \<leftarrow> proc_close c1; Some (BACKFS_ZFS, c2) }
     else Some (BACKFS_LDISKFS, c1)
   }"

definition build_osd_stats_path :: "sys \<Rightarrow> pctx \<Rightarrow> string \<Rightarrow> ((int \<times> string option) \<times> pctx) option" where
  "build_osd_stats_path sy c name = do {
     (v, c1) \<leftarrow> packed_lustre_version sy c;
     if strstr name ''-MDT'' then do {
       ((ret, stats), c2) \<leftarrow> build_mdt_path sy c1 (if v \<ge> lustre_2_0 then ''%s/md_stats'' else ''%s/stats'');
       Some ((ret, Some stats), c2)
     }
     else if strstr name ''-OST'' then Some ((0, Some ''fs/lustre/obdfilter/%s/stats''), c1)
     else Some ((- 1, None), c1\<lparr>perrno := EINVAL\<rparr>)
   }"

definition find_osd_dir :: "sys \<Rightarrow> pctx \<Rightarrow> (string \<times> pctx) option" where
  "find_osd_dir sy c = do {
     (v, c1) \<leftarrow> packed_lustre_version sy c;
     if v \<ge> lustre_2_0 then do {
       (b, c2) \<leftarrow> find_lustre_backfs_type sy c1;
       Some (case b of BACKFS_LDISKFS \<Rightarrow> ''fs/lustre/osd-ldiskfs'' | BACKFS_ZFS \<Rightarrow> ''fs/lustre/osd-zfs'', c2)
     }
     else Some (''fs/lustre/mds'', c1)
   }"

definition build_osd_path :: "sys \<Rightarrow> pctx \<Rightarrow> string \<Rightarrow> ((int \<times> string) \<times> pctx) option" where
  "build_osd_path sy c tmpl = do {
     (osd_dir, c1) \<leftarrow> find_osd_dir sy c;
     Some (snprintf (length tmpl + length osd_dir + 2) (osd_dir @ ''/'' @ tmpl), c1)
   }"

section \<open>Single values\<close>

definition readint1 :: "sys \<Rightarrow> pctx \<Rightarrow> string \<Rightarrow> string \<Rightarrow> (u64 option \<times> pctx) option" where
  "readint1 sy c tmpl a1 = do {
     (new_tmpl, c1) \<leftarrow>
       (if strstr a1 ''-MDT'' then
          (if strstr tmpl ''/files'' \<or> strstr tmpl ''/kbytes''
           then do { ((r, t), c') \<leftarrow> build_osd_path sy c tmpl; Some (t, c') }
           else do { ((r, t), c') \<leftarrow> build_mdt_path sy c tmpl; Some (t, c') })
        else Some (tmpl, c));
     (ret, c2) \<leftarrow> proc_openf sy c1 (expand new_tmpl [a1]);
     if ret < 0 then Some (None, c2)
     else do {
       ((n, vs), c3) \<leftarrow> proc_scanf sy c2 None [DU64];
       (let c4 = (if n \<noteq> 1 then c3\<lparr>perrno := EIO\<rparr> else c3)
        in do { c5 \<leftarrow> proc_close c4; Some (if n \<noteq> 1 then None else Some (sval_u64 (hd vs)), c5) })
     }
   }"

definition readstr1 :: "sys \<Rightarrow> pctx \<Rightarrow> string \<Rightarrow> string \<Rightarrow> (string option \<times> pctx) option" where
  "readstr1 sy c tmpl a1 = do {
     (new_tmpl, c1) \<leftarrow>
       (if strstr a1 ''-MDT'' then do { ((r, t), c') \<leftarrow> build_mdt_path sy c tmpl; Some (t, c') }
        else Some (tmpl, c));
     (ret, c2) \<leftarrow> proc_openf sy c1 (expand new_tmpl [a1]);
     if ret < 0 then Some (None, c2)
     else do {
       ((n, vs), c3) \<leftarrow> proc_scanf sy c2 None [DStr 255];
       (let c4 = (if n \<noteq> 1 then c3\<lparr>perrno := EIO\<rparr> else c3)
        in do { c5 \<leftarrow> proc_close c4; Some (if n \<noteq> 1 then None else Some (sval_str (hd vs)), c5) })
     }
   }"

text \<open>The two \<open>_readint1\<close> calls of \<open>proc_lustre_files\<close> and \<open>proc_lustre_kbytes\<close>.\<close>

definition read_pair :: "sys \<Rightarrow> pctx \<Rightarrow> string \<Rightarrow> string \<Rightarrow> string \<Rightarrow> ((u64 \<times> u64) option \<times> pctx) option" where
  "read_pair sy c tmplf tmplt name = do {
     (f, c1) \<leftarrow> readint1 sy c tmplf name;
     case f of
       None \<Rightarrow> Some (None, c1)
     | Some f' \<Rightarrow> do {
         (t, c2) \<leftarrow> readint1 sy c1 tmplt name;
         Some (map_option (\<lambda>t'. (f', t')) t, c2)
       }
   }"

definition proc_lustre_files :: "sys \<Rightarrow> pctx \<Rightarrow> string \<Rightarrow> ((u64 \<times> u64) option \<times> pctx) option" where
  "proc_lustre_files sy c name =
     (if strstr name ''-OST'' then
        read_pair sy c ''fs/lustre/obdfilter/%s/filesfree'' ''fs/lustre/obdfilter/%s/filestotal'' name
      else if strstr name ''-MDT'' then read_pair sy c ''%s/filesfree'' ''%s/filestotal'' name
      else Some (None, c\<lparr>perrno := EINVAL\<rparr>))"

definition proc_lustre_kbytes :: "sys \<Rightarrow> pctx \<Rightarrow> string \<Rightarrow> ((u64 \<times> u64) option \<times> pctx) option" where
  "proc_lustre_kbytes sy c name =
     (if strstr name ''-OST'' then
        read_pair sy c ''fs/lustre/obdfilter/%s/kbytesfree'' ''fs/lustre/obdfilter/%s/kbytestotal'' name
      else if strstr name ''-MDT'' then read_pair sy c ''%s/kbytesfree'' ''%s/kbytestotal'' name
      else Some (None, c\<lparr>perrno := EINVAL\<rparr>))"

definition proc_lustre_num_exports :: "sys \<Rightarrow> pctx \<Rightarrow> string \<Rightarrow> (u64 option \<times> pctx) option" where
  "proc_lustre_num_exports sy c name =
     (if strstr name ''-OST'' then readint1 sy c ''fs/lustre/obdfilter/%s/num_exports'' name
      else if strstr name ''-MDT'' then readint1 sy c ''%s/num_exports'' name
      else Some (None, c\<lparr>perrno := EINVAL\<rparr>))"

text \<open>\<open>NONFATAL_MISSING_LDLM_STATS\<close>: a missing file reads as 0.\<close>

definition ldlm_readint1 :: "sys \<Rightarrow> pctx \<Rightarrow> string \<Rightarrow> string \<Rightarrow> (u64 option \<times> pctx) option" where
  "ldlm_readint1 sy c tmpl name = do {
     (n, c1) \<leftarrow> readint1 sy c tmpl name;
     Some (if n = None \<and> perrno c1 = ENOENT then Some 0 else n, c1)
   }"

definition proc_lustre_ldlm_lock_count :: "sys \<Rightarrow> pctx \<Rightarrow> string \<Rightarrow> (u64 option \<times> pctx) option" where
  "proc_lustre_ldlm_lock_count sy c name =
     (if strstr name ''-OST'' then ldlm_readint1 sy c ''fs/lustre/ldlm/namespaces/filter-%s_UUID/lock_count'' name
      else if strstr name ''-MDT'' then ldlm_readint1 sy c ''fs/lustre/ldlm/namespaces/mds-%s_UUID/lock_count'' name
      else Some (None, c\<lparr>perrno := EINVAL\<rparr>))"

definition proc_lustre_ldlm_grant_rate :: "sys \<Rightarrow> pctx \<Rightarrow> string \<Rightarrow> (u64 option \<times> pctx) option" where
  "proc_lustre_ldlm_grant_rate sy c name =
     (if strstr name ''-OST'' then ldlm_readint1 sy c ''fs/lustre/ldlm/namespaces/filter-%s_UUID/pool/grant_rate'' name
      else if strstr name ''-MDT'' then ldlm_readint1 sy c ''fs/lustre/ldlm/namespaces/mds-%s_UUID/pool/grant_rate'' name
      else Some (None, c\<lparr>perrno := EINVAL\<rparr>))"

definition proc_lustre_ldlm_cancel_rate :: "sys \<Rightarrow> pctx \<Rightarrow> string \<Rightarrow> (u64 option \<times> pctx) option" where
  "proc_lustre_ldlm_cancel_rate sy c name =
     (if strstr name ''-OST'' then ldlm_readint1 sy c ''fs/lustre/ldlm/namespaces/filter-%s_UUID/pool/cancel_rate'' name
      else if strstr name ''-MDT'' then ldlm_readint1 sy c ''fs/lustre/ldlm/namespaces/mds-%s_UUID/pool/cancel_rate'' name
      else Some (None, c\<lparr>perrno := EINVAL\<rparr>))"

definition trim_uuid :: "string \<Rightarrow> string" where
  "trim_uuid s =
     (if 5 \<le> length s \<and> drop (length s - 5) s = ''_UUID'' then take (length s - 5) s else s)"

definition proc_lustre_uuid :: "sys \<Rightarrow> pctx \<Rightarrow> string \<Rightarrow> (string option \<times> pctx) option" where
  "proc_lustre_uuid sy c name =
     (if strstr name ''-OST'' then do {
        (r, c1) \<leftarrow> readstr1 sy c ''fs/lustre/obdfilter/%s/uuid'' name; Some (map_option trim_uuid r, c1) }
      else if strstr name ''-MDT'' then do {
        (r, c1) \<leftarrow> readstr1 sy c ''%s/uuid'' name; Some (map_option trim_uuid r, c1) }
      else Some (None, c\<lparr>perrno := EINVAL\<rparr>))"

text \<open>The trimmed uuid and the state.\<close>

definition proc_lustre_oscinfo :: "sys \<Rightarrow> pctx \<Rightarrow> string \<Rightarrow> ((string \<times> string) option \<times> pctx) option" where
  "proc_lustre_oscinfo sy c name = do {
     (v, c1) \<leftarrow> packed_lustre_version sy c;
     (ret, c2) \<leftarrow> proc_openf sy c1 (expand (if use_proc_layout v then ''fs/lustre/osc/%s/ost_server_uuid''
                                          else ''kernel/debug/lustre/osp/%s/ost_server_uuid'') [name]);
     if ret < 0 then Some (None, c2)
     else do {
       ((n, vs), c3) \<leftarrow> proc_scanf sy c2 None [DStr 31, DWs, DStr 31];
       (let c4 = (if n \<noteq> 2 then c3\<lparr>perrno := EIO\<rparr> else c3)
        in do {
             c5 \<leftarrow> proc_close c4;
             Some (if n \<noteq> 2 then None else Some (trim_uuid (sval_str (vs ! 0)), sval_str (vs ! 1)), c5)
           })
     }
   }"

section \<open>Directories\<close>

function subdir_loop :: "pctx \<Rightarrow> (string list \<times> pctx) option" where
  "subdir_loop c =
     (case proc_readdir c False True of
        None \<Rightarrow> None
      | Some (None, c1) \<Rightarrow> Some ([], c1)
      | Some (Some name, c1) \<Rightarrow>
          (case subdir_loop c1 of
             None \<Rightarrow> None
           | Some (l, c2) \<Rightarrow>
               Some (if strstr name ''-osc-'' \<and> \<not> strstr name ''MDT'' then l else name # l, c2)))"
  by pat_completeness auto
termination
proof (relation "measure (\<lambda>c. case pctx_dp c of None \<Rightarrow> 0 | Some d \<Rightarrow> length (dents d))", goal_cases)
  case (2 c x y c1 name)
  have "readdir_loop a b ds = (Some n, ds') \<Longrightarrow> length ds' < length ds" for a b n ds ds'
    by (induction a b ds rule: readdir_loop.induct) (auto split: if_splits)
  with 2 show ?case by (auto simp: proc_readdir_def split: option.splits prod.splits)
qed simp

declare subdir_loop.simps [simp del]

text \<open>\<open>list_sort\<close> with \<open>strcmp\<close> on the list of the names.\<close>

definition subdirlist :: "sys \<Rightarrow> pctx \<Rightarrow> string \<Rightarrow> (string list option \<times> pctx) option" where
  "subdirlist sy c path = do {
     (ret, c1) \<leftarrow> proc_open sy (c\<lparr>perrno := E0\<rparr>) path;
     if ret < 0 then Some (None, c1)
     else do {
       (l, c2) \<leftarrow> subdir_loop c1;
       c3 \<leftarrow> proc_close c2;
       Some (if perrno c2 = E0 then Some (sort_spec strcmp l) else None, c3)
     }
   }"

definition proc_lustre_ostlist :: "sys \<Rightarrow> pctx \<Rightarrow> (string list option \<times> pctx) option" where
  "proc_lustre_ostlist sy c = subdirlist sy c ''fs/lustre/obdfilter''"

definition proc_lustre_mdtlist :: "sys \<Rightarrow> pctx \<Rightarrow> (string list option \<times> pctx) option" where
  "proc_lustre_mdtlist sy c =
     (case proc_exists sy c ''fs/lustre'' of (r, c1) \<Rightarrow>
        if r \<noteq> 0 then Some (None, c1)
        else do { (mdt_dir, c2) \<leftarrow> find_mdt_dir sy c1; subdirlist sy c2 mdt_dir })"

definition proc_lustre_osclist :: "sys \<Rightarrow> pctx \<Rightarrow> (string list option \<times> pctx) option" where
  "proc_lustre_osclist sy c = do {
     (v, c1) \<leftarrow> packed_lustre_version sy c;
     subdirlist sy c1 (if use_proc_layout v then ''fs/lustre/osc'' else ''kernel/debug/lustre/osp/'')
   }"

definition proc_lustre_mdt_exportlist :: "sys \<Rightarrow> pctx \<Rightarrow> string \<Rightarrow> (string list option \<times> pctx) option" where
  "proc_lustre_mdt_exportlist sy c name = do {
     (mdt_dir, c1) \<leftarrow> find_mdt_dir sy c;
     (let len = length ''%s/%s/exports'' + length mdt_dir + length name + 1
      in subdirlist sy c1 (snd (snprintf len (expand ''%s/%s/exports'' [mdt_dir, name]))))
   }"

section \<open>Statistics nodes\<close>

record statvals =
  st_count :: u64
  st_min :: u64
  st_max :: u64
  st_sum :: u64
  st_sumsq :: u64

definition stat_node_fmt :: "dir list" where
  "stat_node_fmt = [DU64] @ lits '' samples '' @ [DSkipStr, DWs, DU64, DWs, DU64, DWs, DU64, DWs, DU64]"

text \<open>Values that were not matched stay 0; \<open>None\<close> is -1 with \<open>errno = EIO\<close>.\<close>

definition nth0 :: "sval list \<Rightarrow> nat \<Rightarrow> u64" where
  "nth0 vs i = (if i < length vs then sval_u64 (vs ! i) else 0)"

definition parse_stat_node :: "shash \<Rightarrow> statvals option" where
  "parse_stat_node node =
     (case sscanf stat_node_fmt (shash_val node) of (n, vs) \<Rightarrow>
        if n < 1 then None
        else Some \<lparr>st_count = nth0 vs 0, st_min = nth0 vs 1, st_max = nth0 vs 2, st_sum = nth0 vs 3,
                   st_sumsq = nth0 vs 4\<rparr>)"

definition statvals_zero :: statvals where
  "statvals_zero = \<lparr>st_count = 0, st_min = 0, st_max = 0, st_sum = 0, st_sumsq = 0\<rparr>"

definition statvals_add :: "statvals \<Rightarrow> statvals \<Rightarrow> statvals" where
  "statvals_add a b =
     \<lparr>st_count = st_count a + st_count b, st_min = st_min a + st_min b, st_max = st_max a + st_max b,
      st_sum = st_sum a + st_sum b, st_sumsq = st_sumsq a + st_sumsq b\<rparr>"

definition print_statvals :: "statvals \<Rightarrow> string" where
  "print_statvals v =
     print_u64 (st_count v) @ '' samples [reqs] '' @ print_u64 (st_min v) @ '' '' @ print_u64 (st_max v) @
     '' '' @ print_u64 (st_sum v) @ '' '' @ print_u64 (st_sumsq v)"

text \<open>
  One line of \<open>_hash_aggregate_stats\<close>, after it has been read: go on with the table (\<open>Inr\<close>), or stop
  with a return value (\<open>Inl\<close>); both with \<open>errno\<close>. A node that does not parse ends the function with
  the 0 that \<open>_parse_stat\<close> returned.
\<close>

definition aggregate_line :: "string \<Rightarrow> stats \<Rightarrow> errno \<Rightarrow> (int + unit) \<times> stats \<times> errno" where
  "aggregate_line line h e =
     (case parse_stat line of
        None \<Rightarrow> (Inl (- 1), h, EIO)
      | Some cur \<Rightarrow>
          if shash_key cur = ''snapshot_time'' then (Inr (), h, e)
          else case parse_stat_node cur of
            None \<Rightarrow> (Inl 0, h, EIO)
          | Some new \<Rightarrow>
              (case hash_find h (Some (shash_key cur)) of (old, e1) \<Rightarrow>
                 case (case old of None \<Rightarrow> Some (statvals_zero, h, e1)
                       | Some o' \<Rightarrow> (case parse_stat_node o' of None \<Rightarrow> None
                           | Some ov \<Rightarrow> (case hash_remove h (Some (shash_key o')) of (_, h1, e2) \<Rightarrow> Some (ov, h1, e2)))) of
                   None \<Rightarrow> (Inl 0, h, EIO)
                 | Some (oldv, h1, e2) \<Rightarrow>
                     (let newval = snd (snprintf 256 (print_statvals (statvals_add oldv new)));
                          nw = create_shash (shash_key cur) newval
                      in case hash_insert h1 (Some (shash_key nw)) (Some nw) True e2 of
                           (None, h2, e3) \<Rightarrow> (Inl (- 1), h2, e3)
                         | (Some _, h2, e3) \<Rightarrow> (Inr (), h2, e3))))"

text \<open>The end of the loop and what follows it: a -1 with \<open>errno\<close> clear becomes 0; \<open>goto done\<close> skips that.\<close>

function hash_aggregate_loop :: "sys \<Rightarrow> pctx \<Rightarrow> stats \<Rightarrow> (int \<times> stats \<times> pctx) option" where
  "hash_aggregate_loop sy c h =
     (case proc_gets sy c None 256 of
        None \<Rightarrow> None
      | Some (None, c1) \<Rightarrow> Some (- 1, h, c1)
      | Some (Some line, c1) \<Rightarrow>
          (case aggregate_line line h (perrno c1) of
             (Inl r, h1, e) \<Rightarrow> Some (r, h1, c1\<lparr>perrno := e\<rparr>)
           | (Inr _, h1, e) \<Rightarrow> hash_aggregate_loop sy (c1\<lparr>perrno := e\<rparr>) h1))"
  by pat_completeness auto
termination
proof (relation "measure (\<lambda>(sy, c, h). remaining c)", goal_cases)
  case (2 sy c h x y c1 line)
  have "remaining (c1\<lparr>perrno := e\<rparr>) = remaining c1" for e by (simp add: remaining_def)
  with 2 show ?case by (auto dest: proc_gets_remaining)
qed simp

declare hash_aggregate_loop.simps [simp del]

definition hash_aggregate_stats :: "sys \<Rightarrow> pctx \<Rightarrow> stats \<Rightarrow> (int \<times> stats \<times> pctx) option" where
  "hash_aggregate_stats sy c h = do {
     (ret, h1, c1) \<leftarrow> hash_aggregate_loop sy (c\<lparr>perrno := E0\<rparr>) h;
     Some (if ret = - 1 \<and> perrno c1 = E0 then 0 else ret, h1, c1)
   }"

text \<open>The key is renamed in place, in the node and in the item it points to.\<close>

definition rekey_mdt_stats :: "shash \<Rightarrow> string \<Rightarrow> unit \<Rightarrow> int \<times> (string \<times> shash) \<times> unit" where
  "rekey_mdt_stats s key u =
     (if take 4 key \<noteq> ''mds_'' then (0, (key, s), u)
      else (0, (drop 4 key, s\<lparr>shash_key := drop 4 key\<rparr>), u))"

fun aggregate_exports :: "sys \<Rightarrow> pctx \<Rightarrow> string \<Rightarrow> string \<Rightarrow> string list \<Rightarrow> int \<Rightarrow> stats \<Rightarrow>
    (int \<times> stats \<times> pctx) option" where
  "aggregate_exports sy c mdt_dir mdt_name [] ret h = Some (ret, h, c)"
| "aggregate_exports sy c mdt_dir mdt_name (name # l) ret h = do {
     (r, c1) \<leftarrow> proc_openf sy c (expand ''%s/%s/exports/%s/stats'' [mdt_dir, mdt_name, name]);
     if r < 0 then Some (if perrno c1 = ENOENT then 0 else r, h, c1)
     else do {
       (r2, h1, c2) \<leftarrow> hash_aggregate_stats sy c1 h;
       if r2 < 0 then Some (r2, h1, c2)
       else do { c3 \<leftarrow> proc_close c2; aggregate_exports sy c3 mdt_dir mdt_name l r2 h1 }
     }
   }"

text \<open>When the export list cannot be read, \<open>l\<close> is still the empty list created first.\<close>

definition aggregate_mdt_export_stats :: "sys \<Rightarrow> pctx \<Rightarrow> string \<Rightarrow> stats \<Rightarrow> (int \<times> stats \<times> pctx) option" where
  "aggregate_mdt_export_stats sy c mdt_name h = do {
     (mdt_dir, c1) \<leftarrow> find_mdt_dir sy c;
     (r, c2) \<leftarrow> proc_lustre_mdt_exportlist sy c1 mdt_name;
     (let ret = (if r = None then - 1 else 0); l = (case r of None \<Rightarrow> [] | Some l' \<Rightarrow> l')
      in if ret < 0 \<and> perrno c2 = ENOENT \<or> length l = 0 then Some (0, h, c2)
         else if ret < 0 then Some (ret, h, c2)
         else aggregate_exports sy c2 mdt_dir mdt_name l ret h)
   }"

definition proc_lustre_hashstats :: "sys \<Rightarrow> pctx \<Rightarrow> string \<Rightarrow> (stats option \<times> pctx) option" where
  "proc_lustre_hashstats sy c name = do {
     (v, c1) \<leftarrow> packed_lustre_version sy c;
     ((ret, tmpl), c2) \<leftarrow> build_osd_stats_path sy c1 name;
     case tmpl of
       None \<Rightarrow> Some (None, c2)
     | Some t \<Rightarrow> do {
         (r, c3) \<leftarrow> proc_openf sy c2 (expand t [name]);
         (ret1, h, c4) \<leftarrow> hash_stats sy c3 stats_hash_create;
         c5 \<leftarrow> proc_close c4;
         if ret1 < 0 then Some (None, c5)
         else if strstr name ''-MDT'' \<and> v \<ge> lustre_2_0 then do {
           (ret2, h1, c6) \<leftarrow> (if v < packed_version 2 0 56 0 then aggregate_mdt_export_stats sy c5 name h
                            else Some (ret1, h, c5));
           if ret2 < 0 then Some (None, c6)
           else (case hash_for_each h1 (Some rekey_mdt_stats) () (perrno c6) of (_, h2, _, e) \<Rightarrow>
                   Some (if ret2 = 0 then Some h2 else None, c6\<lparr>perrno := e\<rparr>))
         }
         else Some (if ret1 = 0 then Some h else None, c5)
       }
   }"

definition proc_lustre_hashrecov :: "sys \<Rightarrow> pctx \<Rightarrow> string \<Rightarrow> (stats option \<times> pctx) option" where
  "proc_lustre_hashrecov sy c name = do {
     (ret, c1) \<leftarrow>
       (if strstr name ''-OST'' then proc_openf sy c (expand ''fs/lustre/obdfilter/%s/recovery_status'' [name])
        else if strstr name ''-MDT'' then do {
          ((r, tmplr), c') \<leftarrow> build_mdt_path sy c ''%s/recovery_status'';
          proc_openf sy c' (expand tmplr [name])
        }
        else Some (- 1, c\<lparr>perrno := EINVAL\<rparr>));
     if ret < 0 then Some (None, c1)
     else do {
       (ret1, h, c2) \<leftarrow> hash_stats sy c1 stats_hash_create;
       c3 \<leftarrow> proc_close c2;
       Some (if ret1 = 0 then Some h else None, c3)
     }
   }"

text \<open>The return value, the counters (0 for a missing key) and \<open>errno\<close>.\<close>

definition proc_lustre_parsestat :: "stats \<Rightarrow> string \<Rightarrow> int \<times> statvals \<times> errno" where
  "proc_lustre_parsestat h key =
     (case hash_find h (Some key) of
        (None, e) \<Rightarrow> (- 1, statvals_zero, EINVAL)
      | (Some s, e) \<Rightarrow>
          (case parse_stat_node s of None \<Rightarrow> (- 1, statvals_zero, EIO) | Some v \<Rightarrow> (0, v, e)))"

section \<open>LNET\<close>

definition newbytes_fmt :: "dir list" where
  "newbytes_fmt = concat (replicate 9 [DSkipInt, DWs]) @ [DU64, DWs, DSkipInt]"

definition proc_lustre_lnet_newbytes :: "sys \<Rightarrow> pctx \<Rightarrow> (u64 option \<times> pctx) option" where
  "proc_lustre_lnet_newbytes sy c = do {
     (v, c1) \<leftarrow> packed_lustre_version sy c;
     ((n, vs), c2) \<leftarrow> proc_scanf sy c1
        (Some (if use_proc_layout v then ''sys/lnet/stats'' else ''kernel/debug/lnet/stats'')) newbytes_fmt;
     if n < 0 then Some (None, c2)
     else if n \<noteq> 1 then Some (None, c2\<lparr>perrno := EIO\<rparr>)
     else Some (Some (sval_u64 (hd vs)), c2)
   }"

definition proc_lustre_lnet_routing_enabled :: "sys \<Rightarrow> pctx \<Rightarrow> (bool option \<times> pctx) option" where
  "proc_lustre_lnet_routing_enabled sy c = do {
     (v, c1) \<leftarrow> packed_lustre_version sy c;
     (buf, c2) \<leftarrow> proc_gets sy c1
        (Some (if use_proc_layout v then ''sys/lnet/routes'' else ''kernel/debug/lnet/routes'')) 32;
     Some (case buf of
         None \<Rightarrow> (None, if perrno c2 = E0 then c2\<lparr>perrno := EIO\<rparr> else c2)
       | Some b \<Rightarrow> if b = ''Routing enabled'' then (Some True, c2)
                   else if b = ''Routing disabled'' then (Some False, c2)
                   else (None, c2\<lparr>perrno := EIO\<rparr>))
   }"

section \<open>Histograms\<close>

record histent =
  hx :: u64
  hyr :: u64
  hyw :: u64

type_synonym histogram = "histent list"

definition histogram_create :: histogram where "histogram_create = []"

fun histogram_add :: "histogram \<Rightarrow> u64 \<Rightarrow> u64 \<Rightarrow> u64 \<Rightarrow> histogram" where
  "histogram_add [] x yr yw = [\<lparr>hx = x, hyr = 0 + yr, hyw = 0 + yw\<rparr>]"
| "histogram_add (b # bs) x yr yw =
     (if hx b = x then b\<lparr>hx := x, hyr := hyr b + yr, hyw := hyw b + yw\<rparr> # bs
      else b # histogram_add bs x yr yw)"

definition cmp_bin :: "histent \<Rightarrow> histent \<Rightarrow> int" where
  "cmp_bin h1 h2 = (if hx h1 < hx h2 then - 1 else if hx h1 > hx h2 then 1 else 0)"

text \<open>\<open>qsort\<close> by \<open>x\<close>; the bins of a histogram have different \<open>x\<close>, so the result is unique.\<close>

definition histogram_sort :: "histogram \<Rightarrow> histogram" where
  "histogram_sort h = sort_key hx h"

datatype brw = BRW_RPC | BRW_DISPAGES | BRW_DISBLOCKS | BRW_FRAG | BRW_FLIGHT | BRW_IOTIME | BRW_IOSIZE

fun brw_heading :: "brw \<Rightarrow> string" where
  "brw_heading BRW_RPC = ''pages per bulk r/w''"
| "brw_heading BRW_DISPAGES = ''discontiguous pages''"
| "brw_heading BRW_DISBLOCKS = ''discontiguous blocks''"
| "brw_heading BRW_FRAG = ''disk fragmented I/Os''"
| "brw_heading BRW_FLIGHT = ''disk I/Os in flight''"
| "brw_heading BRW_IOTIME = ''I/O time (1/1000s)''"
| "brw_heading BRW_IOSIZE = ''disk I/O size''"

function brw_seek :: "sys \<Rightarrow> pctx \<Rightarrow> brw \<Rightarrow> (int \<times> pctx) option" where
  "brw_seek sy c t =
     (case proc_gets sy c None 256 of
        None \<Rightarrow> None
      | Some (None, c1) \<Rightarrow> Some (- 1, c1)
      | Some (Some line, c1) \<Rightarrow>
          if take (length (brw_heading t)) line = brw_heading t then Some (0, c1) else brw_seek sy c1 t)"
  by pat_completeness auto
termination
  by (relation "measure (\<lambda>(sy, c, t). remaining c)") (auto dest: proc_gets_remaining)

declare brw_seek.simps [simp del]

definition brw_fmt :: "dir list" where
  "brw_fmt = [DNot CHR '':'' (Some 15), DLit CHR '':'', DWs, DU64, DWs, DSkipInt, DWs, DSkipInt, DWs,
     DLit CHR ''|'', DWs, DU64, DWs, DSkipInt, DWs, DSkipInt]"

definition bin_x :: "string \<Rightarrow> u64" where
  "bin_x s =
     (case strtoul10 s of (x, r) \<Rightarrow>
        if r \<noteq> [] \<and> hd r = CHR ''K'' then x * 1024
        else if r \<noteq> [] \<and> hd r = CHR ''M'' then x * (1024 * 1024) else x)"

text \<open>No directive gives input back, and \<open>%[...]\<close> consumes a character: the loop below ends.\<close>

lemma take_sign_length: "length (snd (take_sign s)) \<le> length s"
  by (simp add: take_sign_def split: list.splits)

lemma skip_ws_length: "length (skip_ws s) \<le> length s"
  by (simp add: skip_ws_def length_dropWhile_le)

lemma conv_int_length:
  "conv_int s = SOk v r \<Longrightarrow> length r \<le> length s" "conv_int s = SFail r \<Longrightarrow> length r \<le> length s"
  using take_sign_length [of "skip_ws s"] skip_ws_length [of s]
    length_dropWhile_le [of isdigit "snd (take_sign (skip_ws s))"]
  by (auto simp: conv_int_def Let_def split: if_splits prod.splits)

lemma conv_set_length: "conv_set w P s = SOk v r \<Longrightarrow> length r < length s"
  by (auto simp: conv_set_def span_max_def Let_def split: if_splits option.splits)

definition int_dirs :: "dir list \<Rightarrow> bool" where
  "int_dirs ds \<longleftrightarrow> list_all (\<lambda>d. case d of DWs \<Rightarrow> True | DLit _ \<Rightarrow> True | DU64 \<Rightarrow> True | DSkipInt \<Rightarrow> True | _ \<Rightarrow> False) ds"

lemma map_scan_eq: "map_scan f x = SOk v r \<longleftrightarrow> (\<exists>u. x = SOk u r \<and> v = f u)" "map_scan f x = SFail r \<longleftrightarrow> x = SFail r"
  by (cases x; auto)+

lemma int_step_length:
  assumes "int_dirs [d]" "scan_step d s = SOk v r \<or> scan_step d s = SFail r"
  shows "length r \<le> length s"
  using assms skip_ws_length [of s] by (cases d) (auto simp: int_dirs_def map_scan_eq dest: conv_int_length split: list.splits if_splits)

lemma int_dirs_length: "int_dirs ds \<Longrightarrow> length (fst (snd (scan_dirs ds s))) \<le> length s"
proof (induction ds arbitrary: s)
  case Nil
  then show ?case by simp
next
  case (Cons d ds)
  have d: "int_dirs [d]" "int_dirs ds" using Cons(2) by (simp_all add: int_dirs_def)
  show ?case
  proof (cases "scan_step d s")
    case (SOk v r)
    then have "length r \<le> length s" using int_step_length [OF d(1)] by blast
    moreover have "length (fst (snd (scan_dirs ds r))) \<le> length r" by (rule Cons(1) [OF d(2)])
    ultimately show ?thesis using SOk by (auto split: prod.splits)
  next
    case (SFail r)
    then show ?thesis using int_step_length [OF d(1)] by auto
  qed simp
qed

lemma brw_scan_consumes:
  assumes "scan_dirs brw_fmt s = (vs, r, eof)" "vs \<noteq> []"
  shows "length r < length s"
proof -
  obtain ds where ds: "brw_fmt = DNot CHR '':'' (Some 15) # ds" "int_dirs ds" by (simp add: brw_fmt_def int_dirs_def)
  obtain v r1 where v: "conv_set (Some 15) (\<lambda>x. x \<noteq> CHR '':'') s = SOk v r1"
    using assms unfolding ds(1) by (cases "conv_set (Some 15) (\<lambda>x. x \<noteq> CHR '':'') s") auto
  have "length r1 < length s" using conv_set_length [OF v] .
  moreover have "r = fst (snd (scan_dirs ds r1))" using assms(1) v unfolding ds(1) by (auto split: prod.splits)
  ultimately show ?thesis using int_dirs_length [OF ds(2), of r1] by simp
qed

function brw_parse_loop :: "sys \<Rightarrow> pctx \<Rightarrow> histogram \<Rightarrow> (histogram \<times> pctx) option" where
  "brw_parse_loop sy c h =
     (case proc_scanf sy c None brw_fmt of
        None \<Rightarrow> None
      | Some ((n, vs), c1) \<Rightarrow>
          if n = 3
          then brw_parse_loop sy c1
                 (histogram_add h (bin_x (sval_str (vs ! 0))) (sval_u64 (vs ! 1)) (sval_u64 (vs ! 2)))
          else Some (h, c1))"
  by pat_completeness auto
termination
proof (relation "measure (\<lambda>(sy, c, h). remaining c)", goal_cases)
  case (2 sy c h x y c1 n vs)
  then obtain f where f: "pctx_fp c = Some f" by (auto simp: proc_scanf_def split: if_splits)
  obtain us r eof where sc: "scan_dirs brw_fmt (sdata f) = (us, r, eof)" using prod_cases3 by blast
  have "proc_scanf sy c None brw_fmt = Some ((n, vs), c1)" using 2 by simp
  then have "vs = us" "remaining c1 = length r" "n = scanf_result (us, r, eof)"
    using f sc by (auto simp: proc_scanf_def proc_vscanf_def vfscanf_def remaining_def split: if_splits)
  moreover have "us \<noteq> []" using calculation 2 by (auto simp: scanf_result_def split: if_splits)
  ultimately show ?case using brw_scan_consumes [OF sc] f by (simp add: remaining_def)
qed simp

declare brw_parse_loop.simps [simp del]

text \<open>
  \<open>ret = proc_scanf (...) == 3\<close> assigns the result of the comparison: behind the loop \<open>ret\<close> is 0, and
  the function returns 0.
\<close>

definition brw_parse :: "sys \<Rightarrow> pctx \<Rightarrow> ((int \<times> histogram option) \<times> pctx) option" where
  "brw_parse sy c = do {
     (h, c1) \<leftarrow> brw_parse_loop sy c histogram_create;
     (let ret = (0 :: int); ret' = (if ret \<noteq> 3 \<and> perrno c1 = E0 then 0 else ret)
      in Some ((ret', if ret' = 0 then Some (histogram_sort h) else None), c1))
   }"

definition brw_stats_paths :: "string list" where
  "brw_stats_paths =
     [''fs/lustre/obdfilter/%s/brw_stats'', ''fs/lustre/osd-ldiskfs/%s/brw_stats'',
      ''fs/lustre/osd-zfs/%s/brw_stats'', ''kernel/debug/lustre/osd-ldiskfs/%s/brw_stats'',
      ''kernel/debug/lustre/osd-zfs/%s/brw_stats'']"

fun open_first :: "sys \<Rightarrow> pctx \<Rightarrow> string \<Rightarrow> string list \<Rightarrow> int \<Rightarrow> (int \<times> pctx) option" where
  "open_first sy c name [] ret = Some (ret, c)"
| "open_first sy c name (p # ps) ret = do {
     (r, c1) \<leftarrow> proc_openf sy c (expand p [name]);
     if r = 0 then Some (r, c1) else open_first sy c1 name ps r
   }"

definition proc_lustre_brwstats :: "sys \<Rightarrow> pctx \<Rightarrow> string \<Rightarrow> brw \<Rightarrow> (histogram option \<times> pctx) option" where
  "proc_lustre_brwstats sy c name t =
     (if \<not> strstr name ''-OST'' then Some (None, c\<lparr>perrno := EINVAL\<rparr>)
      else do {
        (ret, c1) \<leftarrow> open_first sy c name brw_stats_paths (- 1);
        if ret < 0 then Some (None, c1)
        else do {
          (ret1, c2) \<leftarrow> brw_seek sy c1 t;
          ((ret2, h), c3) \<leftarrow> (if ret1 = 0 then brw_parse sy c2 else Some ((ret1, None), c2));
          c4 \<leftarrow> proc_close c3;
          Some (if ret2 = 0 then h else None, c4)
        }
      })"

end
