(* ===== verification/Lmt_Lustre_Facts.thy ===== *)
theory Lmt_Lustre_Facts
  imports Lmt_Lustre
begin

text \<open>
  What the queries of \<open>lustre.c\<close> do: the context is left closed, the statistics files become the
  map of their last lines, aggregation adds counters, renaming keeps the table usable, histograms are
  sorted, and directory listings are sorted and filtered.
\<close>

section \<open>The context is left closed\<close>

lemma balanced_bind:
  "balanced f \<Longrightarrow> (\<And>r. balanced (g r)) \<Longrightarrow> balanced (\<lambda>c. Option.bind (f c) (\<lambda>(r, c1). g r c1))"
proof (rule balancedI)
  fix c r c'
  assume f: "balanced f" and g: "\<And>r. balanced (g r)" and c: "ctx_closed c"
    and b: "Option.bind (f c) (\<lambda>(r, c1). g r c1) = Some (r, c')"
  obtain x c1 where "f c = Some (x, c1)" "g x c1 = Some (r, c')"
    using b by (auto simp: Option.bind_eq_Some_conv)
  then show "ctx_closed c'" using balancedD [OF f c] balancedD [OF g] by blast
qed

lemma proc_openf_eq:
  "proc_openf sy c p = (if ctx_closed c then proc_open sy c (snd (snprintf path_max p)) else None)"
  by (simp add: proc_openf_def proc_vopenf_def)

lemma proc_open_ret: "proc_open sy c p = Some (r, c') \<Longrightarrow> r = 0 \<or> r = - 1 \<and> ctx_closed c'"
proof -
  assume a: "proc_open sy c p = Some (r, c')"
  then have "ctx_closed c" by (simp add: proc_open_def split: if_splits)
  then show ?thesis using a by (cases rule: proc_open_cases [of c sy p]) auto
qed

lemma proc_openf_fail: "proc_openf sy c p = Some (r, c') \<Longrightarrow> r < 0 \<Longrightarrow> ctx_closed c'"
  using proc_open_ret by (fastforce simp: proc_openf_eq split: if_splits)

lemma proc_open_fail: "proc_open sy c p = Some (r, c') \<Longrightarrow> r \<noteq> 0 \<Longrightarrow> ctx_closed c'"
  using proc_open_ret by blast

lemma read_version_balanced: "balanced (read_lustre_version_string sy)"
proof (rule balancedI)
  fix c r c' assume "ctx_closed c" "read_lustre_version_string sy c = Some (r, c')"
  then show "ctx_closed c'"
    by (auto simp: read_lustre_version_string_def Option.bind_eq_Some_conv
        dest: proc_openf_fail proc_close_closed balancedD [OF proc_gets_path_balanced] split: if_splits option.splits prod.splits)
qed

lemma version_balanced: "balanced (proc_fs_lustre_version sy)"
  unfolding proc_fs_lustre_version_def
  by (rule balanced_bind [OF read_version_balanced])
    (auto simp: balanced_def case_prod_unfold split: option.splits if_splits)

lemma packed_version_balanced: "balanced (packed_lustre_version sy)"
  unfolding packed_lustre_version_def
  by (rule balanced_bind [OF version_balanced]) (auto simp: balanced_def Let_def split: prod.splits)

lemma find_mdt_dir_balanced: "balanced (find_mdt_dir sy)"
  unfolding find_mdt_dir_def
  by (rule balanced_bind [OF packed_version_balanced]) (auto simp: balanced_def)

lemma build_mdt_path_balanced: "balanced (\<lambda>c. build_mdt_path sy c tmpl)"
  unfolding build_mdt_path_def
  by (rule balanced_bind [OF find_mdt_dir_balanced]) (auto simp: balanced_def)

lemma backfs_balanced: "balanced (find_lustre_backfs_type sy)"
proof (rule balancedI)
  fix c r c' assume "ctx_closed c" "find_lustre_backfs_type sy c = Some (r, c')"
  then show "ctx_closed c'"
    by (auto simp: find_lustre_backfs_type_def Option.bind_eq_Some_conv
        dest: proc_open_fail proc_close_closed split: if_splits)
qed

lemma find_osd_dir_balanced: "balanced (find_osd_dir sy)"
  unfolding find_osd_dir_def
proof (rule balanced_bind [OF packed_version_balanced])
  fix v show "balanced (\<lambda>c1. if lustre_2_0 \<le> v then Option.bind (find_lustre_backfs_type sy c1)
    (\<lambda>(b, c2). Some (case b of BACKFS_LDISKFS \<Rightarrow> ''fs/lustre/osd-ldiskfs'' | BACKFS_ZFS \<Rightarrow> ''fs/lustre/osd-zfs'', c2))
    else Some (''fs/lustre/mds'', c1))"
    by (auto simp: balanced_def Option.bind_eq_Some_conv dest: balancedD [OF backfs_balanced])
qed

lemma build_osd_path_balanced: "balanced (\<lambda>c. build_osd_path sy c tmpl)"
  unfolding build_osd_path_def
  by (rule balanced_bind [OF find_osd_dir_balanced]) (auto simp: balanced_def)











section \<open>Statistics tables\<close>

definition stats_inv :: "stats \<Rightarrow> bool" where
  "stats_inv h \<longleftrightarrow> hash_inv h \<and> hsize h = 64 \<and> key_f h = hash_key_string"

lemma stats_hash_create_inv: "stats_inv stats_hash_create" "lookup stats_hash_create = Map.empty"
proof -
  obtain h :: stats and e where h: "hash_create stats_hash_size (Some hash_key_string) (Some strcmp) True True True E0 = (Some h, e)"
    by (simp add: hash_create_def stats_hash_size_def)
  have "hash_inv h" "lookup h = Map.empty" using hash_create_inv [OF h] by simp_all
  moreover have "hsize h = 64 \<and> key_f h = hash_key_string"
    using h by (auto simp: hash_create_def stats_hash_size_def)
  ultimately show "stats_inv stats_hash_create" "lookup stats_hash_create = Map.empty"
    using h by (simp_all add: stats_hash_create_def stats_inv_def)
qed

lemma hash_ops_frame:
  "hash_insert h k d m e = (r, h', e') \<Longrightarrow> hsize h' = hsize h \<and> key_f h' = key_f h"
  "hash_remove h k = (r, h', e') \<Longrightarrow> hsize h' = hsize h \<and> key_f h' = key_f h"
proof -
  show "hash_insert h k d m e = (r, h', e') \<Longrightarrow> hsize h' = hsize h \<and> key_f h' = key_f h"
    by (cases k; cases d) (auto simp: hash_insert_def Let_def split: if_splits)
  show "hash_remove h k = (r, h', e') \<Longrightarrow> hsize h' = hsize h \<and> key_f h' = key_f h"
  proof (cases k)
    case (Some x)
    assume a: "hash_remove h k = (r, h', e')"
    obtain o' c where "chain_remove (cmp_f h) x (table h ! slot h x) = (o', c)" by fastforce
    with a Some show ?thesis by (cases o') (auto simp: hash_remove_def Let_def)
  qed (simp add: hash_remove_def)
qed

lemma pctx_upd_swap: "c\<lparr>pctx_fp := a, perrno := e\<rparr> = c\<lparr>perrno := e, pctx_fp := a\<rparr>"
  by (cases c) simp

lemma lastinwins_spec:
  assumes "stats_inv h"
  obtains h' where "hash_insert_lastinwins h k s E0 = (Some s, h', E0)" "stats_inv h'" "lookup h' = (lookup h)(k \<mapsto> s)"
proof (cases "lookup h k")
  have inv: "hash_inv h" using assms by (simp add: stats_inv_def)
  case None
  obtain h' where h': "hash_insert h (Some k) (Some s) True E0 = (Some s, h', E0)" "hash_inv h'"
    "lookup h' = (lookup h)(k \<mapsto> s)"
    by (rule hash_insert_new [OF inv None])
  then show thesis using that [of h'] hash_ops_frame(1) [OF h'(1)] assms
    by (simp add: hash_insert_lastinwins_def stats_inv_def)
next
  have inv: "hash_inv h" using assms by (simp add: stats_inv_def)
  case (Some w)
  have dup: "hash_insert h (Some k) (Some s) True E0 = (None, h, EEXIST)"
    by (rule hash_insert_dup [OF inv Some])
  obtain h1 where h1: "hash_remove h (Some k) = (lookup h k, h1, E0)" "hash_inv h1" "lookup h1 = (lookup h)(k := None)"
    by (rule hash_remove_spec [OF inv])
  have none: "lookup h1 k = None" by (simp add: h1(3))
  obtain h' where h': "hash_insert h1 (Some k) (Some s) True E0 = (Some s, h', E0)" "hash_inv h'"
    "lookup h' = (lookup h1)(k \<mapsto> s)"
    by (rule hash_insert_new [OF h1(2) none])
  show thesis
    by (rule that [of h']) (use dup h1 h' hash_ops_frame(1) [OF h'(1)] hash_ops_frame(2) [OF h1(1)] assms in
        \<open>simp_all add: hash_insert_lastinwins_def stats_inv_def\<close>)
qed

subsection \<open>Reading a file of key/value lines\<close>

text \<open>A line \<open>key\<close>, white space, \<open>value\<close> that fits in the buffer.\<close>

definition stat_line :: "string \<times> string \<times> string \<Rightarrow> string" where
  "stat_line = (\<lambda>(k, sp, v). k @ sp @ v)"

definition good_stat :: "string \<times> string \<times> string \<Rightarrow> bool" where
  "good_stat = (\<lambda>(k, sp, v). (\<forall>c \<in> set k. \<not> isspace c) \<and> sp \<noteq> [] \<and> (\<forall>c \<in> set sp. isspace c \<and> c \<noteq> newline) \<and>
     v \<noteq> [] \<and> \<not> isspace (hd v) \<and> newline \<notin> set v \<and> length k + length sp + length v < 255)"

definition stat_text :: "(string \<times> string \<times> string) list \<Rightarrow> string" where
  "stat_text ls = concat (map (\<lambda>l. stat_line l @ [newline]) ls)"

lemma parse_stat_line:
  assumes "good_stat (k, sp, v)"
  shows "parse_stat (stat_line (k, sp, v)) = Some (create_shash k v)"
proof -
  obtain s sps where sp: "sp = s # sps" "isspace s" "\<forall>c \<in> set sps. isspace c"
    using assms by (cases sp) (auto simp: good_stat_def)
  obtain w ws where v: "v = w # ws" "\<not> isspace w" using assms by (cases v) (auto simp: good_stat_def)
  have k: "\<forall>c \<in> set k. \<not> isspace c" using assms by (simp add: good_stat_def)
  have "takeWhile (\<lambda>c. \<not> isspace c) (k @ s # sps @ w # ws) = k"
    "dropWhile (\<lambda>c. \<not> isspace c) (k @ s # sps @ w # ws) = s # sps @ w # ws"
    using k sp by simp_all
  moreover have "dropWhile isspace (sps @ w # ws) = w # ws" using sp v by simp
  ultimately show ?thesis by (simp add: parse_stat_def stat_line_def sp(1) v(1) Let_def)
qed

lemma stat_line_newline: "good_stat l \<Longrightarrow> newline \<notin> set (stat_line l)"
proof -
  assume g: "good_stat l"
  obtain k sp v where l: "l = (k, sp, v)" by (metis prod_cases3)
  have k: "\<forall>c \<in> set k. \<not> isspace c" and sp: "\<forall>c \<in> set sp. isspace c \<and> c \<noteq> newline" and v: "newline \<notin> set v"
    using g by (simp_all add: l good_stat_def)
  have "newline \<notin> set k" using k isspace_consts(2) by blast
  moreover have "newline \<notin> set sp" using sp by blast
  ultimately show ?thesis using v by (simp add: l stat_line_def)
qed

lemma stat_line_length: "good_stat l \<Longrightarrow> length (stat_line l) < 255"
  by (cases l) (simp add: good_stat_def stat_line_def)

lemma gets_stat_line:
  assumes "pctx_fp c = Some f" "pctx_dp c = None" "sdata f = stat_text (l # ls)" "good_stat l"
  shows "proc_gets sy c None 256 =
    Some (Some (stat_line l), c\<lparr>perrno := E0, pctx_fp := Some (f\<lparr>sdata := stat_text ls\<rparr>)\<rparr>)"
proof (rule proc_gets_line [OF assms(1,2)])
  show "sdata f = stat_line l @ newline # stat_text ls" using assms(3) by (simp add: stat_text_def)
  show "newline \<notin> set (stat_line l)" by (rule stat_line_newline [OF assms(4)])
  show "Suc (length (stat_line l)) < 256" using stat_line_length [OF assms(4)] by simp
qed

definition stat_entry :: "string \<times> string \<times> string \<Rightarrow> string \<times> shash" where
  "stat_entry = (\<lambda>(k, sp, v). (k, create_shash k v))"

lemma hash_stats_loop_text:
  "stats_inv h \<Longrightarrow> pctx_fp c = Some f \<Longrightarrow> pctx_dp c = None \<Longrightarrow> sdata f = stat_text ls \<Longrightarrow> serr f = E0 \<Longrightarrow>
   list_all good_stat ls \<Longrightarrow> perrno c = E0 \<Longrightarrow>
   \<exists>h' c'. hash_stats_loop sy c h = Some (- 1, h', c') \<and> stats_inv h' \<and> perrno c' = E0 \<and>
     lookup h' = lookup h ++ map_of (rev (map stat_entry ls)) \<and>
     c' = c\<lparr>pctx_fp := Some (f\<lparr>sdata := []\<rparr>)\<rparr>"
proof (induction ls arbitrary: h c f)
  case Nil
  then have "proc_gets sy c None 256 = Some (None, c\<lparr>perrno := E0, pctx_fp := Some f\<rparr>)"
    using proc_gets_eof [of c f] by (simp add: stat_text_def)
  then show ?case using Nil by (subst hash_stats_loop.simps) (simp add: stat_text_def)
next
  case (Cons l ls)
  obtain k sp v where l: "l = (k, sp, v)" by (metis prod_cases3)
  have g: "good_stat l" using Cons(7) by simp
  let ?s = "create_shash k v"
  obtain h1 where h1: "hash_insert_lastinwins h k ?s E0 = (Some ?s, h1, E0)" "stats_inv h1"
    "lookup h1 = (lookup h)(k \<mapsto> ?s)" using lastinwins_spec [OF Cons(2)] by blast
  let ?c = "c\<lparr>perrno := E0, pctx_fp := Some (f\<lparr>sdata := stat_text ls\<rparr>)\<rparr>"
  have step: "hash_stats_loop sy c h = hash_stats_loop sy ?c h1"
    using gets_stat_line [OF Cons(3-5) g] parse_stat_line [OF g [unfolded l]] h1(1)
    by (subst hash_stats_loop.simps) (simp add: l create_shash_def pctx_upd_swap)
  have "\<exists>h' c'. hash_stats_loop sy ?c h1 = Some (- 1, h', c') \<and> stats_inv h' \<and> perrno c' = E0 \<and>
     lookup h' = lookup h1 ++ map_of (rev (map stat_entry ls)) \<and>
     c' = ?c\<lparr>pctx_fp := Some (f\<lparr>sdata := stat_text ls, sdata := []\<rparr>)\<rparr>"
    by (rule Cons(1)) (use Cons h1(2) in simp_all)
  moreover have "lookup h1 ++ map_of (rev (map stat_entry ls)) = lookup h ++ map_of (rev (map stat_entry (l # ls)))"
    by (simp add: h1(3) l stat_entry_def map_add_upd_left)
  ultimately show ?case using step Cons(8) by auto
qed

lemma hash_stats_text:
  assumes "stats_inv h" "pctx_fp c = Some f" "pctx_dp c = None" "sdata f = stat_text ls" "serr f = E0"
    "list_all good_stat ls"
  shows "\<exists>h'. hash_stats sy c h = Some (0, h', c\<lparr>perrno := E0, pctx_fp := Some (f\<lparr>sdata := []\<rparr>)\<rparr>) \<and> stats_inv h' \<and>
     lookup h' = lookup h ++ map_of (rev (map stat_entry ls))"
  using hash_stats_loop_text [of h "c\<lparr>perrno := E0\<rparr>" f ls sy] assms by (auto simp: hash_stats_def)

subsection \<open>Counters\<close>

lemma skip_ws_print_u64 [simp]:
  "skip_ws (CHR '' '' # print_u64 w @ r) = print_u64 w @ r" "skip_ws (print_u64 w @ r) = print_u64 w @ r"
  using skip_ws_dec_string [of "unat w" r] by (simp_all add: print_u64_def skip_ws_def)

lemma skip_ws_print_u64_end [simp]:
  "skip_ws (print_u64 w) = print_u64 w"
  using skip_ws_print_u64(2) [of w "[]"] by simp

lemma skip_ws_space [simp]: "skip_ws (CHR '' '' # s) = skip_ws s"
  by (simp add: skip_ws_def)

lemma parse_print_statvals:
  "parse_stat_node (create_shash k (print_statvals v)) = Some v"
proof -
  have s: "sscanf stat_node_fmt (print_statvals v) =
    (5, [VU (st_count v), VU (st_min v), VU (st_max v), VU (st_sum v), VU (st_sumsq v)])"
    by (simp add: sscanf_def stat_node_fmt_def lits_def print_statvals_def scan_simps isspace_def
        conv_str_def span_max_def scanf_result_def Let_def del: scan_step.simps(3) scan_dirs.simps(2))
  show ?thesis by (simp add: parse_stat_node_def create_shash_def s nth0_def sval_u64_def)
qed

text \<open>What a key of the table counts.\<close>

definition stat_of :: "stats \<Rightarrow> string \<Rightarrow> statvals option" where
  "stat_of h k = Option.bind (lookup h k) parse_stat_node"

lemma print_u64_length: "length (print_u64 w) \<le> 20"
proof -
  have "unat w < 10 ^ 20" by (rule less_trans [OF unat_u64_bound]) simp
  then show ?thesis unfolding print_u64_def by (rule length_dec_string_le) simp
qed

lemma print_statvals_fits: "snd (snprintf 256 (print_statvals v)) = print_statvals v"
proof -
  have "length (print_statvals v) < 256"
    using print_u64_length [of "st_count v"] print_u64_length [of "st_min v"] print_u64_length [of "st_max v"]
      print_u64_length [of "st_sum v"] print_u64_length [of "st_sumsq v"]
    by (simp add: print_statvals_def)
  then show ?thesis by (simp add: snprintf_fits)
qed

text \<open>Every datum is stored under its own key, and counts something.\<close>

definition stats_keyed :: "stats \<Rightarrow> bool" where
  "stats_keyed h \<longleftrightarrow> (\<forall>k s. lookup h k = Some s \<longrightarrow> shash_key s = k)"

lemma aggregate_line_adds:
  assumes inv: "stats_inv h" "stats_keyed h"
    and line: "parse_stat line = Some cur" "shash_key cur = k" "k \<noteq> ''snapshot_time''" "parse_stat_node cur = Some new"
    and old: "\<And>s. lookup h k = Some s \<Longrightarrow> parse_stat_node s \<noteq> None"
  obtains h' where "aggregate_line line h E0 = (Inr (), h', E0)" "stats_inv h'" "stats_keyed h'"
    "stat_of h' = (stat_of h)(k \<mapsto> statvals_add (case stat_of h k of None \<Rightarrow> statvals_zero | Some v \<Rightarrow> v) new)"
proof -
  have hinv: "hash_inv h" using inv by (simp add: stats_inv_def)
  have find: "hash_find h (Some k) = (lookup h k, E0)" by (rule hash_find_spec [OF hinv])
  define ov where "ov = (case stat_of h k of None \<Rightarrow> statvals_zero | Some v \<Rightarrow> v)"
  define nw where "nw = create_shash k (print_statvals (statvals_add ov new))"
  obtain h1 where h1: "(case lookup h k of None \<Rightarrow> Some (statvals_zero, h, E0)
      | Some o' \<Rightarrow> (case parse_stat_node o' of None \<Rightarrow> None
          | Some ov \<Rightarrow> (case hash_remove h (Some (shash_key o')) of (_, h1, e2) \<Rightarrow> Some (ov, h1, e2)))) = Some (ov, h1, E0)"
    "hash_inv h1" "lookup h1 = (lookup h)(k := None)" "hsize h1 = hsize h" "key_f h1 = key_f h"
  proof (cases "lookup h k")
    case None
    then have "(lookup h)(k := None) = lookup h" by auto
    with None show thesis using that [of h] hinv by (simp add: ov_def stat_of_def)
  next
    case (Some s)
    then obtain v where v: "parse_stat_node s = Some v" using old by blast
    obtain h2 where h2: "hash_remove h (Some k) = (lookup h k, h2, E0)" "hash_inv h2" "lookup h2 = (lookup h)(k := None)"
      by (rule hash_remove_spec [OF hinv])
    have "shash_key s = k" using inv(2) Some by (simp add: stats_keyed_def)
    then show thesis using that [of h2] Some v h2 hash_ops_frame(2) [OF h2(1)] by (simp add: ov_def stat_of_def)
  qed
  have none: "lookup h1 k = None" by (simp add: h1(3))
  obtain h' where h': "hash_insert h1 (Some k) (Some nw) True E0 = (Some nw, h', E0)" "hash_inv h'"
    "lookup h' = (lookup h1)(k \<mapsto> nw)"
    by (rule hash_insert_new [OF h1(2) none])
  have "aggregate_line line h E0 = (Inr (), h', E0)"
    using line find h1(1) h'(1)
    by (simp add: aggregate_line_def print_statvals_fits Let_def nw_def [symmetric])
      (simp add: nw_def create_shash_def)
  moreover have "stats_inv h'" using h' h1 inv(1) hash_ops_frame(1) [OF h'(1)] by (simp add: stats_inv_def)
  moreover have lk: "lookup h' = (lookup h)(k \<mapsto> nw)" using h'(3) h1(3) by simp
  moreover have "stats_keyed h'" using inv(2) by (auto simp: stats_keyed_def lk nw_def create_shash_def)
  moreover have "stat_of h' = (stat_of h)(k \<mapsto> statvals_add ov new)"
    by (auto simp: stat_of_def lk nw_def parse_print_statvals)
  ultimately show thesis using that unfolding ov_def by blast
qed

subsection \<open>Renaming keys in place\<close>

definition rekey :: "string \<Rightarrow> string" where
  "rekey k = (if take 4 k \<noteq> ''mds_'' then k else drop 4 k)"

definition rekey_item :: "string \<Rightarrow> shash \<Rightarrow> string \<times> shash" where
  "rekey_item k s = (rekey k, if take 4 k \<noteq> ''mds_'' then s else s\<lparr>shash_key := rekey k\<rparr>)"

lemma rekey_mdt_stats_eq: "rekey_mdt_stats = (\<lambda>d k u. (0, rekey_item k d, u))"
  by (auto simp: rekey_mdt_stats_def rekey_item_def rekey_def fun_eq_iff)

text \<open>The new key belongs in the slot of the old one, since the slot depends on the last two characters.\<close>

lemma slot_rekey:
  assumes "hsize h = 64" "key_f h = hash_key_string" "take 4 k = ''mds_'' \<Longrightarrow> 6 \<le> length k"
  shows "slot h (rekey k) = slot h k"
proof (cases "take 4 k = ''mds_''")
  case True
  then have len: "6 \<le> length k" using assms(3) by simp
  obtain t a b where k: "k = t @ [a, b]"
  proof -
    have "k = take (length k - 2) k @ drop (length k - 2) k" by simp
    moreover obtain a b where "drop (length k - 2) k = [a, b]"
    proof -
      have "length (drop (length k - 2) k) = 2" using len by simp
      then show thesis using that by (metis (no_types, lifting) length_0_conv length_Suc_conv numeral_2_eq_2)
    qed
    ultimately show thesis using that by metis
  qed
  have "4 \<le> length t" using len k by simp
  then have "drop 4 k = drop 4 t @ [a, b]" using k by simp
  then show ?thesis using True k hash_key_string_mod_64 [of t a b] hash_key_string_mod_64 [of "drop 4 t" a b]
    by (simp add: slot_def assms(1,2) rekey_def)
qed (simp add: rekey_def)

lemma map_of_rekey:
  "inj_on rekey (fst ` set ps) \<Longrightarrow> k \<in> fst ` set ps \<Longrightarrow>
   map_of (map (\<lambda>(k, d). rekey_item k d) ps) (rekey k) = map_option (\<lambda>d. snd (rekey_item k d)) (map_of ps k)"
proof (induction ps)
  case (Cons p ps)
  obtain k1 d1 where p: "p = (k1, d1)" by fastforce
  have fst: "fst (rekey_item k d) = rekey k" for k d by (simp add: rekey_item_def)
  show ?case
  proof (cases "k = k1")
    case True
    then show ?thesis by (simp add: p rekey_item_def)
  next
    case False
    then have "rekey k \<noteq> rekey k1" "k \<in> fst ` set ps" using Cons(2,3) by (auto simp: p inj_on_def)
    moreover have "inj_on rekey (fst ` set ps)" using Cons(2) by (simp add: p)
    ultimately show ?thesis using Cons(1) False by (simp add: p rekey_item_def split: if_splits)
  qed
qed simp

lemma rekey_stats_spec:
  assumes inv: "stats_inv h" and inj: "inj_on rekey (dom (lookup h))"
    and len: "\<And>k. k \<in> dom (lookup h) \<Longrightarrow> take 4 k = ''mds_'' \<Longrightarrow> 6 \<le> length k"
  obtains h' where "hash_for_each h (Some rekey_mdt_stats) () e = (0, h', (), e)" "stats_inv h'"
    "\<And>k d. lookup h k = Some d \<Longrightarrow> lookup h' (rekey k) = Some (snd (rekey_item k d))"
    "hash_count h' = hash_count h"
proof -
  let ?f = "\<lambda>(k, d). rekey_item k d"
  let ?h = "h\<lparr>table := map (map ?f) (table h)\<rparr>"
  have hinv: "hash_inv h" "hsize h = 64" "key_f h = hash_key_string" using inv by (simp_all add: stats_inv_def)
  have con: "concat (table ?h) = map ?f (concat (table h))" by (simp add: map_concat)
  have fst: "fst (?f p) = rekey (fst p)" for p by (cases p) (simp add: rekey_item_def)
  have dom: "dom (lookup h) = fst ` set (concat (table h))" by (rule dom_lookup)
  have mf: "map fst (map ?f (concat (table h))) = map rekey (map fst (concat (table h)))" using fst by simp
  have "distinct (map rekey (map fst (concat (table h))))"
    using hash_invD(5) [OF hinv(1)] inj by (subst distinct_map) (simp only: set_map dom [symmetric])
  then have "distinct (map fst (concat (table ?h)))" unfolding con mf .
  moreover have "placed ?h"
  proof -
    have sl: "slot ?h (rekey (fst q)) = i" if "i < length (table h)" "q \<in> set (table h ! i)" for i q
    proof -
      have qs: "q \<in> set (concat (table h))" using that nth_mem [OF that(1)] by auto
      then have "fst q \<in> dom (lookup h)" using dom by blast
      then have "slot h (rekey (fst q)) = slot h (fst q)" by (intro slot_rekey hinv len)
      also have "\<dots> = i" by (rule placed_chain [OF hash_invD(4) [OF hinv(1)] that])
      finally show ?thesis by simp
    qed
    show ?thesis unfolding placed_def
    proof (intro allI impI ballI)
      fix i p assume i: "i < length (table ?h)" and p: "p \<in> set (table ?h ! i)"
      then obtain q where "q \<in> set (table h ! i)" "p = ?f q" by auto
      then show "slot ?h (fst p) = i" using sl [of i q] i fst by simp
    qed
  qed
  moreover have "hcount ?h = int (length (concat (table ?h)))"
    unfolding con length_map using hash_invD(6) [OF hinv(1)] by simp
  ultimately have "hash_inv ?h"
    using hash_invD(1,2) [OF hinv(1)] hinv(1) by (simp add: hash_inv_def cmp_ok_def)
  then have sinv: "stats_inv ?h" using hinv by (simp add: stats_inv_def)
  have "hash_for_each h (Some rekey_mdt_stats) () e = (0, ?h, (), e)"
    unfolding hash_for_each_def rekey_mdt_stats_eq option.case table_for_each_pure by simp
  moreover have "lookup ?h (rekey k) = Some (snd (rekey_item k d))" if "lookup h k = Some d" for k d
  proof -
    have "k \<in> fst ` set (concat (table h))" using that dom by (metis domI)
    then have "lookup ?h (rekey k) = map_option (\<lambda>d. snd (rekey_item k d)) (lookup h k)"
      unfolding lookup_def con using map_of_rekey inj dom by metis
    then show ?thesis using that by simp
  qed
  ultimately show thesis using that [of ?h] sinv by (simp add: hash_count_def)
qed

section \<open>Histograms\<close>

lemma histogram_add_set: "hx ` set (histogram_add h x yr yw) = insert x (hx ` set h)"
  by (induction h x yr yw rule: histogram_add.induct) auto

lemma histogram_add_distinct:
  "distinct (map hx h) \<Longrightarrow> distinct (map hx (histogram_add h x yr yw))"
proof (induction h x yr yw rule: histogram_add.induct)
  case (2 b bs x yr yw)
  then show ?case using histogram_add_set [of bs x yr yw] by (cases "hx b = x") simp_all
qed simp

text \<open>The counts of one bin: what has been added to it.\<close>

definition bin_sum :: "(histent \<Rightarrow> u64) \<Rightarrow> histogram \<Rightarrow> u64 \<Rightarrow> u64" where
  "bin_sum f h x = sum_list (map f (filter (\<lambda>b. hx b = x) h))"

lemma histogram_add_sum:
  "bin_sum hyr (histogram_add h x yr yw) z = bin_sum hyr h z + (if z = x then yr else 0)"
  "bin_sum hyw (histogram_add h x yr yw) z = bin_sum hyw h z + (if z = x then yw else 0)"
  by (induction h x yr yw rule: histogram_add.induct) (auto simp: bin_sum_def)

lemma brw_parse_loop_distinct:
  "brw_parse_loop sy c h = Some (h', c') \<Longrightarrow> distinct (map hx h) \<Longrightarrow> distinct (map hx h')"
proof (induction sy c h rule: brw_parse_loop.induct)
  case (1 sy c h)
  show ?case
  proof (cases "proc_scanf sy c None brw_fmt")
    case None
    then show ?thesis using 1(2) by (subst (asm) brw_parse_loop.simps) simp
  next
    case (Some a)
    obtain n vs c1 where a: "a = ((n, vs), c1)" by (metis surj_pair)
    show ?thesis
    proof (cases "n = 3")
      case True
      let ?h = "histogram_add h (bin_x (sval_str (vs ! 0))) (sval_u64 (vs ! 1)) (sval_u64 (vs ! 2))"
      have "brw_parse_loop sy c1 ?h = Some (h', c')"
        using 1(2) Some a True by (subst (asm) brw_parse_loop.simps) simp
      then show ?thesis using 1(1) [OF Some a [symmetric] refl True] histogram_add_distinct [OF 1(3)] by blast
    next
      case False
      then show ?thesis using 1(2,3) Some a by (subst (asm) brw_parse_loop.simps) simp
    qed
  qed
qed

text \<open>A histogram that is returned has its bins in strictly ascending order.\<close>

lemma histogram_sort_strict:
  "distinct (map hx h) \<Longrightarrow> sorted_wrt (<) (map hx (histogram_sort h))"
proof -
  assume d: "distinct (map hx h)"
  have "sorted (map hx (histogram_sort h))" by (simp add: histogram_sort_def)
  moreover have "distinct (map hx (histogram_sort h))"
    using d by (simp add: histogram_sort_def distinct_map)
  ultimately show ?thesis by (simp add: strict_sorted_iff)
qed

lemma brw_parse_result:
  assumes "brw_parse sy c = Some ((ret, h), c')"
  shows "ret = 0 \<and> (\<exists>g. h = Some g \<and> sorted_wrt (<) (map hx g))"
proof -
  obtain g where "brw_parse_loop sy c histogram_create = Some (g, c')" "ret = 0" "h = Some (histogram_sort g)"
    using assms by (auto simp: brw_parse_def Let_def Option.bind_eq_Some_conv)
  then show ?thesis
    using brw_parse_loop_distinct [of sy c "[]" g c'] histogram_sort_strict by (simp add: histogram_create_def)
qed

lemma brwstats_sorted:
  assumes "proc_lustre_brwstats sy c name t = Some (Some h, c')"
  shows "sorted_wrt (<) (map hx h)"
  using assms by (auto simp: proc_lustre_brwstats_def Option.bind_eq_Some_conv
      split: if_splits dest: brw_parse_result)

section \<open>Directory listings\<close>

definition own_osc :: "string \<Rightarrow> bool" where
  "own_osc name \<longleftrightarrow> \<not> (strstr name ''-osc-'' \<and> \<not> strstr name ''MDT'')"

definition subdir_names :: "dirent list \<Rightarrow> string list" where
  "subdir_names ds = filter own_osc (map d_name (filter (listed False True) ds))"

lemma subdir_names_drop: "subdir_names ds = subdir_names (dropWhile (Not \<circ> listed False True) ds)"
  by (induction ds) (auto simp: subdir_names_def)

lemma subdir_loop_names:
  assumes "pctx_dp c = Some d" "pctx_fp c = None"
  shows "subdir_loop c = Some (subdir_names (dents d), c\<lparr>pctx_dp := Some (d\<lparr>dents := []\<rparr>), perrno := derr d\<rparr>)"
  using assms
proof (induction "length (dents d)" arbitrary: c d rule: less_induct)
  case less
  show ?case
  proof (cases "dropWhile (Not \<circ> listed False True) (dents d)")
    case Nil
    then have "proc_readdir c False True = Some (None, c\<lparr>pctx_dp := Some (d\<lparr>dents := []\<rparr>), perrno := derr d\<rparr>)"
      using less(2,3) by (simp add: proc_readdir_def readdir_loop_eq)
    moreover have "subdir_names (dents d) = []" using subdir_names_drop [of "dents d"] Nil by (simp add: subdir_names_def)
    ultimately show ?thesis by (subst subdir_loop.simps) simp
  next
    case (Cons e es)
    let ?c = "c\<lparr>pctx_dp := Some (d\<lparr>dents := es\<rparr>), perrno := E0\<rparr>"
    have rd: "proc_readdir c False True = Some (Some (d_name e), ?c)"
      using less(2,3) Cons by (simp add: proc_readdir_def readdir_loop_eq)
    have "length es < length (dents d)"
      using Cons length_dropWhile_le [of "Not \<circ> listed False True" "dents d"] by simp
    then have ih: "subdir_loop ?c = Some (subdir_names es, ?c\<lparr>pctx_dp := Some (d\<lparr>dents := es, dents := []\<rparr>), perrno := derr d\<rparr>)"
      using less(1) [of "d\<lparr>dents := es\<rparr>" ?c] less(3) by simp
    have e: "listed False True e" using Cons by (metis comp_apply dropWhile_eq_Cons_conv)
    then have nm: "subdir_names (dents d) = (if own_osc (d_name e) then d_name e # subdir_names es else subdir_names es)"
      using subdir_names_drop [of "dents d"] Cons by (simp add: subdir_names_def)
    show ?thesis using rd ih nm by (subst subdir_loop.simps) (simp add: own_osc_def)
  qed
qed

lemma strcmp_less: "strcmp x y < 0 \<longleftrightarrow> x < y"
  by (auto simp: strcmp_def)

lemma sort_strcmp: "sort_spec strcmp l = sort l"
  by (rule sort_spec_key [where key = "\<lambda>x. x"]) (rule strcmp_less)

lemma subdirlist_sorted:
  assumes "ctx_closed c" "sys_opendir sy (resolve sy (c\<lparr>perrno := E0\<rparr>) path) = Inr d" "derr d = E0"
  shows "\<exists>c'. subdirlist sy c path = Some (Some (sort (subdir_names (dents d))), c') \<and> ctx_closed c'"
proof -
  have "ctx_closed (c\<lparr>perrno := E0\<rparr>)" using assms(1) by simp
  then show ?thesis
  proof (cases rule: proc_open_cases [where sy = sy and path = path])
    case (isdir d' c1)
    then have d: "pctx_dp c1 = Some d" "pctx_fp c1 = None" using assms(2) by simp_all
    show ?thesis using isdir(2) subdir_loop_names [OF d] assms(3) d
      by (simp add: subdirlist_def proc_close_def ctx_closed_def sort_strcmp)
  qed (use assms(2) in auto)
qed

section \<open>Versions\<close>

lemma packed_version_small:
  assumes "{b, c, d} \<subseteq> {0..255}" "a \<in> {0..127}"
  shows "packed_version a b c d = a * 2 ^ 24 + b * 2 ^ 16 + c * 2 ^ 8 + d"
proof -
  have "push_bit 24 (word_of_int a) + push_bit 16 (word_of_int b) + push_bit 8 (word_of_int c) + word_of_int d =
    (word_of_int (a * 2 ^ 24 + b * 2 ^ 16 + c * 2 ^ 8 + d) :: u32)"
    by (simp add: push_bit_eq_mult mult.commute)
  then show ?thesis unfolding packed_version_def
    by (simp only: sint_sbintrunc') (rule signed_take_bit_int_eq_self; use assms in simp)
qed

lemma packed_version_order:
  assumes "{b, c, d, b', c', d'} \<subseteq> {0..255}" "{a, a'} \<subseteq> {0..127}"
  shows "packed_version a b c d \<le> packed_version a' b' c' d' \<longleftrightarrow>
    a < a' \<or> a = a' \<and> (b < b' \<or> b = b' \<and> (c < c' \<or> c = c' \<and> d \<le> d'))"
proof -
  have r: "0 \<le> b" "b \<le> 255" "0 \<le> c" "c \<le> 255" "0 \<le> d" "d \<le> 255" "0 \<le> b'" "b' \<le> 255" "0 \<le> c'" "c' \<le> 255" "0 \<le> d'" "d' \<le> 255"
    using assms by auto
  have p: "packed_version a b c d = a * 2 ^ 24 + b * 2 ^ 16 + c * 2 ^ 8 + d"
    "packed_version a' b' c' d' = a' * 2 ^ 24 + b' * 2 ^ 16 + c' * 2 ^ 8 + d'"
    by (rule packed_version_small; use assms in simp)+
  show ?thesis unfolding p using r by (simp, linarith)
qed

section \<open>Reading one number\<close>

lemma readint1_file:
  assumes "ctx_closed c" "\<not> strstr a1 ''-MDT''"
    and "sys_opendir sy (resolve sy c (snd (snprintf path_max (expand tmpl [a1])))) = Inl ENOTDIR"
    and "sys_fopen sy (resolve sy c (snd (snprintf path_max (expand tmpl [a1])))) = Inr f"
    and "sdata f = print_u64 v @ newline # rest"
  shows "\<exists>c'. readint1 sy c tmpl a1 = Some (Some v, c') \<and> ctx_closed c'"
  using assms(1)
proof (cases rule: proc_open_cases [where sy = sy and path = "snd (snprintf path_max (expand tmpl [a1]))"])
  case (isfile f' c1)
  have sc: "scan_dirs [DU64] (sdata f) = ([VU v], newline # rest, False)"
    unfolding assms(5) by (simp add: scan_simps del: scan_step.simps scan_dirs.simps(2))
  show ?thesis using isfile assms(1,2,4) sc
    by (simp add: readint1_def proc_openf_eq proc_scanf_def proc_vscanf_def vfscanf_def scanf_result_def
        proc_close_def ctx_closed_def sval_u64_def Let_def)
qed (use assms in auto)

lemma readint1_missing:
  assumes "ctx_closed c" "\<not> strstr a1 ''-MDT''"
    and "sys_opendir sy (resolve sy c (snd (snprintf path_max (expand tmpl [a1])))) = Inl e" "e \<noteq> ENOTDIR"
  shows "\<exists>c'. readint1 sy c tmpl a1 = Some (None, c') \<and> ctx_closed c' \<and> perrno c' = e"
  using assms(1)
proof (cases rule: proc_open_cases [where sy = sy and path = "snd (snprintf path_max (expand tmpl [a1]))"])
  case (failed c1 e')
  then show ?thesis using assms by (auto simp: readint1_def proc_openf_eq)
qed (use assms in auto)

section \<open>A missing statistics file\<close>

text \<open>\<open>proc_lustre_hashstats\<close> does not look at the result of \<open>proc_openf\<close>.\<close>

lemma proc_gets_closed: "ctx_closed c \<Longrightarrow> proc_gets sy c None len = None"
  by (simp add: proc_gets_def ctx_closed_def)

lemma hash_stats_closed: "ctx_closed c \<Longrightarrow> hash_stats sy c h = None"
  using proc_gets_closed [of "c\<lparr>perrno := E0\<rparr>" sy 256]
  by (simp add: hash_stats_def hash_stats_loop.simps [of sy "c\<lparr>perrno := E0\<rparr>"])

lemma hashstats_missing_aborts:
  assumes "packed_lustre_version sy c = Some (v, c1)" "build_osd_stats_path sy c1 name = Some ((ret, Some t), c2)"
    and "proc_openf sy c2 (expand t [name]) = Some (r, c3)" "r < 0"
  shows "proc_lustre_hashstats sy c name = None"
  using assms hash_stats_closed [OF proc_openf_fail [OF assms(3,4)]] by (simp add: proc_lustre_hashstats_def)

section \<open>Properties\<close>

text \<open>A system given by its files and directories, for the witnesses.\<close>

definition table_sys :: "(string \<times> string) list \<Rightarrow> (string \<times> dirent list) list \<Rightarrow> sys" where
  "table_sys files dirs =
     \<lparr>sys_stat = (\<lambda>p. if p \<in> set (map fst files) \<or> p \<in> set (map fst dirs) then E0 else ENOENT),
      sys_opendir = (\<lambda>p. case map_of dirs p of Some ds \<Rightarrow> Inr \<lparr>dents = ds, derr = E0\<rparr>
        | None \<Rightarrow> if p \<in> set (map fst files) then Inl ENOTDIR else Inl ENOENT),
      sys_fopen = (\<lambda>p. case map_of files p of Some t \<Rightarrow> Inr \<lparr>sdata = t, serr = E0\<rparr> | None \<Rightarrow> Inl ENOENT),
      sys_junk = []\<rparr>"


text \<open>C20: reading a file of key/value lines fills the table with one entry per key, the last line of a key
  winning, and reports success at the end of the file.\<close>

theorem hash_stats_correct:
  assumes "pctx_fp c = Some f" "pctx_dp c = None" "sdata f = stat_text ls" "serr f = E0" "list_all good_stat ls"
  shows "\<exists>h c'. hash_stats sy c stats_hash_create = Some (0, h, c') \<and> hash_inv h \<and>
    (\<forall>k. hash_find h (Some k) = (map_of (rev (map stat_entry ls)) k, E0))"
proof -
  obtain h where h: "hash_stats sy c stats_hash_create = Some (0, h, c\<lparr>perrno := E0, pctx_fp := Some (f\<lparr>sdata := []\<rparr>)\<rparr>)"
    "stats_inv h" "lookup h = lookup stats_hash_create ++ map_of (rev (map stat_entry ls))"
    using hash_stats_text [OF stats_hash_create_inv(1) assms] by blast
  then have "hash_inv h" "lookup h = map_of (rev (map stat_entry ls))"
    using stats_hash_create_inv(2) by (simp_all add: stats_inv_def)
  then show ?thesis using h(1) by (auto simp: hash_find_spec)
qed

definition stats_example :: "(string \<times> string \<times> string) list" where
  "stats_example = [(''open'', '' '', ''1 samples [reqs]''), (''open'', ''  '', ''2 samples [reqs]'')]"

theorem hash_stats_correct_witness:
  "\<exists>h c'. hash_stats (table_sys [] []) ((proc_create ''/'' E0)\<lparr>pctx_fp := Some \<lparr>sdata = stat_text stats_example, serr = E0\<rparr>\<rparr>)
      stats_hash_create = Some (0, h, c') \<and>
    hash_find h (Some ''open'') = (Some (create_shash ''open'' ''2 samples [reqs]''), E0)"
proof -
  have "list_all good_stat stats_example" by (simp add: stats_example_def good_stat_def isspace_def)
  then have "\<exists>h c'. hash_stats (table_sys [] []) ((proc_create ''/'' E0)\<lparr>pctx_fp := Some \<lparr>sdata = stat_text stats_example, serr = E0\<rparr>\<rparr>)
      stats_hash_create = Some (0, h, c') \<and> hash_inv h \<and> (\<forall>k. hash_find h (Some k) = (map_of (rev (map stat_entry stats_example)) k, E0))"
    by (intro hash_stats_correct [where f = "\<lparr>sdata = stat_text stats_example, serr = E0\<rparr>"])
      (simp_all add: proc_create_def)
  then show ?thesis by (auto simp: stats_example_def stat_entry_def)
qed

text \<open>The counters of a statistics line survive being printed by the aggregation and parsed again.\<close>

theorem statvals_roundtrip:
  "parse_stat_node (create_shash k (snd (snprintf 256 (print_statvals v)))) = Some v"
  by (simp add: print_statvals_fits parse_print_statvals)

text \<open>Aggregating a line adds its counters to those of its key, starting from zero, and leaves every other
  key alone.\<close>

theorem aggregate_line_correct:
  assumes "stats_inv h" "stats_keyed h" "parse_stat line = Some cur" "shash_key cur \<noteq> ''snapshot_time''"
    "parse_stat_node cur = Some new" "\<And>s. lookup h (shash_key cur) = Some s \<Longrightarrow> parse_stat_node s \<noteq> None"
  shows "\<exists>h'. aggregate_line line h E0 = (Inr (), h', E0) \<and> stats_inv h' \<and> stats_keyed h' \<and>
    stat_of h' = (stat_of h)(shash_key cur \<mapsto>
      statvals_add (case stat_of h (shash_key cur) of None \<Rightarrow> statvals_zero | Some v \<Rightarrow> v) new)"
  using aggregate_line_adds [OF assms(1-3) refl assms(4,5,6)] by metis

theorem aggregate_line_correct_witness:
  "\<exists>h'. aggregate_line ''open 5 samples [reqs]'' stats_hash_create E0 = (Inr (), h', E0) \<and> stats_inv h' \<and>
    map_option st_count (stat_of h' ''open'') = Some 5"
proof -
  let ?v = "\<lparr>st_count = 5, st_min = 0, st_max = 0, st_sum = 0, st_sumsq = 0\<rparr>"
  have p: "parse_stat ''open 5 samples [reqs]'' = Some (create_shash ''open'' ''5 samples [reqs]'')"
    by (simp add: parse_stat_def isspace_def)
  have n: "parse_stat_node (create_shash ''open'' ''5 samples [reqs]'') = Some ?v"
    by (simp add: parse_stat_node_def create_shash_def sscanf_def stat_node_fmt_def lits_def isspace_def isdigit_def
        conv_int_def skip_ws_def take_sign_def nat_of_digits_def digit_val_def strtou64_def conv_str_def span_max_def
        scanf_result_def nth0_def sval_u64_def)
  have k: "stats_keyed stats_hash_create" by (simp add: stats_keyed_def stats_hash_create_inv(2))
  have s: "stat_of stats_hash_create ''open'' = None" by (simp add: stat_of_def stats_hash_create_inv(2))
  have key: "shash_key (create_shash ''open'' ''5 samples [reqs]'') = ''open''" by (simp add: create_shash_def)
  have "\<exists>h'. aggregate_line ''open 5 samples [reqs]'' stats_hash_create E0 = (Inr (), h', E0) \<and> stats_inv h' \<and> stats_keyed h' \<and>
    stat_of h' = (stat_of stats_hash_create)(''open'' \<mapsto>
      statvals_add (case stat_of stats_hash_create ''open'' of None \<Rightarrow> statvals_zero | Some v \<Rightarrow> v) ?v)"
    using aggregate_line_correct [OF stats_hash_create_inv(1) k p _ n, unfolded key]
    by (simp add: stats_hash_create_inv(2))
  then show ?thesis unfolding s by (auto simp: statvals_add_def statvals_zero_def)
qed

text \<open>Renaming the keys \<open>mds_x\<close> to \<open>x\<close> in place keeps the table usable although nothing is rehashed: every
  datum is found under its new key, as long as no two keys become equal and the new ones have two characters.\<close>

theorem rekey_correct:
  assumes "stats_inv h" "inj_on rekey (dom (lookup h))"
    "\<And>k. k \<in> dom (lookup h) \<Longrightarrow> take 4 k = ''mds_'' \<Longrightarrow> 6 \<le> length k"
  shows "\<exists>h'. hash_for_each h (Some rekey_mdt_stats) () e = (0, h', (), e) \<and> stats_inv h' \<and>
    (\<forall>k d. lookup h k = Some d \<longrightarrow> hash_find h' (Some (rekey k)) = (Some (snd (rekey_item k d)), E0)) \<and>
    hash_count h' = hash_count h"
proof -
  obtain h' where h': "hash_for_each h (Some rekey_mdt_stats) () e = (0, h', (), e)" "stats_inv h'"
    "\<And>k d. lookup h k = Some d \<Longrightarrow> lookup h' (rekey k) = Some (snd (rekey_item k d))" "hash_count h' = hash_count h"
    using rekey_stats_spec [OF assms, of e] by blast
  have "hash_find h' (Some k) = (lookup h' k, E0)" for k
    using h'(2) by (intro hash_find_spec) (simp add: stats_inv_def)
  then show ?thesis using h' by auto
qed

theorem rekey_correct_witness:
  "\<exists>h h'. lookup h ''mds_open'' = Some (create_shash ''mds_open'' ''1'') \<and>
    hash_for_each h (Some rekey_mdt_stats) () E0 = (0, h', (), E0) \<and>
    hash_find h' (Some ''open'') = (Some (create_shash ''open'' ''1''), E0)"
proof -
  obtain h where h: "hash_insert_lastinwins stats_hash_create ''mds_open'' (create_shash ''mds_open'' ''1'') E0 =
      (Some (create_shash ''mds_open'' ''1''), h, E0)" "stats_inv h"
    "lookup h = (lookup stats_hash_create)(''mds_open'' \<mapsto> create_shash ''mds_open'' ''1'')"
    by (rule lastinwins_spec [OF stats_hash_create_inv(1)])
  have d: "lookup h = [''mds_open'' \<mapsto> create_shash ''mds_open'' ''1'']" using h(3) stats_hash_create_inv(2) by simp
  have "\<exists>h'. hash_for_each h (Some rekey_mdt_stats) () E0 = (0, h', (), E0) \<and> stats_inv h' \<and>
    (\<forall>k d. lookup h k = Some d \<longrightarrow> hash_find h' (Some (rekey k)) = (Some (snd (rekey_item k d)), E0)) \<and>
    hash_count h' = hash_count h"
    by (rule rekey_correct [OF h(2)]) (simp_all add: d)
  then obtain h' where h': "hash_for_each h (Some rekey_mdt_stats) () E0 = (0, h', (), E0)"
    "hash_find h' (Some (rekey ''mds_open'')) = (Some (snd (rekey_item ''mds_open'' (create_shash ''mds_open'' ''1''))), E0)"
    using d by auto
  then show ?thesis using d
    by (intro exI [of _ h] exI [of _ h']) (simp add: rekey_def rekey_item_def create_shash_def)
qed

lemma foldl_histogram:
  "distinct (map hx h) \<Longrightarrow> distinct (map hx (foldl (\<lambda>h (x, r, w). histogram_add h x r w) h ss)) \<and>
   hx ` set (foldl (\<lambda>h (x, r, w). histogram_add h x r w) h ss) = hx ` set h \<union> fst ` set ss \<and>
   bin_sum hyr (foldl (\<lambda>h (x, r, w). histogram_add h x r w) h ss) z =
     bin_sum hyr h z + (\<Sum>(x, r, w) \<leftarrow> ss. if x = z then r else 0) \<and>
   bin_sum hyw (foldl (\<lambda>h (x, r, w). histogram_add h x r w) h ss) z =
     bin_sum hyw h z + (\<Sum>(x, r, w) \<leftarrow> ss. if x = z then w else 0)"
proof (induction ss arbitrary: h)
  case (Cons s ss)
  obtain x r w where s: "s = (x, r, w)" by (metis prod_cases3)
  show ?case using Cons(1) [OF histogram_add_distinct [OF Cons(2), of x r w]]
    by (auto simp: s histogram_add_set histogram_add_sum)
qed simp

lemma bin_sum_sort: "bin_sum f (histogram_sort h) z = bin_sum f h z"
proof -
  have "mset (filter (\<lambda>b. hx b = z) (histogram_sort h)) = mset (filter (\<lambda>b. hx b = z) h)"
    by (simp add: histogram_sort_def)
  then have "mset (map f (filter (\<lambda>b. hx b = z) (histogram_sort h))) = mset (map f (filter (\<lambda>b. hx b = z) h))"
    by (simp only: mset_map)
  then show ?thesis unfolding bin_sum_def by (metis sum_mset_sum_list)
qed

text \<open>Whatever samples are added, the sorted histogram has one bin for each size, in ascending order, and the
  counts of a bin are the sums of the samples of that size.\<close>

theorem histogram_correct:
  "let h = histogram_sort (foldl (\<lambda>h (x, r, w). histogram_add h x r w) histogram_create samples)
   in sorted_wrt (<) (map hx h) \<and> hx ` set h = fst ` set samples \<and>
      bin_sum hyr h z = (\<Sum>(x, r, w) \<leftarrow> samples. if x = z then r else 0) \<and>
      bin_sum hyw h z = (\<Sum>(x, r, w) \<leftarrow> samples. if x = z then w else 0)"
proof -
  have "hx ` set (histogram_sort h) = hx ` set h" for h by (simp add: histogram_sort_def)
  then show ?thesis
    using foldl_histogram [of histogram_create samples z] histogram_sort_strict
    by (simp add: Let_def bin_sum_sort histogram_create_def) (simp add: bin_sum_def)
qed

text \<open>A listing is the sorted list of the subdirectories that are not hidden and not osc's of a client.\<close>

theorem subdirlist_correct:
  assumes "ctx_closed c" "sys_opendir sy (resolve sy (c\<lparr>perrno := E0\<rparr>) path) = Inr d" "derr d = E0"
  shows "\<exists>l c'. subdirlist sy c path = Some (Some l, c') \<and> ctx_closed c' \<and> sorted l \<and>
    mset l = mset (subdir_names (dents d))"
  using subdirlist_sorted [OF assms] by auto

theorem subdirlist_correct_witness:
  "\<exists>l c'. subdirlist (table_sys [] [(''/sys/x'', [\<lparr>d_name = ''b'', d_type = DT_DIR\<rparr>, \<lparr>d_name = ''.'', d_type = DT_DIR\<rparr>])])
     (proc_create ''/'' E0) ''x'' = Some (Some l, c') \<and> sorted l \<and> mset l = {#''b''#}"
proof -
  let ?sy = "table_sys [] [(''/sys/x'', [\<lparr>d_name = ''b'', d_type = DT_DIR\<rparr>, \<lparr>d_name = ''.'', d_type = DT_DIR\<rparr>])]"
  let ?d = "\<lparr>dents = [\<lparr>d_name = ''b'', d_type = DT_DIR\<rparr>, \<lparr>d_name = ''.'', d_type = DT_DIR\<rparr>], derr = E0\<rparr>"
  have p: "full_path ((proc_create ''/'' E0)\<lparr>perrno := E0\<rparr>) ''sys'' ''x'' = ''/sys/x''"
    by (subst full_path_short) (simp_all add: proc_create_def path_max_def)
  have "\<exists>l c'. subdirlist ?sy (proc_create ''/'' E0) ''x'' = Some (Some l, c') \<and> ctx_closed c' \<and> sorted l \<and>
    mset l = mset (subdir_names (dents ?d))"
    by (rule subdirlist_correct) (simp_all add: resolve_def p table_sys_def)
  then show ?thesis by (auto simp: subdir_names_def listed_def own_osc_def)
qed

text \<open>Packed version numbers are ordered as their components, as long as minor, patch and fix fit in a byte
  and major is below 128.\<close>

theorem packed_version_correct:
  assumes "{b, c, d, b', c', d'} \<subseteq> {0..255}" "{a, a'} \<subseteq> {0..127}"
  shows "packed_version a b c d \<le> packed_version a' b' c' d' \<longleftrightarrow>
    a < a' \<or> a = a' \<and> (b < b' \<or> b = b' \<and> (c < c' \<or> c = c' \<and> d \<le> d'))"
  by (rule packed_version_order [OF assms])

theorem packed_version_correct_witness: "packed_version 2 0 56 0 \<le> packed_version 2 10 8 0"
  using packed_version_correct [of 0 56 0 10 8 0 2 2] by simp

text \<open>A file that holds one number reads as that number, and the context is closed again.\<close>

theorem readint1_correct:
  assumes "ctx_closed c" "\<not> strstr a1 ''-MDT''"
    and "sys_opendir sy (resolve sy c (snd (snprintf path_max (expand tmpl [a1])))) = Inl ENOTDIR"
    and "sys_fopen sy (resolve sy c (snd (snprintf path_max (expand tmpl [a1])))) = Inr f"
    and "sdata f = print_u64 v @ newline # rest"
  shows "\<exists>c'. readint1 sy c tmpl a1 = Some (Some v, c') \<and> ctx_closed c'"
  by (rule readint1_file [OF assms])

theorem readint1_correct_witness:
  "\<exists>c'. readint1 (table_sys [(''/sys/a-OST0/n'', print_u64 42 @ [newline])] []) (proc_create ''/'' E0) ''%s/n'' ''a-OST0'' =
    Some (Some 42, c') \<and> ctx_closed c'"
proof -
  have e: "snd (snprintf path_max ''a-OST0/n'') = ''a-OST0/n''" by (simp add: snprintf_def path_max_def)
  have p: "full_path (proc_create ''/'' E0) ''sys'' ''a-OST0/n'' = ''/sys/a-OST0/n''"
    by (subst full_path_short) (simp_all add: proc_create_def path_max_def)
  show ?thesis
    by (rule readint1_correct [where f = "\<lparr>sdata = print_u64 42 @ [newline], serr = E0\<rparr>" and rest = "[]"])
      (simp_all add: e p resolve_def table_sys_def)
qed

text \<open>C40: \<open>proc_lustre_hashstats\<close> aborts when the statistics file cannot be opened: the result of \<open>proc_openf\<close>
  is dropped and the assertion of \<open>proc_gets\<close> fails.\<close>

theorem hashstats_missing:
  assumes "packed_lustre_version sy c = Some (v, c1)" "build_osd_stats_path sy c1 name = Some ((ret, Some t), c2)"
    and "proc_openf sy c2 (expand t [name]) = Some (r, c3)" "r < 0"
  shows "proc_lustre_hashstats sy c name = None"
  by (rule hashstats_missing_aborts [OF assms])

lemma empty_open:
  assumes "ctx_closed c"
  obtains c' where "proc_open (table_sys [] []) c p = Some (- 1, c')" "ctx_closed c'"
  using assms by (cases rule: proc_open_cases [of c "table_sys [] []" p]) (auto simp: table_sys_def)

lemma empty_version:
  assumes "ctx_closed c"
  obtains c' where "packed_lustre_version (table_sys [] []) c = Some (- 1, c')" "ctx_closed c'"
proof -
  obtain c' where c': "proc_open (table_sys [] []) c (snd (snprintf path_max ''fs/lustre/version'')) = Some (- 1, c')" "ctx_closed c'"
    by (rule empty_open [OF assms])
  then have "packed_lustre_version (table_sys [] []) c = Some (- 1, c')"
    using assms by (simp add: packed_lustre_version_def proc_fs_lustre_version_def read_lustre_version_string_def proc_openf_eq)
  then show thesis using that c'(2) by blast
qed

theorem hashstats_missing_witness: "proc_lustre_hashstats (table_sys [] []) (proc_create ''/'' E0) ''a-OST0'' = None"
proof -
  let ?sy = "table_sys [] []"
  obtain c1 where c1: "packed_lustre_version ?sy (proc_create ''/'' E0) = Some (- 1, c1)" "ctx_closed c1"
    by (rule empty_version [of "proc_create ''/'' E0"]) simp
  obtain c2 where c2: "packed_lustre_version ?sy c1 = Some (- 1, c2)" "ctx_closed c2" by (rule empty_version [OF c1(2)])
  have b: "build_osd_stats_path ?sy c1 ''a-OST0'' = Some ((0, Some ''fs/lustre/obdfilter/%s/stats''), c2)"
    by (simp add: build_osd_stats_path_def c2(1))
  obtain c3 where "proc_open ?sy c2 (snd (snprintf path_max (expand ''fs/lustre/obdfilter/%s/stats'' [''a-OST0'']))) = Some (- 1, c3)"
    by (rule empty_open [OF c2(2)])
  then have "proc_openf ?sy c2 (expand ''fs/lustre/obdfilter/%s/stats'' [''a-OST0'']) = Some (- 1, c3)"
    using c2(2) by (simp only: proc_openf_eq if_True)
  from hashstats_missing [OF c1(1) b this] show ?thesis by simp
qed

end
