(* ===== verification/Lmt_Ost.thy ===== *)
theory Lmt_Ost
  imports Lmt_Lustre_Facts
begin

text \<open>
  \<open>liblmt/common.c\<close> and \<open>liblmt/ost.c\<close>: the metric string of an object storage server and its
  decoders. A decoder returns \<open>None\<close> for -1. The encoder keeps the CPU counters of the previous call
  (its \<open>static\<close> variables) in an argument and a result; \<open>uts\<close> is the node name \<open>uname\<close> gives.
\<close>

section \<open>Recovery status\<close>

definition recovery_str_size :: nat where "recovery_str_size = 64"

definition get_recovstr :: "sys \<Rightarrow> pctx \<Rightarrow> string \<Rightarrow> nat \<Rightarrow> (string option \<times> pctx) option" where
  "get_recovstr sy c name len = do {
     (rh, c1) \<leftarrow> proc_lustre_hashrecov sy c name;
     case rh of
       None \<Rightarrow> Some (None, c1)
     | Some h \<Rightarrow>
         (case hash_find h (Some ''status:'') of
            (None, e) \<Rightarrow> Some (None, c1\<lparr>perrno := e\<rparr>)
          | (Some status, e) \<Rightarrow>
              (let waitingfor = fst (hash_find h (Some ''non-ready''));
                   completed_clients = fst (hash_find h (Some ''completed_clients:''));
                   time_remaining = fst (hash_find h (Some ''time_remaining:''));
                   out = (case waitingfor of
                            Some w \<Rightarrow> shash_val status @ '' on '' @ shash_val w
                          | None \<Rightarrow> shash_val status @ '' '' @
                              (case completed_clients of Some cc \<Rightarrow> shash_val cc | None \<Rightarrow> []) @ '' '' @
                              (case time_remaining of Some t \<Rightarrow> shash_val t | None \<Rightarrow> ''0'') @ ''s remaining'')
               in Some (Some (snd (snprintf len out)), c1\<lparr>perrno := E0\<rparr>)))
   }"

section \<open>Encoder\<close>

definition get_mem_usage :: "sys \<Rightarrow> pctx \<Rightarrow> (fp option \<times> pctx) option" where
  "get_mem_usage sy c = do {
     (r, c1) \<leftarrow> proc_meminfo sy c;
     Some (map_option (\<lambda>(ktot, kfree).
             fp_mul (fp_div (fp_of_u64 (ktot - kfree)) (fp_of_u64 ktot)) (FFin 100)) r, c1)
   }"

definition get_iops :: "sys \<Rightarrow> pctx \<Rightarrow> string \<Rightarrow> (u64 option \<times> pctx) option" where
  "get_iops sy c name = do {
     (h, c1) \<leftarrow> proc_lustre_brwstats sy c name BRW_RPC;
     Some (map_option (\<lambda>bins. foldl (\<lambda>iops b. iops + (hyr b + hyw b)) 0 bins) h, c1)
   }"

record ostinfo =
  oi_name :: string
  oi_inodes_free :: u64
  oi_inodes_total :: u64
  oi_kbytes_free :: u64
  oi_kbytes_total :: u64
  oi_read_bytes :: u64
  oi_write_bytes :: u64
  oi_iops :: u64
  oi_num_exports :: u64
  oi_lock_count :: u64
  oi_grant_rate :: u64
  oi_cancel_rate :: u64
  oi_connect :: u64
  oi_reconnect :: u64
  oi_recov_status :: string

definition ost_fields :: "ostinfo \<Rightarrow> string list" where
  "ost_fields i =
     [oi_name i, print_u64 (oi_inodes_free i), print_u64 (oi_inodes_total i),
      print_u64 (oi_kbytes_free i), print_u64 (oi_kbytes_total i), print_u64 (oi_read_bytes i),
      print_u64 (oi_write_bytes i), print_u64 (oi_iops i), print_u64 (oi_num_exports i),
      print_u64 (oi_lock_count i), print_u64 (oi_grant_rate i), print_u64 (oi_cancel_rate i),
      print_u64 (oi_connect i), print_u64 (oi_reconnect i), oi_recov_status i]"

text \<open>The values are read in the order of the code; the first that cannot be read ends the function.\<close>

definition get_ostinfo :: "sys \<Rightarrow> pctx \<Rightarrow> string \<Rightarrow> (ostinfo option \<times> pctx) option" where
  "get_ostinfo sy c name = do {
     (uuid, c1) \<leftarrow> proc_lustre_uuid sy c name;
     case uuid of None \<Rightarrow> Some (None, c1) | Some u \<Rightarrow> do {
     (stats_hash, c2) \<leftarrow> proc_lustre_hashstats sy c1 name;
     case stats_hash of None \<Rightarrow> Some (None, c2) | Some h \<Rightarrow> do {
     (iops, c3) \<leftarrow> get_iops sy (c2\<lparr>perrno := snd (snd (proc_lustre_parsestat h ''reconnect''))\<rparr>) name;
     (files, c4) \<leftarrow> proc_lustre_files sy c3 name;
     case files of None \<Rightarrow> Some (None, c4) | Some (filesfree, filestotal) \<Rightarrow> do {
     (kbytes, c5) \<leftarrow> proc_lustre_kbytes sy c4 name;
     case kbytes of None \<Rightarrow> Some (None, c5) | Some (kbytesfree, kbytestotal) \<Rightarrow> do {
     (num, c6) \<leftarrow> proc_lustre_num_exports sy c5 name;
     case num of None \<Rightarrow> Some (None, c6) | Some num_exports \<Rightarrow> do {
     (lc, c7) \<leftarrow> proc_lustre_ldlm_lock_count sy c6 name;
     case lc of None \<Rightarrow> Some (None, c7) | Some lock_count \<Rightarrow> do {
     (gr, c8) \<leftarrow> proc_lustre_ldlm_grant_rate sy c7 name;
     case gr of None \<Rightarrow> Some (None, c8) | Some grant_rate \<Rightarrow> do {
     (cr, c9) \<leftarrow> proc_lustre_ldlm_cancel_rate sy c8 name;
     case cr of None \<Rightarrow> Some (None, c9) | Some cancel_rate \<Rightarrow> do {
     (rs, c10) \<leftarrow> get_recovstr sy c9 name recovery_str_size;
     case rs of None \<Rightarrow> Some (None, c10) | Some recov_str \<Rightarrow>
       Some (Some \<lparr>oi_name = u, oi_inodes_free = filesfree, oi_inodes_total = filestotal,
              oi_kbytes_free = kbytesfree, oi_kbytes_total = kbytestotal,
              oi_read_bytes = st_sum (fst (snd (proc_lustre_parsestat h ''read_bytes''))),
              oi_write_bytes = st_sum (fst (snd (proc_lustre_parsestat h ''write_bytes''))),
              oi_iops = (case iops of None \<Rightarrow> 0 | Some n \<Rightarrow> n), oi_num_exports = num_exports,
              oi_lock_count = lock_count, oi_grant_rate = grant_rate, oi_cancel_rate = cancel_rate,
              oi_connect = st_count (fst (snd (proc_lustre_parsestat h ''connect''))),
              oi_reconnect = st_count (fst (snd (proc_lustre_parsestat h ''reconnect''))),
              oi_recov_status = recov_str\<rparr>, c10)
     }}}}}}}}}"

definition get_oststring_v2 :: "sys \<Rightarrow> pctx \<Rightarrow> string \<Rightarrow> nat \<Rightarrow> (string option \<times> pctx) option" where
  "get_oststring_v2 sy c name len = do {
     (i, c1) \<leftarrow> get_ostinfo sy c name;
     case i of
       None \<Rightarrow> Some (None, c1)
     | Some info \<Rightarrow>
         (case snprintf len (fields_string CHR '';'' (ost_fields info)) of (n, s) \<Rightarrow>
            Some (if n \<ge> int len then None else Some s, c1))
   }"

text \<open>\<open>s\<close> is the string so far; the next one is written behind it.\<close>

fun ost_string_loop :: "sys \<Rightarrow> pctx \<Rightarrow> string list \<Rightarrow> string \<Rightarrow> nat \<Rightarrow> (string option \<times> pctx) option" where
  "ost_string_loop sy c [] s len = Some (Some s, c)"
| "ost_string_loop sy c (name # l) s len = do {
     (r, c1) \<leftarrow> get_oststring_v2 sy c name (len - length s);
     case r of None \<Rightarrow> Some (None, c1) | Some t \<Rightarrow> ost_string_loop sy c1 l (s @ t) len
   }"

definition ost_header :: "string \<Rightarrow> fp \<Rightarrow> fp \<Rightarrow> string" where
  "ost_header nodename cpupct mempct =
     ''2;'' @ nodename @ '';'' @ print_f cpupct @ '';'' @ print_f mempct @ '';''"

definition lmt_ost_string_v2 :: "sys \<Rightarrow> string option \<Rightarrow> pctx \<Rightarrow> u64 \<times> u64 \<Rightarrow> nat \<Rightarrow>
    ((string option \<times> (u64 \<times> u64)) \<times> pctx) option" where
  "lmt_ost_string_v2 sy uts c cpu len = do {
     (ostlist, c1) \<leftarrow> proc_lustre_ostlist sy c;
     case ostlist of
       None \<Rightarrow> Some ((None, cpu), c1)
     | Some l \<Rightarrow>
         if length l = 0 then Some ((None, cpu), c1\<lparr>perrno := E0\<rparr>)
         else case uts of
           None \<Rightarrow> Some ((None, cpu), c1)
         | Some nodename \<Rightarrow> do {
             (st, c2) \<leftarrow> proc_stat2 sy c1 (fst cpu) (snd cpu);
             case st of
               None \<Rightarrow> Some ((None, cpu), c2)
             | Some (cpuused, cputot, cpupct) \<Rightarrow> do {
                 (m, c3) \<leftarrow> get_mem_usage sy c2;
                 case m of
                   None \<Rightarrow> Some ((None, (cpuused, cputot)), c3)
                 | Some mempct \<Rightarrow>
                     (case snprintf len (ost_header nodename cpupct mempct) of (n, s) \<Rightarrow>
                        if n \<ge> int len then Some ((None, (cpuused, cputot)), c3)
                        else do {
                          (r, c4) \<leftarrow> ost_string_loop sy c3 l s len;
                          Some ((r, (cpuused, cputot)), c4)
                        })
               }
           }
   }"

text \<open>Dropping the last delimiter, as the encoders of \<open>mdt.c\<close> and \<open>osc.c\<close> do.\<close>

definition chomp :: "string \<Rightarrow> string" where
  "chomp s = (if s \<noteq> [] \<and> last s = CHR '';'' then butlast s else s)"

section \<open>Decoders\<close>

definition sval_fp :: "sval \<Rightarrow> fp" where
  "sval_fp v = (case v of VF x \<Rightarrow> x | _ \<Rightarrow> FNaN)"

definition semi :: dir where "semi = DLit CHR '';''"

definition not_semi :: dir where "not_semi = DNot CHR '';'' None"

text \<open>The oss name, the two percentages and the list of ost strings.\<close>

definition lmt_ost_decode_v2 :: "string \<Rightarrow> (string \<times> fp \<times> fp \<times> string list) option" where
  "lmt_ost_decode_v2 s =
     (case sscanf [DSkipFloat, semi, not_semi, semi, DFloat, semi, DFloat, semi] s of (n, vs) \<Rightarrow>
        if n \<noteq> 3 then None
        else case strskip s 4 CHR '';'' of
               None \<Rightarrow> None
             | Some s1 \<Rightarrow>
                 (case strskipcpy_loop s1 15 CHR '';'' of (ostinfo, s2) \<Rightarrow>
                    if length s2 > 0 then None
                    else Some (sval_str (vs ! 0), sval_fp (vs ! 1), sval_fp (vs ! 2), ostinfo)))"

definition ostinfo_fmt :: "dir list" where
  "ostinfo_fmt = [not_semi, semi] @ concat (replicate 13 [DU64, semi]) @ [not_semi, semi]"

definition lmt_ost_decode_v2_ostinfo :: "string \<Rightarrow> ostinfo option" where
  "lmt_ost_decode_v2_ostinfo s =
     (case sscanf ostinfo_fmt s of (n, vs) \<Rightarrow>
        if n \<noteq> 15 then None
        else Some \<lparr>oi_name = sval_str (vs ! 0), oi_inodes_free = sval_u64 (vs ! 1),
          oi_inodes_total = sval_u64 (vs ! 2), oi_kbytes_free = sval_u64 (vs ! 3),
          oi_kbytes_total = sval_u64 (vs ! 4), oi_read_bytes = sval_u64 (vs ! 5),
          oi_write_bytes = sval_u64 (vs ! 6), oi_iops = sval_u64 (vs ! 7),
          oi_num_exports = sval_u64 (vs ! 8), oi_lock_count = sval_u64 (vs ! 9),
          oi_grant_rate = sval_u64 (vs ! 10), oi_cancel_rate = sval_u64 (vs ! 11),
          oi_connect = sval_u64 (vs ! 12), oi_reconnect = sval_u64 (vs ! 13),
          oi_recov_status = sval_str (vs ! 14)\<rparr>)"

definition lmt_oss_decode_v1 :: "string \<Rightarrow> (string \<times> fp \<times> fp) option" where
  "lmt_oss_decode_v1 s =
     (case sscanf [DSkipFloat, semi, not_semi, semi, DFloat, semi, DFloat] s of (n, vs) \<Rightarrow>
        if n \<noteq> 3 then None else Some (sval_str (vs ! 0), sval_fp (vs ! 1), sval_fp (vs ! 2)))"

text \<open>The oss name, the ost name, read and written bytes, free and total kilobytes, free and total inodes.\<close>

definition lmt_ost_decode_v1 :: "string \<Rightarrow> (string \<times> string \<times> u64 \<times> u64 \<times> u64 \<times> u64 \<times> u64 \<times> u64) option" where
  "lmt_ost_decode_v1 s =
     (case sscanf ([DSkipFloat, semi, not_semi, semi, not_semi] @ concat (replicate 6 [semi, DU64])) s of (n, vs) \<Rightarrow>
        if n \<noteq> 8 then None
        else Some (sval_str (vs ! 0), sval_str (vs ! 1), sval_u64 (vs ! 6), sval_u64 (vs ! 7),
                   sval_u64 (vs ! 4), sval_u64 (vs ! 5), sval_u64 (vs ! 2), sval_u64 (vs ! 3)))"

section \<open>Round trips\<close>

lemmas fmt_dirs = semi_def not_semi_def

definition field_ok :: "string \<Rightarrow> bool" where
  "field_ok f \<longleftrightarrow> f \<noteq> [] \<and> CHR '';'' \<notin> set f"

definition ostinfo_ok :: "ostinfo \<Rightarrow> bool" where
  "ostinfo_ok i \<longleftrightarrow> field_ok (oi_name i) \<and> field_ok (oi_recov_status i)"

lemma field_ok_print_u64 [simp]: "field_ok (print_u64 w)"
  by (simp add: field_ok_def)

lemma ost_fields_ok: "ostinfo_ok i \<Longrightarrow> f \<in> set (ost_fields i) \<Longrightarrow> field_ok f"
  by (auto simp: ost_fields_def ostinfo_ok_def)

lemma length_ost_fields [simp]: "length (ost_fields i) = 15"
  by (simp add: ost_fields_def)

interpretation ost: record_stream ost_fields 15 "CHR '';''" ostinfo_ok
  by unfold_locales (auto simp: field_ok_def dest: ost_fields_ok)

text \<open>One ost string: what \<open>strskipcpy\<close> cuts out.\<close>

definition ost_string :: "ostinfo \<Rightarrow> string" where
  "ost_string i = butlast (fields_string CHR '';'' (ost_fields i))"

lemma ost_string_eq:
  "ost_string i = oi_name i @ CHR '';'' # concat (map (\<lambda>w. print_u64 w @ '';'')
     [oi_inodes_free i, oi_inodes_total i, oi_kbytes_free i, oi_kbytes_total i, oi_read_bytes i,
      oi_write_bytes i, oi_iops i, oi_num_exports i, oi_lock_count i, oi_grant_rate i, oi_cancel_rate i,
      oi_connect i, oi_reconnect i]) @ oi_recov_status i"
  by (simp add: ost_string_def ost_fields_def butlast_append)

lemma decode_ost_string:
  assumes "ostinfo_ok i"
  shows "lmt_ost_decode_v2_ostinfo (ost_string i) = Some i"
proof -
  have ok: "oi_name i \<noteq> []" "CHR '';'' \<notin> set (oi_name i)" "oi_recov_status i \<noteq> []" "CHR '';'' \<notin> set (oi_recov_status i)"
    using assms by (simp_all add: ostinfo_ok_def field_ok_def)
  let ?vs = "[VS (oi_name i), VU (oi_inodes_free i), VU (oi_inodes_total i), VU (oi_kbytes_free i),
    VU (oi_kbytes_total i), VU (oi_read_bytes i), VU (oi_write_bytes i), VU (oi_iops i), VU (oi_num_exports i),
    VU (oi_lock_count i), VU (oi_grant_rate i), VU (oi_cancel_rate i), VU (oi_connect i), VU (oi_reconnect i),
    VS (oi_recov_status i)]"
  have "scan_dirs ostinfo_fmt (ost_string i) = (?vs, [], True)"
    unfolding ost_string_eq ostinfo_fmt_def fmt_dirs
    by (simp add: scan_simps ok numeral_eq_Suc del: scan_step.simps scan_dirs.simps(2)) simp
  then have "sscanf ostinfo_fmt (ost_string i) = (15, ?vs)"
    by (simp add: sscanf_def scanf_result_def)
  then show ?thesis by (simp add: lmt_ost_decode_v2_ostinfo_def sval_u64_def sval_str_def)
qed

text \<open>The whole metric string.\<close>

definition ost_text :: "string \<Rightarrow> fp \<Rightarrow> fp \<Rightarrow> ostinfo list \<Rightarrow> string" where
  "ost_text host cpu mem is =
     ost_header host cpu mem @ concat (map (\<lambda>i. fields_string CHR '';'' (ost_fields i)) is)"

lemma ost_header_fields: "ost_header h c m = fields_string CHR '';'' [''2'', h, print_f c, print_f m]"
  by (simp add: ost_header_def)

lemma scan_ost_header:
  assumes "field_ok host"
  shows "sscanf [DSkipFloat, semi, not_semi, semi, DFloat, semi, DFloat, semi] (ost_header host cpu mem @ r) =
    (3, [VS host, VF (reread_f cpu), VF (reread_f mem)])"
proof -
  have "scan_dirs [DSkipFloat, semi, not_semi, semi, DFloat, semi, DFloat, semi] (ost_header host cpu mem @ r) =
    ([VS host, VF (reread_f cpu), VF (reread_f mem)], r, False)"
    using assms unfolding ost_header_def fmt_dirs
    by (simp add: scan_simps field_ok_def del: scan_step.simps scan_dirs.simps(2))
  then show ?thesis by (simp add: sscanf_def scanf_result_def)
qed

lemma strskip_ost_header:
  "field_ok host \<Longrightarrow> strskip (ost_header host cpu mem @ r) 4 CHR '';'' = Some r"
  using strskip_fields [of "[''2'', host, print_f cpu, print_f mem]" "CHR '';''" r]
  by (simp add: ost_header_fields field_ok_def numeral_eq_Suc)

lemma decode_ost_text:
  assumes "field_ok host" "list_all ostinfo_ok is"
  shows "lmt_ost_decode_v2 (ost_text host cpu mem is) = Some (host, reread_f cpu, reread_f mem, map ost_string is)"
proof -
  have "strskipcpy_loop (concat (map (\<lambda>i. fields_string CHR '';'' (ost_fields i)) is)) 15 CHR '';'' = (map ost_string is, [])"
    using ost.loop_records [of "is"] assms(2) by (simp add: list_all_iff ost_string_def)
  then show ?thesis
    unfolding lmt_ost_decode_v2_def ost_text_def scan_ost_header [OF assms(1)] strskip_ost_header [OF assms(1)] prod.case
    by (simp add: sval_str_def sval_fp_def)
qed

section \<open>Properties\<close>

text \<open>C4: the metric string of an object storage server decodes to what was printed: the server name, the two
  percentages to six decimals, and every target with all its counters.\<close>

theorem ost_roundtrip:
  assumes "field_ok host" "list_all ostinfo_ok is"
  shows "\<exists>l. lmt_ost_decode_v2 (ost_text host cpu mem is) = Some (host, reread_f cpu, reread_f mem, l) \<and>
    map lmt_ost_decode_v2_ostinfo l = map Some is"
  using decode_ost_text [OF assms] assms(2) by (auto simp: list_all_iff decode_ost_string)

definition ostinfo_example :: ostinfo where
  "ostinfo_example = \<lparr>oi_name = ''a-OST0'', oi_inodes_free = 11, oi_inodes_total = 12, oi_kbytes_free = 13,
     oi_kbytes_total = 14, oi_read_bytes = 77, oi_write_bytes = 0, oi_iops = 0, oi_num_exports = 15,
     oi_lock_count = 0, oi_grant_rate = 0, oi_cancel_rate = 0, oi_connect = 2, oi_reconnect = 0,
     oi_recov_status = ''COMPLETE''\<rparr>"

theorem ost_roundtrip_witness:
  "\<exists>l. lmt_ost_decode_v2 (ost_text ''oss1'' (FFin 50) (FFin 75) [ostinfo_example]) =
      Some (''oss1'', reread_f (FFin 50), reread_f (FFin 75), l) \<and> map lmt_ost_decode_v2_ostinfo l = [Some ostinfo_example]"
  using ost_roundtrip [of "''oss1''" "[ostinfo_example]" "FFin 50" "FFin 75"]
  by (simp add: field_ok_def ostinfo_ok_def ostinfo_example_def)

lemma foldl_add_sum_list: "foldl (\<lambda>a b. a + f b) (n :: u64) bs = n + sum_list (map f bs)"
  by (induction bs arbitrary: n) (simp_all add: add.assoc)

text \<open>The I/O count of a target is the sum of the reads and writes over all bins of the histogram, modulo
  \<open>2^64\<close>, whatever the order of the bins.\<close>

theorem get_iops_correct:
  "get_iops sy c name = map_option (\<lambda>(h, c'). (map_option (\<lambda>bins. \<Sum>b \<leftarrow> bins. hyr b + hyw b) h, c'))
     (proc_lustre_brwstats sy c name BRW_RPC)"
  by (cases "proc_lustre_brwstats sy c name BRW_RPC") (auto simp: get_iops_def foldl_add_sum_list)

section \<open>The run of the encoder\<close>

text \<open>The targets in the order of the list, each read in the state its predecessor left.\<close>

fun get_ostinfos :: "sys \<Rightarrow> pctx \<Rightarrow> string list \<Rightarrow> (ostinfo list \<times> pctx) option" where
  "get_ostinfos sy c [] = Some ([], c)"
| "get_ostinfos sy c (name # l) = (case get_ostinfo sy c name of
     Some (Some i, c1) \<Rightarrow> map_option (\<lambda>(is, c2). (i # is, c2)) (get_ostinfos sy c1 l)
   | _ \<Rightarrow> None)"

lemma get_oststring_v2_info:
  assumes "get_oststring_v2 sy c name len = Some (Some t, c')"
  shows "\<exists>i. get_ostinfo sy c name = Some (Some i, c') \<and> t = fields_string CHR '';'' (ost_fields i) \<and> length t < len"
proof -
  obtain oi c1 where g: "get_ostinfo sy c name = Some (oi, c1)"
    using assms by (auto simp: get_oststring_v2_def Option.bind_eq_Some_conv)
  then obtain i where i: "oi = Some i" using assms by (cases oi) (auto simp: get_oststring_v2_def)
  show ?thesis using assms g i
    by (intro exI [of _ i]) (auto simp: get_oststring_v2_def snprintf_def split: if_splits)
qed

lemma ost_string_loop_infos:
  "ost_string_loop sy c l s len = Some (Some t, c') \<Longrightarrow> length s < len \<Longrightarrow>
   \<exists>is. get_ostinfos sy c l = Some (is, c') \<and> t = s @ concat (map (\<lambda>i. fields_string CHR '';'' (ost_fields i)) is) \<and> length t < len"
proof (induction l arbitrary: c s)
  case Nil
  then show ?case by auto
next
  case (Cons name l)
  obtain r c1 where g: "get_oststring_v2 sy c name (len - length s) = Some (r, c1)"
    using Cons(2) by (auto simp: Option.bind_eq_Some_conv)
  then obtain t1 where r: "r = Some t1" using Cons(2) by (cases r) auto
  obtain i where i: "get_ostinfo sy c name = Some (Some i, c1)" "t1 = fields_string CHR '';'' (ost_fields i)" "length t1 < len - length s"
    using get_oststring_v2_info g r by blast
  have "ost_string_loop sy c1 l (s @ t1) len = Some (Some t, c')" using Cons(2) g r by simp
  moreover have "length (s @ t1) < len" using i(3) Cons(3) by simp
  ultimately obtain "is" where "get_ostinfos sy c1 l = Some (is, c')"
    "t = (s @ t1) @ concat (map (\<lambda>i. fields_string CHR '';'' (ost_fields i)) is)" "length t < len"
    using Cons(1) by blast
  then show ?case using i(1,2) by (intro exI [of _ "i # is"]) simp
qed

text \<open>The queries of a successful encoder, each in the state its predecessor left, and what they returned.\<close>

definition ost_run :: "sys \<Rightarrow> pctx \<Rightarrow> u64 \<times> u64 \<Rightarrow> fp \<Rightarrow> fp \<Rightarrow> u64 \<times> u64 \<Rightarrow> ostinfo list \<Rightarrow> pctx \<Rightarrow> bool" where
  "ost_run sy c st cpu mem st' is c' \<longleftrightarrow> (\<exists>l c1 c2 c3.
     proc_lustre_ostlist sy c = Some (Some l, c1) \<and> l \<noteq> [] \<and>
     proc_stat2 sy c1 (fst st) (snd st) = Some (Some (fst st', snd st', cpu), c2) \<and>
     get_mem_usage sy c2 = Some (Some mem, c3) \<and> get_ostinfos sy c3 l = Some (is, c'))"

lemma ost_string_run:
  assumes "lmt_ost_string_v2 sy uts c st len = Some ((Some s, st'), c')"
  shows "\<exists>host cpu mem is. uts = Some host \<and> ost_run sy c st cpu mem st' is c' \<and>
    s = ost_text host cpu mem is \<and> length s < len"
proof -
  obtain ol c1 where o: "proc_lustre_ostlist sy c = Some (ol, c1)"
    using assms by (auto simp: lmt_ost_string_v2_def Option.bind_eq_Some_conv)
  obtain l where l: "ol = Some l" "l \<noteq> []" using assms o by (cases ol) (auto simp: lmt_ost_string_v2_def split: if_splits)
  obtain host where h: "uts = Some host" using assms o l by (cases uts) (auto simp: lmt_ost_string_v2_def)
  obtain st2 c2 where st: "proc_stat2 sy c1 (fst st) (snd st) = Some (st2, c2)"
    using assms o l h by (auto simp: lmt_ost_string_v2_def Option.bind_eq_Some_conv)
  obtain u t cpu where s2: "st2 = Some (u, t, cpu)"
    using assms o l h st by (cases st2) (auto simp: lmt_ost_string_v2_def)
  obtain m c3 where m: "get_mem_usage sy c2 = Some (m, c3)"
    using assms o l h st s2 by (auto simp: lmt_ost_string_v2_def Option.bind_eq_Some_conv)
  obtain mem where mm: "m = Some mem" using assms o l h st s2 m by (cases m) (auto simp: lmt_ost_string_v2_def)
  have len: "length (ost_header host cpu mem) < len"
    using assms o l h st s2 m mm by (auto simp: lmt_ost_string_v2_def snprintf_def split: if_splits)
  have lp: "ost_string_loop sy c3 l (ost_header host cpu mem) len = Some (Some s, c')" "st' = (u, t)"
    using assms o l h st s2 m mm len by (auto simp: lmt_ost_string_v2_def snprintf_fits Option.bind_eq_Some_conv)
  obtain "is" where i: "get_ostinfos sy c3 l = Some (is, c')" "s = ost_text host cpu mem is" "length s < len"
    using ost_string_loop_infos [OF lp(1) len] by (auto simp: ost_text_def)
  have "ost_run sy c st cpu mem st' is c'"
    unfolding ost_run_def
    using o l st s2 m mm i(1) lp(2)
    by (intro exI [of _ l] exI [of _ c1] exI [of _ c2] exI [of _ c3]) simp
  then show ?thesis using h i by blast
qed

end
