(* ===== verification/Lmt_Osc.thy ===== *)
theory Lmt_Osc
  imports Lmt_Ost
begin

text \<open>
  \<open>liblmt/osc.c\<close> and \<open>liblmt/router.c\<close>: the metric strings of a metadata server's object storage
  clients and of an LNET router.
\<close>

section \<open>Object storage clients\<close>

text \<open>The one-character state.\<close>

definition osc_state :: "string \<Rightarrow> string" where
  "osc_state state =
     (if state = ''CLOSED'' then ''C'' else if state = ''NEW'' then ''N''
      else if state = ''DISCONN'' then ''D'' else if state = ''CONNECTING'' then ''c''
      else if state = ''REPLAY'' then ''r'' else if state = ''REPLAY_LOCKS'' then ''l''
      else if state = ''REPLAY_WAIT'' then ''w'' else if state = ''RECOVER'' then ''R''
      else if state = ''FULL'' then ''F'' else if state = ''EVICTED'' then ''E'' else ''?'')"

type_synonym oscinfo = "string \<times> string"

definition osc_fields :: "oscinfo \<Rightarrow> string list" where
  "osc_fields i = [fst i, snd i]"

definition get_oscstring :: "sys \<Rightarrow> pctx \<Rightarrow> string \<Rightarrow> nat \<Rightarrow> (string option \<times> pctx) option" where
  "get_oscstring sy c name len = do {
     (r, c1) \<leftarrow> proc_lustre_oscinfo sy c name;
     case r of
       None \<Rightarrow> Some (None, c1)
     | Some (uuid, state) \<Rightarrow>
         (case snprintf len (fields_string CHR '';'' (osc_fields (uuid, osc_state state))) of (n, s) \<Rightarrow>
            Some (if n \<ge> int len then None else Some s, c1))
   }"

fun osc_string_loop :: "sys \<Rightarrow> pctx \<Rightarrow> string list \<Rightarrow> string \<Rightarrow> nat \<Rightarrow> (string option \<times> pctx) option" where
  "osc_string_loop sy c [] s len = Some (Some s, c)"
| "osc_string_loop sy c (name # l) s len = do {
     (r, c1) \<leftarrow> get_oscstring sy c name (len - length s);
     case r of None \<Rightarrow> Some (None, c1) | Some t \<Rightarrow> osc_string_loop sy c1 l (s @ t) len
   }"

definition lmt_osc_string_v1 :: "sys \<Rightarrow> string option \<Rightarrow> pctx \<Rightarrow> nat \<Rightarrow> (string option \<times> pctx) option" where
  "lmt_osc_string_v1 sy uts c len = do {
     (osclist, c1) \<leftarrow> proc_lustre_osclist sy c;
     case osclist of
       None \<Rightarrow> Some (None, c1)
     | Some l \<Rightarrow>
         if length l = 0 then Some (None, c1\<lparr>perrno := ENOENT\<rparr>)
         else case uts of
           None \<Rightarrow> Some (None, c1)
         | Some nodename \<Rightarrow>
             (case snprintf len (''1;'' @ nodename @ '';'') of (n, s) \<Rightarrow>
                if n \<ge> int len then Some (None, c1)
                else do {
                  (r, c2) \<leftarrow> osc_string_loop sy c1 l s len;
                  Some (map_option chomp r, c2)
                })
   }"

definition lmt_osc_decode_v1 :: "string \<Rightarrow> (string \<times> string list) option" where
  "lmt_osc_decode_v1 s =
     (case sscanf [DSkipFloat, semi, not_semi] s of (n, vs) \<Rightarrow>
        if n \<noteq> 1 then None
        else case strskip s 2 CHR '';'' of
               None \<Rightarrow> None
             | Some s1 \<Rightarrow>
                 (case strskipcpy_loop s1 2 CHR '';'' of (oscinfo, s2) \<Rightarrow>
                    if length s2 > 0 then None else Some (sval_str (vs ! 0), oscinfo)))"

definition lmt_osc_decode_v1_oscinfo :: "string \<Rightarrow> oscinfo option" where
  "lmt_osc_decode_v1_oscinfo s =
     (case sscanf [not_semi, semi, not_semi, semi] s of (n, vs) \<Rightarrow>
        if n \<noteq> 2 then None
        else case strskip s 2 CHR '';'' of
               None \<Rightarrow> None
             | Some s1 \<Rightarrow> if length s1 > 0 then None else Some (sval_str (vs ! 0), sval_str (vs ! 1)))"

subsection \<open>Round trip\<close>

definition oscinfo_ok :: "oscinfo \<Rightarrow> bool" where
  "oscinfo_ok i \<longleftrightarrow> field_ok (fst i) \<and> field_ok (snd i)"

lemma osc_state_ok [simp]: "field_ok (osc_state s)"
  by (simp add: osc_state_def field_ok_def)

interpretation osc: record_stream osc_fields 2 "CHR '';''" oscinfo_ok
  by unfold_locales (auto simp: osc_fields_def oscinfo_ok_def field_ok_def)

definition osc_string :: "oscinfo \<Rightarrow> string" where
  "osc_string i = butlast (fields_string CHR '';'' (osc_fields i))"

lemma osc_string_eq: "osc_string i = fst i @ CHR '';'' # snd i"
  by (simp add: osc_string_def osc_fields_def butlast_append)

lemma decode_osc_string:
  assumes "oscinfo_ok i"
  shows "lmt_osc_decode_v1_oscinfo (osc_string i) = Some i"
proof -
  have ok: "fst i \<noteq> []" "CHR '';'' \<notin> set (fst i)" "snd i \<noteq> []" "CHR '';'' \<notin> set (snd i)"
    using assms by (simp_all add: oscinfo_ok_def field_ok_def)
  have "scan_dirs [not_semi, semi, not_semi, semi] (osc_string i) = ([VS (fst i), VS (snd i)], [], True)"
    unfolding osc_string_eq fmt_dirs
    by (simp add: scan_simps ok del: scan_step.simps scan_dirs.simps(2)) simp
  then have "sscanf [not_semi, semi, not_semi, semi] (osc_string i) = (2, [VS (fst i), VS (snd i)])"
    by (simp add: sscanf_def scanf_result_def)
  moreover have "strskip (osc_string i) 2 CHR '';'' = Some []"
    using strskip_fields_unterminated [of "[fst i]" "CHR '';''" "snd i"] ok
    by (simp add: osc_string_eq numeral_2_eq_2)
  ultimately show ?thesis by (simp add: lmt_osc_decode_v1_oscinfo_def sval_str_def)
qed

text \<open>The whole string, with its last delimiter dropped.\<close>

definition osc_text :: "string \<Rightarrow> oscinfo list \<Rightarrow> string" where
  "osc_text host is =
     chomp (''1;'' @ host @ '';'' @ concat (map (\<lambda>i. fields_string CHR '';'' (osc_fields i)) is))"

lemma osc_stream_last:
  "is \<noteq> [] \<Longrightarrow> concat (map (\<lambda>i. fields_string CHR '';'' (osc_fields i)) is) \<noteq> [] \<and>
    last (concat (map (\<lambda>i. fields_string CHR '';'' (osc_fields i)) is)) = CHR '';''"
  by (induction "is" rule: rev_induct) (auto simp: osc_fields_def)

lemma osc_text_eq:
  assumes "is \<noteq> []"
  shows "osc_text host is =
    ''1;'' @ host @ '';'' @ butlast (concat (map (\<lambda>i. fields_string CHR '';'' (osc_fields i)) is))"
  using osc_stream_last [OF assms] by (simp add: osc_text_def chomp_def butlast_append)

lemma decode_osc_text:
  assumes "field_ok host" "list_all oscinfo_ok is" "is \<noteq> []"
  shows "lmt_osc_decode_v1 (osc_text host is) = Some (host, map osc_string is)"
proof -
  let ?r = "butlast (concat (map (\<lambda>i. fields_string CHR '';'' (osc_fields i)) is))"
  have h: "host \<noteq> []" "CHR '';'' \<notin> set host" using assms(1) by (simp_all add: field_ok_def)
  have "scan_dirs [DSkipFloat, semi, not_semi] (''1;'' @ host @ '';'' @ ?r) = ([VS host], '';'' @ ?r, False)"
    unfolding fmt_dirs by (simp add: scan_simps h del: scan_step.simps scan_dirs.simps(2))
  then have sc: "sscanf [DSkipFloat, semi, not_semi] (''1;'' @ host @ '';'' @ ?r) = (1, [VS host])"
    by (simp add: sscanf_def scanf_result_def)
  have sk: "strskip (''1;'' @ host @ '';'' @ ?r) 2 CHR '';'' = Some ?r"
    using strskip_fields [of "[''1'', host]" "CHR '';''" ?r] h by (simp add: numeral_2_eq_2)
  have "last is \<in> set is" using assms(3) by simp
  then have "snd (last is) \<noteq> []" using assms(2) by (auto simp: list_all_iff oscinfo_ok_def field_ok_def)
  then have "strskipcpy_loop ?r 2 CHR '';'' = (map osc_string is, [])"
    using osc.loop_records_chomped [of "is"] assms(2,3)
    by (simp add: list_all_iff osc_string_def osc_fields_def)
  then show ?thesis unfolding osc_text_eq [OF assms(3)] lmt_osc_decode_v1_def sc sk prod.case
    by (simp add: sval_str_def)
qed

subsection \<open>What the encoder produces\<close>

text \<open>The letters of the states, as \<open>ltop\<close>'s manual page lists them, and what a run of the encoder reads: the name and the
  state of every listed client, one query after the other.\<close>

definition osc_letters :: "(string \<times> string) list" where
  "osc_letters =
     [(''FULL'', ''F''), (''CLOSED'', ''C''), (''NEW'', ''N''), (''DISCONN'', ''D''), (''CONNECTING'', ''c''), (''REPLAY'', ''r''),
      (''REPLAY_LOCKS'', ''l''), (''REPLAY_WAIT'', ''w''), (''RECOVER'', ''R''), (''EVICTED'', ''E'')]"

definition osc_letter :: "string \<Rightarrow> string" where
  "osc_letter st = (case map_of osc_letters st of Some l \<Rightarrow> l | None \<Rightarrow> ''?'')"

lemma osc_state_letter: "osc_state st = osc_letter st"
  by (simp add: osc_state_def osc_letter_def osc_letters_def)

fun osc_run :: "sys \<Rightarrow> pctx \<Rightarrow> string list \<Rightarrow> (string \<times> string) list \<Rightarrow> pctx \<Rightarrow> bool" where
  "osc_run sy c [] rs c' \<longleftrightarrow> rs = [] \<and> c' = c"
| "osc_run sy c (name # l) rs c' \<longleftrightarrow>
     (\<exists>u st rs' c1. rs = (u, st) # rs' \<and> proc_lustre_oscinfo sy c name = Some (Some (u, st), c1) \<and> osc_run sy c1 l rs' c')"

definition osc_entry :: "string \<times> string \<Rightarrow> oscinfo" where
  "osc_entry = (\<lambda>(u, st). (u, osc_letter st))"

lemma get_oscstring_run:
  assumes "get_oscstring sy c name len = Some (Some t, c')"
  shows "\<exists>u st. proc_lustre_oscinfo sy c name = Some (Some (u, st), c') \<and>
    t = fields_string CHR '';'' (osc_fields (osc_entry (u, st))) \<and> length t < len"
proof -
  obtain r c1 where r: "proc_lustre_oscinfo sy c name = Some (r, c1)"
    using assms by (auto simp: get_oscstring_def Option.bind_eq_Some_conv)
  then obtain u st where "r = Some (u, st)" using assms by (cases r) (auto simp: get_oscstring_def)
  then show ?thesis using assms r
    by (auto simp: get_oscstring_def snprintf_def osc_entry_def osc_state_letter split: if_splits)
qed

lemma osc_string_loop_run:
  "osc_string_loop sy c l s len = Some (Some t, c') \<Longrightarrow> length s < len \<Longrightarrow>
   \<exists>rs. osc_run sy c l rs c' \<and> t = s @ concat (map (\<lambda>i. fields_string CHR '';'' (osc_fields i)) (map osc_entry rs)) \<and> length t < len"
proof (induction l arbitrary: c s)
  case Nil
  then show ?case by auto
next
  case (Cons name l)
  obtain r c1 where g: "get_oscstring sy c name (len - length s) = Some (r, c1)"
    using Cons(2) by (auto simp: Option.bind_eq_Some_conv)
  then obtain t1 where r: "r = Some t1" using Cons(2) by (cases r) auto
  obtain u st where i: "proc_lustre_oscinfo sy c name = Some (Some (u, st), c1)"
    "t1 = fields_string CHR '';'' (osc_fields (osc_entry (u, st)))" "length t1 < len - length s"
    using get_oscstring_run g r by blast
  have "osc_string_loop sy c1 l (s @ t1) len = Some (Some t, c')" using Cons(2) g r by simp
  moreover have "length (s @ t1) < len" using i(3) Cons(3) by simp
  ultimately obtain rs where "osc_run sy c1 l rs c'"
    "t = (s @ t1) @ concat (map (\<lambda>i. fields_string CHR '';'' (osc_fields i)) (map osc_entry rs))" "length t < len"
    using Cons(1) by blast
  then show ?case using i by (intro exI [of _ "(u, st) # rs"]) simp
qed

lemma osc_string_run:
  assumes "lmt_osc_string_v1 sy uts c len = Some (Some s, c')"
  shows "\<exists>host l c1 rs. uts = Some host \<and> proc_lustre_osclist sy c = Some (Some l, c1) \<and> l \<noteq> [] \<and> osc_run sy c1 l rs c' \<and>
    s = osc_text host (map osc_entry rs) \<and> length s < len"
proof -
  obtain ol c1 where o: "proc_lustre_osclist sy c = Some (ol, c1)"
    using assms by (auto simp: lmt_osc_string_v1_def Option.bind_eq_Some_conv)
  obtain l where l: "ol = Some l" "l \<noteq> []" using assms o by (cases ol) (auto simp: lmt_osc_string_v1_def split: if_splits)
  obtain host where h: "uts = Some host" using assms o l by (cases uts) (auto simp: lmt_osc_string_v1_def)
  let ?h = "''1;'' @ host @ '';''"
  have len: "length ?h < len"
    using assms o l h by (auto simp: lmt_osc_string_v1_def snprintf_def split: if_splits)
  obtain t where t: "osc_string_loop sy c1 l ?h len = Some (Some t, c')" "s = chomp t"
    using assms o l h len by (auto simp: lmt_osc_string_v1_def snprintf_fits Option.bind_eq_Some_conv)
  obtain rs where i: "osc_run sy c1 l rs c'"
    "t = ?h @ concat (map (\<lambda>i. fields_string CHR '';'' (osc_fields i)) (map osc_entry rs))" "length t < len"
    using osc_string_loop_run [OF t(1) len] by blast
  have "length (chomp t) \<le> length t" by (simp add: chomp_def)
  moreover have "chomp t = osc_text host (map osc_entry rs)" by (simp only: osc_text_def i(2) append.assoc)
  ultimately show ?thesis using o l h i t by auto
qed

section \<open>Routers\<close>

definition lmt_router_string_v1 :: "sys \<Rightarrow> string option \<Rightarrow> pctx \<Rightarrow> u64 \<times> u64 \<Rightarrow> nat \<Rightarrow>
    ((string option \<times> (u64 \<times> u64)) \<times> pctx) option" where
  "lmt_router_string_v1 sy uts c cpu len = do {
     (ena, c1) \<leftarrow> proc_lustre_lnet_routing_enabled sy c;
     case ena of
       None \<Rightarrow> Some ((None, cpu), c1)
     | Some False \<Rightarrow> Some ((None, cpu), c1\<lparr>perrno := E0\<rparr>)
     | Some True \<Rightarrow>
         (case uts of
            None \<Rightarrow> Some ((None, cpu), c1)
          | Some nodename \<Rightarrow> do {
              (st, c2) \<leftarrow> proc_stat2 sy c1 (fst cpu) (snd cpu);
              case st of
                None \<Rightarrow> Some ((None, cpu), c2)
              | Some (cpuusage, cputot, cpupct) \<Rightarrow> do {
                  (m, c3) \<leftarrow> get_mem_usage sy c2;
                  case m of
                    None \<Rightarrow> Some ((None, (cpuusage, cputot)), c3)
                  | Some mempct \<Rightarrow> do {
                      (nb, c4) \<leftarrow> proc_lustre_lnet_newbytes sy c3;
                      case nb of
                        None \<Rightarrow> Some ((None, (cpuusage, cputot)), c4)
                      | Some newbytes \<Rightarrow>
                          (case snprintf len (''1.0;'' @ nodename @ '';'' @ print_f cpupct @ '';'' @
                                  print_f mempct @ '';'' @ print_u64 newbytes) of (n, s) \<Rightarrow>
                             Some ((if n \<ge> int len then None else Some s, (cpuusage, cputot)), c4))
                    }
                }
            })
   }"

text \<open>The name, the percentages and the bytes.\<close>

definition lmt_router_decode_v1 :: "string \<Rightarrow> (string \<times> fp \<times> fp \<times> u64) option" where
  "lmt_router_decode_v1 s =
     (case sscanf [DSkipFloat, semi, not_semi, semi, DFloat, semi, DFloat, semi, DU64] s of (n, vs) \<Rightarrow>
        if n \<noteq> 4 then None
        else Some (sval_str (vs ! 0), sval_fp (vs ! 1), sval_fp (vs ! 2), sval_u64 (vs ! 3)))"

definition router_text :: "string \<Rightarrow> fp \<Rightarrow> fp \<Rightarrow> u64 \<Rightarrow> string" where
  "router_text host cpu mem bytes =
     ''1.0;'' @ host @ '';'' @ print_f cpu @ '';'' @ print_f mem @ '';'' @ print_u64 bytes"

lemma decode_router_text:
  assumes "field_ok host"
  shows "lmt_router_decode_v1 (router_text host cpu mem bytes) = Some (host, reread_f cpu, reread_f mem, bytes)"
proof -
  have "scan_dirs [DSkipFloat, semi, not_semi, semi, DFloat, semi, DFloat, semi, DU64] (router_text host cpu mem bytes) =
    ([VS host, VF (reread_f cpu), VF (reread_f mem), VU bytes], [], False)"
    using assms unfolding router_text_def fmt_dirs
    by (simp add: scan_simps field_ok_def del: scan_step.simps scan_dirs.simps(2))
  then show ?thesis by (simp add: lmt_router_decode_v1_def sscanf_def scanf_result_def sval_str_def sval_fp_def sval_u64_def)
qed

lemma router_string_shape:
  assumes "lmt_router_string_v1 sy uts c st len = Some ((Some s, st'), c')"
  shows "\<exists>host cpu mem bytes. uts = Some host \<and> s = router_text host cpu mem bytes \<and> length s < len"
proof -
  obtain e c1 where e: "proc_lustre_lnet_routing_enabled sy c = Some (e, c1)"
    using assms by (auto simp: lmt_router_string_v1_def Option.bind_eq_Some_conv)
  have e1: "e = Some True" using assms e by (cases e) (auto simp: lmt_router_string_v1_def split: bool.splits)
  obtain host where h: "uts = Some host" using assms e e1 by (cases uts) (auto simp: lmt_router_string_v1_def)
  obtain st2 c2 where st: "proc_stat2 sy c1 (fst st) (snd st) = Some (st2, c2)"
    using assms e e1 h by (auto simp: lmt_router_string_v1_def Option.bind_eq_Some_conv)
  obtain u t cpu where s2: "st2 = Some (u, t, cpu)"
    using assms e e1 h st by (cases st2) (auto simp: lmt_router_string_v1_def)
  obtain m c3 where m: "get_mem_usage sy c2 = Some (m, c3)"
    using assms e e1 h st s2 by (auto simp: lmt_router_string_v1_def Option.bind_eq_Some_conv)
  obtain mem where mm: "m = Some mem" using assms e e1 h st s2 m by (cases m) (auto simp: lmt_router_string_v1_def)
  obtain nb c4 where n: "proc_lustre_lnet_newbytes sy c3 = Some (nb, c4)"
    using assms e e1 h st s2 m mm by (auto simp: lmt_router_string_v1_def Option.bind_eq_Some_conv)
  obtain b where b: "nb = Some b" using assms e e1 h st s2 m mm n by (cases nb) (auto simp: lmt_router_string_v1_def)
  let ?t = "router_text host cpu mem b"
  have "length ?t < len \<and> s = ?t"
    using assms e e1 h st s2 m mm n b
    by (cases "length ?t < len") (auto simp: lmt_router_string_v1_def snprintf_def router_text_def split: if_splits)
  then show ?thesis using h by blast
qed

section \<open>Properties\<close>

lemma osc_run_nonempty: "osc_run sy c l rs c' \<Longrightarrow> l \<noteq> [] \<Longrightarrow> rs \<noteq> []"
  by (cases l) auto

text \<open>C3: the string the osc encoder returns is shorter than the buffer and decodes to the node name and, in the order of the
  list of clients, one entry per client: the name of the server the query of this client returned and the letter of the
  state it returned, \<open>?\<close> for a state without a letter; the names must hold no delimiter.\<close>

theorem osc_encoder_correct:
  assumes "lmt_osc_string_v1 sy (Some host) c len = Some (Some s, c')" "field_ok host"
  shows "\<exists>l c1 rs. proc_lustre_osclist sy c = Some (Some l, c1) \<and> osc_run sy c1 l rs c' \<and> length s < len \<and>
    (list_all (\<lambda>(u, st). field_ok u) rs \<longrightarrow>
      (\<exists>es. lmt_osc_decode_v1 s = Some (host, es) \<and>
        map lmt_osc_decode_v1_oscinfo es = map (\<lambda>(u, st). Some (u, osc_letter st)) rs))"
proof -
  obtain l c1 rs where i: "proc_lustre_osclist sy c = Some (Some l, c1)" "l \<noteq> []" "osc_run sy c1 l rs c'"
    "s = osc_text host (map osc_entry rs)" "length s < len"
    using osc_string_run [OF assms(1)] by auto
  have "lmt_osc_decode_v1 s = Some (host, map osc_string (map osc_entry rs)) \<and>
      map lmt_osc_decode_v1_oscinfo (map osc_string (map osc_entry rs)) = map (\<lambda>(u, st). Some (u, osc_letter st)) rs"
    if "list_all (\<lambda>(u, st). field_ok u) rs"
  proof -
    have ok: "list_all oscinfo_ok (map osc_entry rs)"
      using that by (auto simp: list_all_iff oscinfo_ok_def osc_entry_def osc_state_letter [symmetric])
    have ne: "map osc_entry rs \<noteq> []" using osc_run_nonempty [OF i(3,2)] by simp
    show ?thesis using decode_osc_text [OF assms(2) ok ne] i(4) ok
      by (auto simp: list_all_iff decode_osc_string osc_entry_def)
  qed
  then show ?thesis using i by blast
qed

definition osc_example :: sys where
  "osc_example = table_sys [(''/proc/fs/lustre/osc/o/ost_server_uuid'', ''u_UUID FULL'' @ [newline])]
     [(''/proc/fs/lustre/osc'', [\<lparr>d_name = ''o'', d_type = DT_DIR\<rparr>])]"

lemma osc_example_run: "\<exists>c'. lmt_osc_string_v1 osc_example (Some ''m'') (proc_create ''/'' E0) 64 = Some (Some ''1;m;u;F'', c')"
proof -
  have "map_option fst (lmt_osc_string_v1 osc_example (Some ''m'') (proc_create ''/'' E0) 64) = Some (Some ''1;m;u;F'')"
    by code_simp
  then show ?thesis by auto
qed

theorem osc_encoder_correct_witness:
  "\<exists>l c1 rs c'. proc_lustre_osclist osc_example (proc_create ''/'' E0) = Some (Some l, c1) \<and> osc_run osc_example c1 l rs c' \<and>
    rs = [(''u'', ''FULL'')] \<and> (\<exists>es. lmt_osc_decode_v1 ''1;m;u;F'' = Some (''m'', es) \<and>
      map lmt_osc_decode_v1_oscinfo es = [Some (''u'', ''F'')])"
proof -
  let ?c = "proc_create ''/'' E0"
  obtain c' where c': "lmt_osc_string_v1 osc_example (Some ''m'') ?c 64 = Some (Some ''1;m;u;F'', c')"
    using osc_example_run by blast
  obtain l c1 rs where r: "proc_lustre_osclist osc_example ?c = Some (Some l, c1)" "osc_run osc_example c1 l rs c'"
    "list_all (\<lambda>(u, st). field_ok u) rs \<longrightarrow> (\<exists>es. lmt_osc_decode_v1 ''1;m;u;F'' = Some (''m'', es) \<and>
       map lmt_osc_decode_v1_oscinfo es = map (\<lambda>(u, st). Some (u, osc_letter st)) rs)"
    using osc_encoder_correct [OF c'] by (auto simp: field_ok_def)
  have "Option.bind (proc_lustre_osclist osc_example ?c) (\<lambda>(l, c1). map_option (\<lambda>q. (l, fst q)) (proc_lustre_oscinfo osc_example c1 ''o'')) =
      Some (Some [''o''], Some (''u'', ''FULL''))" by code_simp
  then have l: "l = [''o'']" and q: "map_option fst (proc_lustre_oscinfo osc_example c1 ''o'') = Some (Some (''u'', ''FULL''))"
    using r(1) by auto
  have rs: "rs = [(''u'', ''FULL'')]" using r(2) q by (auto simp: l)
  have "osc_letter ''FULL'' = ''F''" "field_ok ''u''" by (simp_all add: osc_letter_def osc_letters_def field_ok_def)
  then show ?thesis using r rs by auto
qed

text \<open>The router string decodes to the node name, the percentages to six decimals and the exact number of
  bytes.\<close>

theorem router_roundtrip:
  assumes "field_ok host"
  shows "lmt_router_decode_v1 (router_text host cpu mem bytes) = Some (host, reread_f cpu, reread_f mem, bytes)"
  by (rule decode_router_text [OF assms])

theorem router_roundtrip_witness:
  "lmt_router_decode_v1 (router_text ''r1'' (FFin 1) FNaN (- 1)) = Some (''r1'', reread_f (FFin 1), FNaN, - 1)"
  using router_roundtrip [of "''r1''" "FFin 1" FNaN "- 1"] by (simp add: field_ok_def)

end
