(* ===== verification/Lmt_Mdt.thy ===== *)
theory Lmt_Mdt
  imports Lmt_Ost
begin

text \<open>
  \<open>liblmt/mdt.c\<close>: the metric string of a metadata server and its decoders. A metadata target is six
  fields and three counters for each operation of \<open>optab_mdt_v3\<close>; the decoder appends the name of the
  operation to each triple.
\<close>

section \<open>Operation tables\<close>

definition optab_mdt_v1 :: "string list" where
  "optab_mdt_v1 =
    [''open'', ''close'', ''mknod'', ''link'', ''unlink'', ''mkdir'', ''rmdir'', ''rename'',
     ''getxattr'', ''process_config'', ''connect'', ''reconnect'', ''disconnect'', ''statfs'',
     ''create'', ''destroy'', ''setattr'', ''getattr'', ''llog_init'', ''notify'', ''quotactl'']"

definition optab_mdt_v3 :: "string list" where
  "optab_mdt_v3 =
    [''open'', ''close'', ''mknod'', ''link'', ''unlink'', ''mkdir'', ''rmdir'', ''rename'',
     ''getxattr'', ''process_config'', ''connect'', ''reconnect'', ''disconnect'', ''statfs'',
     ''create'', ''destroy'', ''setattr'', ''getattr'', ''llog_init'', ''notify'', ''quotactl'',
     ''read_bytes'', ''write_bytes'']"

definition optab_mds_v2 :: "string list" where
  "optab_mds_v2 =
    [''open'', ''close'', ''mknod'', ''link'', ''unlink'', ''mkdir'', ''rmdir'', ''rename'',
     ''getxattr'', ''setxattr'', ''iocontrol'', ''get_info'', ''set_info_async'', ''attach'',
     ''detach'', ''setup'', ''precleanup'', ''cleanup'', ''process_config'', ''postrecov'',
     ''add_conn'', ''del_conn'', ''connect'', ''reconnect'', ''disconnect'', ''statfs'',
     ''statfs_async'', ''packmd'', ''unpackmd'', ''checkmd'', ''preallocate'', ''precreate'',
     ''create'', ''destroy'', ''setattr'', ''setattr_async'', ''getattr'', ''getattr_async'',
     ''brw'', ''brw_async'', ''prep_async_page'', ''reget_short_lock'', ''release_short_lock'',
     ''queue_async_io'', ''queue_group_io'', ''trigger_group_io'', ''set_async_flags'',
     ''teardown_async_page'', ''merge_lvb'', ''adjust_kms'', ''punch'', ''sync'', ''migrate'',
     ''copy'', ''iterate'', ''preprw'', ''commitrw'', ''enqueue'', ''match'', ''change_cbdata'',
     ''cancel'', ''cancel_unused'', ''join_lru'', ''init_export'', ''destroy_export'',
     ''extent_calc'', ''llog_init'', ''llog_finish'', ''pin'', ''unpin'', ''import_event'',
     ''notify'', ''health_check'', ''quotacheck'', ''quotactl'', ''quota_adjust_quint'',
     ''ping'', ''register_page_removal_cb'', ''unregister_page_removal_cb'',
     ''register_lock_cancel_cb'', ''unregister_lock_cancel_cb'']"

definition get_all_opnames :: "string list" where
  "get_all_opnames = optab_mdt_v1 @ optab_mdt_v3"

section \<open>Encoder\<close>

text \<open>count, sum and sum of squares; zeroes when the key is missing or does not parse.\<close>

type_synonym mdop = "u64 \<times> u64 \<times> u64"

definition mdop_of :: "stats \<Rightarrow> string \<Rightarrow> mdop" where
  "mdop_of h key =
     (let v = fst (snd (proc_lustre_parsestat h key)) in (st_count v, st_sum v, st_sumsq v))"

definition mdop_fields :: "mdop \<Rightarrow> string list" where
  "mdop_fields = (\<lambda>(n, s, q). [print_u64 n, print_u64 s, print_u64 q])"

definition get_mdtop :: "stats \<Rightarrow> string \<Rightarrow> nat \<Rightarrow> string option" where
  "get_mdtop h key len =
     (case snprintf len (fields_string CHR '';'' (mdop_fields (mdop_of h key))) of (n, s) \<Rightarrow>
        if n \<ge> int len then None else Some s)"

fun mdtops_loop :: "stats \<Rightarrow> string list \<Rightarrow> string \<Rightarrow> nat \<Rightarrow> string option" where
  "mdtops_loop h [] s len = Some s"
| "mdtops_loop h (key # ks) s len =
     (case get_mdtop h key (len - length s) of None \<Rightarrow> None | Some t \<Rightarrow> mdtops_loop h ks (s @ t) len)"

record mdtinfo =
  mi_name :: string
  mi_inodes_free :: u64
  mi_inodes_total :: u64
  mi_kbytes_free :: u64
  mi_kbytes_total :: u64
  mi_recov_status :: string
  mi_ops :: "mdop list"

definition mdt_head :: "mdtinfo \<Rightarrow> string list" where
  "mdt_head i =
     [mi_name i, print_u64 (mi_inodes_free i), print_u64 (mi_inodes_total i),
      print_u64 (mi_kbytes_free i), print_u64 (mi_kbytes_total i), mi_recov_status i]"

definition mdt_fields :: "mdtinfo \<Rightarrow> string list" where
  "mdt_fields i = mdt_head i @ concat (map mdop_fields (mi_ops i))"

definition get_mdtstring :: "sys \<Rightarrow> pctx \<Rightarrow> string \<Rightarrow> nat \<Rightarrow> (string option \<times> pctx) option" where
  "get_mdtstring sy c name len = do {
     (uuid, c1) \<leftarrow> proc_lustre_uuid sy c name;
     case uuid of None \<Rightarrow> Some (None, c1) | Some u \<Rightarrow> do {
     (files, c2) \<leftarrow> proc_lustre_files sy c1 name;
     case files of None \<Rightarrow> Some (None, c2) | Some (filesfree, filestotal) \<Rightarrow> do {
     (kbytes, c3) \<leftarrow> proc_lustre_kbytes sy c2 name;
     case kbytes of None \<Rightarrow> Some (None, c3) | Some (kbytesfree, kbytestotal) \<Rightarrow> do {
     (st, c4) \<leftarrow> proc_lustre_hashstats sy c3 name;
     case st of None \<Rightarrow> Some (None, c4) | Some h \<Rightarrow> do {
     (rs, c5) \<leftarrow> get_recovstr sy c4 name recovery_str_size;
     case rs of None \<Rightarrow> Some (None, c5) | Some recov_str \<Rightarrow>
       (let i = \<lparr>mi_name = u, mi_inodes_free = filesfree, mi_inodes_total = filestotal,
                 mi_kbytes_free = kbytesfree, mi_kbytes_total = kbytestotal,
                 mi_recov_status = recov_str, mi_ops = []\<rparr>
        in case snprintf len (fields_string CHR '';'' (mdt_head i)) of (n, s) \<Rightarrow>
             Some (if n \<ge> int len then None else mdtops_loop h optab_mdt_v3 s len, c5))
     }}}}}"

fun mdt_string_loop :: "sys \<Rightarrow> pctx \<Rightarrow> string list \<Rightarrow> string \<Rightarrow> nat \<Rightarrow> (string option \<times> pctx) option" where
  "mdt_string_loop sy c [] s len = Some (Some s, c)"
| "mdt_string_loop sy c (name # l) s len = do {
     (r, c1) \<leftarrow> get_mdtstring sy c name (len - length s);
     case r of None \<Rightarrow> Some (None, c1) | Some t \<Rightarrow> mdt_string_loop sy c1 l (s @ t) len
   }"

definition mds_header :: "string \<Rightarrow> fp \<Rightarrow> fp \<Rightarrow> string" where
  "mds_header nodename cpupct mempct =
     ''3;'' @ nodename @ '';'' @ print_f cpupct @ '';'' @ print_f mempct @ '';''"

definition lmt_mdt_string_v3 :: "sys \<Rightarrow> string option \<Rightarrow> pctx \<Rightarrow> u64 \<times> u64 \<Rightarrow> nat \<Rightarrow>
    ((string option \<times> (u64 \<times> u64)) \<times> pctx) option" where
  "lmt_mdt_string_v3 sy uts c cpu len = do {
     (mdtlist, c1) \<leftarrow> proc_lustre_mdtlist sy c;
     case mdtlist of
       None \<Rightarrow> Some ((None, cpu), c1)
     | Some l \<Rightarrow>
         if length l = 0 then Some ((None, cpu), c1\<lparr>perrno := E0\<rparr>)
         else case uts of
           None \<Rightarrow> Some ((None, cpu), c1)
         | Some nodename \<Rightarrow> do {
             (st, c2) \<leftarrow> proc_stat2 sy c1 (fst cpu) (snd cpu);
             case st of
               None \<Rightarrow> Some ((None, cpu), c2)
             | Some (cpuused, cputot, cpupct) \<Rightarrow> do {
                 (m, c3) \<leftarrow> get_mem_usage sy c2;
                 case m of
                   None \<Rightarrow> Some ((None, (cpuused, cputot)), c3)
                 | Some mempct \<Rightarrow>
                     (case snprintf len (mds_header nodename cpupct mempct) of (n, s) \<Rightarrow>
                        if n \<ge> int len then Some ((None, (cpuused, cputot)), c3)
                        else do {
                          (r, c4) \<leftarrow> mdt_string_loop sy c3 l s len;
                          Some ((map_option chomp r, (cpuused, cputot)), c4)
                        })
               }
           }
   }"

section \<open>Decoders\<close>

text \<open>The mds name, the percentages and what follows them.\<close>

definition parse_and_skip_mds_info_v1 :: "string \<Rightarrow> (string \<times> fp \<times> fp \<times> string) option" where
  "parse_and_skip_mds_info_v1 src =
     (case sscanf [DSkipFloat, semi, not_semi, semi, DFloat, semi, DFloat, semi] src of (n, vs) \<Rightarrow>
        if n \<noteq> 3 then None
        else map_option (\<lambda>s. (sval_str (vs ! 0), sval_fp (vs ! 1), sval_fp (vs ! 2), s))
               (strskip src 4 CHR '';''))"

definition mdtfields :: "nat \<Rightarrow> nat" where
  "mdtfields version =
     (if version = 1 then 5 + 3 * length optab_mdt_v1
      else if version = 2 then 6 + 3 * length optab_mdt_v1 else 6 + 3 * length optab_mdt_v3)"

text \<open>The outer option is the assertion on the version.\<close>

definition lmt_mdt_decode_v1_v2_v3 :: "string \<Rightarrow> nat \<Rightarrow> (string \<times> fp \<times> fp \<times> string list) option option" where
  "lmt_mdt_decode_v1_v2_v3 s version =
     (if \<not> (version = 1 \<or> version = 2 \<or> version = 3) then None
      else Some (case parse_and_skip_mds_info_v1 s of
          None \<Rightarrow> None
        | Some (mdsname, pct_cpu, pct_mem, s1) \<Rightarrow>
            (case strskipcpy_loop s1 (mdtfields version) CHR '';'' of (mdtinfo, s2) \<Rightarrow>
               if length s2 > 0 then None else Some (mdsname, pct_cpu, pct_mem, mdtinfo))))"

text \<open>Cut triples and append the operation names; \<open>None\<close> when there are more triples than operations.\<close>

fun mdops_loop :: "string \<Rightarrow> string list \<Rightarrow> (string list \<times> string) option" where
  "mdops_loop s [] =
     (case strskipcpy s 3 CHR '';'' of (None, s') \<Rightarrow> Some ([], s') | (Some _, _) \<Rightarrow> None)"
| "mdops_loop s (op # ops) =
     (case strskipcpy s 3 CHR '';'' of
        (None, s') \<Rightarrow> Some ([], s')
      | (Some cpy, s') \<Rightarrow>
          map_option (\<lambda>(l, r). (strappendfield cpy op CHR '';'' # l, r)) (mdops_loop s' ops))"

text \<open>The name, the four counters, the recovery status (none in version 1) and the operations.\<close>

type_synonym mdt_decoded = "string \<times> u64 list \<times> string option \<times> string list"

definition lmt_mdt_decode_mdtinfo_helper :: "string \<Rightarrow> nat \<Rightarrow> bool \<Rightarrow> mdt_decoded option option" where
  "lmt_mdt_decode_mdtinfo_helper s version recovp =
     (if \<not> (version = 1 \<or> version = 2 \<or> version = 3) \<or> recovp = (version = 1) then None
      else Some (case sscanf ([not_semi, semi] @ concat (replicate 4 [DU64, semi])) s of (n, vs) \<Rightarrow>
        if n \<noteq> 5 then None
        else case strskip s 5 CHR '';'' of
          None \<Rightarrow> None
        | Some s1 \<Rightarrow>
            (case (if version = 1 then Some (None, s1)
                   else case sscanf [not_semi] s1 of (m, ws) \<Rightarrow>
                     if m \<noteq> 1 then None
                     else map_option (\<lambda>s2. (Some (sval_str (ws ! 0)), s2)) (strskip s1 1 CHR '';'')) of
               None \<Rightarrow> None
             | Some (recov, s2) \<Rightarrow>
                 (case mdops_loop s2 (if version = 3 then optab_mdt_v3 else optab_mdt_v1) of
                    None \<Rightarrow> None
                  | Some (mdops, s3) \<Rightarrow>
                      if length s3 > 0 then None
                      else Some (sval_str (vs ! 0), map sval_u64 (tl vs), recov, mdops)))))"

definition lmt_mdt_decode_v1_mdtinfo :: "string \<Rightarrow> mdt_decoded option option" where
  "lmt_mdt_decode_v1_mdtinfo s = lmt_mdt_decode_mdtinfo_helper s 1 False"

definition lmt_mdt_decode_v2_mdtinfo :: "string \<Rightarrow> mdt_decoded option option" where
  "lmt_mdt_decode_v2_mdtinfo s = lmt_mdt_decode_mdtinfo_helper s 2 True"

definition lmt_mdt_decode_v3_mdtinfo :: "string \<Rightarrow> mdt_decoded option option" where
  "lmt_mdt_decode_v3_mdtinfo s = lmt_mdt_decode_mdtinfo_helper s 3 True"

text \<open>The name of the operation and its counters.\<close>

definition lmt_mdt_decode_v1_mdops :: "string \<Rightarrow> (string \<times> mdop) option" where
  "lmt_mdt_decode_v1_mdops s =
     (case sscanf [DU64, semi, DU64, semi, DU64, semi, not_semi] s of (n, vs) \<Rightarrow>
        if n \<noteq> 4 then None
        else Some (sval_str (vs ! 3), sval_u64 (vs ! 0), sval_u64 (vs ! 1), sval_u64 (vs ! 2)))"

text \<open>The mds and mdt names, the percentages, free and total inodes and kilobytes, the operations.\<close>

definition lmt_mds_decode_v2 :: "string \<Rightarrow> (string \<times> string \<times> fp \<times> fp \<times> u64 list \<times> string list) option" where
  "lmt_mds_decode_v2 s =
     (case sscanf ([DSkipFloat, semi, not_semi, semi, not_semi, semi, DFloat, semi, DFloat, semi] @
                   concat (replicate 4 [DU64, semi])) s of (n, vs) \<Rightarrow>
        if n \<noteq> 8 then None
        else case strskip s 9 CHR '';'' of
          None \<Rightarrow> None
        | Some s1 \<Rightarrow>
            (case mdops_loop s1 optab_mds_v2 of
               None \<Rightarrow> None
             | Some (mdops, s2) \<Rightarrow>
                 if length s2 > 0 then None
                 else Some (sval_str (vs ! 0), sval_str (vs ! 1), sval_fp (vs ! 2), sval_fp (vs ! 3),
                            map sval_u64 (drop 4 vs), mdops)))"

definition lmt_mds_decode_v2_mdops :: "string \<Rightarrow> (string \<times> mdop) option" where
  "lmt_mds_decode_v2_mdops s = lmt_mdt_decode_v1_mdops s"

section \<open>Round trips\<close>

lemma optab_lengths [simp]: "length optab_mdt_v1 = 21" "length optab_mdt_v3 = 23" "length optab_mds_v2 = 81"
  by (simp_all add: optab_mdt_v1_def optab_mdt_v3_def optab_mds_v2_def)

lemma optab_fields_ok: "list_all field_ok optab_mdt_v3"
  by (simp add: optab_mdt_v3_def field_ok_def)

definition mdtinfo_ok :: "mdtinfo \<Rightarrow> bool" where
  "mdtinfo_ok i \<longleftrightarrow> field_ok (mi_name i) \<and> field_ok (mi_recov_status i) \<and> length (mi_ops i) = 23"

lemma length_mdop_fields [simp]: "length (mdop_fields m) = 3"
  by (simp add: mdop_fields_def split: prod.splits)

lemma mdop_fields_ok: "f \<in> set (mdop_fields m) \<Longrightarrow> field_ok f"
  by (auto simp: mdop_fields_def split: prod.splits)

lemma length_concat_mdops: "length (concat (map mdop_fields ms)) = 3 * length ms"
  by (induction ms) auto

lemma mdt_fields_ok: "mdtinfo_ok i \<Longrightarrow> f \<in> set (mdt_fields i) \<Longrightarrow> field_ok f"
  by (auto simp: mdt_fields_def mdt_head_def mdtinfo_ok_def dest: mdop_fields_ok)

interpretation mdop: record_stream mdop_fields 3 "CHR '';''" "\<lambda>_. True"
  by unfold_locales (auto simp: field_ok_def dest: mdop_fields_ok)

interpretation mdt: record_stream mdt_fields 75 "CHR '';''" mdtinfo_ok
proof (unfold_locales, goal_cases)
  case (2 i)
  then show ?case by (simp add: mdt_fields_def mdt_head_def mdtinfo_ok_def length_concat_mdops)
next
  case (3 i f)
  then show ?case using mdt_fields_ok by (auto simp: field_ok_def)
qed simp

definition mdt_string :: "mdtinfo \<Rightarrow> string" where
  "mdt_string i = butlast (fields_string CHR '';'' (mdt_fields i))"

definition mdop_string :: "mdop \<Rightarrow> string \<Rightarrow> string" where
  "mdop_string m op = strappendfield (butlast (fields_string CHR '';'' (mdop_fields m))) op CHR '';''"

lemma decode_mdop_string:
  assumes "field_ok op"
  shows "lmt_mdt_decode_v1_mdops (mdop_string m op) = Some (op, m)"
proof -
  obtain a b c where m: "m = (a, b, c)" by (metis prod_cases3)
  have eq: "mdop_string m op = print_u64 a @ CHR '';'' # print_u64 b @ CHR '';'' # print_u64 c @ CHR '';'' # op"
    by (simp add: mdop_string_def mdop_fields_def m butlast_append strappendfield_def)
  have "scan_dirs [DU64, semi, DU64, semi, DU64, semi, not_semi] (mdop_string m op) = ([VU a, VU b, VU c, VS op], [], False)"
    using assms unfolding eq fmt_dirs by (simp add: scan_simps field_ok_def del: scan_step.simps scan_dirs.simps(2))
  then show ?thesis by (simp add: lmt_mdt_decode_v1_mdops_def sscanf_def scanf_result_def sval_str_def sval_u64_def m)
qed

text \<open>The triples of a chomped stream are paired with the operations in order.\<close>

lemma mdops_loop_stream:
  "length ops = length ms \<Longrightarrow> ms \<noteq> [] \<Longrightarrow>
   mdops_loop (butlast (concat (map (\<lambda>m. fields_string CHR '';'' (mdop_fields m)) ms))) ops =
     Some (map2 mdop_string ms ops, [])"
proof (induction ops ms rule: list_induct2)
  case (Cons op ops m ms)
  show ?case
  proof (cases "ms = []")
    case True
    have "last (mdop_fields m) \<noteq> []" by (simp add: mdop_fields_def split: prod.splits)
    then show ?thesis using True Cons(1) mdop.skipcpy_chomped [of m] by (simp add: mdop_string_def)
  next
    case False
    let ?tl = "concat (map (\<lambda>m. fields_string CHR '';'' (mdop_fields m)) ms)"
    have "?tl \<noteq> []" using False by (cases ms) (auto simp: mdop_fields_def split: prod.splits)
    then have "butlast (fields_string CHR '';'' (mdop_fields m) @ ?tl) = fields_string CHR '';'' (mdop_fields m) @ butlast ?tl"
      unfolding butlast_append by (simp only: if_False)
    then show ?thesis using Cons(2) [OF False] mdop.skipcpy_record [of m] by (simp add: mdop_string_def)
  qed
qed simp

lemma fields_string_concat: "fields_string sep (concat (map g ms)) = concat (map (\<lambda>m. fields_string sep (g m)) ms)"
  by (induction ms) auto

lemma mdt_string_eq:
  assumes "mdtinfo_ok i"
  shows "mdt_string i = fields_string CHR '';'' (mdt_head i) @
    butlast (concat (map (\<lambda>m. fields_string CHR '';'' (mdop_fields m)) (mi_ops i)))"
proof -
  have "mi_ops i \<noteq> []" using assms by (auto simp: mdtinfo_ok_def)
  then have "concat (map (\<lambda>m. fields_string CHR '';'' (mdop_fields m)) (mi_ops i)) \<noteq> []"
    by (cases "mi_ops i") (auto simp: mdop_fields_def split: prod.splits)
  then show ?thesis unfolding mdt_string_def mdt_fields_def fields_string_append fields_string_concat butlast_append
    by (simp only: if_False)
qed

lemma decode_mdt_string:
  assumes "mdtinfo_ok i"
  shows "lmt_mdt_decode_v3_mdtinfo (mdt_string i) =
    Some (Some (mi_name i, [mi_inodes_free i, mi_inodes_total i, mi_kbytes_free i, mi_kbytes_total i],
      Some (mi_recov_status i), map2 mdop_string (mi_ops i) optab_mdt_v3))"
proof -
  have ok: "mi_name i \<noteq> []" "CHR '';'' \<notin> set (mi_name i)" "mi_recov_status i \<noteq> []" "CHR '';'' \<notin> set (mi_recov_status i)"
    using assms by (simp_all add: mdtinfo_ok_def field_ok_def)
  let ?ops = "butlast (concat (map (\<lambda>m. fields_string CHR '';'' (mdop_fields m)) (mi_ops i)))"
  let ?r = "mi_recov_status i @ CHR '';'' # ?ops"
  let ?five = "[mi_name i, print_u64 (mi_inodes_free i), print_u64 (mi_inodes_total i),
    print_u64 (mi_kbytes_free i), print_u64 (mi_kbytes_total i)]"
  let ?vs = "[VS (mi_name i), VU (mi_inodes_free i), VU (mi_inodes_total i), VU (mi_kbytes_free i), VU (mi_kbytes_total i)]"
  have eq: "mdt_string i = fields_string CHR '';'' ?five @ ?r"
    unfolding mdt_string_eq [OF assms] by (simp add: mdt_head_def)
  have "scan_dirs ([not_semi, semi] @ concat (replicate 4 [DU64, semi])) (mdt_string i) = (?vs, ?r, False)"
    unfolding eq fmt_dirs by (simp add: scan_simps ok numeral_eq_Suc del: scan_step.simps scan_dirs.simps(2))
  then have sc: "sscanf ([not_semi, semi] @ concat (replicate 4 [DU64, semi])) (mdt_string i) = (5, ?vs)"
    by (simp add: sscanf_def scanf_result_def)
  have sk: "strskip (mdt_string i) 5 CHR '';'' = Some ?r"
    using strskip_fields [of ?five "CHR '';''" ?r] ok unfolding eq by (simp add: numeral_eq_Suc)
  have "scan_dirs [not_semi] ?r = ([VS (mi_recov_status i)], CHR '';'' # ?ops, False)"
    unfolding fmt_dirs by (simp add: scan_simps ok del: scan_step.simps scan_dirs.simps(2))
  then have sr: "sscanf [not_semi] ?r = (1, [VS (mi_recov_status i)])" by (simp add: sscanf_def scanf_result_def)
  have sk1: "strskip ?r 1 CHR '';'' = Some ?ops"
    using strskip_fields [of "[mi_recov_status i]" "CHR '';''" ?ops] ok by simp
  have "mi_ops i \<noteq> []" "length optab_mdt_v3 = length (mi_ops i)" using assms by (auto simp: mdtinfo_ok_def)
  then have lp: "mdops_loop ?ops optab_mdt_v3 = Some (map2 mdop_string (mi_ops i) optab_mdt_v3, [])"
    by (intro mdops_loop_stream)
  show ?thesis
    unfolding lmt_mdt_decode_v3_mdtinfo_def lmt_mdt_decode_mdtinfo_helper_def sc prod.case sk option.case sr sk1
    by (simp add: lp sval_str_def sval_u64_def)
qed

text \<open>The whole string, with its last delimiter dropped.\<close>

definition mdt_text :: "string \<Rightarrow> fp \<Rightarrow> fp \<Rightarrow> mdtinfo list \<Rightarrow> string" where
  "mdt_text host cpu mem is =
     chomp (mds_header host cpu mem @ concat (map (\<lambda>i. fields_string CHR '';'' (mdt_fields i)) is))"

lemma mdt_stream_last:
  "is \<noteq> [] \<Longrightarrow> concat (map (\<lambda>i. fields_string CHR '';'' (mdt_fields i)) is) \<noteq> [] \<and>
    last (concat (map (\<lambda>i. fields_string CHR '';'' (mdt_fields i)) is)) = CHR '';''"
proof (induction "is" rule: rev_induct)
  case (snoc i "is")
  have "mdt_fields i \<noteq> []" by (simp add: mdt_fields_def mdt_head_def)
  then show ?case using fields_string_last [of "mdt_fields i" "CHR '';''"] by simp
qed simp

lemma mdt_text_eq:
  assumes "is \<noteq> []"
  shows "mdt_text host cpu mem is =
    mds_header host cpu mem @ butlast (concat (map (\<lambda>i. fields_string CHR '';'' (mdt_fields i)) is))"
  using mdt_stream_last [OF assms] by (auto simp: mdt_text_def chomp_def butlast_append)

lemma mds_header_fields: "mds_header h c m = fields_string CHR '';'' [''3'', h, print_f c, print_f m]"
  by (simp add: mds_header_def)

lemma parse_mds_header:
  assumes "field_ok host"
  shows "parse_and_skip_mds_info_v1 (mds_header host cpu mem @ r) = Some (host, reread_f cpu, reread_f mem, r)"
proof -
  have "scan_dirs [DSkipFloat, semi, not_semi, semi, DFloat, semi, DFloat, semi] (mds_header host cpu mem @ r) =
    ([VS host, VF (reread_f cpu), VF (reread_f mem)], r, False)"
    using assms unfolding mds_header_def fmt_dirs
    by (simp add: scan_simps field_ok_def del: scan_step.simps scan_dirs.simps(2))
  then have sc: "sscanf [DSkipFloat, semi, not_semi, semi, DFloat, semi, DFloat, semi] (mds_header host cpu mem @ r) =
    (3, [VS host, VF (reread_f cpu), VF (reread_f mem)])" by (simp add: sscanf_def scanf_result_def)
  have "strskip (mds_header host cpu mem @ r) 4 CHR '';'' = Some r"
    using strskip_fields [of "[''3'', host, print_f cpu, print_f mem]" "CHR '';''" r] assms
    by (simp add: mds_header_fields field_ok_def numeral_eq_Suc)
  then show ?thesis unfolding parse_and_skip_mds_info_v1_def sc prod.case by (simp add: sval_str_def sval_fp_def)
qed

lemma decode_mdt_text:
  assumes "field_ok host" "list_all mdtinfo_ok is" "is \<noteq> []"
  shows "lmt_mdt_decode_v1_v2_v3 (mdt_text host cpu mem is) 3 =
    Some (Some (host, reread_f cpu, reread_f mem, map mdt_string is))"
proof -
  let ?r = "butlast (concat (map (\<lambda>i. fields_string CHR '';'' (mdt_fields i)) is))"
  have "last is \<in> set is" using assms(3) by simp
  then have ok: "mdtinfo_ok (last is)" using assms(2) by (simp add: list_all_iff)
  have "mdt_fields (last is) \<noteq> []" by (rule mdt.fields_ne [OF ok])
  then have "field_ok (last (mdt_fields (last is)))" by (intro mdt_fields_ok [OF ok]) simp
  then have "last (mdt_fields (last is)) \<noteq> []" by (simp add: field_ok_def)
  then have "strskipcpy_loop ?r 75 CHR '';'' = (map mdt_string is, [])"
    using mdt.loop_records_chomped [of "is"] assms(2,3) by (simp add: list_all_iff mdt_string_def)
  then show ?thesis
    unfolding lmt_mdt_decode_v1_v2_v3_def mdt_text_eq [OF assms(3)] parse_mds_header [OF assms(1)]
    by (simp add: mdtfields_def)
qed

section \<open>What the encoder produces\<close>

lemma mdtops_loop_shape:
  "mdtops_loop h ks s len = Some t \<Longrightarrow> length s < len \<Longrightarrow>
   t = s @ fields_string CHR '';'' (concat (map (\<lambda>k. mdop_fields (mdop_of h k)) ks)) \<and> length t < len"
proof (induction ks arbitrary: s)
  case (Cons k ks)
  let ?f = "fields_string CHR '';'' (mdop_fields (mdop_of h k))"
  have g: "length ?f < len - length s" "get_mdtop h k (len - length s) = Some ?f"
    using Cons(2) by (auto simp: get_mdtop_def snprintf_def split: if_splits)
  then have "mdtops_loop h ks (s @ ?f) len = Some t" using Cons(2) by simp
  moreover have "length (s @ ?f) < len" using g(1) Cons(3) by simp
  ultimately show ?case using Cons(1) [of "s @ ?f"] by (auto simp del: length_append)
qed simp

text \<open>What the queries of one target return, in the order of the code.\<close>

definition get_mdtinfo :: "sys \<Rightarrow> pctx \<Rightarrow> string \<Rightarrow> (mdtinfo \<times> pctx) option" where
  "get_mdtinfo sy c name =
     (case proc_lustre_uuid sy c name of Some (Some u, c1) \<Rightarrow>
     (case proc_lustre_files sy c1 name of Some (Some (filesfree, filestotal), c2) \<Rightarrow>
     (case proc_lustre_kbytes sy c2 name of Some (Some (kbytesfree, kbytestotal), c3) \<Rightarrow>
     (case proc_lustre_hashstats sy c3 name of Some (Some h, c4) \<Rightarrow>
     (case get_recovstr sy c4 name recovery_str_size of Some (Some recov_str, c5) \<Rightarrow>
       Some (\<lparr>mi_name = u, mi_inodes_free = filesfree, mi_inodes_total = filestotal,
              mi_kbytes_free = kbytesfree, mi_kbytes_total = kbytestotal,
              mi_recov_status = recov_str, mi_ops = map (mdop_of h) optab_mdt_v3\<rparr>, c5)
     | _ \<Rightarrow> None) | _ \<Rightarrow> None) | _ \<Rightarrow> None) | _ \<Rightarrow> None) | _ \<Rightarrow> None)"

fun get_mdtinfos :: "sys \<Rightarrow> pctx \<Rightarrow> string list \<Rightarrow> (mdtinfo list \<times> pctx) option" where
  "get_mdtinfos sy c [] = Some ([], c)"
| "get_mdtinfos sy c (name # l) = (case get_mdtinfo sy c name of
     Some (i, c1) \<Rightarrow> map_option (\<lambda>(is, c2). (i # is, c2)) (get_mdtinfos sy c1 l) | None \<Rightarrow> None)"

lemma get_mdtstring_info:
  assumes "get_mdtstring sy c name len = Some (Some t, c')"
  shows "\<exists>i. get_mdtinfo sy c name = Some (i, c') \<and> t = fields_string CHR '';'' (mdt_fields i) \<and> length t < len \<and>
    length (mi_ops i) = 23"
proof -
  obtain uu c1 where u: "proc_lustre_uuid sy c name = Some (uu, c1)"
    using assms by (auto simp: get_mdtstring_def Option.bind_eq_Some_conv)
  obtain u' where u': "uu = Some u'" using assms u by (cases uu) (auto simp: get_mdtstring_def)
  obtain ff c2 where f: "proc_lustre_files sy c1 name = Some (ff, c2)"
    using assms u u' by (auto simp: get_mdtstring_def Option.bind_eq_Some_conv)
  obtain fa fb where f': "ff = Some (fa, fb)" using assms u u' f by (cases ff) (auto simp: get_mdtstring_def)
  obtain kk c3 where k: "proc_lustre_kbytes sy c2 name = Some (kk, c3)"
    using assms u u' f f' by (auto simp: get_mdtstring_def Option.bind_eq_Some_conv)
  obtain ka kb where k': "kk = Some (ka, kb)" using assms u u' f f' k by (cases kk) (auto simp: get_mdtstring_def)
  obtain ss c4 where s: "proc_lustre_hashstats sy c3 name = Some (ss, c4)"
    using assms u u' f f' k k' by (auto simp: get_mdtstring_def Option.bind_eq_Some_conv)
  obtain h where s': "ss = Some h" using assms u u' f f' k k' s by (cases ss) (auto simp: get_mdtstring_def)
  obtain rr c5 where r: "get_recovstr sy c4 name recovery_str_size = Some (rr, c5)"
    using assms u u' f f' k k' s s' by (auto simp: get_mdtstring_def Option.bind_eq_Some_conv)
  obtain rs where r': "rr = Some rs" using assms u u' f f' k k' s s' r by (cases rr) (auto simp: get_mdtstring_def)
  define i where "i = \<lparr>mi_name = u', mi_inodes_free = fa, mi_inodes_total = fb, mi_kbytes_free = ka,
    mi_kbytes_total = kb, mi_recov_status = rs, mi_ops = map (mdop_of h) optab_mdt_v3\<rparr>"
  let ?hd = "fields_string CHR '';'' (mdt_head i)"
  have "length ?hd < len \<and> mdtops_loop h optab_mdt_v3 ?hd len = Some t \<and> c' = c5"
    using assms u u' f f' k k' s s' r r'
    by (cases "length ?hd < len") (auto simp: get_mdtstring_def snprintf_def Let_def i_def mdt_head_def split: if_splits)
  then have t: "t = ?hd @ fields_string CHR '';'' (concat (map (\<lambda>k. mdop_fields (mdop_of h k)) optab_mdt_v3))"
    "length t < len" and c5: "c' = c5" using mdtops_loop_shape by blast+
  have ops: "mi_ops i = map (mdop_of h) optab_mdt_v3" by (simp add: i_def)
  have "t = fields_string CHR '';'' (mdt_fields i)"
    unfolding t(1) mdt_fields_def ops fields_string_append by (simp add: comp_def)
  moreover have "get_mdtinfo sy c name = Some (i, c')"
    by (simp add: get_mdtinfo_def u u' f f' k k' s s' r r' c5 i_def)
  ultimately show ?thesis using t(2) ops by auto
qed

lemma mdt_string_loop_infos:
  "mdt_string_loop sy c l s len = Some (Some t, c') \<Longrightarrow> length s < len \<Longrightarrow>
   \<exists>is. get_mdtinfos sy c l = Some (is, c') \<and> length is = length l \<and>
     t = s @ concat (map (\<lambda>i. fields_string CHR '';'' (mdt_fields i)) is) \<and>
     length t < len \<and> (\<forall>i \<in> set is. length (mi_ops i) = 23)"
proof (induction l arbitrary: c s)
  case Nil
  then show ?case by auto
next
  case (Cons name l)
  obtain r c1 where g: "get_mdtstring sy c name (len - length s) = Some (r, c1)"
    using Cons(2) by (auto simp: Option.bind_eq_Some_conv)
  then obtain t1 where r: "r = Some t1" using Cons(2) by (cases r) auto
  obtain i where i: "get_mdtinfo sy c name = Some (i, c1)" "t1 = fields_string CHR '';'' (mdt_fields i)"
    "length t1 < len - length s" "length (mi_ops i) = 23"
    using get_mdtstring_info g r by blast
  have "mdt_string_loop sy c1 l (s @ t1) len = Some (Some t, c')" using Cons(2) g r by simp
  moreover have "length (s @ t1) < len" using i(3) Cons(3) by simp
  ultimately obtain "is" where "get_mdtinfos sy c1 l = Some (is, c')" "length is = length l"
    "t = (s @ t1) @ concat (map (\<lambda>i. fields_string CHR '';'' (mdt_fields i)) is)" "length t < len"
    "\<forall>i \<in> set is. length (mi_ops i) = 23"
    using Cons(1) by blast
  then show ?case using i(1,2,4) by (intro exI [of _ "i # is"]) simp
qed

text \<open>The queries of a successful encoder, each in the state its predecessor left, and what they returned.\<close>

definition mdt_run :: "sys \<Rightarrow> pctx \<Rightarrow> u64 \<times> u64 \<Rightarrow> fp \<Rightarrow> fp \<Rightarrow> u64 \<times> u64 \<Rightarrow> mdtinfo list \<Rightarrow> pctx \<Rightarrow> bool" where
  "mdt_run sy c st cpu mem st' is c' \<longleftrightarrow> (\<exists>l c1 c2 c3.
     proc_lustre_mdtlist sy c = Some (Some l, c1) \<and> l \<noteq> [] \<and>
     proc_stat2 sy c1 (fst st) (snd st) = Some (Some (fst st', snd st', cpu), c2) \<and>
     get_mem_usage sy c2 = Some (Some mem, c3) \<and> get_mdtinfos sy c3 l = Some (is, c'))"

lemma mdt_string_run:
  assumes "lmt_mdt_string_v3 sy uts c st len = Some ((Some s, st'), c')"
  shows "\<exists>host cpu mem is. uts = Some host \<and> mdt_run sy c st cpu mem st' is c' \<and> is \<noteq> [] \<and>
    s = mdt_text host cpu mem is \<and> length s < len \<and> (\<forall>i \<in> set is. length (mi_ops i) = 23)"
proof -
  obtain ol c1 where o: "proc_lustre_mdtlist sy c = Some (ol, c1)"
    using assms by (auto simp: lmt_mdt_string_v3_def Option.bind_eq_Some_conv)
  obtain l where l: "ol = Some l" "l \<noteq> []" using assms o by (cases ol) (auto simp: lmt_mdt_string_v3_def split: if_splits)
  obtain host where h: "uts = Some host" using assms o l by (cases uts) (auto simp: lmt_mdt_string_v3_def)
  obtain st2 c2 where st: "proc_stat2 sy c1 (fst st) (snd st) = Some (st2, c2)"
    using assms o l h by (auto simp: lmt_mdt_string_v3_def Option.bind_eq_Some_conv)
  obtain u v cpu where s2: "st2 = Some (u, v, cpu)"
    using assms o l h st by (cases st2) (auto simp: lmt_mdt_string_v3_def)
  obtain m c3 where m: "get_mem_usage sy c2 = Some (m, c3)"
    using assms o l h st s2 by (auto simp: lmt_mdt_string_v3_def Option.bind_eq_Some_conv)
  obtain mem where mm: "m = Some mem" using assms o l h st s2 m by (cases m) (auto simp: lmt_mdt_string_v3_def)
  let ?h = "mds_header host cpu mem"
  have len: "length ?h < len"
    using assms o l h st s2 m mm by (auto simp: lmt_mdt_string_v3_def snprintf_def split: if_splits)
  obtain t where t: "mdt_string_loop sy c3 l ?h len = Some (Some t, c')" "s = chomp t" "st' = (u, v)"
    using assms o l h st s2 m mm len by (auto simp: lmt_mdt_string_v3_def snprintf_fits Option.bind_eq_Some_conv)
  obtain "is" where i: "get_mdtinfos sy c3 l = Some (is, c')" "length is = length l"
    "t = ?h @ concat (map (\<lambda>i. fields_string CHR '';'' (mdt_fields i)) is)"
    "length t < len" "\<forall>i \<in> set is. length (mi_ops i) = 23"
    using mdt_string_loop_infos [OF t(1) len] by blast
  have "length (chomp t) \<le> length t" by (simp add: chomp_def)
  moreover have "chomp t = mdt_text host cpu mem is" by (simp add: mdt_text_def i(3))
  moreover have "mdt_run sy c st cpu mem st' is c'"
    unfolding mdt_run_def using o l st s2 m mm i(1) t(3)
    by (intro exI [of _ l] exI [of _ c1] exI [of _ c2] exI [of _ c3]) simp
  moreover have "is \<noteq> []" using i(2) l(2) by auto
  ultimately show ?thesis using h i(4,5) t(2)
    by (intro exI [of _ host] exI [of _ cpu] exI [of _ mem] exI [of _ "is"]) simp
qed

lemma decode_mdop_strings:
  "list_all field_ok ops \<Longrightarrow> map lmt_mdt_decode_v1_mdops (map2 mdop_string ms ops) = map Some (zip ops ms)"
proof (induction ops arbitrary: ms)
  case (Cons a ops)
  then show ?case by (cases ms) (auto simp: decode_mdop_string)
qed simp

text \<open>A target decodes to its fields and its named operations.\<close>

definition mdt_decodes :: "mdtinfo \<Rightarrow> string \<Rightarrow> bool" where
  "mdt_decodes i s \<longleftrightarrow> (\<exists>ops. lmt_mdt_decode_v3_mdtinfo s =
      Some (Some (mi_name i, [mi_inodes_free i, mi_inodes_total i, mi_kbytes_free i, mi_kbytes_total i],
        Some (mi_recov_status i), ops)) \<and>
    map lmt_mdt_decode_v1_mdops ops = map Some (zip optab_mdt_v3 (mi_ops i)))"

lemma mdt_string_decodes: "mdtinfo_ok i \<Longrightarrow> mdt_decodes i (mdt_string i)"
  using decode_mdt_string decode_mdop_strings [OF optab_fields_ok] by (auto simp: mdt_decodes_def)

lemma mdt_text_decodes:
  assumes "field_ok host" "list_all mdtinfo_ok is" "is \<noteq> []"
  shows "\<exists>l. lmt_mdt_decode_v1_v2_v3 (mdt_text host cpu mem is) 3 = Some (Some (host, reread_f cpu, reread_f mem, l)) \<and>
    list_all2 mdt_decodes is l"
proof -
  have "list_all2 mdt_decodes is (map mdt_string is)"
    using assms(2) mdt_string_decodes by (auto simp: list_all2_conv_all_nth list_all_length)
  then show ?thesis using decode_mdt_text [OF assms] by blast
qed

section \<open>Properties\<close>

text \<open>C5: the metric string of a metadata server decodes to what was printed: the server name, the two
  percentages to six decimals, every target with its counters and its recovery status, and every operation
  of a target with its name and its three counters.\<close>

theorem mdt_roundtrip:
  assumes "field_ok host" "list_all mdtinfo_ok is" "is \<noteq> []"
  shows "\<exists>l. lmt_mdt_decode_v1_v2_v3 (mdt_text host cpu mem is) 3 = Some (Some (host, reread_f cpu, reread_f mem, l)) \<and>
    list_all2 mdt_decodes is l"
  by (rule mdt_text_decodes [OF assms])

definition mdtinfo_example :: mdtinfo where
  "mdtinfo_example = \<lparr>mi_name = ''a-MDT0'', mi_inodes_free = 1, mi_inodes_total = 2, mi_kbytes_free = 3,
     mi_kbytes_total = 4, mi_recov_status = ''COMPLETE'', mi_ops = replicate 23 (5, 6, 7)\<rparr>"

theorem mdt_roundtrip_witness:
  "\<exists>l. lmt_mdt_decode_v1_v2_v3 (mdt_text ''mds1'' (FFin 50) (FFin 75) [mdtinfo_example]) 3 =
      Some (Some (''mds1'', reread_f (FFin 50), reread_f (FFin 75), l)) \<and> length l = 1"
  using mdt_roundtrip [of "''mds1''" "[mdtinfo_example]" "FFin 50" "FFin 75"]
  by (auto simp: field_ok_def mdtinfo_ok_def mdtinfo_example_def dest: list_all2_lengthD)

end
