(* ===== verification/Lmt_Runs.thy ===== *)
theory Lmt_Runs
  imports Lmt_Osc Lmt_Mdt
begin

text \<open>
  The metric encoders end to end: what \<open>lmt_ost_string_v2\<close> and \<open>lmt_mdt_string_v3\<close> read from the file system is
  what the decoders return. Each theorem is applied to a run of the encoder on a concrete file system, evaluated by
  the simplifier.
\<close>

section \<open>Object storage server\<close>

text \<open>C1: a metric string the encoder of an object storage server returns fits the buffer and decodes to what
  the queries of the run returned: the node name, the two percentages to six decimals and every target of the
  list with all its counters, provided the names hold no delimiter. The saved cpu counters are those of the
  run.\<close>

theorem ost_encoder_correct:
  assumes "lmt_ost_string_v2 sy (Some host) c st len = Some ((Some s, st'), c')" "field_ok host"
  shows "\<exists>cpu mem is. ost_run sy c st cpu mem st' is c' \<and> length s < len \<and>
    (list_all ostinfo_ok is \<longrightarrow> (\<exists>l. lmt_ost_decode_v2 s = Some (host, reread_f cpu, reread_f mem, l) \<and>
       map lmt_ost_decode_v2_ostinfo l = map Some is))"
proof -
  obtain cpu mem "is" where r: "ost_run sy c st cpu mem st' is c'" "s = ost_text host cpu mem is" "length s < len"
    using ost_string_run [OF assms(1)] by auto
  have "\<exists>l. lmt_ost_decode_v2 s = Some (host, reread_f cpu, reread_f mem, l) \<and> map lmt_ost_decode_v2_ostinfo l = map Some is"
    if "list_all ostinfo_ok is"
    using decode_ost_text [OF assms(2) that] that r(2) by (auto simp: list_all_iff decode_ost_string)
  then show ?thesis using r by blast
qed

definition text_lines :: "string list \<Rightarrow> string" where
  "text_lines ls = concat (map (\<lambda>l. l @ [newline]) ls)"

definition ost_example :: sys where
  "ost_example = table_sys
     [(''/proc/stat'', text_lines [''cpu  25 0 25 40 10 0 0 0'']),
      (''/proc/meminfo'', text_lines [''MemTotal: 1000 kB'', ''MemFree: 250 kB'']),
      (''/proc/fs/lustre/obdfilter/a-OST0/uuid'', text_lines [''a-OST0_UUID'']),
      (''/proc/fs/lustre/obdfilter/a-OST0/stats'',
         text_lines [''read_bytes 3 samples [bytes] 1 2 77'', ''connect 2 samples [reqs]'']),
      (''/proc/fs/lustre/obdfilter/a-OST0/filesfree'', text_lines [''11'']),
      (''/proc/fs/lustre/obdfilter/a-OST0/filestotal'', text_lines [''12'']),
      (''/proc/fs/lustre/obdfilter/a-OST0/kbytesfree'', text_lines [''13'']),
      (''/proc/fs/lustre/obdfilter/a-OST0/kbytestotal'', text_lines [''14'']),
      (''/proc/fs/lustre/obdfilter/a-OST0/num_exports'', text_lines [''15'']),
      (''/proc/fs/lustre/obdfilter/a-OST0/recovery_status'', text_lines [''status: COMPLETE''])]
     [(''/proc/fs/lustre/obdfilter'', [\<lparr>d_name = ''a-OST0'', d_type = DT_DIR\<rparr>])]"

definition ost_example_string :: string where
  "ost_example_string =
     ''2;oss1;50.000000;75.000000;a-OST0;11;12;13;14;77;0;0;15;0;0;0;2;0;COMPLETE  0s remaining;''"

lemma ost_example_run:
  "\<exists>st' c'. lmt_ost_string_v2 ost_example (Some ''oss1'') (proc_create ''/'' E0) (0, 0) 4096 =
     Some ((Some ost_example_string, st'), c') \<and> proc_destroy c' = Some ()"
proof -
  have "map_option (\<lambda>((s, st), c). (s, proc_destroy c)) (lmt_ost_string_v2 ost_example (Some ''oss1'') (proc_create ''/'' E0) (0, 0) 4096) =
    Some (Some ost_example_string, Some ())" by code_simp
  then show ?thesis by auto
qed

theorem ost_encoder_correct_witness:
  "\<exists>cpu mem st' is c'. ost_run ost_example (proc_create ''/'' E0) (0, 0) cpu mem st' is c' \<and> length ost_example_string < 4096"
proof -
  obtain st' c' where r: "lmt_ost_string_v2 ost_example (Some ''oss1'') (proc_create ''/'' E0) (0, 0) 4096 =
     Some ((Some ost_example_string, st'), c')" using ost_example_run by blast
  have "field_ok ''oss1''" by (simp add: field_ok_def)
  from ost_encoder_correct [OF r this] show ?thesis by blast
qed

section \<open>Metadata server\<close>

text \<open>C2: a metric string the encoder of a metadata server returns fits the buffer and decodes to what the queries
  of the run returned: the node name, the two percentages to six decimals, every target of the list with its
  counters and its recovery status, and each of its 23 operations under its own name, provided the names hold no
  delimiter. The saved cpu counters are those of the run.\<close>

theorem mdt_encoder_correct:
  assumes "lmt_mdt_string_v3 sy (Some host) c st len = Some ((Some s, st'), c')" "field_ok host"
  shows "\<exists>cpu mem is. mdt_run sy c st cpu mem st' is c' \<and> length s < len \<and>
    (list_all (\<lambda>i. field_ok (mi_name i) \<and> field_ok (mi_recov_status i)) is \<longrightarrow>
      (\<exists>l. lmt_mdt_decode_v1_v2_v3 s 3 = Some (Some (host, reread_f cpu, reread_f mem, l)) \<and> list_all2 mdt_decodes is l))"
proof -
  obtain cpu mem "is" where r: "mdt_run sy c st cpu mem st' is c'" "is \<noteq> []" "s = mdt_text host cpu mem is"
    "length s < len" "\<forall>i \<in> set is. length (mi_ops i) = 23"
    using mdt_string_run [OF assms(1)] by auto
  have "\<exists>l. lmt_mdt_decode_v1_v2_v3 s 3 = Some (Some (host, reread_f cpu, reread_f mem, l)) \<and> list_all2 mdt_decodes is l"
    if "list_all (\<lambda>i. field_ok (mi_name i) \<and> field_ok (mi_recov_status i)) is"
  proof -
    have "list_all mdtinfo_ok is" using that r(5) by (auto simp: list_all_iff mdtinfo_ok_def)
    then show ?thesis using mdt_text_decodes [OF assms(2) _ r(2)] r(3) by simp
  qed
  then show ?thesis using r by blast
qed

definition mds_example :: sys where
  "mds_example = table_sys
     [(''/proc/stat'', text_lines [''cpu  25 0 25 40 10 0 0 0'']),
      (''/proc/meminfo'', text_lines [''MemTotal: 1000 kB'', ''MemFree: 250 kB'']),
      (''/proc/fs/lustre/mds/a-MDT0/uuid'', text_lines [''a-MDT0_UUID'']),
      (''/proc/fs/lustre/mds/a-MDT0/stats'', text_lines [''open 3 samples [reqs]'']),
      (''/proc/fs/lustre/mds/a-MDT0/filesfree'', text_lines [''11'']),
      (''/proc/fs/lustre/mds/a-MDT0/filestotal'', text_lines [''12'']),
      (''/proc/fs/lustre/mds/a-MDT0/kbytesfree'', text_lines [''13'']),
      (''/proc/fs/lustre/mds/a-MDT0/kbytestotal'', text_lines [''14'']),
      (''/proc/fs/lustre/mds/a-MDT0/recovery_status'', text_lines [''status: COMPLETE''])]
     [(''/proc/fs/lustre'', []), (''/proc/fs/lustre/mds'', [\<lparr>d_name = ''a-MDT0'', d_type = DT_DIR\<rparr>])]"

definition mds_example_string :: string where
  "mds_example_string =
     ''3;mds1;50.000000;75.000000;a-MDT0;11;12;13;14;COMPLETE  0s remaining;3'' @ concat (replicate 68 '';0'')"

lemma mds_example_run:
  "\<exists>st' c'. lmt_mdt_string_v3 mds_example (Some ''mds1'') (proc_create ''/'' E0) (0, 0) 4096 =
     Some ((Some mds_example_string, st'), c')"
proof -
  have "map_option (\<lambda>((s, st), c). s) (lmt_mdt_string_v3 mds_example (Some ''mds1'') (proc_create ''/'' E0) (0, 0) 4096) =
    Some (Some mds_example_string)" by code_simp
  then show ?thesis by auto
qed

theorem mdt_encoder_correct_witness:
  "\<exists>cpu mem st' is c'. mdt_run mds_example (proc_create ''/'' E0) (0, 0) cpu mem st' is c' \<and> length mds_example_string < 4096"
proof -
  obtain st' c' where r: "lmt_mdt_string_v3 mds_example (Some ''mds1'') (proc_create ''/'' E0) (0, 0) 4096 =
     Some ((Some mds_example_string, st'), c')" using mds_example_run by blast
  have "field_ok ''mds1''" by (simp add: field_ok_def)
  from mdt_encoder_correct [OF r this] show ?thesis by blast
qed

end
