(* ===== verification/Lmt_Sample.thy ===== *)
theory Lmt_Sample
  imports Lmt_Cstdio "HOL-Library.Product_Lexorder"
begin

text \<open>
  \<open>utils/sample.c\<close>: the last two values of a counter with their timestamps, from which \<open>ltop\<close> shows values and
  rates. The abstract view of a sample is the history of the accepted values.
\<close>

section \<open>Operations\<close>

text \<open>\<open>time_t\<close> and \<open>int\<close> are unbounded here: timestamps are seconds of the wall clock.\<close>

record sample =
  val0 :: fp
  val1 :: fp
  time0 :: int
  time1 :: int
  valid :: nat
  stale_secs :: int

definition sample_create :: "int \<Rightarrow> sample" where
  "sample_create secs =
     \<lparr>val0 = FFin 0, val1 = FFin 0, time0 = 0, time1 = 0, valid = 0, stale_secs = secs\<rparr>"

definition sample_copy :: "sample \<Rightarrow> sample" where
  "sample_copy s1 = s1"

definition sample_invalidate :: "sample \<Rightarrow> sample" where
  "sample_invalidate s = s\<lparr>valid := 0\<rparr>"

definition sample_update :: "sample \<Rightarrow> fp \<Rightarrow> int \<Rightarrow> sample" where
  "sample_update s val t =
     (if valid s = 0 then s\<lparr>time1 := t, val1 := val, valid := valid s + 1\<rparr>
      else if time1 s < t
      then s\<lparr>time0 := time1 s, val0 := val1 s, time1 := t, val1 := val,
             valid := if valid s < 2 then valid s + 1 else valid s\<rparr>
      else s)"

text \<open>The guard of \<open>sample_add\<close>, \<open>sample_max\<close> and \<open>sample_min\<close>: both collected at the same times.\<close>

definition same_times :: "sample \<Rightarrow> sample \<Rightarrow> bool" where
  "same_times s1 s2 \<longleftrightarrow> valid s1 = valid s2 \<and> \<not> (valid s1 > 0 \<and> time1 s1 \<noteq> time1 s2) \<and>
     \<not> (valid s1 > 1 \<and> time0 s1 \<noteq> time0 s2)"

definition sample_add :: "sample \<Rightarrow> sample \<Rightarrow> sample" where
  "sample_add s1 s2 =
     (if \<not> same_times s1 s2 then s1
      else s1\<lparr>val1 := if valid s1 > 0 then fp_add (val1 s1) (val1 s2) else val1 s1,
              val0 := if valid s1 > 1 then fp_add (val0 s1) (val0 s2) else val0 s1\<rparr>)"

definition fp_max :: "fp \<Rightarrow> fp \<Rightarrow> fp" where
  "fp_max a b = (if fp_less b a then a else b)"

definition fp_min :: "fp \<Rightarrow> fp \<Rightarrow> fp" where
  "fp_min a b = (if fp_less a b then a else b)"

definition sample_max :: "sample \<Rightarrow> sample \<Rightarrow> sample" where
  "sample_max s1 s2 =
     (if \<not> same_times s1 s2 then s1
      else s1\<lparr>val1 := if valid s1 > 0 then fp_max (val1 s1) (val1 s2) else val1 s1,
              val0 := if valid s1 > 1 then fp_max (val0 s1) (val0 s2) else val0 s1\<rparr>)"

definition sample_min :: "sample \<Rightarrow> sample \<Rightarrow> sample" where
  "sample_min s1 s2 =
     (if \<not> same_times s1 s2 then s1
      else s1\<lparr>val1 := if valid s1 > 0 then fp_min (val1 s1) (val1 s2) else val1 s1,
              val0 := if valid s1 > 1 then fp_min (val0 s1) (val0 s2) else val0 s1\<rparr>)"

definition sample_rate :: "sample \<Rightarrow> int \<Rightarrow> fp" where
  "sample_rate s tnow =
     (let v = (if valid s = 2 \<and> tnow - time1 s \<le> stale_secs s
               then fp_div (fp_sub (val1 s) (val0 s)) (dbl (of_int (time1 s - time0 s)))
               else FFin 0)
      in if fp_less v (FFin 0) then FFin 0 else v)"

definition sample_val :: "sample \<Rightarrow> int \<Rightarrow> fp" where
  "sample_val s tnow =
     (if valid s > 0 \<and> tnow - time1 s \<le> stale_secs s then val1 s else FFin 0)"

text \<open>\<open>v1 == v2 ? 0 : v1 < v2 ? -1 : 1\<close>.\<close>

definition fp_cmp :: "fp \<Rightarrow> fp \<Rightarrow> int" where
  "fp_cmp v1 v2 = (if fp_eq v1 v2 then 0 else if fp_less v1 v2 then - 1 else 1)"

definition sample_val_cmp :: "sample \<Rightarrow> sample \<Rightarrow> int \<Rightarrow> int" where
  "sample_val_cmp s1 s2 tnow = fp_cmp (sample_val s1 tnow) (sample_val s2 tnow)"

definition sample_rate_cmp :: "sample \<Rightarrow> sample \<Rightarrow> int \<Rightarrow> int" where
  "sample_rate_cmp s1 s2 tnow = fp_cmp (sample_rate s1 tnow) (sample_rate s2 tnow)"

section \<open>History\<close>

text \<open>The values accepted so far, newest first: a value is accepted when it is newer than the last one.\<close>

fun accept :: "(int \<times> fp) list \<Rightarrow> int \<times> fp \<Rightarrow> (int \<times> fp) list" where
  "accept [] (t, v) = [(t, v)]"
| "accept ((t', v') # h) (t, v) = (if t' < t then (t, v) # (t', v') # h else (t', v') # h)"

text \<open>A sample shows the two newest values of a history.\<close>

definition displays :: "sample \<Rightarrow> (int \<times> fp) list \<Rightarrow> bool" where
  "displays s h \<longleftrightarrow> valid s = min 2 (length h) \<and>
     (h \<noteq> [] \<longrightarrow> (time1 s, val1 s) = h ! 0) \<and> (2 \<le> length h \<longrightarrow> (time0 s, val0 s) = h ! 1)"

definition newest_first :: "(int \<times> fp) list \<Rightarrow> bool" where
  "newest_first h \<longleftrightarrow> sorted_wrt (>) (map fst h)"

lemma accept_newest_first: "newest_first h \<Longrightarrow> newest_first (accept h u)"
proof (cases u)
  case (Pair t v)
  then show "newest_first h \<Longrightarrow> ?thesis" by (cases h) (fastforce simp: newest_first_def)+
qed

lemma displays_create: "displays (sample_create secs) []"
  by (simp add: displays_def sample_create_def)

lemma displays_update:
  assumes "displays s h"
  shows "displays (sample_update s v t) (accept h (t, v))"
proof (cases h)
  case Nil
  then show ?thesis using assms by (simp add: displays_def sample_update_def)
next
  case (Cons a h')
  obtain t' v' where a: "a = (t', v')" by (cases a)
  have s: "time1 s = t'" "val1 s = v'" "valid s = min 2 (Suc (length h'))" using assms Cons a by (simp_all add: displays_def)
  show ?thesis
  proof (cases "t' < t")
    case True
    then show ?thesis using s by (cases h') (simp_all add: displays_def sample_update_def Cons a)
  next
    case False
    then show ?thesis using assms s by (cases h') (simp_all add: displays_def sample_update_def Cons a)
  qed
qed

lemma displays_invalidate: "displays (sample_invalidate s) []"
  by (simp add: displays_def sample_invalidate_def)

lemma sample_update_stale_secs [simp]: "stale_secs (sample_update s v t) = stale_secs s"
  by (simp add: sample_update_def)

text \<open>All updates in order, and the history they leave.\<close>

abbreviation updates :: "sample \<Rightarrow> (int \<times> fp) list \<Rightarrow> sample" where
  "updates s us \<equiv> foldl (\<lambda>s (t, v). sample_update s v t) s us"

lemma displays_updates:
  "displays s h \<Longrightarrow> newest_first h \<Longrightarrow> displays (updates s us) (foldl accept h us) \<and> newest_first (foldl accept h us)"
proof (induction us arbitrary: s h)
  case (Cons u us)
  obtain t v where u: "u = (t, v)" by (cases u)
  show ?case using Cons(1) [OF displays_update [OF Cons(2)] accept_newest_first [OF Cons(3)]] by (simp add: u)
qed simp

lemma updates_stale_secs [simp]: "stale_secs (updates s us) = stale_secs s"
  by (induction us arbitrary: s) auto

lemma sample_val_displays:
  "displays s h \<Longrightarrow> sample_val s tnow =
     (case h of [] \<Rightarrow> FFin 0 | (t, v) # _ \<Rightarrow> if tnow - t \<le> stale_secs s then v else FFin 0)"
  by (cases h) (auto simp: displays_def sample_val_def)

text \<open>The slope between two points, negative ones cut off.\<close>

definition slope :: "int \<times> fp \<Rightarrow> int \<times> fp \<Rightarrow> fp" where
  "slope p q = (let v = fp_div (fp_sub (snd q) (snd p)) (dbl (of_int (fst q - fst p)))
     in if fp_less v (FFin 0) then FFin 0 else v)"

lemma sample_rate_displays:
  "displays s h \<Longrightarrow> sample_rate s tnow =
     (case h of q # p # _ \<Rightarrow> if tnow - fst q \<le> stale_secs s then slope p q else FFin 0 | _ \<Rightarrow> FFin 0)"
  by (cases h; cases "tl h") (auto simp: displays_def sample_rate_def slope_def Let_def)

text \<open>A finite slope over a positive time is finite and not negative.\<close>

lemma slope_finite:
  assumes "fst p < fst q" "snd p = FFin a" "snd q = FFin b"
  shows "\<exists>r. slope p q = FFin r \<and> 0 \<le> r"
proof -
  have "0 < rnd 53 (of_int (fst q - fst p))" using assms(1) by (intro rnd_pos) simp_all
  then show ?thesis by (auto simp: slope_def assms(2,3) fp_sub_def dbl_def Let_def)
qed

section \<open>Ordering\<close>

text \<open>Away from NaN the comparisons order by this key.\<close>

fun fp_key :: "fp \<Rightarrow> int \<times> rat" where
  "fp_key (FFin a) = (0, a)"
| "fp_key (FInf neg) = (if neg then - 1 else 1, 0)"
| "fp_key FNaN = (2, 0)"

lemma fp_cmp_key:
  "a \<noteq> FNaN \<Longrightarrow> b \<noteq> FNaN \<Longrightarrow> fp_cmp a b = (if fp_key a < fp_key b then - 1 else if fp_key a = fp_key b then 0 else 1)"
  by (cases a; cases b) (auto simp: fp_cmp_def)

lemma fp_cmp_desc: "a \<noteq> FNaN \<Longrightarrow> b \<noteq> FNaN \<Longrightarrow> - fp_cmp a b < 0 \<longleftrightarrow> fp_key (fp_neg a) < fp_key (fp_neg b)"
  by (cases a; cases b) (auto simp: fp_cmp_def)

lemma fp_cmp_NaN: "fp_cmp FNaN a = 1" "fp_cmp a FNaN = 1"
  by (cases a; simp add: fp_cmp_def)+

section \<open>Properties\<close>

text \<open>C17: after any updates of a new sample, the value is the newest accepted one and the rate the slope between the
  two newest accepted ones (negative slopes read as 0), both 0 once the newest is older than the limit; the accepted
  timestamps are strictly increasing.\<close>

theorem sample_window_correct:
  "let h = foldl accept [] us; s = updates (sample_create secs) us
   in newest_first h \<and>
      sample_val s tnow = (case h of [] \<Rightarrow> FFin 0 | (t, v) # _ \<Rightarrow> if tnow - t \<le> secs then v else FFin 0) \<and>
      sample_rate s tnow = (case h of q # p # _ \<Rightarrow> if tnow - fst q \<le> secs then slope p q else FFin 0 | _ \<Rightarrow> FFin 0)"
proof -
  have nf: "newest_first []" by (simp add: newest_first_def)
  have st: "stale_secs (updates (sample_create secs) us) = secs" by (simp add: sample_create_def)
  have d: "displays (updates (sample_create secs) us) (foldl accept [] us)" "newest_first (foldl accept [] us)"
    using displays_updates [OF displays_create nf, of secs us] by auto
  show ?thesis unfolding Let_def using d(2) sample_val_displays [OF d(1), of tnow] sample_rate_displays [OF d(1), of tnow]
    unfolding st by simp
qed

text \<open>The rate of a sample updated with finite values is finite and never negative, so a restarted counter
  reads as 0.\<close>

theorem sample_rate_nonneg:
  assumes "\<forall>u \<in> set us. \<exists>r. snd u = FFin r"
  shows "\<exists>r. sample_rate (updates (sample_create secs) us) tnow = FFin r \<and> 0 \<le> r"
proof -
  let ?h = "foldl accept [] us"
  have nf: "newest_first []" by (simp add: newest_first_def)
  have d: "displays (updates (sample_create secs) us) ?h" "newest_first ?h"
    using displays_updates [OF displays_create nf, of secs us] by auto
  have fin': "\<forall>u \<in> set (foldl accept h us). \<exists>r. snd u = FFin r" if "\<forall>u \<in> set h. \<exists>r. snd u = FFin r" for h
    using that assms
  proof (induction us arbitrary: h)
    case (Cons u us)
    obtain t v where u: "u = (t, v)" by (cases u)
    have "\<forall>u \<in> set (accept h u). \<exists>r. snd u = FFin r" using Cons(2,3) by (cases h) (fastforce simp: u split: if_splits)+
    then show ?case using Cons(1) Cons(3) by simp
  qed simp
  have fin: "\<forall>u \<in> set ?h. \<exists>r. snd u = FFin r" by (rule fin') simp
  have "\<exists>r. slope p q = FFin r \<and> 0 \<le> r" if h: "?h = q # p # r" for p q r
  proof -
    have "fst p < fst q" using d(2) h by (simp add: newest_first_def)
    moreover obtain a b where "snd p = FFin a" "snd q = FFin b" using fin unfolding h by auto
    ultimately show ?thesis by (rule slope_finite)
  qed
  then show ?thesis unfolding sample_rate_displays [OF d(1)] by (auto split: list.splits)
qed

theorem sample_rate_nonneg_witness:
  "\<exists>r. sample_rate (updates (sample_create 12) [(100, FFin 50), (105, FFin 20)]) 106 = FFin r \<and> 0 \<le> r"
  by (rule sample_rate_nonneg) simp

end
