(* ===== verification/Lmt_Ltop_Ost.thy ===== *)
theory Lmt_Ltop_Ost
  imports Lmt_Sample Lmt_Osc Lsd_List
begin

text \<open>
  \<open>utils/ltop.c\<close>, the object storage targets: the table of targets \<open>ltop\<close> keeps, its updates from the metric
  strings, the summary per server, sorting and tagging. A \<open>List\<close> is the sequence of its elements, which
  \<open>Lsd_List\<close> shows the list library to implement; samples are stored by value, because every function that
  makes an \<open>oststat_t\<close> allocates its own.
\<close>

section \<open>Targets\<close>

text \<open>\<open>generic_target_t\<close>; \<open>'s\<close> is the type of a sample. The character arrays are strings shorter than the array.
  \<open>pct_used\<close> is never set.\<close>

record 's target =
  t_fsname :: string
  t_name :: string
  t_servername :: string
  tgt_metric_timestamp :: int
  t_recov_status :: string
  t_tgtstate :: string
  t_pct_cpu :: 's
  t_pct_mem :: 's
  t_tag :: bool

text \<open>\<open>ossname\<close> is the field the tagging functions read; no function writes it.\<close>

record oststat =
  o_common :: "sample target"
  o_rbytes :: sample
  o_wbytes :: sample
  o_iops :: sample
  o_num_exports :: sample
  o_lock_count :: sample
  o_grant_rate :: sample
  o_cancel_rate :: sample
  o_connect :: sample
  o_kbytes_free :: sample
  o_kbytes_total :: sample
  o_ossname :: string

text \<open>What precedes and what follows the first occurrence.\<close>

fun strstr_split :: "string \<Rightarrow> string \<Rightarrow> (string \<times> string) option" where
  "strstr_split [] sub = (if sub = [] then Some ([], []) else None)"
| "strstr_split (c # cs) sub =
     (if take (length sub) (c # cs) = sub then Some ([], drop (length sub) (c # cs))
      else map_option (\<lambda>(a, b). (c # a, b)) (strstr_split cs sub))"

text \<open>What precedes the last hyphen.\<close>

definition before_last_hyphen :: "string \<Rightarrow> string" where
  "before_last_hyphen s =
     (if CHR ''-'' \<in> set s then rev (tl (dropWhile (\<lambda>c. c \<noteq> CHR ''-'') (rev s))) else s)"

definition fsmatch :: "string \<Rightarrow> string \<Rightarrow> bool" where
  "fsmatch name fs \<longleftrightarrow> fs = before_last_hyphen name"

text \<open>\<open>fs\<close> is a null pointer or a file system name.\<close>

definition wanted :: "string option \<Rightarrow> string \<Rightarrow> bool" where
  "wanted fs name \<longleftrightarrow> (case fs of None \<Rightarrow> True | Some f \<Rightarrow> fsmatch name f)"

text \<open>The name and file system fields of a new record; \<open>None\<close> when the file system part, which is copied without
  a bound, does not fit its array.\<close>

definition target_names :: "string \<Rightarrow> string \<Rightarrow> (string \<times> string) option" where
  "target_names sub name =
     (case strstr_split name sub of
        None \<Rightarrow> Some (take 16 name, take 16 name)
      | Some (f, x) \<Rightarrow> if length f > 16 then None else Some (take 16 x, f))"

definition create_oststat :: "string \<Rightarrow> int \<Rightarrow> oststat option" where
  "create_oststat name secs =
     map_option (\<lambda>(n, f). \<lparr>o_common = \<lparr>t_fsname = f, t_name = n, t_servername = [], tgt_metric_timestamp = 0,
          t_recov_status = [], t_tgtstate = [], t_pct_cpu = sample_create secs,
          t_pct_mem = sample_create secs, t_tag = False\<rparr>,
        o_rbytes = sample_create secs, o_wbytes = sample_create secs, o_iops = sample_create secs,
        o_num_exports = sample_create secs, o_lock_count = sample_create secs,
        o_grant_rate = sample_create secs, o_cancel_rate = sample_create secs,
        o_connect = sample_create secs, o_kbytes_free = sample_create secs,
        o_kbytes_total = sample_create secs, o_ossname = []\<rparr>) (target_names ''-OST'' name)"

definition copy_oststat :: "oststat \<Rightarrow> oststat" where
  "copy_oststat o1 = o1\<lparr>
     o_rbytes := sample_copy (o_rbytes o1), o_wbytes := sample_copy (o_wbytes o1),
     o_iops := sample_copy (o_iops o1), o_num_exports := sample_copy (o_num_exports o1),
     o_lock_count := sample_copy (o_lock_count o1), o_grant_rate := sample_copy (o_grant_rate o1),
     o_cancel_rate := sample_copy (o_cancel_rate o1), o_connect := sample_copy (o_connect o1),
     o_kbytes_free := sample_copy (o_kbytes_free o1), o_kbytes_total := sample_copy (o_kbytes_total o1),
     o_common := (o_common o1)\<lparr>t_pct_cpu := sample_copy (t_pct_cpu (o_common o1)),
                               t_pct_mem := sample_copy (t_pct_mem (o_common o1))\<rparr>\<rparr>"

definition match_target :: "string \<Rightarrow> 's target \<Rightarrow> string \<Rightarrow> bool" where
  "match_target sub g name \<longleftrightarrow>
     t_name g = (case strstr_split name sub of None \<Rightarrow> name | Some (_, x) \<Rightarrow> x) \<and> fsmatch name (t_fsname g)"

definition match_oststat :: "oststat \<Rightarrow> string \<Rightarrow> bool" where
  "match_oststat o1 name \<longleftrightarrow> match_target ''-OST'' (o_common o1) name"

definition match_oststat2 :: "oststat \<Rightarrow> string \<Rightarrow> bool" where
  "match_oststat2 o1 name \<longleftrightarrow> t_servername (o_common o1) = name"

section \<open>Updates\<close>

text \<open>\<open>list_find_first\<close>, and \<open>list_append\<close> of a new record when nothing matches, then the update of the record.\<close>

fun upsert :: "('a \<Rightarrow> bool) \<Rightarrow> 'a option \<Rightarrow> ('a \<Rightarrow> 'a) \<Rightarrow> 'a list \<Rightarrow> 'a list option" where
  "upsert P new f [] = map_option (\<lambda>x. [f x]) new"
| "upsert P new f (x # xs) = (if P x then Some (f x # xs) else map_option ((#) x) (upsert P new f xs))"

definition set_osc_state :: "string \<Rightarrow> int \<Rightarrow> int \<Rightarrow> int \<Rightarrow> oststat \<Rightarrow> oststat" where
  "set_osc_state state tnow trcv secs o1 =
     o1\<lparr>o_common := (o_common o1)\<lparr>t_tgtstate := take 1 (if tnow - trcv > secs then [] else state)\<rparr>\<rparr>"

definition update_osc :: "string \<Rightarrow> string \<Rightarrow> oststat list \<Rightarrow> int \<Rightarrow> int \<Rightarrow> int \<Rightarrow> oststat list option" where
  "update_osc name state ost_data tnow trcv secs =
     upsert (\<lambda>o1. match_oststat o1 name) (create_oststat name secs) (set_osc_state state tnow trcv secs) ost_data"

text \<open>The loop over the decoded entries; an entry that does not decode is skipped.\<close>

fun update_each :: "(string \<Rightarrow> 'i option) \<Rightarrow> ('i \<Rightarrow> 'l \<Rightarrow> 'l option) \<Rightarrow> string list \<Rightarrow> 'l \<Rightarrow> 'l option" where
  "update_each dec upd [] l = Some l"
| "update_each dec upd (s # ss) l =
     (case dec s of None \<Rightarrow> update_each dec upd ss l
      | Some i \<Rightarrow> (case upd i l of None \<Rightarrow> None | Some l' \<Rightarrow> update_each dec upd ss l'))"

definition decode_osc_v1 :: "string \<Rightarrow> string option \<Rightarrow> oststat list \<Rightarrow> int \<Rightarrow> int \<Rightarrow> int \<Rightarrow> oststat list option" where
  "decode_osc_v1 val fs ost_data tnow trcv secs =
     (case lmt_osc_decode_v1 val of
        None \<Rightarrow> Some ost_data
      | Some (servername, oscinfo) \<Rightarrow>
          update_each lmt_osc_decode_v1_oscinfo
            (\<lambda>(oscname, tgtstate) l. if wanted fs oscname then update_osc oscname tgtstate l tnow trcv secs else Some l)
            oscinfo ost_data)"

text \<open>The samples that are dropped when the target moved to another server.\<close>

definition failover_ost :: "string \<Rightarrow> oststat \<Rightarrow> oststat" where
  "failover_ost servername o1 =
     (if servername \<noteq> t_servername (o_common o1) then o1\<lparr>
        o_rbytes := sample_invalidate (o_rbytes o1), o_wbytes := sample_invalidate (o_wbytes o1),
        o_iops := sample_invalidate (o_iops o1), o_num_exports := sample_invalidate (o_num_exports o1),
        o_lock_count := sample_invalidate (o_lock_count o1),
        o_kbytes_free := sample_invalidate (o_kbytes_free o1),
        o_kbytes_total := sample_invalidate (o_kbytes_total o1),
        o_common := (o_common o1)\<lparr>t_pct_cpu := sample_invalidate (t_pct_cpu (o_common o1)),
          t_pct_mem := sample_invalidate (t_pct_mem (o_common o1)),
          t_servername := snd (snprintf 64 servername)\<rparr>\<rparr>
      else o1)"

definition sample_ost :: "ostinfo \<Rightarrow> fp \<Rightarrow> fp \<Rightarrow> int \<Rightarrow> oststat \<Rightarrow> oststat" where
  "sample_ost i pct_cpu pct_mem trcv o1 = o1\<lparr>
     o_rbytes := sample_update (o_rbytes o1) (fp_of_u64 (oi_read_bytes i)) trcv,
     o_wbytes := sample_update (o_wbytes o1) (fp_of_u64 (oi_write_bytes i)) trcv,
     o_iops := sample_update (o_iops o1) (fp_of_u64 (oi_iops i)) trcv,
     o_num_exports := sample_update (o_num_exports o1) (fp_of_u64 (oi_num_exports i)) trcv,
     o_lock_count := sample_update (o_lock_count o1) (fp_of_u64 (oi_lock_count i)) trcv,
     o_grant_rate := sample_update (o_grant_rate o1) (fp_of_u64 (oi_grant_rate i)) trcv,
     o_cancel_rate := sample_update (o_cancel_rate o1) (fp_of_u64 (oi_cancel_rate i)) trcv,
     o_connect := sample_update (o_connect o1) (fp_of_u64 (oi_connect i + oi_reconnect i)) trcv,
     o_kbytes_free := sample_update (o_kbytes_free o1) (fp_of_u64 (oi_kbytes_free i)) trcv,
     o_kbytes_total := sample_update (o_kbytes_total o1) (fp_of_u64 (oi_kbytes_total i)) trcv,
     o_common := (o_common o1)\<lparr>
       tgt_metric_timestamp := trcv,
       t_pct_cpu := sample_update (t_pct_cpu (o_common o1)) pct_cpu trcv,
       t_pct_mem := sample_update (t_pct_mem (o_common o1)) pct_mem trcv,
       t_recov_status := snd (snprintf recovery_str_size (oi_recov_status i))\<rparr>\<rparr>"

definition set_ost :: "ostinfo \<Rightarrow> string \<Rightarrow> fp \<Rightarrow> fp \<Rightarrow> int \<Rightarrow> oststat \<Rightarrow> oststat" where
  "set_ost i servername pct_cpu pct_mem trcv o1 =
     (if tgt_metric_timestamp (o_common o1) < trcv
      then sample_ost i pct_cpu pct_mem trcv (failover_ost servername o1) else o1)"

definition update_ost :: "ostinfo \<Rightarrow> string \<Rightarrow> fp \<Rightarrow> fp \<Rightarrow> oststat list \<Rightarrow> int \<Rightarrow> int \<Rightarrow> oststat list option" where
  "update_ost i servername pct_cpu pct_mem ost_data trcv secs =
     upsert (\<lambda>o1. match_oststat o1 (oi_name i)) (create_oststat (oi_name i) secs)
       (set_ost i servername pct_cpu pct_mem trcv) ost_data"

text \<open>The domain of the server name is dropped.\<close>

definition short_name :: "string \<Rightarrow> string" where
  "short_name s = takeWhile (\<lambda>c. c \<noteq> CHR ''.'') s"

definition decode_ost_v2 :: "string \<Rightarrow> string option \<Rightarrow> oststat list \<Rightarrow> int \<Rightarrow> int \<Rightarrow> oststat list option" where
  "decode_ost_v2 val fs ost_data trcv secs =
     (case lmt_ost_decode_v2 val of
        None \<Rightarrow> Some ost_data
      | Some (servername, pct_cpu, pct_mem, ostinfo) \<Rightarrow>
          update_each lmt_ost_decode_v2_ostinfo
            (\<lambda>i l. if wanted fs (oi_name i)
                   then update_ost i (short_name servername) pct_cpu pct_mem l trcv secs else Some l)
            ostinfo ost_data)"

section \<open>Summary per server\<close>

text \<open>\<open>snprintf (name, 17, "(%d)", n)\<close> and the count that is read back from it.\<close>

definition count_name :: "int \<Rightarrow> string" where
  "count_name n = snd (snprintf 17 (''('' @ (if n < 0 then ''-'' else []) @ dec_string (nat \<bar>n\<bar>) @ '')''))"

definition next_count :: "string \<Rightarrow> int" where
  "next_count s = sint (ucast (fst (strtoul10 (tl s))) + 1 :: u32)"

definition single_ost_update_summary :: "oststat \<Rightarrow> oststat \<Rightarrow> oststat" where
  "single_ost_update_summary ost summary = summary\<lparr>
     o_rbytes := sample_add (o_rbytes summary) (o_rbytes ost),
     o_wbytes := sample_add (o_wbytes summary) (o_wbytes ost),
     o_iops := sample_add (o_iops summary) (o_iops ost),
     o_kbytes_free := sample_add (o_kbytes_free summary) (o_kbytes_free ost),
     o_kbytes_total := sample_add (o_kbytes_total summary) (o_kbytes_total ost),
     o_lock_count := sample_add (o_lock_count summary) (o_lock_count ost),
     o_grant_rate := sample_add (o_grant_rate summary) (o_grant_rate ost),
     o_cancel_rate := sample_add (o_cancel_rate summary) (o_cancel_rate ost),
     o_connect := sample_add (o_connect summary) (o_connect ost),
     o_num_exports := sample_min (o_num_exports summary) (o_num_exports ost),
     o_common := (if t_tag (o_common ost) then (o_common summary)\<lparr>t_tag := t_tag (o_common ost)\<rparr>
                  else o_common summary)\<rparr>"

text \<open>The part of the loop of \<open>_summarize_target\<close> that updates the common fields of a known server.\<close>

definition merge_common :: "'s target \<Rightarrow> 's target \<Rightarrow> 's target" where
  "merge_common tgt srv = srv\<lparr>
     tgt_metric_timestamp := if tgt_metric_timestamp tgt < tgt_metric_timestamp srv
       then tgt_metric_timestamp tgt else tgt_metric_timestamp srv,
     t_tgtstate := if t_tgtstate tgt \<noteq> ''F'' then t_tgtstate tgt else t_tgtstate srv,
     t_recov_status := if take 8 (t_recov_status tgt) \<noteq> ''COMPLETE'' then t_recov_status tgt else t_recov_status srv,
     t_name := count_name (next_count (t_name srv))\<rparr>"

definition new_ost_summary :: "oststat \<Rightarrow> oststat" where
  "new_ost_summary ost =
     (let srv = copy_oststat ost in srv\<lparr>o_common := (o_common srv)\<lparr>t_name := count_name 1\<rparr>\<rparr>)"

definition merge_ost :: "oststat \<Rightarrow> oststat \<Rightarrow> oststat" where
  "merge_ost ost srv =
     (let srv1 = single_ost_update_summary ost srv
      in srv1\<lparr>o_common := merge_common (o_common ost) (o_common srv1)\<rparr>)"

fun ost_summary_step :: "oststat list \<Rightarrow> oststat \<Rightarrow> oststat list" where
  "ost_summary_step [] ost = [new_ost_summary ost]"
| "ost_summary_step (srv # l) ost =
     (if match_oststat2 srv (t_servername (o_common ost)) then merge_ost ost srv # l
      else srv # ost_summary_step l ost)"

definition summarize_target_ost :: "oststat list \<Rightarrow> int \<Rightarrow> int \<Rightarrow> oststat list" where
  "summarize_target_ost target_data tnow secs =
     foldl (\<lambda>l ost. if tnow - tgt_metric_timestamp (o_common ost) > secs then l else ost_summary_step l ost)
       [] target_data"

section \<open>Sorting\<close>

text \<open>The numerical suffix: what precedes it, and its digits.\<close>

definition numerical_suffix :: "string \<Rightarrow> string \<times> string" where
  "numerical_suffix s =
     (rev (dropWhile isdigit (rev s)), rev (takeWhile isdigit (rev s)))"

definition cmp_server_names :: "string \<Rightarrow> string \<Rightarrow> int" where
  "cmp_server_names servername1 servername2 =
     (case numerical_suffix servername1 of (a1, d1) \<Rightarrow>
      case numerical_suffix servername2 of (a2, d2) \<Rightarrow>
        if d1 \<noteq> [] \<and> d2 \<noteq> [] \<and> a1 = a2
        then (let n1 = fst (strtoul10 d1); n2 = fst (strtoul10 d2)
              in if n1 < n2 then - 1 else if n1 > n2 then 1 else 0)
        else strcmp servername1 servername2)"

definition cmp_tgtstat_byserver :: "'s target \<Rightarrow> 's target \<Rightarrow> int" where
  "cmp_tgtstat_byserver p1 p2 = cmp_server_names (t_servername p1) (t_servername p2)"

definition cmp_tgtstat_bytarget :: "'s target \<Rightarrow> 's target \<Rightarrow> int" where
  "cmp_tgtstat_bytarget p1 p2 = strcmp (t_name p1) (t_name p2)"

definition cmp_tgtstat_bymem :: "int \<Rightarrow> sample target \<Rightarrow> sample target \<Rightarrow> int" where
  "cmp_tgtstat_bymem tnow p1 p2 = - 1 * sample_val_cmp (t_pct_mem p1) (t_pct_mem p2) tnow"

definition cmp_tgtstat_bycpu :: "int \<Rightarrow> sample target \<Rightarrow> sample target \<Rightarrow> int" where
  "cmp_tgtstat_bycpu tnow p1 p2 = - 1 * sample_val_cmp (t_pct_cpu p1) (t_pct_cpu p2) tnow"

definition cmp_tgtstat_noop :: "'s target \<Rightarrow> 's target \<Rightarrow> int" where
  "cmp_tgtstat_noop p1 p2 = 0"

definition cmp_oststat_byexp :: "int \<Rightarrow> oststat \<Rightarrow> oststat \<Rightarrow> int" where
  "cmp_oststat_byexp tnow o1 o2 = sample_val_cmp (o_num_exports o1) (o_num_exports o2) tnow"

definition cmp_oststat_bylocks :: "int \<Rightarrow> oststat \<Rightarrow> oststat \<Rightarrow> int" where
  "cmp_oststat_bylocks tnow o1 o2 = - 1 * sample_val_cmp (o_lock_count o1) (o_lock_count o2) tnow"

definition cmp_oststat_bylgr :: "int \<Rightarrow> oststat \<Rightarrow> oststat \<Rightarrow> int" where
  "cmp_oststat_bylgr tnow o1 o2 = - 1 * sample_val_cmp (o_grant_rate o1) (o_grant_rate o2) tnow"

definition cmp_oststat_bylcr :: "int \<Rightarrow> oststat \<Rightarrow> oststat \<Rightarrow> int" where
  "cmp_oststat_bylcr tnow o1 o2 = - 1 * sample_val_cmp (o_cancel_rate o1) (o_cancel_rate o2) tnow"

definition cmp_oststat_byconn :: "int \<Rightarrow> oststat \<Rightarrow> oststat \<Rightarrow> int" where
  "cmp_oststat_byconn tnow o1 o2 = - 1 * sample_rate_cmp (o_connect o1) (o_connect o2) tnow"

definition cmp_oststat_byiops :: "int \<Rightarrow> oststat \<Rightarrow> oststat \<Rightarrow> int" where
  "cmp_oststat_byiops tnow o1 o2 = - 1 * sample_rate_cmp (o_iops o1) (o_iops o2) tnow"

definition cmp_oststat_byrbw :: "int \<Rightarrow> oststat \<Rightarrow> oststat \<Rightarrow> int" where
  "cmp_oststat_byrbw tnow o1 o2 = - 1 * sample_rate_cmp (o_rbytes o1) (o_rbytes o2) tnow"

definition cmp_oststat_bywbw :: "int \<Rightarrow> oststat \<Rightarrow> oststat \<Rightarrow> int" where
  "cmp_oststat_bywbw tnow o1 o2 = - 1 * sample_rate_cmp (o_wbytes o1) (o_wbytes o2) tnow"

text \<open>\<open>t > 0 ? (t - f) / t : 0\<close>.\<close>

definition pct_used :: "sample \<Rightarrow> sample \<Rightarrow> int \<Rightarrow> fp" where
  "pct_used tot free tnow =
     (let t = sample_val tot tnow; f = sample_val free tnow
      in if fp_less (FFin 0) t then fp_div (fp_sub t f) t else FFin 0)"

definition cmp_oststat_byspc :: "int \<Rightarrow> oststat \<Rightarrow> oststat \<Rightarrow> int" where
  "cmp_oststat_byspc tnow o1 o2 =
     - 1 * fp_cmp (pct_used (o_kbytes_total o1) (o_kbytes_free o1) tnow)
             (pct_used (o_kbytes_total o2) (o_kbytes_free o2) tnow)"

definition summarize_ost :: "oststat list \<Rightarrow> int \<Rightarrow> int \<Rightarrow> oststat list" where
  "summarize_ost ost_data tnow secs =
     sort_spec (\<lambda>o1 o2. cmp_tgtstat_byserver (o_common o1) (o_common o2)) (summarize_target_ost ost_data tnow secs)"

text \<open>The columns of \<open>ost_col\<close>: the key and the comparison.\<close>

definition ost_col :: "int \<Rightarrow> (char option \<times> (oststat \<Rightarrow> oststat \<Rightarrow> int)) list" where
  "ost_col tnow =
     [(Some CHR ''t'', \<lambda>o1 o2. cmp_tgtstat_bytarget (o_common o1) (o_common o2)),
      (None, \<lambda>o1 o2. cmp_tgtstat_noop (o_common o1) (o_common o2)),
      (Some CHR ''s'', \<lambda>o1 o2. cmp_tgtstat_byserver (o_common o1) (o_common o2)),
      (Some CHR ''x'', cmp_oststat_byexp tnow),
      (Some CHR ''C'', cmp_oststat_byconn tnow),
      (Some CHR ''r'', cmp_oststat_byrbw tnow),
      (Some CHR ''w'', cmp_oststat_bywbw tnow),
      (Some CHR ''i'', cmp_oststat_byiops tnow),
      (Some CHR ''l'', cmp_oststat_bylocks tnow),
      (Some CHR ''g'', cmp_oststat_bylgr tnow),
      (Some CHR ''L'', cmp_oststat_bylcr tnow),
      (Some CHR ''u'', \<lambda>o1 o2. cmp_tgtstat_bycpu tnow (o_common o1) (o_common o2)),
      (Some CHR ''m'', \<lambda>o1 o2. cmp_tgtstat_bymem tnow (o_common o1) (o_common o2)),
      (Some CHR ''S'', cmp_oststat_byspc tnow)]"

text \<open>The key 0 leaves the column; the assertion holds as long as the old index is in range.\<close>

definition get_sort_index :: "char option \<Rightarrow> nat \<Rightarrow> char option list \<Rightarrow> nat option" where
  "get_sort_index k sort_index c =
     (let nc = length c;
          i = (if k = Some CHR ''<'' then (if sort_index = 0 then nc - 1 else sort_index - 1)
               else if k = Some CHR ''>'' then (if Suc sort_index = nc then 0 else Suc sort_index)
               else if k \<noteq> None then
                 (let j = length (takeWhile (\<lambda>x. x \<noteq> k) c) in if j < nc then j else sort_index)
               else sort_index)
      in if i < nc then Some i else None)"

definition sort_ostlist :: "nat \<Rightarrow> int \<Rightarrow> oststat list \<Rightarrow> oststat list" where
  "sort_ostlist col tnow ost_data = sort_spec (snd (ost_col tnow ! col)) ost_data"

section \<open>Tags\<close>

definition clear_tags :: "oststat list \<Rightarrow> oststat list" where
  "clear_tags l = map (\<lambda>o1. o1\<lparr>o_common := (o_common o1)\<lparr>t_tag := False\<rparr>\<rparr>) l"

definition tag_ost_byoss :: "oststat list \<Rightarrow> string \<Rightarrow> bool \<Rightarrow> oststat list" where
  "tag_ost_byoss l ossname tagval =
     map (\<lambda>o1. if o_ossname o1 = ossname then o1\<lparr>o_common := (o_common o1)\<lparr>t_tag := tagval\<rparr>\<rparr> else o1) l"

definition toggle_tag :: "oststat \<Rightarrow> oststat" where
  "toggle_tag o1 = o1\<lparr>o_common := (o_common o1)\<lparr>t_tag := \<not> t_tag (o_common o1)\<rparr>\<rparr>"

text \<open>\<open>selost\<close> is -1 when nothing is selected; the second list is \<open>ost_data2\<close>, a null pointer or the targets.\<close>

definition tag_nth_ost :: "oststat list \<Rightarrow> int \<Rightarrow> oststat list option \<Rightarrow> oststat list \<times> oststat list option" where
  "tag_nth_ost l selost l2 =
     (if 0 \<le> selost \<and> nat selost < length l then
        (let o1 = toggle_tag (l ! nat selost)
         in (l[nat selost := o1], map_option (\<lambda>l2. tag_ost_byoss l2 (o_ossname o1) (t_tag (o_common o1))) l2))
      else (l, l2))"

section \<open>The table of targets\<close>

text \<open>Records are found by file system and target name.\<close>

definition ost_key :: "oststat \<Rightarrow> string \<times> string" where
  "ost_key o1 = (t_fsname (o_common o1), t_name (o_common o1))"

text \<open>Names of the form \<open>fs-OSTxxxx\<close> whose parts fit the arrays of a record.\<close>

definition tgt_name_ok :: "string \<Rightarrow> string \<Rightarrow> bool" where
  "tgt_name_ok sub name \<longleftrightarrow> (case strstr_split name sub of None \<Rightarrow> False
     | Some (f, x) \<Rightarrow> length f \<le> 16 \<and> length x \<le> 16 \<and> CHR ''-'' \<notin> set x)"

definition tgt_key :: "string \<Rightarrow> string \<Rightarrow> string \<times> string" where
  "tgt_key sub name = the (strstr_split name sub)"

lemma strstr_split_Some: "strstr_split s sub = Some (a, b) \<Longrightarrow> s = a @ sub @ b"
proof (induction s sub arbitrary: a rule: strstr_split.induct)
  case (2 c cs sub)
  then show ?case
    by (auto split: if_splits) (metis append_take_drop_id)
qed (simp split: if_splits)

lemma before_last_hyphen_app:
  assumes "CHR ''-'' \<notin> set x"
  shows "before_last_hyphen (f @ CHR ''-'' # x) = f"
proof -
  have "dropWhile (\<lambda>c. c \<noteq> CHR ''-'') (rev x @ CHR ''-'' # rev f) = CHR ''-'' # rev f"
    using assms by (induction x rule: rev_induct) auto
  then show ?thesis by (simp add: before_last_hyphen_def)
qed

lemma match_target_key:
  assumes "tgt_name_ok (CHR ''-'' # sub) name" "CHR ''-'' \<notin> set sub"
  shows "match_target (CHR ''-'' # sub) g name \<longleftrightarrow> (t_fsname g, t_name g) = tgt_key (CHR ''-'' # sub) name"
    "target_names (CHR ''-'' # sub) name = Some (snd (tgt_key (CHR ''-'' # sub) name), fst (tgt_key (CHR ''-'' # sub) name))"
proof -
  obtain f x where s: "strstr_split name (CHR ''-'' # sub) = Some (f, x)" "length f \<le> 16" "length x \<le> 16" "CHR ''-'' \<notin> set x"
    using assms(1) by (auto simp: tgt_name_ok_def split: option.splits)
  have "name = f @ CHR ''-'' # (sub @ x)" using strstr_split_Some [OF s(1)] by simp
  then have "before_last_hyphen name = f" using before_last_hyphen_app [of "sub @ x" f] assms(2) s(4) by simp
  then show "match_target (CHR ''-'' # sub) g name \<longleftrightarrow> (t_fsname g, t_name g) = tgt_key (CHR ''-'' # sub) name"
    by (auto simp: match_target_def tgt_key_def s(1) fsmatch_def)
  show "target_names (CHR ''-'' # sub) name = Some (snd (tgt_key (CHR ''-'' # sub) name), fst (tgt_key (CHR ''-'' # sub) name))"
    using s by (simp add: target_names_def tgt_key_def)
qed

text \<open>A keyed table as a map.\<close>

definition table_of :: "('a \<Rightarrow> 'k) \<Rightarrow> 'a list \<Rightarrow> 'k \<rightharpoonup> 'a" where
  "table_of key l = map_of (map (\<lambda>x. (key x, x)) l)"

definition table_ok :: "('a \<Rightarrow> 'k) \<Rightarrow> 'a list \<Rightarrow> bool" where
  "table_ok key l \<longleftrightarrow> distinct (map key l)"

text \<open>An update of the record with key \<open>k\<close> that keeps the key.\<close>

lemma upsert_table:
  assumes "\<And>x. P x \<longleftrightarrow> key x = k" "\<And>x. key (f x) = key x" "key n = k" "table_ok key l"
  shows "\<exists>l'. upsert P (Some n) f l = Some l' \<and> table_ok key l' \<and>
    table_of key l' = (table_of key l)(k \<mapsto> f (case table_of key l k of None \<Rightarrow> n | Some x \<Rightarrow> x))"
  using assms(4)
proof (induction l)
  case Nil
  then show ?case using assms(2,3) by (auto simp: table_ok_def table_of_def fun_eq_iff)
next
  case (Cons x l)
  show ?case
  proof (cases "key x = k")
    case True
    then show ?thesis using Cons(2) assms(1,2) by (auto simp: table_ok_def table_of_def)
  next
    case False
    have "table_ok key l" using Cons(2) by (simp add: table_ok_def)
    then obtain l' where l': "upsert P (Some n) f l = Some l'" "table_ok key l'"
      "table_of key l' = (table_of key l)(k \<mapsto> f (case table_of key l k of None \<Rightarrow> n | Some x \<Rightarrow> x))"
      using Cons(1) by blast
    have dom: "key ` set l' = dom (table_of key l')" "key ` set l = dom (table_of key l)"
      by (simp_all add: table_of_def dom_map_of_conv_image_fst image_image)
    have "key x \<notin> key ` set l" using Cons(2) by (simp add: table_ok_def)
    then have "key x \<notin> key ` set l'" using False dom l'(3) by (auto split: option.splits)
    then have "table_ok key (x # l')" using l'(2) by (simp add: table_ok_def)
    moreover have "table_of key (x # l') = (table_of key (x # l))(k \<mapsto> f (case table_of key (x # l) k of None \<Rightarrow> n | Some x \<Rightarrow> x))"
      using False l'(3) by (auto simp: table_of_def)
    moreover have "\<not> P x" using False assms(1) by blast
    ultimately show ?thesis using l'(1) by (intro exI [of _ "x # l'"]) simp
  qed
qed

lemma ost_match_key:
  assumes "tgt_name_ok ''-OST'' name"
  shows "match_oststat o1 name \<longleftrightarrow> ost_key o1 = tgt_key ''-OST'' name"
  using match_target_key(1) [of "''OST''" name "o_common o1"] assms by (simp add: match_oststat_def ost_key_def)

text \<open>A new record and its key.\<close>

definition new_oststat :: "string \<Rightarrow> int \<Rightarrow> oststat" where
  "new_oststat name secs = the (create_oststat name secs)"

lemma create_oststat_key:
  assumes "tgt_name_ok ''-OST'' name"
  shows "create_oststat name secs = Some (new_oststat name secs)" "ost_key (new_oststat name secs) = tgt_key ''-OST'' name"
  using match_target_key(2) [of "''OST''" name] assms by (simp_all add: create_oststat_def new_oststat_def ost_key_def)

lemma set_ost_key [simp]: "ost_key (set_ost i sv cpu mem trcv o1) = ost_key o1"
  by (simp add: ost_key_def set_ost_def sample_ost_def failover_ost_def)

lemma set_osc_state_key [simp]: "ost_key (set_osc_state st tnow trcv secs o1) = ost_key o1"
  by (simp add: ost_key_def set_osc_state_def)

text \<open>What an update does to the table.\<close>

lemma update_ost_table:
  assumes "tgt_name_ok ''-OST'' (oi_name i)" "table_ok ost_key l"
  shows "\<exists>l'. update_ost i sv cpu mem l trcv secs = Some l' \<and> table_ok ost_key l' \<and>
    table_of ost_key l' = (table_of ost_key l)(tgt_key ''-OST'' (oi_name i) \<mapsto> set_ost i sv cpu mem trcv
      (case table_of ost_key l (tgt_key ''-OST'' (oi_name i)) of None \<Rightarrow> new_oststat (oi_name i) secs | Some o1 \<Rightarrow> o1))"
  unfolding update_ost_def create_oststat_key(1) [OF assms(1)]
  by (rule upsert_table) (use assms in \<open>auto simp: ost_match_key create_oststat_key(2)\<close>)

lemma update_osc_table:
  assumes "tgt_name_ok ''-OST'' name" "table_ok ost_key l"
  shows "\<exists>l'. update_osc name st l tnow trcv secs = Some l' \<and> table_ok ost_key l' \<and>
    table_of ost_key l' = (table_of ost_key l)(tgt_key ''-OST'' name \<mapsto> set_osc_state st tnow trcv secs
      (case table_of ost_key l (tgt_key ''-OST'' name) of None \<Rightarrow> new_oststat name secs | Some o1 \<Rightarrow> o1))"
  unfolding update_osc_def create_oststat_key(1) [OF assms(1)]
  by (rule upsert_table) (use assms in \<open>auto simp: ost_match_key create_oststat_key(2)\<close>)

section \<open>Summaries\<close>

abbreviation server_of :: "oststat \<Rightarrow> string" where
  "server_of o1 \<equiv> t_servername (o_common o1)"

lemma next_count_name:
  assumes "0 < n" "n < 2 ^ 31 - 1"
  shows "next_count (count_name (int n)) = int n + 1"
proof -
  have "length (dec_string n) \<le> 10" using assms(2) by (intro length_dec_string_le) simp_all
  then have c: "count_name (int n) = ''('' @ dec_string n @ '')''" by (simp add: count_name_def snprintf_def)
  have "conv_int (dec_string n @ '')'') = SOk (False, n) '')''"
    by (rule conv_int_dec_string) (simp add: isdigit_def)
  then have "strtoul10 (dec_string n @ '')'') = (of_nat n, '')'')"
    using assms(2) by (simp add: strtoul10_def strtou64_def)
  then have "next_count (count_name (int n)) = sint (ucast (of_nat n :: u64) + 1 :: u32)"
    by (simp add: next_count_def c)
  also have "(ucast (of_nat n :: u64) :: u32) = of_nat n"
    using assms(2) by (simp add: unsigned_of_nat take_bit_nat_eq_self)
  also have "(of_nat n :: u32) + 1 = word_of_int (int n + 1)" by simp
  also have "sint (word_of_int (int n + 1) :: u32) = int n + 1"
    unfolding sint_sbintrunc' using assms(2) by (intro signed_take_bit_int_eq_self) simp_all
  finally show ?thesis .
qed

lemma merge_ost_server [simp]: "server_of (merge_ost ost srv) = server_of srv"
  by (simp add: merge_ost_def merge_common_def single_ost_update_summary_def Let_def)

lemma new_ost_summary_server [simp]: "server_of (new_ost_summary ost) = server_of ost"
  by (simp add: new_ost_summary_def copy_oststat_def Let_def)

lemma merge_ost_name [simp]: "t_name (o_common (merge_ost ost srv)) = count_name (next_count (t_name (o_common srv)))"
  by (simp add: merge_ost_def merge_common_def single_ost_update_summary_def Let_def)

lemma new_ost_summary_name [simp]: "t_name (o_common (new_ost_summary ost)) = count_name 1"
  by (simp add: new_ost_summary_def Let_def)

text \<open>One record for each server, whose name shows how many targets \<open>cnt\<close> it has.\<close>

definition summary_ok :: "(string \<Rightarrow> nat) \<Rightarrow> oststat list \<Rightarrow> bool" where
  "summary_ok cnt l \<longleftrightarrow> distinct (map server_of l) \<and> (\<forall>s. cnt s > 0 \<longleftrightarrow> s \<in> server_of ` set l) \<and>
     (\<forall>srv \<in> set l. t_name (o_common srv) = count_name (int (cnt (server_of srv))))"

lemma ost_summary_step_servers:
  "map server_of (ost_summary_step l ost) =
     (if server_of ost \<in> server_of ` set l then map server_of l else map server_of l @ [server_of ost])"
  by (induction l) (auto simp: match_oststat2_def)

lemma ost_summary_step_names:
  assumes "distinct (map server_of l)" "srv \<in> set (ost_summary_step l ost)"
  shows "if server_of srv = server_of ost
    then (if server_of ost \<in> server_of ` set l
      then \<exists>o1 \<in> set l. server_of o1 = server_of ost \<and>
        t_name (o_common srv) = count_name (next_count (t_name (o_common o1)))
      else t_name (o_common srv) = count_name 1)
    else srv \<in> set l"
  using assms
proof (induction l)
  case (Cons x l)
  show ?case
  proof (cases "server_of x = server_of ost")
    case True
    then consider "srv = merge_ost ost x" | "srv \<in> set l" using Cons(3) by (auto simp: match_oststat2_def)
    then show ?thesis
    proof cases
      case 1
      then show ?thesis using True by auto
    next
      case 2
      have "server_of x \<notin> server_of ` set l" using Cons(2) by simp
      then have "server_of srv \<noteq> server_of x" using imageI [OF 2, of server_of] by auto
      then show ?thesis using 2 True by simp
    qed
  next
    case False
    then consider "srv = x" | "srv \<in> set (ost_summary_step l ost)" using Cons(3) by (auto simp: match_oststat2_def)
    then show ?thesis
    proof cases
      case 1
      then show ?thesis using False by simp
    next
      case 2
      then show ?thesis using Cons(1,2) False by (auto split: if_splits)
    qed
  qed
qed simp

lemma ost_summary_step_ok:
  assumes "summary_ok cnt l" "cnt (server_of ost) < 2 ^ 31 - 1"
  shows "summary_ok (cnt(server_of ost := cnt (server_of ost) + 1)) (ost_summary_step l ost)"
proof -
  let ?s = "server_of ost" and ?l = "ost_summary_step l ost"
  have d: "distinct (map server_of l)" and c: "\<And>s. cnt s > 0 \<longleftrightarrow> s \<in> server_of ` set l"
    and n: "\<And>srv. srv \<in> set l \<Longrightarrow> t_name (o_common srv) = count_name (int (cnt (server_of srv)))"
    using assms(1) by (auto simp: summary_ok_def)
  have sv: "server_of ` set ?l = insert ?s (server_of ` set l)"
    using arg_cong [OF ost_summary_step_servers [of l ost], of set] by (auto split: if_splits)
  have "distinct (map server_of ?l)" using d by (auto simp: ost_summary_step_servers)
  moreover have "t_name (o_common srv) = count_name (int ((cnt(?s := cnt ?s + 1)) (server_of srv)))" if srv: "srv \<in> set ?l" for srv
  proof (cases "server_of srv = ?s")
    case False
    then show ?thesis using ost_summary_step_names [OF d srv] n by simp
  next
    case True
    show ?thesis
    proof (cases "?s \<in> server_of ` set l")
      case False
      then have "cnt ?s = 0" using c by (metis not_gr_zero)
      then show ?thesis using ost_summary_step_names [OF d srv] True False by simp
    next
      case in_l: True
      then obtain o1 where o1: "o1 \<in> set l" "server_of o1 = ?s" "t_name (o_common srv) = count_name (next_count (t_name (o_common o1)))"
        using ost_summary_step_names [OF d srv] True by auto
      have "next_count (t_name (o_common o1)) = int (cnt ?s) + 1"
        using n [OF o1(1)] next_count_name [of "cnt ?s"] c in_l o1(2) assms(2) by simp
      then show ?thesis using o1(3) True by (simp add: add.commute)
    qed
  qed
  moreover have "(cnt(?s := cnt ?s + 1)) s > 0 \<longleftrightarrow> s \<in> server_of ` set ?l" for s using c sv by auto
  ultimately show ?thesis by (simp add: summary_ok_def)
qed

text \<open>The targets that are not stale.\<close>

definition fresh_osts :: "oststat list \<Rightarrow> int \<Rightarrow> int \<Rightarrow> oststat list" where
  "fresh_osts l tnow secs = filter (\<lambda>o1. tnow - tgt_metric_timestamp (o_common o1) \<le> secs) l"

lemma summarize_fresh: "summarize_target_ost l tnow secs = foldl ost_summary_step [] (fresh_osts l tnow secs)"
proof -
  have "foldl (\<lambda>l ost. if tnow - tgt_metric_timestamp (o_common ost) > secs then l else ost_summary_step l ost) a l =
    foldl ost_summary_step a (fresh_osts l tnow secs)" for a
    by (induction l arbitrary: a) (auto simp: fresh_osts_def)
  then show ?thesis by (simp add: summarize_target_ost_def)
qed

lemma foldl_summary_ok:
  assumes "length l < 2 ^ 31 - 1"
  shows "summary_ok (\<lambda>s. length (filter (\<lambda>o1. server_of o1 = s) l)) (foldl ost_summary_step [] l)"
  using assms
proof (induction l rule: rev_induct)
  case Nil
  then show ?case by (simp add: summary_ok_def)
next
  case (snoc ost l)
  let ?c = "\<lambda>l s. length (filter (\<lambda>o1. server_of o1 = s) l)"
  have "?c l (server_of ost) < 2 ^ 31 - 1"
    by (rule le_less_trans [OF length_filter_le]) (use snoc(2) in simp)
  moreover have "summary_ok (?c l) (foldl ost_summary_step [] l)" using snoc by simp
  ultimately have "summary_ok ((?c l)(server_of ost := ?c l (server_of ost) + 1)) (ost_summary_step (foldl ost_summary_step [] l) ost)"
    by (intro ost_summary_step_ok)
  moreover have "(?c l)(server_of ost := ?c l (server_of ost) + 1) = ?c (l @ [ost])" by (auto simp: fun_eq_iff)
  ultimately show ?case by simp
qed

lemma summary_ok_perm: "summary_ok cnt l \<Longrightarrow> mset l' = mset l \<Longrightarrow> summary_ok cnt l'"
  unfolding summary_ok_def by (metis mset_eq_imp_distinct_iff mset_eq_setD mset_map)

section \<open>Order\<close>

text \<open>The result of a sort depends only on how the elements of the list compare.\<close>

lemma sort_ins_cong:
  "(\<And>e. e \<in> set zs \<Longrightarrow> f d e = g d e) \<Longrightarrow> sort_ins f d zs = sort_ins g d zs"
  unfolding sort_ins_def by (auto cong: takeWhile_cong dropWhile_cong)

lemma sort_spec_cong:
  "(\<And>x y. x \<in> set l \<Longrightarrow> y \<in> set l \<Longrightarrow> f x y = g x y) \<Longrightarrow> sort_spec f l = sort_spec g l"
proof (induction l rule: rev_induct)
  case (snoc x l)
  then have "sort_spec f l = sort_spec g l" by simp
  moreover have "set (sort_spec g l) = set l" using sort_spec_mset [of g l] mset_eq_setD by blast
  ultimately show ?case unfolding sort_spec_snoc using snoc(2) by (auto intro: sort_ins_cong)
qed (simp add: sort_spec_def)

lemma insort_key_cong: "f x = g x \<Longrightarrow> (\<And>y. y \<in> set l \<Longrightarrow> f y = g y) \<Longrightarrow> insort_key f x l = insort_key g x l"
  by (induction l) auto

lemma sort_key_cong: "(\<And>y. y \<in> set l \<Longrightarrow> f y = g y) \<Longrightarrow> sort_key f l = sort_key g l"
  by (induction l) (auto intro: insort_key_cong)

text \<open>A descending comparison of values that are numbers sorts by the value.\<close>

lemma sort_spec_desc:
  assumes "\<forall>x \<in> set l. v x \<noteq> FNaN"
  shows "sort_spec (\<lambda>x y. - 1 * fp_cmp (v x) (v y)) l = sort_key (\<lambda>x. fp_key (fp_neg (v x))) l"
proof -
  define w where "w x = (if v x = FNaN then FFin 0 else v x)" for x
  have w: "w x \<noteq> FNaN" for x by (simp add: w_def)
  have "sort_spec (\<lambda>x y. - 1 * fp_cmp (v x) (v y)) l = sort_spec (\<lambda>x y. - 1 * fp_cmp (w x) (w y)) l"
    by (rule sort_spec_cong) (use assms in \<open>simp add: w_def\<close>)
  also have "\<dots> = sort_key (\<lambda>x. fp_key (fp_neg (w x))) l"
    by (rule sort_spec_key) (use fp_cmp_desc [OF w w] in simp)
  also have "\<dots> = sort_key (\<lambda>x. fp_key (fp_neg (v x))) l"
    by (rule sort_key_cong) (use assms in \<open>auto simp: w_def\<close>)
  finally show ?thesis .
qed

text \<open>What the descending columns show: rates, values and the space used.\<close>

definition ost_col_value :: "nat \<Rightarrow> int \<Rightarrow> oststat \<Rightarrow> fp" where
  "ost_col_value col tnow o1 =
     ([sample_rate (o_connect o1) tnow, sample_rate (o_rbytes o1) tnow, sample_rate (o_wbytes o1) tnow,
       sample_rate (o_iops o1) tnow, sample_val (o_lock_count o1) tnow, sample_val (o_grant_rate o1) tnow,
       sample_val (o_cancel_rate o1) tnow, sample_val (t_pct_cpu (o_common o1)) tnow,
       sample_val (t_pct_mem (o_common o1)) tnow, pct_used (o_kbytes_total o1) (o_kbytes_free o1) tnow] ! (col - 4))"

lemmas ost_cmp_defs = cmp_oststat_byconn_def cmp_oststat_byrbw_def cmp_oststat_bywbw_def cmp_oststat_byiops_def
  cmp_oststat_bylocks_def cmp_oststat_bylgr_def cmp_oststat_bylcr_def cmp_tgtstat_bycpu_def cmp_tgtstat_bymem_def
  cmp_oststat_byspc_def sample_val_cmp_def sample_rate_cmp_def

lemma ost_col_desc:
  assumes "4 \<le> col" "col < 14"
  shows "snd (ost_col tnow ! col) = (\<lambda>o1 o2. - 1 * fp_cmp (ost_col_value col tnow o1) (ost_col_value col tnow o2))"
proof -
  have "col = 4 \<or> col = 5 \<or> col = 6 \<or> col = 7 \<or> col = 8 \<or> col = 9 \<or> col = 10 \<or> col = 11 \<or> col = 12 \<or> col = 13"
    using assms by arith
  then show ?thesis by (elim disjE) (simp_all add: ost_col_def ost_col_value_def ost_cmp_defs fun_eq_iff)
qed

section \<open>Properties\<close>

text \<open>C15: the summary of the targets that are not stale has exactly one record for each of their servers, and the
  count in its name is the number of targets of the server.\<close>

theorem summarize_ost_correct:
  assumes "length ost_data < 2 ^ 31 - 1"
  shows "summary_ok (\<lambda>s. length (filter (\<lambda>o1. server_of o1 = s) (fresh_osts ost_data tnow secs)))
    (summarize_ost ost_data tnow secs)"
proof -
  have "length (fresh_osts ost_data tnow secs) < 2 ^ 31 - 1"
    unfolding fresh_osts_def by (rule le_less_trans [OF length_filter_le assms])
  then have "summary_ok (\<lambda>s. length (filter (\<lambda>o1. server_of o1 = s) (fresh_osts ost_data tnow secs)))
    (summarize_target_ost ost_data tnow secs)" unfolding summarize_fresh by (rule foldl_summary_ok)
  then show ?thesis unfolding summarize_ost_def by (rule summary_ok_perm) (rule sort_spec_mset)
qed

theorem summarize_ost_correct_witness:
  "summary_ok (\<lambda>s. if s = [] then 2 else 0) (summarize_ost [new_oststat ''a-OST0'' 12, new_oststat ''a-OST1'' 12] 10 12)"
proof -
  have f: "fresh_osts [new_oststat ''a-OST0'' 12, new_oststat ''a-OST1'' 12] 10 12 = [new_oststat ''a-OST0'' 12, new_oststat ''a-OST1'' 12]"
    by (simp add: fresh_osts_def new_oststat_def create_oststat_def target_names_def)
  have s: "server_of (new_oststat ''a-OST0'' 12) = []" "server_of (new_oststat ''a-OST1'' 12) = []"
    by (simp_all add: new_oststat_def create_oststat_def target_names_def)
  have "(\<lambda>s. length (filter (\<lambda>o1. server_of o1 = s) [new_oststat ''a-OST0'' 12, new_oststat ''a-OST1'' 12])) =
    (\<lambda>s. if s = [] then 2 else 0)" by (auto simp: s)
  then show ?thesis
    using summarize_ost_correct [of "[new_oststat ''a-OST0'' 12, new_oststat ''a-OST1'' 12]" 10 12] unfolding f by simp
qed

text \<open>The name tagging compares with is never set.\<close>

definition no_ossname :: "oststat \<Rightarrow> bool" where "no_ossname o1 \<longleftrightarrow> o_ossname o1 = []"

lemma upsert_all:
  assumes "upsert P new f l = Some l'" "list_all Q l" "\<And>x. Q x \<Longrightarrow> Q (f x)" "\<And>x. new = Some x \<Longrightarrow> Q x"
  shows "list_all Q l'"
  using assms(1,2)
proof (induction l arbitrary: l')
  case Nil
  then show ?case using assms(3,4) by (cases new) auto
next
  case (Cons x l)
  then show ?case using assms(3) by (auto split: if_splits)
qed

lemma no_ossname_create: "create_oststat name secs = Some o1 \<Longrightarrow> no_ossname o1"
  by (auto simp: create_oststat_def no_ossname_def)

lemma no_ossname_updates:
  "update_ost i sv cpu mem l trcv secs = Some l' \<Longrightarrow> list_all no_ossname l \<Longrightarrow> list_all no_ossname l'"
  "update_osc name st l tnow trcv secs = Some l' \<Longrightarrow> list_all no_ossname l \<Longrightarrow> list_all no_ossname l'"
  unfolding update_ost_def update_osc_def
  by (erule upsert_all; auto dest: no_ossname_create
        simp: no_ossname_def set_ost_def sample_ost_def failover_ost_def set_osc_state_def)+

lemma no_ossname_summary: "list_all no_ossname l \<Longrightarrow> list_all no_ossname (summarize_ost l tnow secs)"
proof -
  assume a: "list_all no_ossname l"
  have step: "list_all no_ossname l \<Longrightarrow> no_ossname ost \<Longrightarrow> list_all no_ossname (ost_summary_step l ost)" for l ost
    by (induction l) (auto simp: no_ossname_def new_ost_summary_def copy_oststat_def merge_ost_def
        single_ost_update_summary_def Let_def)
  have fold: "list_all no_ossname x \<Longrightarrow> list_all no_ossname y \<Longrightarrow> list_all no_ossname (foldl ost_summary_step x y)" for x y
    by (induction y arbitrary: x) (auto simp: step)
  have "list_all no_ossname (fresh_osts l tnow secs)" using a by (auto simp: fresh_osts_def list_all_iff)
  then have "list_all no_ossname (summarize_target_ost l tnow secs)" by (simp add: summarize_fresh fold)
  moreover have "set (summarize_ost l tnow secs) = set (summarize_target_ost l tnow secs)"
    unfolding summarize_ost_def by (rule mset_eq_setD) (rule sort_spec_mset)
  ultimately show ?thesis by (simp add: list_all_iff)
qed

text \<open>C38: tagging one server in the summary tags every target of the file system, not only those of that server:
  the server name the tagging compares is one no function sets.\<close>

theorem tag_server_tags_all:
  assumes "list_all no_ossname ost_data" "0 \<le> sel" "nat sel < length (summarize_ost ost_data tnow secs)"
  shows "\<exists>tag. snd (tag_nth_ost (summarize_ost ost_data tnow secs) sel (Some ost_data)) =
    Some (map (\<lambda>o1. o1\<lparr>o_common := (o_common o1)\<lparr>t_tag := tag\<rparr>\<rparr>) ost_data) \<and>
    tag = (\<not> t_tag (o_common (summarize_ost ost_data tnow secs ! nat sel)))"
proof -
  have "no_ossname (summarize_ost ost_data tnow secs ! nat sel)"
    using no_ossname_summary [OF assms(1)] assms(3) by (simp add: list_all_length)
  then show ?thesis using assms
    by (simp add: tag_nth_ost_def tag_ost_byoss_def toggle_tag_def no_ossname_def list_all_iff Let_def)
qed

theorem tag_server_tags_all_witness:
  "\<exists>tag. snd (tag_nth_ost (summarize_ost [new_oststat ''a-OST0'' 12] 10 12) 0 (Some [new_oststat ''a-OST0'' 12])) =
    Some [(new_oststat ''a-OST0'' 12)\<lparr>o_common := (o_common (new_oststat ''a-OST0'' 12))\<lparr>t_tag := tag\<rparr>\<rparr>]"
proof -
  have f: "fresh_osts [new_oststat ''a-OST0'' 12] 10 12 = [new_oststat ''a-OST0'' 12]"
    by (simp add: fresh_osts_def new_oststat_def create_oststat_def target_names_def)
  have "length (summarize_ost [new_oststat ''a-OST0'' 12] 10 12) = 1"
    unfolding summarize_ost_def summarize_fresh f by (simp add: sort_spec_def sort_ins_def)
  moreover have "list_all no_ossname [new_oststat ''a-OST0'' 12]"
    by (simp add: no_ossname_def new_oststat_def create_oststat_def target_names_def)
  ultimately have "\<exists>tag. snd (tag_nth_ost (summarize_ost [new_oststat ''a-OST0'' 12] 10 12) 0 (Some [new_oststat ''a-OST0'' 12])) =
    Some (map (\<lambda>o1. o1\<lparr>o_common := (o_common o1)\<lparr>t_tag := tag\<rparr>\<rparr>) [new_oststat ''a-OST0'' 12]) \<and>
    tag = (\<not> t_tag (o_common (summarize_ost [new_oststat ''a-OST0'' 12] 10 12 ! nat 0)))"
    by (intro tag_server_tags_all) simp_all
  then show ?thesis unfolding list.map by blast
qed

text \<open>C16: sorting by one of the descending columns is the stable sort by what the column shows, largest first, as
  long as no value is NaN.\<close>

theorem sort_ost_correct:
  assumes "4 \<le> col" "col < 14" "\<forall>o1 \<in> set l. ost_col_value col tnow o1 \<noteq> FNaN"
  shows "sort_ostlist col tnow l = sort_key (\<lambda>o1. fp_key (fp_neg (ost_col_value col tnow o1))) l"
  unfolding sort_ostlist_def ost_col_desc [OF assms(1,2)] by (rule sort_spec_desc [OF assms(3)])

theorem sort_ost_correct_witness:
  "sort_ostlist 5 10 [new_oststat ''a-OST0'' 12, new_oststat ''a-OST1'' 12] =
   sort_key (\<lambda>o1. fp_key (fp_neg (sample_rate (o_rbytes o1) 10))) [new_oststat ''a-OST0'' 12, new_oststat ''a-OST1'' 12]"
proof -
  have v: "ost_col_value 5 10 = (\<lambda>o1. sample_rate (o_rbytes o1) 10)" by (simp add: ost_col_value_def fun_eq_iff)
  have "\<forall>o1 \<in> set [new_oststat ''a-OST0'' 12, new_oststat ''a-OST1'' 12]. ost_col_value 5 10 o1 \<noteq> FNaN"
    unfolding v by (simp add: new_oststat_def create_oststat_def target_names_def sample_rate_def sample_create_def)
  from sort_ost_correct [OF _ _ this] show ?thesis unfolding v by simp
qed

lemma takeWhile_neq_first: "k \<in> set c \<Longrightarrow> length (takeWhile (\<lambda>x. x \<noteq> k) c) < length c"
  by (induction c) auto

text \<open>The sort column stays within the table, a key that names a column selects the first column with that key,
  and \<open><\<close> undoes \<open>>\<close>.\<close>

theorem get_sort_index_correct:
  assumes "i < length c"
  shows "\<exists>j. get_sort_index k i c = Some j \<and> j < length c \<and>
    (k \<notin> {None, Some CHR ''<'', Some CHR ''>''} \<longrightarrow> k \<in> set c \<longrightarrow> c ! j = k \<and> (\<forall>m < j. c ! m \<noteq> k)) \<and>
    (k = Some CHR ''>'' \<longrightarrow> get_sort_index (Some CHR ''<'') j c = Some i)"
proof -
  let ?j = "length (takeWhile (\<lambda>x. x \<noteq> k) c)"
  have "k \<in> set c \<Longrightarrow> ?j < length c" by (rule takeWhile_neq_first)
  moreover have "k \<in> set c \<Longrightarrow> c ! ?j = k" using nth_length_takeWhile [OF takeWhile_neq_first] by auto
  moreover have "c ! m \<noteq> k" if m: "m < ?j" for m
    using nth_mem [OF m] set_takeWhileD takeWhile_nth [OF m] by metis
  ultimately show ?thesis using assms by (auto simp: get_sort_index_def Let_def)
qed

theorem get_sort_index_correct_witness: "get_sort_index (Some CHR ''w'') 0 (map fst (ost_col 0)) = Some 6"
proof -
  have "\<exists>j. get_sort_index (Some CHR ''w'') 0 (map fst (ost_col 0)) = Some j"
    using get_sort_index_correct [of 0 "map fst (ost_col 0)" "Some CHR ''w''"] by (auto simp: ost_col_def)
  then show ?thesis by (auto simp: get_sort_index_def ost_col_def)
qed

end
