(* ===== verification/Lmt_Ltop_View.thy ===== *)
theory Lmt_Ltop_View
  imports Lmt_Ltop_Ost
begin

text \<open>
  What \<open>ltop\<close> promises to show of an object storage target, stated without its code: a view holds, for each of twelve
  counters, the history of the printed values, and a received target info extends these histories. The table of
  \<open>utils/ltop.c\<close> (\<open>Lmt_Ltop_Ost\<close>) refines the table of views.
\<close>

section \<open>Views\<close>

datatype counter = Read_bytes | Write_bytes | Iops | Exports | Locks | Grant_rate | Cancel_rate | Connects
  | Kbytes_free | Kbytes_total | Cpu | Mem

text \<open>The field of a record that is to show a counter.\<close>

fun ost_field :: "counter \<Rightarrow> oststat \<Rightarrow> sample" where
  "ost_field Read_bytes o1 = o_rbytes o1"
| "ost_field Write_bytes o1 = o_wbytes o1"
| "ost_field Iops o1 = o_iops o1"
| "ost_field Exports o1 = o_num_exports o1"
| "ost_field Locks o1 = o_lock_count o1"
| "ost_field Grant_rate o1 = o_grant_rate o1"
| "ost_field Cancel_rate o1 = o_cancel_rate o1"
| "ost_field Connects o1 = o_connect o1"
| "ost_field Kbytes_free o1 = o_kbytes_free o1"
| "ost_field Kbytes_total o1 = o_kbytes_total o1"
| "ost_field Cpu o1 = t_pct_cpu (o_common o1)"
| "ost_field Mem o1 = t_pct_mem (o_common o1)"

text \<open>The value the server sent for a counter; connects and reconnects are added modulo \<open>2^64\<close>.\<close>

fun sent :: "ostinfo \<Rightarrow> fp \<Rightarrow> fp \<Rightarrow> counter \<Rightarrow> fp" where
  "sent i cpu mem Read_bytes = fp_of_u64 (oi_read_bytes i)"
| "sent i cpu mem Write_bytes = fp_of_u64 (oi_write_bytes i)"
| "sent i cpu mem Iops = fp_of_u64 (oi_iops i)"
| "sent i cpu mem Exports = fp_of_u64 (oi_num_exports i)"
| "sent i cpu mem Locks = fp_of_u64 (oi_lock_count i)"
| "sent i cpu mem Grant_rate = fp_of_u64 (oi_grant_rate i)"
| "sent i cpu mem Cancel_rate = fp_of_u64 (oi_cancel_rate i)"
| "sent i cpu mem Connects = fp_of_u64 (oi_connect i + oi_reconnect i)"
| "sent i cpu mem Kbytes_free = fp_of_u64 (oi_kbytes_free i)"
| "sent i cpu mem Kbytes_total = fp_of_u64 (oi_kbytes_total i)"
| "sent i cpu mem Cpu = cpu"
| "sent i cpu mem Mem = mem"

text \<open>The histories that survive a failover to another server.\<close>

definition survives :: "counter \<Rightarrow> bool" where
  "survives k \<longleftrightarrow> k \<in> {Grant_rate, Cancel_rate, Connects}"

record ost_view =
  v_server :: string
  v_time :: int
  v_recov :: string
  v_state :: string
  v_tag :: bool
  v_limit :: int
  v_hist :: "counter \<Rightarrow> (int \<times> fp) list"

text \<open>A record shows a view: the samples show the histories, with the limit for stale values.\<close>

definition ost_shows :: "oststat \<Rightarrow> ost_view \<Rightarrow> bool" where
  "ost_shows o1 v \<longleftrightarrow> t_servername (o_common o1) = v_server v \<and> tgt_metric_timestamp (o_common o1) = v_time v \<and>
     t_recov_status (o_common o1) = v_recov v \<and> t_tgtstate (o_common o1) = v_state v \<and> t_tag (o_common o1) = v_tag v \<and>
     (\<forall>k. stale_secs (ost_field k o1) = v_limit v \<and> displays (ost_field k o1) (v_hist v k))"

definition new_view :: "int \<Rightarrow> ost_view" where
  "new_view secs = \<lparr>v_server = [], v_time = 0, v_recov = [], v_state = [], v_tag = False, v_limit = secs, v_hist = (\<lambda>_. [])\<rparr>"

text \<open>A target info of server \<open>sv\<close>, collected at \<open>t\<close>. One that is not newer than the last one is ignored. When the
  server changed, its name is replaced (63 characters are kept) and the histories that do not survive start anew.\<close>

definition receive :: "string \<Rightarrow> fp \<Rightarrow> fp \<Rightarrow> int \<Rightarrow> ostinfo \<Rightarrow> ost_view \<Rightarrow> ost_view" where
  "receive sv cpu mem t i v =
     (if t \<le> v_time v then v
      else v\<lparr>v_server := if sv = v_server v then sv else take 63 sv, v_time := t,
             v_recov := take (recovery_str_size - 1) (oi_recov_status i),
             v_hist := (\<lambda>k. accept (if sv = v_server v \<or> survives k then v_hist v k else []) (t, sent i cpu mem k))\<rparr>)"

text \<open>The target named \<open>fs-OSTxxxx\<close> is filed under \<open>fs\<close> and \<open>xxxx\<close>; a target heard of for the first time gets a new view.\<close>

definition receive_all ::
    "string \<Rightarrow> fp \<Rightarrow> fp \<Rightarrow> int \<Rightarrow> int \<Rightarrow> ostinfo list \<Rightarrow> (string \<times> string \<rightharpoonup> ost_view) \<Rightarrow> string \<times> string \<rightharpoonup> ost_view" where
  "receive_all sv cpu mem t secs is V = fold (\<lambda>i V. V(tgt_key ''-OST'' (oi_name i) \<mapsto> receive sv cpu mem t i
     (case V (tgt_key ''-OST'' (oi_name i)) of None \<Rightarrow> new_view secs | Some v \<Rightarrow> v))) is V"

text \<open>A table shows a table of views: the same targets, each record its view.\<close>

definition table_shows :: "oststat list \<Rightarrow> (string \<times> string \<rightharpoonup> ost_view) \<Rightarrow> bool" where
  "table_shows l V \<longleftrightarrow> table_ok ost_key l \<and> (\<forall>k. rel_option ost_shows (table_of ost_key l k) (V k))"

section \<open>Refinement\<close>

lemma new_oststat_shows:
  assumes "tgt_name_ok ''-OST'' name"
  shows "ost_shows (new_oststat name secs) (new_view secs)"
proof -
  obtain f x where "target_names ''-OST'' name = Some (x, f)"
    using match_target_key(2) [of "''OST''" name] assms by simp
  then have n: "ost_field k (new_oststat name secs) = sample_create secs" for k
    by (cases k) (simp_all add: new_oststat_def create_oststat_def)
  show ?thesis using \<open>target_names ''-OST'' name = Some (x, f)\<close>
    by (simp add: ost_shows_def n displays_create new_view_def)
      (simp add: new_oststat_def create_oststat_def sample_create_def)
qed

text \<open>The fields of an updated record.\<close>

lemma sample_ost_field:
  "ost_field k (sample_ost i cpu mem t o1) = sample_update (ost_field k o1) (sent i cpu mem k) t"
  by (cases k) (simp_all add: sample_ost_def)

lemma failover_ost_field:
  "ost_field k (failover_ost sv o1) =
     (if sv = t_servername (o_common o1) \<or> survives k then ost_field k o1 else sample_invalidate (ost_field k o1))"
  by (cases k) (simp_all add: failover_ost_def survives_def)

lemma set_ost_shows:
  assumes "ost_shows o1 v"
  shows "ost_shows (set_ost i sv cpu mem t o1) (receive sv cpu mem t i v)"
proof (cases "t \<le> v_time v")
  case True
  then show ?thesis using assms by (simp add: ost_shows_def set_ost_def receive_def)
next
  case False
  let ?o = "sample_ost i cpu mem t (failover_ost sv o1)"
  have v: "t_servername (o_common o1) = v_server v" "tgt_metric_timestamp (o_common o1) = v_time v"
    "t_tgtstate (o_common o1) = v_state v" "t_tag (o_common o1) = v_tag v"
    "\<And>k. stale_secs (ost_field k o1) = v_limit v" "\<And>k. displays (ost_field k o1) (v_hist v k)"
    using assms by (simp_all add: ost_shows_def)
  have d: "displays (ost_field k ?o) (accept (if sv = v_server v \<or> survives k then v_hist v k else []) (t, sent i cpu mem k))" for k
    unfolding sample_ost_field failover_ost_field v(1)
    by (rule displays_update) (simp add: v(6) displays_invalidate)
  have s: "stale_secs (ost_field k ?o) = v_limit v" for k
    by (simp add: sample_ost_field failover_ost_field v(5) sample_invalidate_def)
  have c: "t_servername (o_common ?o) = (if sv = v_server v then sv else take 63 sv)" "tgt_metric_timestamp (o_common ?o) = t"
    "t_recov_status (o_common ?o) = take (recovery_str_size - 1) (oi_recov_status i)"
    "t_tgtstate (o_common ?o) = v_state v" "t_tag (o_common ?o) = v_tag v"
    using v(1,3,4) by (simp_all add: sample_ost_def failover_ost_def snprintf_def)
  have "set_ost i sv cpu mem t o1 = ?o" using False v(2) by (simp add: set_ost_def)
  then show ?thesis using False by (simp add: ost_shows_def receive_def c d s)
qed

text \<open>One target info, then all of a string.\<close>

lemma update_ost_shows:
  assumes "tgt_name_ok ''-OST'' (oi_name i)" "table_shows l V"
  shows "\<exists>l'. update_ost i sv cpu mem l t secs = Some l' \<and> table_shows l' (receive_all sv cpu mem t secs [i] V)"
proof -
  let ?k = "tgt_key ''-OST'' (oi_name i)"
  obtain l' where l': "update_ost i sv cpu mem l t secs = Some l'" "table_ok ost_key l'"
    "table_of ost_key l' = (table_of ost_key l)(?k \<mapsto> set_ost i sv cpu mem t
       (case table_of ost_key l ?k of None \<Rightarrow> new_oststat (oi_name i) secs | Some o1 \<Rightarrow> o1))"
    using update_ost_table assms unfolding table_shows_def by blast
  have r: "rel_option ost_shows (table_of ost_key l k) (V k)" for k
    using assms(2) unfolding table_shows_def by blast
  have "ost_shows (case table_of ost_key l ?k of None \<Rightarrow> new_oststat (oi_name i) secs | Some o1 \<Rightarrow> o1)
      (case V ?k of None \<Rightarrow> new_view secs | Some v \<Rightarrow> v)"
    using r [of ?k] new_oststat_shows [OF assms(1)] by (cases rule: option.rel_cases) auto
  then have "table_shows l' (receive_all sv cpu mem t secs [i] V)"
    using l'(2,3) r set_ost_shows by (simp add: table_shows_def receive_all_def)
  then show ?thesis using l'(1) by blast
qed

lemma receive_all_Cons: "receive_all sv cpu mem t secs (i # is) V = receive_all sv cpu mem t secs is (receive_all sv cpu mem t secs [i] V)"
  by (simp add: receive_all_def)

lemma update_each_ost:
  assumes "list_all (\<lambda>i. wanted fs (oi_name i) \<longrightarrow> tgt_name_ok ''-OST'' (oi_name i)) is" "table_shows l V"
    and "\<And>i. i \<in> set is \<Longrightarrow> dec (enc i) = Some i"
  shows "\<exists>l'. update_each dec (\<lambda>i l. if wanted fs (oi_name i) then update_ost i sv cpu mem l t secs else Some l)
      (map enc is) l = Some l' \<and> table_shows l' (receive_all sv cpu mem t secs (filter (\<lambda>i. wanted fs (oi_name i)) is) V)"
  using assms
proof (induction "is" arbitrary: l V)
  case Nil
  then show ?case by (simp add: receive_all_def)
next
  case (Cons i "is")
  show ?case
  proof (cases "wanted fs (oi_name i)")
    case True
    obtain l1 where l1: "update_ost i sv cpu mem l t secs = Some l1" "table_shows l1 (receive_all sv cpu mem t secs [i] V)"
      using update_ost_shows [OF _ Cons(3)] Cons(2) True by fastforce
    show ?thesis using Cons(1) [OF _ l1(2)] Cons(2,4) l1(1) True
      by (simp add: receive_all_Cons [of _ _ _ _ _ i "filter _ _"])
  next
    case False
    then show ?thesis using Cons by simp
  qed
qed

lemma decode_ost_shows:
  assumes "field_ok host" "list_all ostinfo_ok is" "table_shows l V"
    and "list_all (\<lambda>i. wanted fs (oi_name i) \<longrightarrow> tgt_name_ok ''-OST'' (oi_name i)) is"
  shows "\<exists>l'. decode_ost_v2 (ost_text host cpu mem is) fs l t secs = Some l' \<and>
    table_shows l' (receive_all (short_name host) (reread_f cpu) (reread_f mem) t secs (filter (\<lambda>i. wanted fs (oi_name i)) is) V)"
  unfolding decode_ost_v2_def decode_ost_text [OF assms(1,2)] option.case prod.case
  by (rule update_each_ost [OF assms(4,3)]) (use assms(2) decode_ost_string in \<open>simp add: list_all_iff\<close>)

text \<open>What the columns show of a history: the newest value, and the slope of the two newest.\<close>

lemma ost_shows_columns:
  assumes "ost_shows o1 v"
  shows "sample_val (ost_field k o1) tnow = (case v_hist v k of [] \<Rightarrow> FFin 0 | (t, x) # _ \<Rightarrow> if tnow - t \<le> v_limit v then x else FFin 0)"
    "sample_rate (ost_field k o1) tnow =
       (case v_hist v k of q # p # _ \<Rightarrow> if tnow - fst q \<le> v_limit v then slope p q else FFin 0 | _ \<Rightarrow> FFin 0)"
proof -
  have k: "displays (ost_field k o1) (v_hist v k)" "stale_secs (ost_field k o1) = v_limit v" using assms by (simp_all add: ost_shows_def)
  show "sample_val (ost_field k o1) tnow = (case v_hist v k of [] \<Rightarrow> FFin 0 | (t, x) # _ \<Rightarrow> if tnow - t \<le> v_limit v then x else FFin 0)"
    unfolding sample_val_displays [OF k(1)] k(2) ..
  show "sample_rate (ost_field k o1) tnow =
       (case v_hist v k of q # p # _ \<Rightarrow> if tnow - fst q \<le> v_limit v then slope p q else FFin 0 | _ \<Rightarrow> FFin 0)"
    unfolding sample_rate_displays [OF k(1)] k(2) ..
qed

lemma table_shows_new: "table_shows [] (\<lambda>_. None)"
  by (simp add: table_shows_def table_ok_def table_of_def)

lemma table_shows_lookup:
  assumes "table_shows l V" "V k = Some v"
  obtains o1 where "o1 \<in> set l" "ost_key o1 = k" "ost_shows o1 v"
proof -
  have "rel_option ost_shows (table_of ost_key l k) (Some v)" using assms by (metis table_shows_def)
  then obtain o1 where "table_of ost_key l k = Some o1" "ost_shows o1 v" by (auto simp: option_rel_Some2)
  then show ?thesis using that by (auto simp: table_of_def dest!: map_of_SomeD)
qed

section \<open>Properties\<close>

text \<open>C7: \<open>ltop\<close> shows what the servers sent. When the table shows the views \<open>V\<close>, reading the metric string of an object
  storage server, whose names hold no delimiter and whose wanted targets have names \<open>fs-OSTxxxx\<close> that fit a record, leaves
  a table with one record per target that shows the views after receiving, in order, the infos of the wanted targets:
  each counter's history gets the value the server printed under the counter's own name (percentages to six decimals),
  on a failover the histories of the other server are dropped but those of grant rate, cancel rate and connects, an info not newer than the target's last one is ignored, missing targets are
  created, and the others stay as they are.\<close>

theorem ltop_ost_correct:
  assumes "field_ok host" "list_all ostinfo_ok is" "table_shows l V"
    and "list_all (\<lambda>i. wanted fs (oi_name i) \<longrightarrow> tgt_name_ok ''-OST'' (oi_name i)) is"
  shows "\<exists>l'. decode_ost_v2 (ost_text host cpu mem is) fs l t secs = Some l' \<and>
    table_shows l' (receive_all (short_name host) (reread_f cpu) (reread_f mem) t secs (filter (\<lambda>i. wanted fs (oi_name i)) is) V)"
  by (rule decode_ost_shows [OF assms])

theorem ltop_ost_correct_witness:
  "\<exists>l' o1. decode_ost_v2 (ost_text ''oss1.llnl.gov'' (FFin 50) (FFin 75) [ostinfo_example]) (Some ''a'') [] 100 12 = Some l' \<and>
    o1 \<in> set l' \<and> ost_key o1 = (''a'', ''0'') \<and> t_servername (o_common o1) = ''oss1'' \<and>
    sample_val (o_rbytes o1) 101 = FFin 77 \<and> sample_val (o_wbytes o1) 101 = FFin 0 \<and>
    sample_val (o_num_exports o1) 101 = FFin 15 \<and> sample_val (o_rbytes o1) 113 = FFin 0"
proof -
  have sp: "strstr_split ''a-OST0'' ''-OST'' = Some (''a'', ''0'')" by simp
  have w: "wanted (Some ''a'') ''a-OST0''" by (simp add: wanted_def fsmatch_def before_last_hyphen_def)
  have n: "oi_name ostinfo_example = ''a-OST0''" by (simp add: ostinfo_example_def)
  have "\<exists>l'. decode_ost_v2 (ost_text ''oss1.llnl.gov'' (FFin 50) (FFin 75) [ostinfo_example]) (Some ''a'') [] 100 12 = Some l' \<and>
    table_shows l' (receive_all (short_name ''oss1.llnl.gov'') (reread_f (FFin 50)) (reread_f (FFin 75)) 100 12
      (filter (\<lambda>i. wanted (Some ''a'') (oi_name i)) [ostinfo_example]) (\<lambda>_. None))"
    by (rule ltop_ost_correct [OF _ _ table_shows_new])
      (simp_all add: field_ok_def ostinfo_ok_def tgt_name_ok_def sp n, simp add: ostinfo_example_def)
  then obtain l' where l': "decode_ost_v2 (ost_text ''oss1.llnl.gov'' (FFin 50) (FFin 75) [ostinfo_example]) (Some ''a'') [] 100 12 = Some l'"
    "table_shows l' ((\<lambda>_. None)((''a'', ''0'') \<mapsto> receive ''oss1'' (reread_f (FFin 50)) (reread_f (FFin 75)) 100 ostinfo_example (new_view 12)))"
    by (auto simp: n w receive_all_def tgt_key_def sp short_name_def simp del: reread_f.simps)
  then obtain o1 where o1: "o1 \<in> set l'" "ost_key o1 = (''a'', ''0'')"
    "ost_shows o1 (receive ''oss1'' (reread_f (FFin 50)) (reread_f (FFin 75)) 100 ostinfo_example (new_view 12))"
    by (auto elim: table_shows_lookup)
  have f: "fp_of_u64 77 = FFin 77" "fp_of_u64 0 = FFin 0" "fp_of_u64 15 = FFin 15" by code_simp+
  have "t_servername (o_common o1) = ''oss1''" using o1(3) by (simp add: ost_shows_def receive_def new_view_def)
  moreover have "sample_val (o_rbytes o1) 101 = FFin 77" "sample_val (o_wbytes o1) 101 = FFin 0"
    "sample_val (o_num_exports o1) 101 = FFin 15" "sample_val (o_rbytes o1) 113 = FFin 0"
    using ost_shows_columns(1) [OF o1(3), of Read_bytes] ost_shows_columns(1) [OF o1(3), of Write_bytes]
      ost_shows_columns(1) [OF o1(3), of Exports]
    by (simp_all add: receive_def new_view_def ostinfo_example_def f)
  ultimately show ?thesis using l'(1) o1(1,2) by blast
qed

end
