(* ===== verification/Lmt_Ltop_Mdt.thy ===== *)
theory Lmt_Ltop_Mdt
  imports Lmt_Ltop_Ost Lmt_Mdt
begin

text \<open>
  \<open>utils/ltop.c\<close>, the metadata targets. A summary record of a metadata server shares two samples with the target
  it was copied from, so samples live in an explicit heap and records hold their addresses. Reading, writing or
  freeing an address that is not allocated is undefined in C; the model returns \<open>None\<close>.
\<close>

section \<open>Heap of samples\<close>

type_synonym addr = nat

record heap =
  h_mem :: "addr \<Rightarrow> sample option"
  h_next :: addr

text \<open>Consecutive allocations; the result is the first address.\<close>

definition alloc :: "sample list \<Rightarrow> heap \<Rightarrow> addr \<times> heap" where
  "alloc ss h =
     (h_next h, h\<lparr>h_mem := (\<lambda>a. if h_next h \<le> a \<and> a < h_next h + length ss then Some (ss ! (a - h_next h)) else h_mem h a),
                 h_next := h_next h + length ss\<rparr>)"

fun read_samples :: "addr list \<Rightarrow> heap \<Rightarrow> sample list option" where
  "read_samples [] h = Some []"
| "read_samples (a # as) h =
     (case h_mem h a of None \<Rightarrow> None | Some s \<Rightarrow> map_option ((#) s) (read_samples as h))"

text \<open>A sequence of in-place operations.\<close>

fun apply_upds :: "(addr \<times> (sample \<Rightarrow> sample)) list \<Rightarrow> heap \<Rightarrow> heap option" where
  "apply_upds [] h = Some h"
| "apply_upds ((a, f) # us) h =
     (case h_mem h a of None \<Rightarrow> None | Some s \<Rightarrow> apply_upds us (h\<lparr>h_mem := (h_mem h)(a \<mapsto> f s)\<rparr>))"

text \<open>\<open>sample_add\<close> of two samples in the heap.\<close>

fun add_samples :: "(addr \<times> addr) list \<Rightarrow> heap \<Rightarrow> heap option" where
  "add_samples [] h = Some h"
| "add_samples ((a1, a2) # as) h =
     (case (h_mem h a1, h_mem h a2) of
        (Some s1, Some s2) \<Rightarrow> add_samples as (h\<lparr>h_mem := (h_mem h)(a1 \<mapsto> sample_add s1 s2)\<rparr>)
      | _ \<Rightarrow> None)"

fun free_samples :: "addr list \<Rightarrow> heap \<Rightarrow> heap option" where
  "free_samples [] h = Some h"
| "free_samples (a # as) h =
     (case h_mem h a of None \<Rightarrow> None | Some s \<Rightarrow> free_samples as (h\<lparr>h_mem := (h_mem h)(a := None)\<rparr>))"

section \<open>Records\<close>

record mdtstat =
  m_common :: "addr target"
  m_inodes_free :: addr
  m_inodes_total :: addr
  m_open :: addr
  m_close :: addr
  m_getattr :: addr
  m_setattr :: addr
  m_link :: addr
  m_unlink :: addr
  m_mkdir :: addr
  m_rmdir :: addr
  m_statfs :: addr
  m_rename :: addr
  m_kbytes_free :: addr
  m_kbytes_total :: addr
  m_getxattr :: addr
  m_read_bytes :: addr
  m_write_bytes :: addr

text \<open>The samples of a record in the order of \<open>_destroy_mdtstat\<close>.\<close>

definition mdt_addrs :: "mdtstat \<Rightarrow> addr list" where
  "mdt_addrs m =
     [m_inodes_free m, m_inodes_total m, m_open m, m_close m, m_getattr m, m_setattr m, m_link m, m_unlink m,
      m_mkdir m, m_rmdir m, m_statfs m, m_rename m, m_kbytes_free m, m_kbytes_total m,
      t_pct_cpu (m_common m), t_pct_mem (m_common m), m_getxattr m, m_read_bytes m, m_write_bytes m]"

definition create_mdtstat :: "string \<Rightarrow> int \<Rightarrow> heap \<Rightarrow> (mdtstat \<times> heap) option" where
  "create_mdtstat name secs h =
     map_option (\<lambda>(n, f). case alloc (replicate 19 (sample_create secs)) h of (a, h') \<Rightarrow>
       (\<lparr>m_common = \<lparr>t_fsname = f, t_name = n, t_servername = [], tgt_metric_timestamp = 0, t_recov_status = [],
           t_tgtstate = [], t_pct_cpu = a + 14, t_pct_mem = a + 15, t_tag = False\<rparr>,
         m_inodes_free = a, m_inodes_total = a + 1, m_open = a + 2, m_close = a + 3, m_getattr = a + 4,
         m_setattr = a + 5, m_link = a + 6, m_unlink = a + 7, m_mkdir = a + 8, m_rmdir = a + 9,
         m_statfs = a + 10, m_rename = a + 11, m_kbytes_free = a + 12, m_kbytes_total = a + 13,
         m_getxattr = a + 16, m_read_bytes = a + 17, m_write_bytes = a + 18\<rparr>, h')) (target_names ''-MDT'' name)"

text \<open>Every sample is copied but \<open>kbytes_free\<close> and \<open>kbytes_total\<close>, whose pointers are kept.\<close>

definition copy_mdtstat :: "mdtstat \<Rightarrow> heap \<Rightarrow> (mdtstat \<times> heap) option" where
  "copy_mdtstat src h =
     map_option (\<lambda>ss. case alloc (map sample_copy ss) h of (a, h') \<Rightarrow>
       (src\<lparr>m_inodes_free := a, m_inodes_total := a + 1, m_open := a + 2, m_close := a + 3, m_getattr := a + 4,
            m_setattr := a + 5, m_link := a + 6, m_unlink := a + 7, m_mkdir := a + 8, m_rmdir := a + 9,
            m_statfs := a + 10, m_rename := a + 11,
            m_common := (m_common src)\<lparr>t_pct_cpu := a + 12, t_pct_mem := a + 13\<rparr>,
            m_getxattr := a + 14, m_read_bytes := a + 15, m_write_bytes := a + 16\<rparr>, h'))
       (read_samples [m_inodes_free src, m_inodes_total src, m_open src, m_close src, m_getattr src, m_setattr src,
          m_link src, m_unlink src, m_mkdir src, m_rmdir src, m_statfs src, m_rename src,
          t_pct_cpu (m_common src), t_pct_mem (m_common src), m_getxattr src, m_read_bytes src, m_write_bytes src] h)"

definition destroy_mdtstat :: "mdtstat \<Rightarrow> heap \<Rightarrow> heap option" where
  "destroy_mdtstat m h = free_samples (mdt_addrs m) h"

text \<open>The list of servers is created with \<open>_destroy_oststat\<close> as its delete function. Applied to an \<open>mdtstat_t\<close>,
  the ten sample pointers behind the common part of an \<open>oststat_t\<close> are the first ten of the \<open>mdtstat_t\<close>.\<close>

definition destroy_mds :: "mdtstat \<Rightarrow> heap \<Rightarrow> heap option" where
  "destroy_mds m h = free_samples
     [m_inodes_free m, m_inodes_total m, m_open m, m_close m, m_getattr m, m_setattr m, m_link m, m_unlink m,
      m_mkdir m, m_rmdir m, t_pct_cpu (m_common m), t_pct_mem (m_common m)] h"

fun empty_out :: "(mdtstat \<Rightarrow> heap \<Rightarrow> heap option) \<Rightarrow> mdtstat list \<Rightarrow> heap \<Rightarrow> heap option" where
  "empty_out del [] h = Some h"
| "empty_out del (m # l) h = (case del m h of None \<Rightarrow> None | Some h' \<Rightarrow> empty_out del l h')"

definition match_mdtstat :: "mdtstat \<Rightarrow> string \<Rightarrow> bool" where
  "match_mdtstat m name \<longleftrightarrow> match_target ''-MDT'' (m_common m) name"

definition match_mdtstat2 :: "mdtstat \<Rightarrow> string \<Rightarrow> bool" where
  "match_mdtstat2 m name \<longleftrightarrow> t_servername (m_common m) = name"

section \<open>Updates\<close>

fun upsert_heap :: "('a \<Rightarrow> bool) \<Rightarrow> (heap \<Rightarrow> ('a \<times> heap) option) \<Rightarrow> ('a \<Rightarrow> heap \<Rightarrow> ('a \<times> heap) option) \<Rightarrow>
    'a list \<Rightarrow> heap \<Rightarrow> ('a list \<times> heap) option" where
  "upsert_heap P new f [] h =
     (case new h of None \<Rightarrow> None | Some (x, h1) \<Rightarrow> map_option (\<lambda>(x', h2). ([x'], h2)) (f x h1))"
| "upsert_heap P new f (x # xs) h =
     (if P x then map_option (\<lambda>(x', h1). (x' # xs, h1)) (f x h)
      else map_option (\<lambda>(xs', h1). (x # xs', h1)) (upsert_heap P new f xs h))"

text \<open>The sample an operation updates, and with which of its counters.\<close>

definition mdop_upd :: "mdtstat \<Rightarrow> int \<Rightarrow> string \<times> mdop \<Rightarrow> (addr \<times> (sample \<Rightarrow> sample)) list" where
  "mdop_upd m trcv op =
     (case op of (opname, samples, ssum, sumsquares) \<Rightarrow>
        (let upd = (\<lambda>a v. [(a, \<lambda>s. sample_update s (fp_of_u64 v) trcv)])
         in if opname = ''open'' then upd (m_open m) samples
            else if opname = ''close'' then upd (m_close m) samples
            else if opname = ''getattr'' then upd (m_getattr m) samples
            else if opname = ''setattr'' then upd (m_setattr m) samples
            else if opname = ''link'' then upd (m_link m) samples
            else if opname = ''unlink'' then upd (m_unlink m) samples
            else if opname = ''mkdir'' then upd (m_mkdir m) samples
            else if opname = ''rmdir'' then upd (m_rmdir m) samples
            else if opname = ''statfs'' then upd (m_statfs m) samples
            else if opname = ''rename'' then upd (m_rename m) samples
            else if opname = ''getxattr'' then upd (m_getxattr m) samples
            else if opname = ''read_bytes'' then upd (m_read_bytes m) ssum
            else if opname = ''write_bytes'' then upd (m_write_bytes m) ssum
            else []))"

text \<open>The operations that decode, in order.\<close>

definition mdops_upds :: "mdtstat \<Rightarrow> int \<Rightarrow> string list \<Rightarrow> (addr \<times> (sample \<Rightarrow> sample)) list" where
  "mdops_upds m trcv mdops =
     concat (map (\<lambda>s. case lmt_mdt_decode_v1_mdops s of None \<Rightarrow> [] | Some op \<Rightarrow> mdop_upd m trcv op) mdops)"

text \<open>The samples in the order of the failover branch.\<close>

definition failover_upds :: "mdtstat \<Rightarrow> (addr \<times> (sample \<Rightarrow> sample)) list" where
  "failover_upds m = map (\<lambda>a. (a, sample_invalidate))
     [m_inodes_free m, m_inodes_total m, m_open m, m_close m, m_getattr m, m_setattr m, m_link m, m_unlink m,
      m_mkdir m, m_rmdir m, m_statfs m, m_rename m, m_kbytes_free m, m_kbytes_total m, m_getxattr m,
      t_pct_cpu (m_common m), t_pct_mem (m_common m), m_read_bytes m, m_write_bytes m]"

definition failover_mdt :: "string \<Rightarrow> mdtstat \<Rightarrow> mdtstat" where
  "failover_mdt servername m =
     m\<lparr>m_common := (m_common m)\<lparr>t_servername := snd (snprintf 64 servername), t_recov_status := []\<rparr>\<rparr>"

text \<open>Free and total inodes, free and total kilobytes.\<close>

definition set_mdt :: "u64 \<times> u64 \<times> u64 \<times> u64 \<Rightarrow> string \<Rightarrow> fp \<Rightarrow> fp \<Rightarrow> string option \<Rightarrow> string list \<Rightarrow> int \<Rightarrow>
    mdtstat \<Rightarrow> heap \<Rightarrow> (mdtstat \<times> heap) option" where
  "set_mdt cnt servername pct_cpu pct_mem recov_status mdops trcv m h =
     (if tgt_metric_timestamp (m_common m) < trcv then
        (case cnt of (inodes_free, inodes_total, kbytes_free, kbytes_total) \<Rightarrow>
         (let moved = (servername \<noteq> t_servername (m_common m));
              m1 = (if moved then failover_mdt servername m else m);
              m2 = m1\<lparr>m_common := (m_common m1)\<lparr>tgt_metric_timestamp := trcv,
                     t_recov_status := (case recov_status of None \<Rightarrow> t_recov_status (m_common m1)
                       | Some r \<Rightarrow> snd (snprintf recovery_str_size r))\<rparr>\<rparr>;
              upd = (\<lambda>v s. sample_update s v trcv)
          in map_option (\<lambda>h'. (m2, h'))
               (apply_upds ((if moved then failover_upds m else []) @
                  [(m_inodes_free m, upd (fp_of_u64 inodes_free)), (m_inodes_total m, upd (fp_of_u64 inodes_total)),
                   (m_kbytes_free m, upd (fp_of_u64 kbytes_free)), (m_kbytes_total m, upd (fp_of_u64 kbytes_total)),
                   (t_pct_cpu (m_common m), upd pct_cpu), (t_pct_mem (m_common m), upd pct_mem)] @
                  mdops_upds m trcv mdops) h)))
      else Some (m, h))"

text \<open>The assertions on the version: a recovery status comes with versions 2 and 3 only.\<close>

definition update_mdt :: "string \<Rightarrow> string \<Rightarrow> u64 \<times> u64 \<times> u64 \<times> u64 \<Rightarrow> fp \<Rightarrow> fp \<Rightarrow> string option \<Rightarrow> string list \<Rightarrow>
    mdtstat list \<Rightarrow> int \<Rightarrow> int \<Rightarrow> nat \<Rightarrow> heap \<Rightarrow> (mdtstat list \<times> heap) option" where
  "update_mdt mdtname servername cnt pct_cpu pct_mem recov_status mdops mdt_data trcv secs version h =
     (if \<not> (version = 1 \<or> version = 2 \<or> version = 3) \<or> (version = 1) \<noteq> (recov_status = None) then None
      else upsert_heap (\<lambda>m. match_mdtstat m mdtname) (create_mdtstat mdtname secs)
             (set_mdt cnt servername pct_cpu pct_mem recov_status mdops trcv) mdt_data h)"

fun update_mdts :: "(string \<Rightarrow> mdt_decoded option option) \<Rightarrow> string option \<Rightarrow> string \<Rightarrow> fp \<Rightarrow> fp \<Rightarrow> int \<Rightarrow> int \<Rightarrow> nat \<Rightarrow>
    string list \<Rightarrow> mdtstat list \<Rightarrow> heap \<Rightarrow> (mdtstat list \<times> heap) option" where
  "update_mdts dec fs mdsname pct_cpu pct_mem trcv secs version [] l h = Some (l, h)"
| "update_mdts dec fs mdsname pct_cpu pct_mem trcv secs version (s # ss) l h =
     (case dec s of
        None \<Rightarrow> None
      | Some None \<Rightarrow> update_mdts dec fs mdsname pct_cpu pct_mem trcv secs version ss l h
      | Some (Some (mdtname, cnt, recov_info, mdops)) \<Rightarrow>
          if wanted fs mdtname then
            (case update_mdt mdtname mdsname (cnt ! 0, cnt ! 1, cnt ! 2, cnt ! 3) pct_cpu pct_mem recov_info mdops l
                    trcv secs version h of
               None \<Rightarrow> None
             | Some (l', h') \<Rightarrow> update_mdts dec fs mdsname pct_cpu pct_mem trcv secs version ss l' h')
          else update_mdts dec fs mdsname pct_cpu pct_mem trcv secs version ss l h)"

definition decode_mdt_v2 :: "string \<Rightarrow> string option \<Rightarrow> mdtstat list \<Rightarrow> int \<Rightarrow> int \<Rightarrow> heap \<Rightarrow> (mdtstat list \<times> heap) option" where
  "decode_mdt_v2 val fs mdt_data trcv secs h =
     (case lmt_mdt_decode_v1_v2_v3 val 2 of
        None \<Rightarrow> None
      | Some None \<Rightarrow> Some (mdt_data, h)
      | Some (Some (mdsname, pct_cpu, pct_mem, mdtinfo)) \<Rightarrow>
          update_mdts lmt_mdt_decode_v2_mdtinfo fs mdsname pct_cpu pct_mem trcv secs 2 mdtinfo mdt_data h)"

definition decode_mdt_v3 :: "string \<Rightarrow> string option \<Rightarrow> mdtstat list \<Rightarrow> int \<Rightarrow> int \<Rightarrow> heap \<Rightarrow> (mdtstat list \<times> heap) option" where
  "decode_mdt_v3 val fs mdt_data trcv secs h =
     (case lmt_mdt_decode_v1_v2_v3 val 3 of
        None \<Rightarrow> None
      | Some None \<Rightarrow> Some (mdt_data, h)
      | Some (Some (mdsname, pct_cpu, pct_mem, mdtinfo)) \<Rightarrow>
          update_mdts lmt_mdt_decode_v3_mdtinfo fs mdsname pct_cpu pct_mem trcv secs 3 mdtinfo mdt_data h)"

section \<open>Summary per server\<close>

definition single_mdt_update_summary :: "mdtstat \<Rightarrow> mdtstat \<Rightarrow> heap \<Rightarrow> heap option" where
  "single_mdt_update_summary mdt summary h = add_samples
     [(m_open summary, m_open mdt), (m_close summary, m_close mdt), (m_getattr summary, m_getattr mdt),
      (m_setattr summary, m_setattr mdt), (m_link summary, m_link mdt), (m_unlink summary, m_unlink mdt),
      (m_mkdir summary, m_mkdir mdt), (m_rmdir summary, m_rmdir mdt), (m_statfs summary, m_statfs mdt),
      (m_rename summary, m_rename mdt), (m_inodes_total summary, m_inodes_total mdt),
      (m_inodes_free summary, m_inodes_free mdt), (m_kbytes_total summary, m_kbytes_total mdt),
      (m_kbytes_free summary, m_kbytes_free mdt), (m_getxattr summary, m_getxattr mdt),
      (m_read_bytes summary, m_read_bytes mdt), (m_write_bytes summary, m_write_bytes mdt)] h"

definition merge_mdt :: "mdtstat \<Rightarrow> mdtstat \<Rightarrow> heap \<Rightarrow> (mdtstat \<times> heap) option" where
  "merge_mdt mdt srv h =
     map_option (\<lambda>h'. (srv\<lparr>m_common := merge_common (m_common mdt) (m_common srv)\<rparr>, h'))
       (single_mdt_update_summary mdt srv h)"

definition new_mdt_summary :: "mdtstat \<Rightarrow> heap \<Rightarrow> (mdtstat \<times> heap) option" where
  "new_mdt_summary mdt h =
     map_option (\<lambda>(srv, h'). (srv\<lparr>m_common := (m_common srv)\<lparr>t_name := count_name 1\<rparr>\<rparr>, h')) (copy_mdtstat mdt h)"

fun mdt_summary_step :: "mdtstat list \<Rightarrow> mdtstat \<Rightarrow> heap \<Rightarrow> (mdtstat list \<times> heap) option" where
  "mdt_summary_step [] mdt h = map_option (\<lambda>(srv, h'). ([srv], h')) (new_mdt_summary mdt h)"
| "mdt_summary_step (srv # l) mdt h =
     (if match_mdtstat2 srv (t_servername (m_common mdt)) then
        map_option (\<lambda>(srv', h'). (srv' # l, h')) (merge_mdt mdt srv h)
      else map_option (\<lambda>(l', h'). (srv # l', h')) (mdt_summary_step l mdt h))"

fun mdt_summary_loop :: "mdtstat list \<Rightarrow> int \<Rightarrow> int \<Rightarrow> mdtstat list \<Rightarrow> heap \<Rightarrow> (mdtstat list \<times> heap) option" where
  "mdt_summary_loop [] tnow secs l h = Some (l, h)"
| "mdt_summary_loop (mdt # ms) tnow secs l h =
     (if tnow - tgt_metric_timestamp (m_common mdt) > secs then mdt_summary_loop ms tnow secs l h
      else case mdt_summary_step l mdt h of
             None \<Rightarrow> None | Some (l', h') \<Rightarrow> mdt_summary_loop ms tnow secs l' h')"

definition summarize_mdt :: "mdtstat list \<Rightarrow> mdtstat list \<Rightarrow> int \<Rightarrow> int \<Rightarrow> heap \<Rightarrow> (mdtstat list \<times> heap) option" where
  "summarize_mdt mdt_data mds_data tnow secs h =
     (case empty_out destroy_mds mds_data h of
        None \<Rightarrow> None
      | Some h1 \<Rightarrow>
          map_option (\<lambda>(l, h2). (sort_spec (\<lambda>m1 m2. cmp_tgtstat_byserver (m_common m1) (m_common m2)) l, h2))
            (mdt_summary_loop mdt_data tnow secs [] h1))"

section \<open>Sorting\<close>

definition sam :: "heap \<Rightarrow> addr \<Rightarrow> sample" where
  "sam h a = (case h_mem h a of None \<Rightarrow> sample_create 0 | Some s \<Rightarrow> s)"

definition cmp_mdtstat_byspc :: "heap \<Rightarrow> int \<Rightarrow> mdtstat \<Rightarrow> mdtstat \<Rightarrow> int" where
  "cmp_mdtstat_byspc h tnow m1 m2 =
     - 1 * fp_cmp (pct_used (sam h (m_kbytes_total m1)) (sam h (m_kbytes_free m1)) tnow)
             (pct_used (sam h (m_kbytes_total m2)) (sam h (m_kbytes_free m2)) tnow)"

definition cmp_mdtstat_byino :: "heap \<Rightarrow> int \<Rightarrow> mdtstat \<Rightarrow> mdtstat \<Rightarrow> int" where
  "cmp_mdtstat_byino h tnow m1 m2 =
     - 1 * fp_cmp (pct_used (sam h (m_inodes_total m1)) (sam h (m_inodes_free m1)) tnow)
             (pct_used (sam h (m_inodes_total m2)) (sam h (m_inodes_free m2)) tnow)"

definition cmp_mdtstat_byrbw :: "heap \<Rightarrow> int \<Rightarrow> mdtstat \<Rightarrow> mdtstat \<Rightarrow> int" where
  "cmp_mdtstat_byrbw h tnow m1 m2 = - 1 * sample_rate_cmp (sam h (m_read_bytes m1)) (sam h (m_read_bytes m2)) tnow"

definition cmp_mdtstat_bywbw :: "heap \<Rightarrow> int \<Rightarrow> mdtstat \<Rightarrow> mdtstat \<Rightarrow> int" where
  "cmp_mdtstat_bywbw h tnow m1 m2 = - 1 * sample_rate_cmp (sam h (m_write_bytes m1)) (sam h (m_write_bytes m2)) tnow"

definition cmp_mdtstat_byopen :: "heap \<Rightarrow> int \<Rightarrow> mdtstat \<Rightarrow> mdtstat \<Rightarrow> int" where
  "cmp_mdtstat_byopen h tnow m1 m2 = - 1 * sample_rate_cmp (sam h (m_open m1)) (sam h (m_open m2)) tnow"

definition cmp_mdtstat_bygetattr :: "heap \<Rightarrow> int \<Rightarrow> mdtstat \<Rightarrow> mdtstat \<Rightarrow> int" where
  "cmp_mdtstat_bygetattr h tnow m1 m2 = - 1 * sample_rate_cmp (sam h (m_getattr m1)) (sam h (m_getattr m2)) tnow"

definition cmp_mdtstat_bysetattr :: "heap \<Rightarrow> int \<Rightarrow> mdtstat \<Rightarrow> mdtstat \<Rightarrow> int" where
  "cmp_mdtstat_bysetattr h tnow m1 m2 = - 1 * sample_rate_cmp (sam h (m_setattr m1)) (sam h (m_setattr m2)) tnow"

definition cmp_mdtstat_byunlink :: "heap \<Rightarrow> int \<Rightarrow> mdtstat \<Rightarrow> mdtstat \<Rightarrow> int" where
  "cmp_mdtstat_byunlink h tnow m1 m2 = - 1 * sample_rate_cmp (sam h (m_unlink m1)) (sam h (m_unlink m2)) tnow"

definition cmp_mdtstat_byrmdir :: "heap \<Rightarrow> int \<Rightarrow> mdtstat \<Rightarrow> mdtstat \<Rightarrow> int" where
  "cmp_mdtstat_byrmdir h tnow m1 m2 = - 1 * sample_rate_cmp (sam h (m_rmdir m1)) (sam h (m_rmdir m2)) tnow"

definition cmp_mdtstat_bymkdir :: "heap \<Rightarrow> int \<Rightarrow> mdtstat \<Rightarrow> mdtstat \<Rightarrow> int" where
  "cmp_mdtstat_bymkdir h tnow m1 m2 = - 1 * sample_rate_cmp (sam h (m_mkdir m1)) (sam h (m_mkdir m2)) tnow"

text \<open>\<open>_cmp_tgtstat_bycpu\<close> and \<open>_cmp_tgtstat_bymem\<close> through the heap.\<close>

definition target_in :: "heap \<Rightarrow> addr target \<Rightarrow> sample target" where
  "target_in h g = \<lparr>t_fsname = t_fsname g, t_name = t_name g, t_servername = t_servername g,
     tgt_metric_timestamp = tgt_metric_timestamp g, t_recov_status = t_recov_status g, t_tgtstate = t_tgtstate g,
     t_pct_cpu = sam h (t_pct_cpu g), t_pct_mem = sam h (t_pct_mem g), t_tag = t_tag g\<rparr>"

definition mdt_col :: "heap \<Rightarrow> int \<Rightarrow> (char option \<times> (mdtstat \<Rightarrow> mdtstat \<Rightarrow> int)) list" where
  "mdt_col h tnow =
     [(Some CHR ''t'', \<lambda>m1 m2. cmp_tgtstat_bytarget (m_common m1) (m_common m2)),
      (Some CHR ''s'', \<lambda>m1 m2. cmp_tgtstat_byserver (m_common m1) (m_common m2)),
      (Some CHR ''o'', cmp_mdtstat_byopen h tnow),
      (Some CHR ''r'', cmp_mdtstat_byrbw h tnow),
      (Some CHR ''w'', cmp_mdtstat_bywbw h tnow),
      (Some CHR ''g'', cmp_mdtstat_bygetattr h tnow),
      (Some CHR ''S'', cmp_mdtstat_bysetattr h tnow),
      (Some CHR ''U'', cmp_mdtstat_byunlink h tnow),
      (Some CHR ''M'', cmp_mdtstat_bymkdir h tnow),
      (Some CHR ''r'', cmp_mdtstat_byrmdir h tnow),
      (Some CHR ''u'', \<lambda>m1 m2. cmp_tgtstat_bycpu tnow (target_in h (m_common m1)) (target_in h (m_common m2))),
      (Some CHR ''m'', \<lambda>m1 m2. cmp_tgtstat_bymem tnow (target_in h (m_common m1)) (target_in h (m_common m2))),
      (Some CHR ''T'', cmp_mdtstat_byspc h tnow),
      (Some CHR ''T'', cmp_mdtstat_byino h tnow)]"

definition mdt_live :: "heap \<Rightarrow> mdtstat \<Rightarrow> bool" where
  "mdt_live h m \<longleftrightarrow> list_all (\<lambda>a. h_mem h a \<noteq> None) (mdt_addrs m)"

definition sort_mdtlist :: "nat \<Rightarrow> int \<Rightarrow> heap \<Rightarrow> mdtstat list \<Rightarrow> mdtstat list option" where
  "sort_mdtlist col tnow h mdt_data =
     (if list_all (mdt_live h) mdt_data then Some (sort_spec (snd (mdt_col h tnow ! col)) mdt_data) else None)"

section \<open>Memory safety\<close>

text \<open>Both heaps have the same addresses, and those outside \<open>A\<close> the same samples.\<close>

definition heap_frame :: "addr set \<Rightarrow> heap \<Rightarrow> heap \<Rightarrow> bool" where
  "heap_frame A h h' \<longleftrightarrow> h_next h' = h_next h \<and> (\<forall>a. h_mem h' a = None \<longleftrightarrow> h_mem h a = None) \<and>
     (\<forall>a. a \<notin> A \<longrightarrow> h_mem h' a = h_mem h a)"

lemma apply_upds_frame:
  "(\<And>a f. (a, f) \<in> set us \<Longrightarrow> a \<in> A \<and> h_mem h a \<noteq> None) \<Longrightarrow> \<exists>h'. apply_upds us h = Some h' \<and> heap_frame A h h'"
proof (induction us arbitrary: h)
  case Nil
  then show ?case by (simp add: heap_frame_def)
next
  case (Cons u us)
  obtain a f where u: "u = (a, f)" by (cases u)
  obtain s where s: "h_mem h a = Some s" "a \<in> A" using Cons(2) [of a f] u by auto
  let ?h = "h\<lparr>h_mem := (h_mem h)(a \<mapsto> f s)\<rparr>"
  have "\<exists>h'. apply_upds us ?h = Some h' \<and> heap_frame A ?h h'"
    by (rule Cons(1)) (use Cons(2) in auto)
  then show ?case using s by (auto simp: u heap_frame_def)
qed

text \<open>Records whose samples are allocated, and no two of which share a sample.\<close>

definition mdts_ok :: "mdtstat list \<Rightarrow> heap \<Rightarrow> bool" where
  "mdts_ok l h \<longleftrightarrow> distinct (concat (map mdt_addrs l)) \<and> list_all (mdt_live h) l \<and>
     (\<forall>a. h_mem h a \<noteq> None \<longrightarrow> a < h_next h)"

lemma mdt_live_mem: "mdt_live h m \<Longrightarrow> a \<in> set (mdt_addrs m) \<Longrightarrow> h_mem h a \<noteq> None"
  by (simp add: mdt_live_def list_all_iff)

lemma mdop_upd_addrs: "(a, f) \<in> set (mdop_upd m trcv op) \<Longrightarrow> a \<in> set (mdt_addrs m)"
  unfolding mdop_upd_def by (auto simp: mdt_addrs_def Let_def split: prod.splits if_splits)

lemma mdops_upds_addrs: "(a, f) \<in> set (mdops_upds m trcv mdops) \<Longrightarrow> a \<in> set (mdt_addrs m)"
  unfolding mdops_upds_def by (auto split: option.splits dest: mdop_upd_addrs)

lemma failover_upds_addrs: "(a, f) \<in> set (failover_upds m) \<Longrightarrow> a \<in> set (mdt_addrs m)"
  unfolding failover_upds_def mdt_addrs_def by auto

definition mdt_key :: "mdtstat \<Rightarrow> string \<times> string" where
  "mdt_key m = (t_fsname (m_common m), t_name (m_common m))"

lemma set_mdt_safe:
  assumes "mdt_live h m"
  shows "\<exists>m' h'. set_mdt cnt sv cpu mem rs mdops trcv m h = Some (m', h') \<and> mdt_addrs m' = mdt_addrs m \<and>
    mdt_key m' = mdt_key m \<and> heap_frame (set (mdt_addrs m)) h h'"
proof (cases "tgt_metric_timestamp (m_common m) < trcv")
  case False
  then show ?thesis by (simp add: set_mdt_def heap_frame_def)
next
  case True
  obtain i1 i2 k1 k2 where c: "cnt = (i1, i2, k1, k2)" by (cases cnt)
  let ?us = "(if sv \<noteq> t_servername (m_common m) then failover_upds m else []) @
    [(m_inodes_free m, \<lambda>s. sample_update s (fp_of_u64 i1) trcv), (m_inodes_total m, \<lambda>s. sample_update s (fp_of_u64 i2) trcv),
     (m_kbytes_free m, \<lambda>s. sample_update s (fp_of_u64 k1) trcv), (m_kbytes_total m, \<lambda>s. sample_update s (fp_of_u64 k2) trcv),
     (t_pct_cpu (m_common m), \<lambda>s. sample_update s cpu trcv), (t_pct_mem (m_common m), \<lambda>s. sample_update s mem trcv)] @
    mdops_upds m trcv mdops"
  have "a \<in> set (mdt_addrs m)" if "(a, f) \<in> set ?us" for a f
    using that by (auto split: if_splits dest: failover_upds_addrs mdops_upds_addrs) (auto simp: mdt_addrs_def)
  then have us: "\<And>a f. (a, f) \<in> set ?us \<Longrightarrow> a \<in> set (mdt_addrs m) \<and> h_mem h a \<noteq> None"
    using mdt_live_mem [OF assms] by blast
  have "\<exists>h'. apply_upds ?us h = Some h' \<and> heap_frame (set (mdt_addrs m)) h h'" by (rule apply_upds_frame [OF us])
  then obtain h' where h': "apply_upds ?us h = Some h'" "heap_frame (set (mdt_addrs m)) h h'" by blast
  show ?thesis using True h' unfolding set_mdt_def c Let_def
    by (auto simp: mdt_addrs_def mdt_key_def failover_mdt_def)
qed

lemma mdt_match_key:
  assumes "tgt_name_ok ''-MDT'' name"
  shows "match_mdtstat m name \<longleftrightarrow> mdt_key m = tgt_key ''-MDT'' name"
  using match_target_key(1) [of "''MDT''" name "m_common m"] assms by (simp add: match_mdtstat_def mdt_key_def)

text \<open>The samples of a new record are new.\<close>

lemma alloc_mem: "alloc ss h = (a, h') \<Longrightarrow> a = h_next h \<and> h_next h' = h_next h + length ss \<and>
    (\<forall>b. b < h_next h \<longrightarrow> h_mem h' b = h_mem h b) \<and> (\<forall>k < length ss. h_mem h' (a + k) = Some (ss ! k)) \<and>
    (\<forall>b. h_next h + length ss \<le> b \<longrightarrow> h_mem h' b = h_mem h b)"
  by (auto simp: alloc_def)

lemma create_mdtstat_addrs:
  assumes "create_mdtstat name secs h = Some (m, h')"
  shows "mdt_addrs m = map ((+) (h_next h)) [0, 1, 2, 3, 4, 5, 6, 7, 8, 9, 10, 11, 12, 13, 14, 15, 16, 17, 18]"
    "h' = snd (alloc (replicate 19 (sample_create secs)) h)"
  using assms by (auto simp: create_mdtstat_def alloc_def mdt_addrs_def)

lemma create_mdtstat_safe:
  assumes "tgt_name_ok ''-MDT'' name" "mdts_ok l h"
  shows "\<exists>m h'. create_mdtstat name secs h = Some (m, h') \<and> mdts_ok (l @ [m]) h' \<and> mdt_key m = tgt_key ''-MDT'' name \<and>
    (\<forall>a. h_mem h a \<noteq> None \<longrightarrow> h_mem h' a = h_mem h a)"
proof -
  have t: "target_names ''-MDT'' name = Some (snd (tgt_key ''-MDT'' name), fst (tgt_key ''-MDT'' name))"
    using match_target_key(2) [of "''MDT''" name] assms(1) by simp
  then obtain m h' where c: "create_mdtstat name secs h = Some (m, h')"
    by (cases "create_mdtstat name secs h") (auto simp: create_mdtstat_def split: prod.splits)
  have k: "mdt_key m = tgt_key ''-MDT'' name" using c t by (auto simp: create_mdtstat_def mdt_key_def split: prod.splits)
  obtain b where al: "alloc (replicate 19 (sample_create secs)) h = (b, h')"
    using create_mdtstat_addrs(2) [OF c] by (cases "alloc (replicate 19 (sample_create secs)) h") simp
  have h': "h_next h' = h_next h + 19" "\<And>b. b < h_next h \<Longrightarrow> h_mem h' b = h_mem h b"
    "\<And>k. k < 19 \<Longrightarrow> h_mem h' (h_next h + k) = Some (sample_create secs)"
    "\<And>b. h_next h + 19 \<le> b \<Longrightarrow> h_mem h' b = h_mem h b"
    using alloc_mem [OF al] by auto
  have ok: "distinct (concat (map mdt_addrs l))" "list_all (mdt_live h) l" "\<And>a. h_mem h a \<noteq> None \<Longrightarrow> a < h_next h"
    using assms(2) by (auto simp: mdts_ok_def)
  have old: "h_mem h' a = h_mem h a" if "h_mem h a \<noteq> None" for a using ok(3) [OF that] h'(2) by blast
  have "list_all (mdt_live h') l"
    using ok(2) old by (auto simp: list_all_iff mdt_live_def)
  moreover have "mdt_live h' m"
  proof -
    have "h_mem h' a \<noteq> None" if "a \<in> set (mdt_addrs m)" for a
    proof -
      have "a \<in> (+) (h_next h) ` set [0, 1, 2, 3, 4, 5, 6, 7, 8, 9, 10, 11, 12, 13, 14, 15, 16, 17, 18]"
        using that unfolding create_mdtstat_addrs(1) [OF c] set_map .
      then obtain k where "a = h_next h + k" "k < 19" by (elim imageE) auto
      then show ?thesis using h'(3) by simp
    qed
    then show ?thesis by (simp add: mdt_live_def list_all_iff)
  qed
  moreover have "set (concat (map mdt_addrs l)) \<inter> set (mdt_addrs m) = {}"
  proof -
    have "a < h_next h" if "a \<in> set (concat (map mdt_addrs l))" for a
      using that ok(2,3) by (auto simp: list_all_iff dest: mdt_live_mem)
    then show ?thesis unfolding create_mdtstat_addrs(1) [OF c] by fastforce
  qed
  moreover have "distinct (mdt_addrs m)" unfolding create_mdtstat_addrs(1) [OF c] by simp
  moreover have "a < h_next h'" if a: "h_mem h' a \<noteq> None" for a
  proof (rule ccontr)
    assume n: "\<not> a < h_next h'"
    then have "h_mem h a \<noteq> None" using a h'(1) h'(4) [of a] by simp
    then show False using ok(3) [of a] n h'(1) by simp
  qed
  ultimately have "mdts_ok (l @ [m]) h'" using ok(1) by (simp add: mdts_ok_def)
  then show ?thesis using c k old by blast
qed

text \<open>An update keeps the records apart and changes only the samples of its own record.\<close>

lemma frame_mdts_ok:
  assumes "mdts_ok (xs @ m # ys) h" "mdt_addrs m' = mdt_addrs m" "heap_frame (set (mdt_addrs m)) h h'"
  shows "mdts_ok (xs @ m' # ys) h'" "n \<in> set (xs @ ys) \<Longrightarrow> a \<in> set (mdt_addrs n) \<Longrightarrow> h_mem h' a = h_mem h a"
proof -
  show "mdts_ok (xs @ m' # ys) h'"
    using assms by (auto simp: mdts_ok_def heap_frame_def mdt_live_def list_all_iff)
  assume "n \<in> set (xs @ ys)" "a \<in> set (mdt_addrs n)"
  then have "a \<notin> set (mdt_addrs m)" using assms(1) by (auto simp: mdts_ok_def)
  then show "h_mem h' a = h_mem h a" using assms(3) by (simp add: heap_frame_def)
qed

lemma upsert_heap_safe:
  assumes "mdts_ok (pre @ l) h"
    and P: "\<And>m. P m \<longleftrightarrow> mdt_key m = k"
    and new: "\<And>l h. mdts_ok l h \<Longrightarrow> \<exists>m h'. new h = Some (m, h') \<and> mdts_ok (l @ [m]) h' \<and> mdt_key m = k \<and>
      (\<forall>a. h_mem h a \<noteq> None \<longrightarrow> h_mem h' a = h_mem h a)"
    and f: "\<And>m h. mdt_live h m \<Longrightarrow> \<exists>m' h'. f m h = Some (m', h') \<and> mdt_addrs m' = mdt_addrs m \<and>
      mdt_key m' = mdt_key m \<and> heap_frame (set (mdt_addrs m)) h h'"
  shows "\<exists>l' h'. upsert_heap P new f l h = Some (l', h') \<and> mdts_ok (pre @ l') h' \<and>
    (\<forall>m \<in> set (pre @ l). mdt_key m \<noteq> k \<longrightarrow> m \<in> set (pre @ l') \<and> (\<forall>a \<in> set (mdt_addrs m). h_mem h' a = h_mem h a))"
  using assms(1)
proof (induction l arbitrary: pre)
  case Nil
  then have pre: "mdts_ok pre h" by simp
  then obtain m h1 where m: "new h = Some (m, h1)" "mdts_ok (pre @ [m]) h1" "\<And>a. h_mem h a \<noteq> None \<Longrightarrow> h_mem h1 a = h_mem h a"
    using new by blast
  have "mdt_live h1 m" using m(2) by (simp add: mdts_ok_def)
  then obtain m' h2 where m': "f m h1 = Some (m', h2)" "mdt_addrs m' = mdt_addrs m" "heap_frame (set (mdt_addrs m)) h1 h2"
    using f by blast
  have "h_mem h2 a = h_mem h a" if n: "n \<in> set pre" "a \<in> set (mdt_addrs n)" for n a
  proof -
    have "h_mem h a \<noteq> None" using pre n mdt_live_mem by (auto simp: mdts_ok_def list_all_iff)
    then show ?thesis using frame_mdts_ok(2) [OF m(2) m'(2,3), of n a] n m(3) by simp
  qed
  then show ?case using m(1) m'(1) frame_mdts_ok(1) [OF m(2) m'(2,3)] by auto
next
  case (Cons x l)
  show ?case
  proof (cases "P x")
    case True
    have "mdt_live h x" using Cons(2) by (simp add: mdts_ok_def)
    then obtain m' h2 where m': "f x h = Some (m', h2)" "mdt_addrs m' = mdt_addrs x" "heap_frame (set (mdt_addrs x)) h h2"
      using f by blast
    then show ?thesis using True P frame_mdts_ok [OF Cons(2) m'(2,3)] by auto
  next
    case False
    have "mdts_ok ((pre @ [x]) @ l) h" using Cons(2) by simp
    then obtain l' h' where l': "upsert_heap P new f l h = Some (l', h')" "mdts_ok ((pre @ [x]) @ l') h'"
      "\<forall>m \<in> set ((pre @ [x]) @ l). mdt_key m \<noteq> k \<longrightarrow> m \<in> set ((pre @ [x]) @ l') \<and> (\<forall>a \<in> set (mdt_addrs m). h_mem h' a = h_mem h a)"
      using Cons(1) by blast
    then show ?thesis using False by (intro exI [of _ "x # l'"] exI [of _ h']) simp
  qed
qed

lemma update_mdt_safe:
  assumes "tgt_name_ok ''-MDT'' name" "mdts_ok l h" "version \<in> {1, 2, 3}" "(version = 1) = (rs = None)"
  shows "\<exists>l' h'. update_mdt name sv cnt cpu mem rs mdops l trcv secs version h = Some (l', h') \<and> mdts_ok l' h' \<and>
    (\<forall>m \<in> set l. mdt_key m \<noteq> tgt_key ''-MDT'' name \<longrightarrow>
      m \<in> set l' \<and> (\<forall>a \<in> set (mdt_addrs m). h_mem h' a = h_mem h a))"
proof -
  have "\<exists>l' h'. upsert_heap (\<lambda>m. match_mdtstat m name) (create_mdtstat name secs) (set_mdt cnt sv cpu mem rs mdops trcv) l h = Some (l', h') \<and>
    mdts_ok ([] @ l') h' \<and> (\<forall>m \<in> set ([] @ l). mdt_key m \<noteq> tgt_key ''-MDT'' name \<longrightarrow>
      m \<in> set ([] @ l') \<and> (\<forall>a \<in> set (mdt_addrs m). h_mem h' a = h_mem h a))"
    by (rule upsert_heap_safe [OF _ mdt_match_key [OF assms(1)] create_mdtstat_safe [OF assms(1)] set_mdt_safe])
      (use assms(2) in simp)
  then show ?thesis using assms(3,4) by (auto simp: update_mdt_def)
qed

lemma mdt_decoded_recov: "lmt_mdt_decode_v2_mdtinfo s = Some (Some (n, c, r, ops)) \<Longrightarrow> r \<noteq> None"
  "lmt_mdt_decode_v3_mdtinfo s = Some (Some (n, c, r, ops)) \<Longrightarrow> r \<noteq> None"
  "lmt_mdt_decode_v2_mdtinfo s \<noteq> None" "lmt_mdt_decode_v3_mdtinfo s \<noteq> None"
  by (auto simp: lmt_mdt_decode_v2_mdtinfo_def lmt_mdt_decode_v3_mdtinfo_def lmt_mdt_decode_mdtinfo_helper_def
      split: if_splits prod.splits option.splits)

text \<open>Names the strings carry fit the record.\<close>

definition mdt_names_ok :: "(string \<Rightarrow> mdt_decoded option option) \<Rightarrow> string option \<Rightarrow> string list \<Rightarrow> bool" where
  "mdt_names_ok dec fs ss \<longleftrightarrow> list_all (\<lambda>s. case dec s of Some (Some (n, _)) \<Rightarrow> wanted fs n \<longrightarrow> tgt_name_ok ''-MDT'' n | _ \<Rightarrow> True) ss"

lemma update_mdts_safe:
  assumes "mdt_names_ok dec fs ss" "mdts_ok l h" "version \<in> {2, 3}"
    and "\<And>s. dec s \<noteq> None" "\<And>s n c r ops. dec s = Some (Some (n, c, r, ops)) \<Longrightarrow> r \<noteq> None"
  shows "\<exists>l' h'. update_mdts dec fs sv cpu mem trcv secs version ss l h = Some (l', h') \<and> mdts_ok l' h'"
  using assms(1,2)
proof (induction ss arbitrary: l h)
  case (Cons s ss)
  have ss: "mdt_names_ok dec fs ss" using Cons(2) by (simp add: mdt_names_ok_def)
  obtain d where d: "dec s = Some d" using assms(4) by blast
  show ?case
  proof (cases d)
    case None
    then show ?thesis using Cons(1) [OF ss Cons(3)] d by simp
  next
    case (Some x)
    obtain n c r ops where x: "x = (n, c, r, ops)" by (cases x)
    show ?thesis
    proof (cases "wanted fs n")
      case False
      then show ?thesis using Cons(1) [OF ss Cons(3)] d Some x by simp
    next
      case True
      have "tgt_name_ok ''-MDT'' n" using Cons(2) d Some x True by (simp add: mdt_names_ok_def)
      moreover have "(version = 1) = (r = None)" using assms(3) assms(5) [of s n c r ops] d Some x by auto
      moreover have "version \<in> {1, 2, 3}" using assms(3) by auto
      ultimately obtain l1 h1 where l1: "update_mdt n sv (c ! 0, c ! 1, c ! 2, c ! 3) cpu mem r ops l trcv secs version h = Some (l1, h1)" "mdts_ok l1 h1"
        using update_mdt_safe [of n l h version r] Cons(3) by blast
      then show ?thesis using Cons(1) [OF ss l1(2)] d Some x True by simp
    qed
  qed
qed simp

section \<open>Aliasing in the summary\<close>

lemma add_samples_val:
  assumes "distinct (map fst ps)" "fst ` set ps \<inter> snd ` set ps = {}"
    and "\<And>a1 a2. (a1, a2) \<in> set ps \<Longrightarrow> h_mem h a1 \<noteq> None \<and> h_mem h a2 \<noteq> None"
  shows "\<exists>h'. add_samples ps h = Some h' \<and>
    (\<forall>a1 a2. (a1, a2) \<in> set ps \<longrightarrow> h_mem h' a1 = Some (sample_add (sam h a1) (sam h a2))) \<and>
    (\<forall>a. a \<notin> fst ` set ps \<longrightarrow> h_mem h' a = h_mem h a)"
  using assms
proof (induction ps arbitrary: h)
  case (Cons p ps)
  obtain a1 a2 where p: "p = (a1, a2)" by (cases p)
  obtain s1 s2 where s: "h_mem h a1 = Some s1" "h_mem h a2 = Some s2" using Cons(4) [of a1 a2] by (auto simp: p)
  let ?h = "h\<lparr>h_mem := (h_mem h)(a1 \<mapsto> sample_add s1 s2)\<rparr>"
  have a1: "a1 \<notin> fst ` set ps" "a1 \<notin> snd ` set ps" using Cons(2,3) by (auto simp: p)
  have "\<exists>h'. add_samples ps ?h = Some h' \<and>
    (\<forall>a1 a2. (a1, a2) \<in> set ps \<longrightarrow> h_mem h' a1 = Some (sample_add (sam ?h a1) (sam ?h a2))) \<and>
    (\<forall>a. a \<notin> fst ` set ps \<longrightarrow> h_mem h' a = h_mem ?h a)"
    by (rule Cons(1)) (use Cons(2-4) s in \<open>auto simp: p\<close>)
  then obtain h' where h': "add_samples ps ?h = Some h'"
    "\<And>b1 b2. (b1, b2) \<in> set ps \<Longrightarrow> h_mem h' b1 = Some (sample_add (sam ?h b1) (sam ?h b2))"
    "\<And>a. a \<notin> fst ` set ps \<Longrightarrow> h_mem h' a = h_mem ?h a" by blast
  have "sam ?h b1 = sam h b1 \<and> sam ?h b2 = sam h b2" if "(b1, b2) \<in> set ps" for b1 b2
  proof -
    have "b1 \<noteq> a1" "b2 \<noteq> a1" using that a1 by (metis fst_conv imageI, metis snd_conv imageI)
    then show ?thesis by (simp add: sam_def)
  qed
  moreover have "h_mem h' a1 = Some (sample_add s1 s2)" using h'(3) [OF a1(1)] by simp
  ultimately show ?case using h' s by (auto simp: p sam_def)
qed simp

lemma read_samples_live: "list_all (\<lambda>a. h_mem h a \<noteq> None) as \<Longrightarrow> read_samples as h = Some (map (sam h) as)"
  by (induction as) (auto simp: sam_def)

text \<open>The copy shares the two samples; its others are new.\<close>

lemma copy_mdtstat_alias:
  assumes "mdt_live h m"
  shows "\<exists>srv h'. copy_mdtstat m h = Some (srv, h') \<and>
    m_kbytes_free srv = m_kbytes_free m \<and> m_kbytes_total srv = m_kbytes_total m \<and>
    mdt_addrs srv = map ((+) (h_next h)) [0, 1, 2, 3, 4, 5, 6, 7, 8, 9, 10, 11] @ [m_kbytes_free m, m_kbytes_total m] @
      map ((+) (h_next h)) [12, 13, 14, 15, 16] \<and> m_common srv = (m_common m)\<lparr>t_pct_cpu := h_next h + 12, t_pct_mem := h_next h + 13\<rparr> \<and>
    (\<forall>a < h_next h. h_mem h' a = h_mem h a) \<and> (\<forall>k < 17. h_mem h' (h_next h + k) \<noteq> None)"
proof -
  let ?as = "[m_inodes_free m, m_inodes_total m, m_open m, m_close m, m_getattr m, m_setattr m,
    m_link m, m_unlink m, m_mkdir m, m_rmdir m, m_statfs m, m_rename m,
    t_pct_cpu (m_common m), t_pct_mem (m_common m), m_getxattr m, m_read_bytes m, m_write_bytes m]"
  have r: "read_samples ?as h = Some (map (sam h) ?as)"
    by (rule read_samples_live) (use assms in \<open>simp add: mdt_live_def mdt_addrs_def\<close>)
  obtain a h' where al: "alloc (map sample_copy (map (sam h) ?as)) h = (a, h')" by (metis surj_pair)
  have a: "a = h_next h" and old: "\<And>b. b < h_next h \<Longrightarrow> h_mem h' b = h_mem h b"
    and new: "\<And>k. k < 17 \<Longrightarrow> h_mem h' (h_next h + k) \<noteq> None"
    using alloc_mem [OF al] by auto
  show ?thesis unfolding copy_mdtstat_def r option.map al prod.case using old new a
    by (auto simp: mdt_addrs_def)
qed

definition summary_pairs :: "mdtstat \<Rightarrow> mdtstat \<Rightarrow> (addr \<times> addr) list" where
  "summary_pairs summary mdt =
     [(m_open summary, m_open mdt), (m_close summary, m_close mdt), (m_getattr summary, m_getattr mdt),
      (m_setattr summary, m_setattr mdt), (m_link summary, m_link mdt), (m_unlink summary, m_unlink mdt),
      (m_mkdir summary, m_mkdir mdt), (m_rmdir summary, m_rmdir mdt), (m_statfs summary, m_statfs mdt),
      (m_rename summary, m_rename mdt), (m_inodes_total summary, m_inodes_total mdt),
      (m_inodes_free summary, m_inodes_free mdt), (m_kbytes_total summary, m_kbytes_total mdt),
      (m_kbytes_free summary, m_kbytes_free mdt), (m_getxattr summary, m_getxattr mdt),
      (m_read_bytes summary, m_read_bytes mdt), (m_write_bytes summary, m_write_bytes mdt)]"

lemma summary_add_first:
  assumes ok: "mdts_ok [m1, m2] h" and c: "copy_mdtstat m1 h = Some (srv, h1)"
  shows "\<exists>h2. add_samples (summary_pairs srv m2) h1 = Some h2 \<and>
    h_mem h2 (m_kbytes_total m1) = Some (sample_add (sam h (m_kbytes_total m1)) (sam h (m_kbytes_total m2))) \<and>
    h_mem h2 (m_kbytes_free m1) = Some (sample_add (sam h (m_kbytes_free m1)) (sam h (m_kbytes_free m2)))"
proof -
  let ?n = "h_next h" and ?kt = "m_kbytes_total m1" and ?kf = "m_kbytes_free m1" and ?ps = "summary_pairs srv m2"
  have live: "mdt_live h m1" "mdt_live h m2" and dis: "distinct (mdt_addrs m1 @ mdt_addrs m2)"
    and bound: "\<And>a. h_mem h a \<noteq> None \<Longrightarrow> a < ?n" using ok by (auto simp: mdts_ok_def)
  have sv: "m_kbytes_free srv = ?kf" "m_kbytes_total srv = ?kt"
    "mdt_addrs srv = map ((+) ?n) [0, 1, 2, 3, 4, 5, 6, 7, 8, 9, 10, 11] @ [?kf, ?kt] @ map ((+) ?n) [12, 13, 14, 15, 16]"
    and old: "\<And>a. a < ?n \<Longrightarrow> h_mem h1 a = h_mem h a" and new: "\<And>k. k < 17 \<Longrightarrow> h_mem h1 (?n + k) \<noteq> None"
    using copy_mdtstat_alias [OF live(1)] c by auto
  have fsts: "map fst ?ps = map ((+) ?n) [2, 3, 4, 5, 6, 7, 8, 9, 10, 11, 1, 0] @ [?kt, ?kf] @ map ((+) ?n) [14, 15, 16]"
    using sv by (simp add: summary_pairs_def mdt_addrs_def)
  have mem: "m_kbytes_total m \<in> set (mdt_addrs m)" "m_kbytes_free m \<in> set (mdt_addrs m)" for m
    by (simp_all add: mdt_addrs_def)
  have dis1: "distinct (mdt_addrs m1)" using dis by simp
  have ne: "?kt \<noteq> ?kf" using dis1 by (auto simp: mdt_addrs_def)
  have lt: "a < ?n" if "a \<in> set (mdt_addrs m1) \<union> set (mdt_addrs m2)" for a
    using that mdt_live_mem [OF live(1)] mdt_live_mem [OF live(2)] bound by blast
  have m1: "?kt < ?n" "?kf < ?n" "?kt \<noteq> ?kf" using mem lt ne by blast+
  have snds: "b < ?n \<and> b \<noteq> ?kt \<and> b \<noteq> ?kf \<and> h_mem h b \<noteq> None" if "b \<in> snd ` set ?ps" for b
  proof -
    have b: "b \<in> set (mdt_addrs m2)" using that by (auto simp: summary_pairs_def mdt_addrs_def)
    have "set (mdt_addrs m1) \<inter> set (mdt_addrs m2) = {}" using dis by simp
    then have "b \<noteq> ?kt" "b \<noteq> ?kf" using b mem [of m1] by blast+
    then show ?thesis using mdt_live_mem [OF live(2) b] bound by blast
  qed
  have fst_set: "fst ` set ?ps = (+) ?n ` {2, 3, 4, 5, 6, 7, 8, 9, 10, 11, 1, 0} \<union> {?kt, ?kf} \<union> (+) ?n ` {14, 15, 16}"
    using arg_cong [OF fsts, of set] by (simp add: image_image insert_commute)
  have "\<exists>h2. add_samples ?ps h1 = Some h2 \<and>
    (\<forall>a1 a2. (a1, a2) \<in> set ?ps \<longrightarrow> h_mem h2 a1 = Some (sample_add (sam h1 a1) (sam h1 a2))) \<and>
    (\<forall>a. a \<notin> fst ` set ?ps \<longrightarrow> h_mem h2 a = h_mem h1 a)"
  proof (rule add_samples_val)
    show "distinct (map fst ?ps)" unfolding fsts using m1 by simp
    show "fst ` set ?ps \<inter> snd ` set ?ps = {}" unfolding fst_set using snds by fastforce
    fix a1 a2 assume p: "(a1, a2) \<in> set ?ps"
    then have "a1 \<in> fst ` set ?ps" "a2 \<in> snd ` set ?ps" by (force, force)
    then show "h_mem h1 a1 \<noteq> None \<and> h_mem h1 a2 \<noteq> None"
      using snds [of a2] old m1 mdt_live_mem [OF live(1) mem(1)] mdt_live_mem [OF live(1) mem(2)] new new [of 0] new [of 1]
      unfolding fst_set by (auto simp del: add_2_eq_Suc')
  qed
  then obtain h2 where h2: "add_samples ?ps h1 = Some h2"
    "\<And>a1 a2. (a1, a2) \<in> set ?ps \<Longrightarrow> h_mem h2 a1 = Some (sample_add (sam h1 a1) (sam h1 a2))" by blast
  have "(?kt, m_kbytes_total m2) \<in> set ?ps" "(?kf, m_kbytes_free m2) \<in> set ?ps" using sv by (simp_all add: summary_pairs_def)
  moreover have "sam h1 a = sam h a" if "a < ?n" for a using old [OF that] by (simp add: sam_def)
  moreover have "m_kbytes_total m2 < ?n" "m_kbytes_free m2 < ?n" using mem [of m2] lt by blast+
  ultimately show ?thesis using h2 m1 by simp
qed


text \<open>C37: The summary of a metadata server changes its first target. For two fresh targets on one server,
  \<open>_summarize_mdt\<close> shows a server record that shares the \<open>kbytes_total\<close> and \<open>kbytes_free\<close> samples of the first target
  (\<open>_copy_mdtstat\<close> does not copy them), so both samples of the target itself become the sum over the two targets.\<close>

theorem mds_summary_corrupts_target:
  assumes "mdts_ok [m1, m2] h" "t_servername (m_common m2) = t_servername (m_common m1)"
    and "tnow - tgt_metric_timestamp (m_common m1) \<le> secs" "tnow - tgt_metric_timestamp (m_common m2) \<le> secs"
  shows "\<exists>srv h'. summarize_mdt [m1, m2] [] tnow secs h = Some ([srv], h') \<and>
    m_kbytes_total srv = m_kbytes_total m1 \<and> m_kbytes_free srv = m_kbytes_free m1 \<and>
    h_mem h' (m_kbytes_total m1) = Some (sample_add (sam h (m_kbytes_total m1)) (sam h (m_kbytes_total m2))) \<and>
    h_mem h' (m_kbytes_free m1) = Some (sample_add (sam h (m_kbytes_free m1)) (sam h (m_kbytes_free m2)))"
proof -
  have live: "mdt_live h m1" using assms(1) by (simp add: mdts_ok_def)
  obtain srv h1 where c: "copy_mdtstat m1 h = Some (srv, h1)" "m_kbytes_free srv = m_kbytes_free m1"
    "m_kbytes_total srv = m_kbytes_total m1"
    "t_servername (m_common srv) = t_servername (m_common m1)"
    using copy_mdtstat_alias [OF live] by auto
  let ?srv = "srv\<lparr>m_common := (m_common srv)\<lparr>t_name := count_name 1\<rparr>\<rparr>"
  have sp: "summary_pairs ?srv m2 = summary_pairs srv m2" by (simp add: summary_pairs_def)
  have add: "single_mdt_update_summary m2 ?srv h1 = add_samples (summary_pairs srv m2) h1"
    unfolding single_mdt_update_summary_def summary_pairs_def by simp
  obtain h2 where h2: "add_samples (summary_pairs srv m2) h1 = Some h2"
    "h_mem h2 (m_kbytes_total m1) = Some (sample_add (sam h (m_kbytes_total m1)) (sam h (m_kbytes_total m2)))"
    "h_mem h2 (m_kbytes_free m1) = Some (sample_add (sam h (m_kbytes_free m1)) (sam h (m_kbytes_free m2)))"
    using summary_add_first [OF assms(1) c(1)] by blast
  have "summarize_mdt [m1, m2] [] tnow secs h =
      Some ([?srv\<lparr>m_common := merge_common (m_common m2) (m_common ?srv)\<rparr>], h2)"
    using assms(2-4) c add h2(1)
    by (simp add: summarize_mdt_def new_mdt_summary_def merge_mdt_def match_mdtstat2_def sort_spec_def sort_ins_def)
  then show ?thesis using h2(2,3) c by simp
qed

definition two_mdts :: "nat \<Rightarrow> mdtstat" where
  "two_mdts a = \<lparr>m_common = \<lparr>t_fsname = ''a'', t_name = ''0'', t_servername = ''mds1'', tgt_metric_timestamp = 100,
       t_recov_status = [], t_tgtstate = [], t_pct_cpu = a + 14, t_pct_mem = a + 15, t_tag = False\<rparr>,
     m_inodes_free = a, m_inodes_total = a + 1, m_open = a + 2, m_close = a + 3, m_getattr = a + 4,
     m_setattr = a + 5, m_link = a + 6, m_unlink = a + 7, m_mkdir = a + 8, m_rmdir = a + 9,
     m_statfs = a + 10, m_rename = a + 11, m_kbytes_free = a + 12, m_kbytes_total = a + 13,
     m_getxattr = a + 16, m_read_bytes = a + 17, m_write_bytes = a + 18\<rparr>"

definition two_mdts_heap :: heap where
  "two_mdts_heap = \<lparr>h_mem = (\<lambda>a. if a < 38 then Some (sample_update (sample_create 12) (FFin (if a < 19 then 10 else 20)) 100) else None),
     h_next = 38\<rparr>"

theorem mds_summary_corrupts_target_witness:
  "\<exists>srv h'. summarize_mdt [two_mdts 0, two_mdts 19] [] 100 12 two_mdts_heap = Some ([srv], h') \<and>
    map_option val1 (h_mem two_mdts_heap 13) = Some (FFin 10) \<and> map_option val1 (h_mem h' 13) = Some (FFin 30)"
proof -
  have ok: "mdts_ok [two_mdts 0, two_mdts 19] two_mdts_heap"
    by (simp add: mdts_ok_def two_mdts_def two_mdts_heap_def mdt_addrs_def mdt_live_def)
  have "\<exists>srv h'. summarize_mdt [two_mdts 0, two_mdts 19] [] 100 12 two_mdts_heap = Some ([srv], h') \<and>
    m_kbytes_total srv = m_kbytes_total (two_mdts 0) \<and> m_kbytes_free srv = m_kbytes_free (two_mdts 0) \<and>
    h_mem h' (m_kbytes_total (two_mdts 0)) = Some (sample_add (sam two_mdts_heap (m_kbytes_total (two_mdts 0)))
      (sam two_mdts_heap (m_kbytes_total (two_mdts 19)))) \<and>
    h_mem h' (m_kbytes_free (two_mdts 0)) = Some (sample_add (sam two_mdts_heap (m_kbytes_free (two_mdts 0)))
      (sam two_mdts_heap (m_kbytes_free (two_mdts 19))))"
    by (rule mds_summary_corrupts_target [OF ok]) (simp_all add: two_mdts_def)
  then obtain srv h' where r: "summarize_mdt [two_mdts 0, two_mdts 19] [] 100 12 two_mdts_heap = Some ([srv], h')"
    "h_mem h' 13 = Some (sample_add (sam two_mdts_heap 13) (sam two_mdts_heap 32))"
    by (auto simp: two_mdts_def)
  have "val1 (sample_add (sam two_mdts_heap 13) (sam two_mdts_heap 32)) = FFin 30"
    by code_simp
  then show ?thesis using r by (intro exI [of _ srv] exI [of _ h'])
    (simp add: two_mdts_heap_def sample_update_def sample_create_def)
qed

section \<open>Memory safety of an update\<close>

text \<open>A record none of the strings names.\<close>

definition untouched :: "(string \<Rightarrow> mdt_decoded option option) \<Rightarrow> string option \<Rightarrow> string list \<Rightarrow> mdtstat \<Rightarrow> bool" where
  "untouched dec fs ss m \<longleftrightarrow> list_all (\<lambda>s. case dec s of
     Some (Some (n, _)) \<Rightarrow> wanted fs n \<longrightarrow> mdt_key m \<noteq> tgt_key ''-MDT'' n | _ \<Rightarrow> True) ss"

lemma update_mdts_frame:
  assumes "mdt_names_ok dec fs ss" "mdts_ok l h" "version \<in> {2, 3}"
    and "\<And>s. dec s \<noteq> None" "\<And>s n c r ops. dec s = Some (Some (n, c, r, ops)) \<Longrightarrow> r \<noteq> None"
    and "update_mdts dec fs sv cpu mem trcv secs version ss l h = Some (l', h')" "m \<in> set l" "untouched dec fs ss m"
  shows "m \<in> set l' \<and> (\<forall>a \<in> set (mdt_addrs m). h_mem h' a = h_mem h a)"
  using assms(1,2,6-)
proof (induction ss arbitrary: l h)
  case (Cons s ss)
  have ss: "mdt_names_ok dec fs ss" "untouched dec fs ss m" using Cons(2,6) by (simp_all add: mdt_names_ok_def untouched_def)
  obtain d where d: "dec s = Some d" using assms(4) by blast
  show ?case
  proof (cases "\<exists>n c r ops. d = Some (n, c, r, ops) \<and> wanted fs n")
    case False
    then have "update_mdts dec fs sv cpu mem trcv secs version ss l h = Some (l', h')"
      using Cons(4) d by (auto split: option.splits prod.splits)
    then show ?thesis using Cons(1) [OF ss(1) Cons(3)] Cons(5) ss(2) by blast
  next
    case True
    then obtain n c r ops where x: "d = Some (n, c, r, ops)" and w: "wanted fs n" by blast
    have "tgt_name_ok ''-MDT'' n" "mdt_key m \<noteq> tgt_key ''-MDT'' n"
      using Cons(2,6) d x w by (simp_all add: mdt_names_ok_def untouched_def)
    moreover have "(version = 1) = (r = None)" using assms(3) assms(5) [of s n c r ops] d x by auto
    moreover have "version \<in> {1, 2, 3}" using assms(3) by auto
    ultimately obtain l1 h1 where l1: "update_mdt n sv (c ! 0, c ! 1, c ! 2, c ! 3) cpu mem r ops l trcv secs version h = Some (l1, h1)"
      "mdts_ok l1 h1" "m \<in> set l1" "\<forall>a \<in> set (mdt_addrs m). h_mem h1 a = h_mem h a"
      using update_mdt_safe [of n l h version r sv "(c ! 0, c ! 1, c ! 2, c ! 3)" cpu mem ops trcv secs] Cons(3,5) by auto
    have "update_mdts dec fs sv cpu mem trcv secs version ss l1 h1 = Some (l', h')" using Cons(4) d x w l1(1) by simp
    then show ?thesis using Cons(1) [OF ss(1) l1(2) _ l1(3) ss(2)] l1(4) by simp
  qed
qed simp

text \<open>C18: decoding a metric of a metadata server is memory safe: when the samples of the records are allocated and
  no two records share one, every access of \<open>_decode_mdt_v3\<close> is to an allocated sample and the same holds afterwards,
  for any string whose target names fit the record. A record the string does not name keeps its samples.\<close>

theorem decode_mdt_v3_safe:
  assumes "mdts_ok l h"
    and "\<And>mds cpu mem ss. lmt_mdt_decode_v1_v2_v3 val 3 = Some (Some (mds, cpu, mem, ss)) \<Longrightarrow>
      mdt_names_ok lmt_mdt_decode_v3_mdtinfo fs ss"
  shows "\<exists>l' h'. decode_mdt_v3 val fs l trcv secs h = Some (l', h') \<and> mdts_ok l' h' \<and>
    (\<forall>mds cpu mem ss m. lmt_mdt_decode_v1_v2_v3 val 3 = Some (Some (mds, cpu, mem, ss)) \<longrightarrow>
       m \<in> set l \<longrightarrow> untouched lmt_mdt_decode_v3_mdtinfo fs ss m \<longrightarrow>
       m \<in> set l' \<and> (\<forall>a \<in> set (mdt_addrs m). h_mem h' a = h_mem h a))"
proof (cases "lmt_mdt_decode_v1_v2_v3 val 3")
  case None
  then show ?thesis by (simp add: lmt_mdt_decode_v1_v2_v3_def)
next
  case (Some d)
  show ?thesis
  proof (cases d)
    case None
    then show ?thesis using Some assms(1) by (simp add: decode_mdt_v3_def)
  next
    case d: (Some x)
    obtain mds cpu mem ss where x: "x = (mds, cpu, mem, ss)" by (cases x)
    let ?u = "update_mdts lmt_mdt_decode_v3_mdtinfo fs mds cpu mem trcv secs 3 ss l h"
    have n: "mdt_names_ok lmt_mdt_decode_v3_mdtinfo fs ss" using assms(2) Some d x by simp
    obtain l' h' where u: "?u = Some (l', h')" "mdts_ok l' h'"
      using update_mdts_safe [OF n assms(1), of 3 mds cpu mem trcv secs] mdt_decoded_recov(2,4) by blast
    have "m \<in> set l' \<and> (\<forall>a \<in> set (mdt_addrs m). h_mem h' a = h_mem h a)"
      if "m \<in> set l" "untouched lmt_mdt_decode_v3_mdtinfo fs ss m" for m
      using update_mdts_frame [OF n assms(1) _ _ _ u(1) that] mdt_decoded_recov(2,4) by blast
    then show ?thesis using Some d x u by (simp add: decode_mdt_v3_def)
  qed
qed

definition mds_text_example :: string where
  "mds_text_example = ''3;mds1;50.000000;75.000000;a-MDT0;11;12;13;14;COMPLETE  0s remaining;3'' @ concat (replicate 68 '';0'')"

theorem decode_mdt_v3_safe_witness:
  "\<exists>l' h'. decode_mdt_v3 mds_text_example None [two_mdts 0] 200 12 two_mdts_heap = Some (l', h') \<and> mdts_ok l' h'"
proof -
  have ok: "mdts_ok [two_mdts 0] two_mdts_heap"
    by (simp add: mdts_ok_def two_mdts_def two_mdts_heap_def mdt_addrs_def mdt_live_def)
  have n: "mdt_names_ok lmt_mdt_decode_v3_mdtinfo None ss"
    if "lmt_mdt_decode_v1_v2_v3 mds_text_example 3 = Some (Some (mds, cpu, mem, ss))" for mds cpu mem ss
  proof -
    have "(case lmt_mdt_decode_v1_v2_v3 mds_text_example 3 of
      Some (Some (_, _, _, ss)) \<Rightarrow> length ss = 1 \<and> mdt_names_ok lmt_mdt_decode_v3_mdtinfo None ss | _ \<Rightarrow> False)" by code_simp
    then show ?thesis unfolding that by simp
  qed
  have "\<exists>l' h'. decode_mdt_v3 mds_text_example None [two_mdts 0] 200 12 two_mdts_heap = Some (l', h') \<and> mdts_ok l' h' \<and>
    (\<forall>mds cpu mem ss m. lmt_mdt_decode_v1_v2_v3 mds_text_example 3 = Some (Some (mds, cpu, mem, ss)) \<longrightarrow>
       m \<in> set [two_mdts 0] \<longrightarrow> untouched lmt_mdt_decode_v3_mdtinfo None ss m \<longrightarrow>
       m \<in> set l' \<and> (\<forall>a \<in> set (mdt_addrs m). h_mem h' a = h_mem two_mdts_heap a))"
    by (rule decode_mdt_v3_safe [OF ok n])
  then show ?thesis by blast
qed

end
