(* ===== verification/Lmt_Ltop_Play.thy ===== *)
theory Lmt_Ltop_Play
  imports Lmt_Ltop_Mdt
begin

text \<open>
  \<open>utils/ltop.c\<close>, where the data comes from: polling cerebro, recording what was polled in a file, playing such a
  file back batch by batch, rewinding it, and the list of file systems seen in one batch. The file is its text, a
  position and the end-of-file indicator; read errors of the file are not modelled. \<open>None\<close> stands for the end of the
  process: an assertion, \<open>msg_exit\<close>, or a buffer that is written out of bounds.
\<close>

section \<open>Metrics and files\<close>

text \<open>What the accessors of a \<open>cmetric_t\<close> return; \<open>None\<close> is a null pointer.\<close>

record cmetric =
  c_name :: "string option"
  c_nodename :: "string option"
  c_val :: "string option"
  c_time :: int

record playf =
  pf_text :: string
  pf_pos :: nat
  pf_eof :: bool

type_synonym ts = "nat \<times> u64"

text \<open>The tables of targets, and the samples the metadata targets point to.\<close>

record tables =
  tb_mdt :: "mdtstat list"
  tb_ost :: "oststat list"
  tb_heap :: heap

definition on_mdt :: "(mdtstat list \<Rightarrow> heap \<Rightarrow> (mdtstat list \<times> heap) option) \<Rightarrow> tables \<Rightarrow> tables option" where
  "on_mdt f tb = map_option (\<lambda>(l, h). tb\<lparr>tb_mdt := l, tb_heap := h\<rparr>) (f (tb_mdt tb) (tb_heap tb))"

definition on_ost :: "(oststat list \<Rightarrow> oststat list option) \<Rightarrow> tables \<Rightarrow> tables option" where
  "on_ost f tb = map_option (\<lambda>l. tb\<lparr>tb_ost := l\<rparr>) (f (tb_ost tb))"

definition metric_vers :: "string \<Rightarrow> fp option" where
  "metric_vers s = (case sscanf [DFloat, DLit CHR '';''] s of (n, vs) \<Rightarrow>
     if n \<noteq> 1 then None else (case vs of [VF v] \<Rightarrow> Some v | _ \<Rightarrow> None))"

section \<open>Polling and recording\<close>

definition record_line :: "int \<Rightarrow> int \<Rightarrow> string \<Rightarrow> string \<Rightarrow> string \<Rightarrow> string" where
  "record_line tnow trcv node name s =
     print_u64 (word_of_int tnow) @ '' '' @ print_u64 (word_of_int trcv) @ '' '' @ node @ '' '' @ name @ '' '' @ s @
     [newline]"

definition record_file :: "string option \<Rightarrow> int \<Rightarrow> int \<Rightarrow> string \<Rightarrow> string \<Rightarrow> string \<Rightarrow> string option" where
  "record_file recf tnow trcv node name s = map_option (\<lambda>t. t @ record_line tnow trcv node name s) recf"

definition poll_decode :: "string option \<Rightarrow> int \<Rightarrow> int \<Rightarrow> int \<Rightarrow> string \<Rightarrow> fp \<Rightarrow> string \<Rightarrow> tables \<Rightarrow> tables option" where
  "poll_decode fs secs tnow trcv name vers s tb =
     (if name = ''lmt_mdt'' \<and> vers = FFin 2 then on_mdt (\<lambda>l. decode_mdt_v2 s fs l trcv secs) tb
      else if name = ''lmt_mdt'' \<and> vers = FFin 3 then on_mdt (\<lambda>l. decode_mdt_v3 s fs l trcv secs) tb
      else if name = ''lmt_ost'' \<and> vers = FFin 2 then on_ost (\<lambda>l. decode_ost_v2 s fs l trcv secs) tb
      else if name = ''lmt_osc'' \<and> vers = FFin 1 then on_ost (\<lambda>l. decode_osc_v1 s fs l tnow trcv secs) tb
      else Some tb)"

text \<open>The loop of \<open>_poll_cerebro\<close>: metrics without a name, node, value or version are skipped and not recorded.\<close>

fun poll_metrics :: "string option \<Rightarrow> int \<Rightarrow> int \<Rightarrow> cmetric list \<Rightarrow> string option \<Rightarrow> tables \<Rightarrow> (tables \<times> string option) option" where
  "poll_metrics fs secs tnow [] recf tb = Some (tb, recf)"
| "poll_metrics fs secs tnow (c # cs) recf tb =
     (case (c_name c, c_nodename c, c_val c) of
        (Some name, Some node, Some s) \<Rightarrow>
          (case metric_vers s of
             None \<Rightarrow> poll_metrics fs secs tnow cs recf tb
           | Some vers \<Rightarrow>
               (case poll_decode fs secs tnow (c_time c) name vers s tb of
                  None \<Rightarrow> None
                | Some tb' \<Rightarrow>
                    poll_metrics fs secs tnow cs (record_file recf tnow (c_time c) node name s) tb'))
      | _ \<Rightarrow> poll_metrics fs secs tnow cs recf tb)"

text \<open>\<open>metrics\<close> is what \<open>lmt_cbr_get_metrics\<close> returns, \<open>None\<close> for an error; \<open>tp\<close> is \<open>None\<close> for a null pointer.\<close>

definition poll_cerebro :: "string option \<Rightarrow> int \<Rightarrow> int \<Rightarrow> cmetric list option \<Rightarrow> string option \<Rightarrow> int option \<Rightarrow> tables \<Rightarrow>
    (tables \<times> string option \<times> int option) option" where
  "poll_cerebro fs secs now metrics recf tp tb =
     (case metrics of
        None \<Rightarrow> Some (tb, recf, tp)
      | Some l \<Rightarrow> map_option (\<lambda>(tb', recf'). (tb', recf', map_option (\<lambda>_. now) tp)) (poll_metrics fs secs now l recf tb))"

section \<open>Playing a recording\<close>

definition play_format :: "dir list" where
  "play_format = [DU64, DWs, DU64, DWs, DStr 64, DWs, DStr 16, DWs, DNot newline (Some 65536), DWs]"

text \<open>The first test of the chain stands alone: after a metric of version 2 the rest of the chain is tried as well.\<close>

definition play_decode :: "string option \<Rightarrow> int \<Rightarrow> int \<Rightarrow> int \<Rightarrow> string \<Rightarrow> fp \<Rightarrow> string \<Rightarrow> tables \<Rightarrow> tables option" where
  "play_decode fs secs tnow trcv name vers s tb =
     Option.bind
       (if name = ''lmt_mdt'' \<and> vers = FFin 2 then on_mdt (\<lambda>l. decode_mdt_v2 s fs l trcv secs) tb else Some tb)
       (\<lambda>tb.
         if name = ''lmt_mdt'' \<and> vers = FFin 3 then on_mdt (\<lambda>l. decode_mdt_v3 s fs l trcv secs) tb
         else if name = ''lmt_ost'' \<and> vers = FFin 2 then on_ost (\<lambda>l. decode_ost_v2 s fs l trcv secs) tb
         else if name = ''lmt_osc'' \<and> vers = FFin 1 then on_ost (\<lambda>l. decode_osc_v1 s fs l tnow trcv secs) tb
         else Some tb)"

text \<open>The position and the fields \<open>fscanf\<close> reads at a position; \<open>None\<close> in the second component when it does not
  return 5. The end of the file has been seen exactly when nothing is left, because the format ends in white space.\<close>

definition play_scan :: "string \<Rightarrow> nat \<Rightarrow> nat \<times> (u64 \<times> u64 \<times> string \<times> string \<times> string) option" where
  "play_scan text pos =
     (case scan_dirs play_format (drop pos text) of (vs, rest, _) \<Rightarrow>
        (length text - length rest,
         case vs of [VU tnow, VU trcv, VS node, VS name, VS s] \<Rightarrow> Some (tnow, trcv, node, name, s) | _ \<Rightarrow> None))"

record playres =
  pr_pos :: nat
  pr_eof :: bool
  pr_tmark :: u64
  pr_tdiff :: int
  pr_ts :: "ts option"
  pr_tables :: tables

text \<open>Every record that is read consumes text.\<close>

lemma length_take_sign: "take_sign s = (neg, r) \<Longrightarrow> length r \<le> length s"
  by (cases s) (auto simp: take_sign_def split: if_splits)

lemma scan_int_consumes: "conv_int s = SOk v r \<Longrightarrow> length r < length s"
proof -
  assume a: "conv_int s = SOk v r"
  let ?s1 = "skip_ws s"
  have ne: "?s1 \<noteq> []" using a by (auto simp: conv_int_def Let_def split: if_splits)
  obtain neg s2 where t: "take_sign ?s1 = (neg, s2)" by fastforce
  have ds: "takeWhile isdigit s2 \<noteq> []" "r = dropWhile isdigit s2"
    using a ne t by (auto simp: conv_int_def Let_def split: if_splits)
  have "length s2 \<le> length ?s1" using t by (rule length_take_sign)
  moreover have "length ?s1 \<le> length s" by (simp add: skip_ws_def length_dropWhile_le)
  moreover have "length r < length s2"
    using ds arg_cong [OF takeWhile_dropWhile_id [of isdigit s2], of length] by (cases "takeWhile isdigit s2") auto
  ultimately show ?thesis by linarith
qed

lemma conv_int_shrinks: "conv_int s = SFail r \<Longrightarrow> length r \<le> length s"
proof -
  assume a: "conv_int s = SFail r"
  then have ne: "skip_ws s \<noteq> []" by (auto simp: conv_int_def Let_def)
  obtain neg s2 where t: "take_sign (skip_ws s) = (neg, s2)" by fastforce
  have "r = s2" using a ne t by (auto simp: conv_int_def Let_def split: if_splits)
  moreover have "length s2 \<le> length (skip_ws s)" using t by (rule length_take_sign)
  moreover have "length (skip_ws s) \<le> length s" by (simp add: skip_ws_def length_dropWhile_le)
  ultimately show ?thesis by simp
qed

fun rest_of :: "'a scan \<Rightarrow> string" where
  "rest_of SEof = []"
| "rest_of (SFail r) = r"
| "rest_of (SOk v r) = r"

text \<open>The directives of the format shorten the input.\<close>

fun shrinking :: "dir \<Rightarrow> bool" where
  "shrinking DFloat = False"
| "shrinking DSkipFloat = False"
| "shrinking d = True"

lemma rest_map_scan [simp]: "rest_of (map_scan f r) = rest_of r"
  by (cases r) auto

lemma rest_conv_int: "length (rest_of (conv_int s)) \<le> length s"
  by (cases "conv_int s") (auto dest: scan_int_consumes conv_int_shrinks)

lemma length_span_max: "span_max w P s = (t, r) \<Longrightarrow> length r \<le> length s"
  by (auto simp: span_max_def Let_def)

lemma scan_step_shrinks: "shrinking d \<Longrightarrow> length (rest_of (scan_step d s)) \<le> length s"
proof (cases d)
  case (DStr n)
  have "length (skip_ws s) \<le> length s" by (simp add: skip_ws_def length_dropWhile_le)
  then show ?thesis using DStr
    by (auto simp: conv_str_def span_max_def Let_def intro: le_trans)
next
  case DSkipStr
  have "length (skip_ws s) \<le> length s" by (simp add: skip_ws_def length_dropWhile_le)
  then show ?thesis using DSkipStr
    by (auto simp: conv_str_def span_max_def Let_def intro: le_trans)
qed (auto simp: rest_conv_int conv_set_def skip_ws_def length_dropWhile_le span_max_def Let_def split: list.splits)

lemma scan_dirs_shrinks: "list_all shrinking ds \<Longrightarrow> scan_dirs ds s = (vs, r, e) \<Longrightarrow> length r \<le> length s"
proof (induction ds arbitrary: s vs r e)
  case Nil
  then show ?case by simp
next
  case (Cons d ds)
  then have d: "length (rest_of (scan_step d s)) \<le> length s" using scan_step_shrinks by simp
  show ?case
  proof (cases "scan_step d s")
    case (SOk v r1)
    obtain vs1 r2 e2 where s: "scan_dirs ds r1 = (vs1, r2, e2)" by (metis prod_cases3)
    then have "length r2 \<le> length r1" using Cons.IH [OF _ s] Cons.prems(1) by simp
    then show ?thesis using Cons.prems(2) SOk s d by simp
  qed (use Cons.prems d in auto)
qed

lemma play_scan_progress: "play_scan text pos = (p, Some x) \<Longrightarrow> length text - p < length text - pos"
proof -
  assume a: "play_scan text pos = (p, Some x)"
  obtain vs rest e where s: "scan_dirs play_format (drop pos text) = (vs, rest, e)" by (metis prod_cases3)
  with a have p: "p = length text - length rest" and vs: "length vs = 5"
    by (auto simp: play_scan_def split: list.splits sval.splits)
  have "scan_step DU64 (drop pos text) \<noteq> SEof" "\<nexists>r. scan_step DU64 (drop pos text) = SFail r"
    using s vs by (auto simp: play_format_def)
  then obtain v r where i: "conv_int (drop pos text) = SOk v r"
    by (cases "conv_int (drop pos text)") auto
  then have lt: "length r < length (drop pos text)" by (rule scan_int_consumes)
  have "length rest \<le> length r"
    using s i scan_dirs_shrinks [of "tl play_format" r] by (auto simp: play_format_def split: prod.splits)
  with lt p show ?thesis by simp
qed

function play_loop :: "string option \<Rightarrow> int \<Rightarrow> string \<Rightarrow> bool \<Rightarrow> nat \<Rightarrow> u64 \<Rightarrow> nat \<Rightarrow> ts option \<Rightarrow> tables \<Rightarrow> playres option" where
  "play_loop fs secs text series fpos tmark pos ts tb =
     (case play_scan text fpos of
        (fpos', None) \<Rightarrow>
          Some \<lparr>pr_pos = fpos', pr_eof = (fpos' = length text), pr_tmark = tmark, pr_tdiff = 0, pr_ts = ts,
                pr_tables = tb\<rparr>
      | (fpos', Some (tnow, trcv, node, name, s)) \<Rightarrow>
          if 64 \<le> length node \<or> 16 \<le> length name \<or> 65536 \<le> length s then None
          else if tmark \<noteq> 0 \<and> tmark \<noteq> tnow then
            Some \<lparr>pr_pos = pos, pr_eof = False, pr_tmark = tmark, pr_tdiff = sint (ucast (tnow - tmark) :: u32),
                  pr_ts = ts, pr_tables = tb\<rparr>
          else (case metric_vers s of
                  None \<Rightarrow> None
                | Some vers \<Rightarrow>
                    (case play_decode fs secs (sint tnow) (sint trcv) name vers s tb of
                       None \<Rightarrow> None
                     | Some tb' \<Rightarrow>
                         play_loop fs secs text series fpos' tnow fpos'
                           (if ts = None \<and> series then Some (fpos', tnow) else ts) tb')))"
  by pat_completeness auto
termination by (relation "measure (\<lambda>(fs, secs, text, series, fpos, _). length text - fpos)")
  (auto dest: play_scan_progress [OF sym])

declare play_loop.simps [simp del]

text \<open>The arguments of \<open>_play_file\<close> and what it changes; the null pointers of the caller are \<open>None\<close>.\<close>

record playst =
  ps_file :: playf
  ps_series :: "ts list option"
  ps_tp :: "int option"
  ps_tdiff :: "int option"
  ps_tables :: tables

definition play_file :: "string option \<Rightarrow> int \<Rightarrow> playst \<Rightarrow> playst option" where
  "play_file fs secs st =
     (let f = ps_file st in
      if pf_eof f then Some st
      else case play_loop fs secs (pf_text f) (ps_series st \<noteq> None) (pf_pos f) 0 0 None (ps_tables st) of
        None \<Rightarrow> None
      | Some r \<Rightarrow>
          if pr_tmark r = 0 then None
          else Some \<lparr>ps_file = f\<lparr>pf_pos := pr_pos r, pf_eof := pr_eof r\<rparr>,
                     ps_series = (case (pr_ts r, ps_series st) of (Some t, Some l) \<Rightarrow> Some (t # l) | _ \<Rightarrow> ps_series st),
                     ps_tp = map_option (\<lambda>_. sint (pr_tmark r)) (ps_tp st),
                     ps_tdiff = map_option (\<lambda>d. if pr_eof r then d else pr_tdiff r) (ps_tdiff st),
                     ps_tables = pr_tables r\<rparr>)"

section \<open>Rewinding\<close>

definition seek_to :: "nat \<Rightarrow> playf \<Rightarrow> playf" where
  "seek_to p f = f\<lparr>pf_pos := p, pf_eof := False\<rparr>"

fun rewind_file :: "nat \<Rightarrow> playf \<Rightarrow> ts list \<Rightarrow> playf \<times> ts list \<times> nat" where
  "rewind_file 0 f series = (f, series, 0)"
| "rewind_file (Suc n) f series =
     (case series of
        [] \<Rightarrow> (f, [], 0)
      | ts # series \<Rightarrow>
          (case rewind_file n (seek_to (fst ts) f) series of (f', series', res) \<Rightarrow> (f', series', Suc res)))"

text \<open>\<open>ts->t\<close> is unsigned: the target is converted to \<open>uint64_t\<close> for the comparison.\<close>

fun rewind_file_to :: "int \<Rightarrow> playf \<Rightarrow> ts list \<Rightarrow> playf \<times> ts list" where
  "rewind_file_to target f [] = (f, [])"
| "rewind_file_to target f (ts # series) =
     (if snd ts \<le> word_of_int target then (seek_to (fst ts) f, series)
      else rewind_file_to target (seek_to (fst ts) f) series)"

section \<open>The file systems of one batch\<close>

record fsstat =
  fs_name :: string
  fs_num_mdt :: nat
  fs_num_ost :: nat

definition match_fsstat :: "fsstat \<Rightarrow> string \<Rightarrow> bool" where
  "match_fsstat f fsname \<longleftrightarrow> fs_name f = fsname"

definition create_fsstat :: "string \<Rightarrow> nat \<Rightarrow> nat \<Rightarrow> fsstat" where
  "create_fsstat fsname mdts osts = \<lparr>fs_name = fsname, fs_num_mdt = mdts, fs_num_ost = osts\<rparr>"

fun count_mdt :: "fsstat list \<Rightarrow> string \<Rightarrow> fsstat list" where
  "count_mdt [] n = [create_fsstat n 1 0]"
| "count_mdt (f # l) n = (if match_fsstat f n then f\<lparr>fs_num_mdt := Suc (fs_num_mdt f)\<rparr> # l else f # count_mdt l n)"

fun count_ost :: "fsstat list \<Rightarrow> string \<Rightarrow> fsstat list" where
  "count_ost [] n = [create_fsstat n 0 1]"
| "count_ost (f # l) n = (if match_fsstat f n then f\<lparr>fs_num_ost := Suc (fs_num_ost f)\<rparr> # l else f # count_ost l n)"

definition count_fs :: "tables \<Rightarrow> fsstat list" where
  "count_fs tb =
     foldl count_ost (foldl count_mdt [] (map (\<lambda>m. t_fsname (m_common m)) (tb_mdt tb)))
       (map (\<lambda>o1. t_fsname (o_common o1)) (tb_ost tb))"

text \<open>One batch is read from the file, which moves on, or polled; the tables are destroyed afterwards.\<close>

definition find_all_fs :: "playf option \<Rightarrow> int \<Rightarrow> int \<Rightarrow> cmetric list option \<Rightarrow> heap \<Rightarrow> (fsstat list \<times> playf option \<times> heap) option" where
  "find_all_fs playf secs now metrics h =
     (let tb = \<lparr>tb_mdt = [], tb_ost = [], tb_heap = h\<rparr> in
      case (case playf of
              Some f \<Rightarrow> map_option (\<lambda>st. (ps_tables st, Some (ps_file st)))
                (play_file None secs \<lparr>ps_file = f, ps_series = None, ps_tp = None, ps_tdiff = None, ps_tables = tb\<rparr>)
            | None \<Rightarrow> map_option (\<lambda>(tb', _). (tb', None)) (poll_cerebro None secs now metrics None None tb)) of
        None \<Rightarrow> None
      | Some (tb', playf') \<Rightarrow>
          map_option (\<lambda>h'. (count_fs tb', playf', h')) (empty_out destroy_mdtstat (tb_mdt tb') (tb_heap tb')))"

fun first_fs :: "fsstat list \<Rightarrow> string option" where
  "first_fs [] = None"
| "first_fs (f # l) = (if 0 < fs_num_ost f \<or> 0 < fs_num_mdt f then Some (fs_name f) else first_fs l)"

definition find_first_fs :: "playf option \<Rightarrow> int \<Rightarrow> int \<Rightarrow> cmetric list option \<Rightarrow> heap \<Rightarrow> (string option \<times> playf option \<times> heap) option" where
  "find_first_fs playf secs now metrics h =
     map_option (\<lambda>(fsl, playf', h'). (first_fs fsl, playf', h')) (find_all_fs playf secs now metrics h)"

section \<open>The menu of file systems\<close>

datatype key = KChar char | KEY_UP | KEY_DOWN | KEY_LEFT | KEY_RIGHT | KEY_PPAGE | KEY_NPAGE | KEY_DC | KEY_BACKSPACE
  | KEY_ENTER | KEY_OTHER | KEY_ERR

text \<open>The keys are those \<open>getch\<close> returns one after another; the result is the name chosen, if any, and the keys left,
  and \<open>None\<close> when the keys end before the menu does.\<close>

fun choose_loop :: "fsstat list \<Rightarrow> nat \<Rightarrow> key list \<Rightarrow> (string option \<times> key list) option" where
  "choose_loop fsl selfs [] = None"
| "choose_loop fsl selfs (c # cs) =
     (if c = KEY_UP \<or> c = KChar CHR ''k'' then choose_loop fsl (selfs - 1) cs
      else if c = KEY_DOWN \<or> c = KChar CHR ''j'' then
        choose_loop fsl (if Suc selfs < length fsl then Suc selfs else selfs) cs
      else if c = KChar newline \<or> c = KEY_ENTER \<or> c = KChar CHR '' '' then
        (if selfs < length fsl then Some (Some (fs_name (fsl ! selfs)), cs) else choose_loop fsl selfs cs)
      else if c = KEY_ERR then choose_loop fsl selfs cs
      else Some (None, cs))"

definition choose_fs :: "playf option \<Rightarrow> int \<Rightarrow> int \<Rightarrow> cmetric list option \<Rightarrow> key list \<Rightarrow> heap \<Rightarrow>
    (string option \<times> playf option \<times> heap) option" where
  "choose_fs playf secs now metrics keys h =
     (case find_all_fs playf secs now metrics h of
        None \<Rightarrow> None
      | Some (fsl, playf', h') \<Rightarrow>
          if fsl = [] then Some (None, playf', h')
          else map_option (\<lambda>(ret, _). (ret, playf', h')) (choose_loop fsl 0 keys))"

end
