(* ===== verification/Lmt_Ltop_Replay.thy ===== *)
theory Lmt_Ltop_Replay
  imports Lmt_Ltop_Play
begin

text \<open>
  What a recording of \<open>ltop\<close> contains and what playing it back does: every batch of the recording brings the tables
  into the state the live session had, and rewinding to a batch loses its first record. The lemmas go from the text of
  one record over one batch to a session.
\<close>

section \<open>One record\<close>

definition word_ok :: "nat \<Rightarrow> string \<Rightarrow> bool" where
  "word_ok n w \<longleftrightarrow> w \<noteq> [] \<and> (\<forall>c\<in>set w. \<not> isspace c) \<and> length w < n"

definition value_ok :: "string \<Rightarrow> bool" where
  "value_ok s \<longleftrightarrow> s \<noteq> [] \<and> \<not> isspace (hd s) \<and> newline \<notin> set s \<and> length s < 65536"

definition text_ok :: "string \<Rightarrow> bool" where
  "text_ok s \<longleftrightarrow> s = [] \<or> \<not> isspace (hd s)"

lemma skip_ws_text_ok [simp]: "text_ok s \<Longrightarrow> skip_ws s = s"
  by (cases "s = []") (simp_all add: text_ok_def skip_ws_nonspace)

lemma skip_ws_Cons_space [simp]: "isspace c \<Longrightarrow> skip_ws (c # s) = skip_ws s"
  by (simp add: skip_ws_def)

lemma text_ok_num [simp]: "text_ok (print_u64 w @ r)"
proof -
  have "isdigit (hd (print_u64 w))" by (simp add: print_u64_def)
  then show ?thesis by (simp add: text_ok_def)
qed

lemma text_ok_record_line [simp]: "text_ok (record_line t r node name s @ tail)"
  by (simp add: record_line_def)

lemma text_ok_word: "word_ok n w \<Longrightarrow> text_ok (w @ r)"
  by (auto simp: word_ok_def text_ok_def)

lemma text_ok_value: "value_ok s \<Longrightarrow> text_ok (s @ r)"
  by (auto simp: value_ok_def text_ok_def)

lemma scan_word:
  assumes "word_ok n w" "n \<le> k"
  shows "scan_step (DStr k) (w @ CHR '' '' # r) = SOk (Some (VS w)) (CHR '' '' # r)"
proof -
  have "skip_ws (w @ CHR '' '' # r) = w @ CHR '' '' # r" using text_ok_word [OF assms(1)] by simp
  moreover have "takeWhile (\<lambda>c. \<not> isspace c) (w @ CHR '' '' # r) = w"
    by (rule takeWhile_append_stop) (use assms(1) in \<open>auto simp: word_ok_def\<close>)
  ultimately show ?thesis using assms by (simp add: conv_str_def span_max_def Let_def word_ok_def)
qed

lemma scan_value:
  assumes "value_ok s"
  shows "scan_step (DNot newline (Some 65536)) (s @ newline # r) = SOk (Some (VS s)) (newline # r)"
  using assms by (simp add: conv_set_def span_max_def Let_def value_ok_def)

lemma play_scan_record:
  assumes "word_ok 64 node" "word_ok 16 name" "value_ok s" "text_ok post"
  shows "play_scan (pre @ record_line t r node name s @ post) (length pre) =
    (length (pre @ record_line t r node name s), Some (word_of_int t, word_of_int r, node, name, s))"
proof -
  note ok = text_ok_word [OF assms(1)] text_ok_word [OF assms(2)] text_ok_value [OF assms(3)]
  have sp: "\<not> isdigit CHR '' ''" by simp
  have "scan_dirs play_format (record_line t r node name s @ post) =
    ([VU (word_of_int t), VU (word_of_int r), VS node, VS name, VS s], post, False)"
    unfolding play_format_def record_line_def append.assoc append_Cons append_Nil
    by (simp add: scan_dirs_Some [OF scan_U64 [OF sp]] scan_dirs_Some [OF scan_word [OF assms(1) order_refl]]
        scan_dirs_Some [OF scan_word [OF assms(2) order_refl]] scan_dirs_Some [OF scan_value [OF assms(3)]]
        scan_dirs_None [OF scan_step.simps(1)] ok assms(4) del: scan_step.simps scan_dirs.simps(2))
  then show ?thesis by (simp add: play_scan_def)
qed

lemma play_scan_end: "play_scan text (length text) = (length text, None)"
  by (simp add: play_scan_def play_format_def conv_int_def)

section \<open>One batch\<close>

lemma play_decode_poll: "play_decode fs secs tnow trcv name vers s tb = poll_decode fs secs tnow trcv name vers s tb"
  by (auto simp: play_decode_def poll_decode_def split: Option.bind_split)

text \<open>The metrics that are recorded, and what feeding one into the tables does.\<close>

definition recorded :: "cmetric \<Rightarrow> bool" where
  "recorded c \<longleftrightarrow> c_name c \<noteq> None \<and> c_nodename c \<noteq> None \<and> c_val c \<noteq> None \<and> metric_vers (the (c_val c)) \<noteq> None"

definition line_of :: "int \<Rightarrow> cmetric \<Rightarrow> string" where
  "line_of t c = record_line t (c_time c) (the (c_nodename c)) (the (c_name c)) (the (c_val c))"

definition feed :: "string option \<Rightarrow> int \<Rightarrow> int \<Rightarrow> cmetric \<Rightarrow> tables \<Rightarrow> tables option" where
  "feed fs secs t c tb =
     poll_decode fs secs t (c_time c) (the (c_name c)) (the (metric_vers (the (c_val c)))) (the (c_val c)) tb"

fun feed_all :: "string option \<Rightarrow> int \<Rightarrow> int \<Rightarrow> cmetric list \<Rightarrow> tables \<Rightarrow> tables option" where
  "feed_all fs secs t [] tb = Some tb"
| "feed_all fs secs t (c # cs) tb = Option.bind (feed fs secs t c tb) (feed_all fs secs t cs)"

definition batch_text :: "int \<Rightarrow> cmetric list \<Rightarrow> string" where
  "batch_text t cs = concat (map (line_of t) (filter recorded cs))"

lemma batch_text_simps [simp]:
  "batch_text t [] = []"
  "batch_text t (c # cs) = (if recorded c then line_of t c @ batch_text t cs else batch_text t cs)"
  by (simp_all add: batch_text_def)

lemma poll_metrics_feed:
  "poll_metrics fs secs t cs recf tb =
   map_option (\<lambda>tb'. (tb', map_option (\<lambda>r. r @ batch_text t cs) recf)) (feed_all fs secs t (filter recorded cs) tb)"
proof (induction cs arbitrary: recf tb)
  case Nil
  then show ?case by (cases recf) auto
next
  case (Cons c cs)
  then show ?case
    by (cases recf) (auto simp: recorded_def feed_def record_file_def line_of_def o_def map_option.compositionality
        split: option.splits Option.bind_split)
qed

definition record_ok :: "cmetric \<Rightarrow> bool" where
  "record_ok c \<longleftrightarrow> word_ok 64 (the (c_nodename c)) \<and> word_ok 16 (the (c_name c)) \<and> value_ok (the (c_val c)) \<and>
     0 \<le> c_time c \<and> c_time c < 2 ^ 63"

definition time_ok :: "int \<Rightarrow> bool" where
  "time_ok t \<longleftrightarrow> 0 < t \<and> t < 2 ^ 63"

lemma sint_time: "0 \<le> t \<Longrightarrow> t < 2 ^ 63 \<Longrightarrow> sint (word_of_int t :: u64) = t"
  by (simp add: sint_sbintrunc' signed_take_bit_int_eq_self)

lemma time_word:
  assumes "time_ok t" "time_ok t'"
  shows "(word_of_int t :: u64) = word_of_int t' \<longleftrightarrow> t = t'"
proof
  assume e: "(word_of_int t :: u64) = word_of_int t'"
  then show "t = t'" using assms sint_time [of t] sint_time [of t'] unfolding e by (simp add: time_ok_def)
qed simp

lemma time_word_0 [simp]:
  assumes "time_ok t"
  shows "(word_of_int t :: u64) \<noteq> 0"
proof
  assume e: "(word_of_int t :: u64) = 0"
  then show False using assms sint_time [of t] unfolding e by (simp add: time_ok_def)
qed

text \<open>What follows a batch: the end of the file, or a record of another time.\<close>

fun follows :: "int \<Rightarrow> int option \<Rightarrow> string \<Rightarrow> bool" where
  "follows t None post = (post = [])"
| "follows t (Some t') post =
     (\<exists>c tail. post = line_of t' c @ tail \<and> record_ok c \<and> text_ok tail \<and> time_ok t' \<and> t' \<noteq> t)"

fun gap :: "int \<Rightarrow> int option \<Rightarrow> int" where
  "gap t None = 0"
| "gap t (Some t') = sint (ucast (word_of_int t' - word_of_int t :: u64) :: u32)"

lemma text_ok_line [simp]: "text_ok (line_of t c @ tail)"
  by (simp add: line_of_def)

lemma text_ok_batch: "text_ok tail \<Longrightarrow> text_ok (concat (map (line_of t) cs) @ tail)"
  by (cases cs) auto

lemma follows_text_ok: "follows t nx post \<Longrightarrow> text_ok post"
  by (cases nx) (auto, simp add: text_ok_def)

lemma play_step:
  assumes "record_ok c" "recorded c" "text_ok tail" "time_ok t" "tmark = 0 \<or> tmark = word_of_int t"
  shows "play_loop fs secs (pre @ line_of t c @ tail) series (length pre) tmark pos ts tb =
    Option.bind (feed fs secs t c tb)
      (play_loop fs secs (pre @ line_of t c @ tail) series (length (pre @ line_of t c)) (word_of_int t)
        (length (pre @ line_of t c)) (if ts = None \<and> series then Some (length (pre @ line_of t c), word_of_int t) else ts))"
proof -
  have sc: "play_scan (pre @ line_of t c @ tail) (length pre) = (length (pre @ line_of t c),
      Some (word_of_int t, word_of_int (c_time c), the (c_nodename c), the (c_name c), the (c_val c)))"
    unfolding line_of_def by (rule play_scan_record) (use assms(1,3) in \<open>simp_all add: record_ok_def\<close>)
  have len: "\<not> 64 \<le> length (the (c_nodename c))" "\<not> 16 \<le> length (the (c_name c))" "\<not> 65536 \<le> length (the (c_val c))"
    using assms(1) by (simp_all add: record_ok_def word_ok_def value_ok_def)
  obtain v where v: "metric_vers (the (c_val c)) = Some v" using assms(2) by (auto simp: recorded_def)
  have t: "sint (word_of_int t :: u64) = t" "sint (word_of_int (c_time c) :: u64) = c_time c"
    using assms(1,4) by (simp_all add: sint_time record_ok_def time_ok_def)
  have m: "\<not> (tmark \<noteq> 0 \<and> tmark \<noteq> word_of_int t)" using assms(5) by auto
  have l: "(length (pre @ line_of t c) = x) = (x = length (pre @ line_of t c))" for x by auto
  show ?thesis
  proof (cases "feed fs secs t c tb")
    case None
    then have "poll_decode fs secs t (c_time c) (the (c_name c)) v (the (c_val c)) tb = None" by (simp add: feed_def v)
    then show ?thesis using None m
      by (subst play_loop.simps) (simp only: sc prod.case option.case len v t play_decode_poll simp_thms if_False bind.simps)
  next
    case (Some tb1)
    then have "poll_decode fs secs t (c_time c) (the (c_name c)) v (the (c_val c)) tb = Some tb1" by (simp add: feed_def v)
    then show ?thesis using Some m
      by (subst play_loop.simps) (simp only: sc prod.case option.case len v t play_decode_poll simp_thms if_False bind.simps)
  qed
qed

lemma play_stop:
  assumes "follows t nx post" "time_ok t"
  shows "play_loop fs secs (pre @ post) series (length pre) (word_of_int t) (length pre) ts tb =
    Some \<lparr>pr_pos = length pre, pr_eof = (nx = None), pr_tmark = word_of_int t, pr_tdiff = gap t nx, pr_ts = ts,
      pr_tables = tb\<rparr>"
proof (cases nx)
  case None
  with assms(1) have "play_scan (pre @ post) (length pre) = (length pre, None)"
    using play_scan_end [of pre] by simp
  with None assms(1) show ?thesis by (subst play_loop.simps) simp
next
  case (Some t')
  with assms(1) obtain c tail where c: "post = line_of t' c @ tail" "record_ok c" "text_ok tail" "time_ok t'" "t' \<noteq> t"
    by auto
  have sc: "play_scan (pre @ line_of t' c @ tail) (length pre) = (length (pre @ line_of t' c),
      Some (word_of_int t', word_of_int (c_time c), the (c_nodename c), the (c_name c), the (c_val c)))"
    unfolding line_of_def by (rule play_scan_record) (use c(2,3) in \<open>simp_all add: record_ok_def\<close>)
  have len: "\<not> 64 \<le> length (the (c_nodename c))" "\<not> 16 \<le> length (the (c_name c))" "\<not> 65536 \<le> length (the (c_val c))"
    using c(2) by (simp_all add: record_ok_def word_ok_def value_ok_def)
  have "(word_of_int t :: u64) \<noteq> 0 \<and> (word_of_int t :: u64) \<noteq> word_of_int t'"
    using assms(2) c(4,5) by (simp add: time_word)
  then show ?thesis using Some c(1) len by (subst play_loop.simps) (simp add: sc)
qed

lemma play_rest:
  assumes "list_all record_ok cs" "list_all recorded cs" "follows t nx post" "time_ok t" "ts \<noteq> None \<or> \<not> series"
  shows "play_loop fs secs (pre @ concat (map (line_of t) cs) @ post) series (length pre) (word_of_int t) (length pre) ts tb =
    map_option (\<lambda>tb'. \<lparr>pr_pos = length (pre @ concat (map (line_of t) cs)), pr_eof = (nx = None),
      pr_tmark = word_of_int t, pr_tdiff = gap t nx, pr_ts = ts, pr_tables = tb'\<rparr>) (feed_all fs secs t cs tb)"
  using assms
proof (induction cs arbitrary: pre tb)
  case Nil
  then show ?case using play_stop [of t nx post] by simp
next
  case (Cons c cs)
  let ?r = "concat (map (line_of t) cs) @ post"
  have r: "text_ok ?r" by (rule text_ok_batch) (rule follows_text_ok [OF Cons.prems(3)])
  have st: "play_loop fs secs (pre @ line_of t c @ ?r) series (length pre) (word_of_int t) (length pre) ts tb =
    Option.bind (feed fs secs t c tb)
      (play_loop fs secs (pre @ line_of t c @ ?r) series (length (pre @ line_of t c)) (word_of_int t)
        (length (pre @ line_of t c)) ts)"
    using play_step [OF _ _ r Cons.prems(4), of c "word_of_int t" fs secs pre series "length pre" ts tb] Cons.prems(1,2,5)
    by auto
  show ?case
  proof (cases "feed fs secs t c tb")
    case (Some tb1)
    then show ?thesis using st Cons.IH [of "pre @ line_of t c" tb1] Cons.prems by simp
  qed (use st in simp)
qed

lemma play_batch:
  assumes "list_all record_ok (c # cs)" "list_all recorded (c # cs)" "follows t nx post" "time_ok t"
  shows "play_loop fs secs (pre @ concat (map (line_of t) (c # cs)) @ post) series (length pre) 0 0 None tb =
    map_option (\<lambda>tb'. \<lparr>pr_pos = length (pre @ concat (map (line_of t) (c # cs))), pr_eof = (nx = None),
      pr_tmark = word_of_int t, pr_tdiff = gap t nx,
      pr_ts = (if series then Some (length (pre @ line_of t c), word_of_int t) else None), pr_tables = tb'\<rparr>)
      (feed_all fs secs t (c # cs) tb)"
proof -
  let ?r = "concat (map (line_of t) cs) @ post"
  have r: "text_ok ?r" by (rule text_ok_batch) (rule follows_text_ok [OF assms(3)])
  note st = play_step [OF _ _ r assms(4), of c 0 fs secs pre series 0 None tb]
  show ?thesis
  proof (cases "feed fs secs t c tb")
    case (Some tb1)
    let ?ts = "if series then Some (length (pre @ line_of t c), word_of_int t) else None"
    have "?ts \<noteq> None \<or> \<not> series" by simp
    from play_rest [OF _ _ assms(3,4) this, of cs fs secs "pre @ line_of t c" tb1] show ?thesis
      using st Some assms(1,2) by simp
  qed (use st assms(1,2) in simp)
qed

lemma play_file_batch:
  assumes "list_all record_ok (filter recorded cs)" "filter recorded cs = c # cs'" "follows t nx post" "time_ok t"
    and "feed_all fs secs t (filter recorded cs) tb = Some tb'"
  shows "play_file fs secs \<lparr>ps_file = \<lparr>pf_text = pre @ batch_text t cs @ post, pf_pos = length pre, pf_eof = False\<rparr>,
      ps_series = Some l, ps_tp = Some tp, ps_tdiff = Some td, ps_tables = tb\<rparr> =
    Some \<lparr>ps_file = \<lparr>pf_text = pre @ batch_text t cs @ post, pf_pos = length (pre @ batch_text t cs), pf_eof = (nx = None)\<rparr>,
      ps_series = Some ((length (pre @ line_of t c), word_of_int t) # l), ps_tp = Some t,
      ps_tdiff = Some (if nx = None then td else gap t nx), ps_tables = tb'\<rparr>"
proof -
  have ok: "list_all record_ok (c # cs')" "list_all recorded (c # cs')"
    using assms(1) unfolding assms(2) [symmetric] by (auto simp: list_all_iff)
  have t: "sint (word_of_int t :: u64) = t" using assms(4) by (simp add: sint_time time_ok_def)
  show ?thesis
    using play_batch [OF ok assms(3,4), of fs secs pre True tb] assms(4,5)
    by (simp add: play_file_def batch_text_def assms(2) t del: list.map concat.simps)
qed

lemma play_file_feeds:
  assumes "list_all record_ok (filter recorded cs)" "filter recorded cs = c # cs'" "follows t nx post" "time_ok t"
    and "play_file fs secs \<lparr>ps_file = \<lparr>pf_text = pre @ batch_text t cs @ post, pf_pos = length pre, pf_eof = False\<rparr>,
      ps_series = Some l, ps_tp = Some tp, ps_tdiff = Some td, ps_tables = tb\<rparr> = Some st"
  shows "\<exists>tb'. feed_all fs secs t (filter recorded cs) tb = Some tb'"
proof (rule ccontr)
  assume "\<nexists>tb'. feed_all fs secs t (filter recorded cs) tb = Some tb'"
  then have n: "feed_all fs secs t (filter recorded cs) tb = None" by (metis option.exhaust)
  have ok: "list_all record_ok (c # cs')" "list_all recorded (c # cs')"
    using assms(1) unfolding assms(2) [symmetric] by (auto simp: list_all_iff)
  show False
    using play_batch [OF ok assms(3,4), of fs secs pre True tb] assms(5) n
    by (simp add: play_file_def batch_text_def assms(2) del: list.map concat.simps)
qed

section \<open>A session\<close>

text \<open>The tables after each poll of a live session, and what it has recorded.\<close>

fun poll_session :: "string option \<Rightarrow> int \<Rightarrow> (int \<times> cmetric list) list \<Rightarrow> string option \<Rightarrow> tables \<Rightarrow> (tables list \<times> string option) option" where
  "poll_session fs secs [] recf tb = Some ([], recf)"
| "poll_session fs secs ((t, cs) # bs) recf tb =
     (case poll_cerebro fs secs t (Some cs) recf None tb of
        None \<Rightarrow> None
      | Some (tb', recf', _) \<Rightarrow> map_option (\<lambda>(tbs, r). (tb' # tbs, r)) (poll_session fs secs bs recf' tb'))"

text \<open>The states after each call of \<open>_play_file\<close>.\<close>

fun replay :: "string option \<Rightarrow> int \<Rightarrow> nat \<Rightarrow> playst \<Rightarrow> playst list option" where
  "replay fs secs 0 st = Some []"
| "replay fs secs (Suc n) st = Option.bind (play_file fs secs st) (\<lambda>st'. map_option ((#) st') (replay fs secs n st'))"

fun session_ok :: "(int \<times> cmetric list) list \<Rightarrow> bool" where
  "session_ok [] = True"
| "session_ok ((t, cs) # bs) \<longleftrightarrow> time_ok t \<and> list_all record_ok (filter recorded cs) \<and> filter recorded cs \<noteq> [] \<and>
     (case bs of [] \<Rightarrow> True | (t', _) # _ \<Rightarrow> t' \<noteq> t) \<and> session_ok bs"

definition session_text :: "(int \<times> cmetric list) list \<Rightarrow> string" where
  "session_text bs = concat (map (\<lambda>(t, cs). batch_text t cs) bs)"

lemma session_text_simps [simp]: "session_text [] = []" "session_text ((t, cs) # bs) = batch_text t cs @ session_text bs"
  by (simp_all add: session_text_def)

lemma poll_session_text:
  "poll_session fs secs bs recf tb = Some (tbs, r) \<Longrightarrow> r = map_option (\<lambda>x. x @ session_text bs) recf"
proof (induction bs arbitrary: recf tb tbs)
  case Nil
  then show ?case by (cases recf) auto
next
  case (Cons b bs)
  obtain t cs where b: "b = (t, cs)" by fastforce
  then obtain tb1 tbs1 where f: "feed_all fs secs t (filter recorded cs) tb = Some tb1"
    "poll_session fs secs bs (map_option (\<lambda>x. x @ batch_text t cs) recf) tb1 = Some (tbs1, r)"
    using Cons.prems by (auto simp: poll_cerebro_def poll_metrics_feed split: option.splits)
  show ?case using Cons.IH [OF f(2)] b by (cases recf) auto
qed

text \<open>The batch that follows in the file.\<close>

fun next_time :: "(int \<times> cmetric list) list \<Rightarrow> int option" where
  "next_time [] = None"
| "next_time ((t, cs) # bs) = Some t"

lemma session_text_ok: "text_ok (session_text bs)"
proof (induction bs)
  case Nil
  then show ?case by (simp add: text_ok_def)
next
  case (Cons b bs)
  then show ?case by (cases b) (simp add: batch_text_def text_ok_batch)
qed

lemma session_follows:
  assumes "session_ok ((t, cs) # bs)"
  shows "follows t (next_time bs) (session_text bs)"
proof (cases bs)
  case (Cons b bs')
  obtain t' cs' where b: "b = (t', cs')" by fastforce
  with Cons assms have ok: "t' \<noteq> t" "time_ok t'" "list_all record_ok (filter recorded cs')" "filter recorded cs' \<noteq> []" by auto
  then obtain c l where c: "filter recorded cs' = c # l" by (cases "filter recorded cs'") auto
  have "session_text bs = line_of t' c @ concat (map (line_of t') l) @ session_text bs'"
    using Cons b c by (simp add: batch_text_def)
  moreover have "text_ok (concat (map (line_of t') l) @ session_text bs')" by (rule text_ok_batch) (rule session_text_ok)
  ultimately show ?thesis using Cons b c ok by auto
qed simp

lemma next_time_None [simp]: "next_time bs = None \<longleftrightarrow> bs = []"
  by (cases bs rule: next_time.cases) auto

lemma replay_session:
  assumes "session_ok bs" "poll_session fs secs bs None tb = Some (tbs, None)"
  shows "\<exists>sts. replay fs secs (length bs) \<lparr>ps_file = \<lparr>pf_text = pre @ session_text bs, pf_pos = length pre, pf_eof = False\<rparr>,
      ps_series = Some l, ps_tp = Some tp, ps_tdiff = Some td, ps_tables = tb\<rparr> = Some sts \<and>
    map ps_tables sts = tbs \<and> map ps_tp sts = map (Some \<circ> fst) bs \<and>
    (\<forall>i<length bs. pf_eof (ps_file (sts ! i)) = (Suc i = length bs))"
  using assms
proof (induction bs arbitrary: pre l tp td tb tbs)
  case Nil
  then show ?case by simp
next
  case (Cons b bs)
  obtain t cs where b: "b = (t, cs)" by fastforce
  note fol = session_follows [OF Cons.prems(1) [unfolded b]]
  obtain tb1 tbs1 where f: "feed_all fs secs t (filter recorded cs) tb = Some tb1" "tbs = tb1 # tbs1"
    "poll_session fs secs bs None tb1 = Some (tbs1, None)"
    using Cons.prems(2) b by (auto simp: poll_cerebro_def poll_metrics_feed split: option.splits)
  have ok: "time_ok t" "list_all record_ok (filter recorded cs)" "filter recorded cs \<noteq> []" "session_ok bs"
    using Cons.prems(1) b by auto
  then obtain c cs' where c: "filter recorded cs = c # cs'" by (cases "filter recorded cs") auto
  note play = play_file_batch [OF ok(2) c fol ok(1) f(1), of pre l tp td]
  show ?case
  proof (cases "bs = []")
    case True
    with f have "tbs1 = []" by simp
    with True play b f show ?thesis by simp
  next
    case False
    then have eof: "(next_time bs = None) = False" by simp
    let ?l = "(length (pre @ line_of t c), word_of_int t) # l"
    from Cons.IH [OF ok(4) f(3), of "pre @ batch_text t cs" ?l t "gap t (next_time bs)"] obtain sts where
      s: "replay fs secs (length bs) \<lparr>ps_file = \<lparr>pf_text = (pre @ batch_text t cs) @ session_text bs,
          pf_pos = length (pre @ batch_text t cs), pf_eof = False\<rparr>, ps_series = Some ?l, ps_tp = Some t,
          ps_tdiff = Some (gap t (next_time bs)), ps_tables = tb1\<rparr> = Some sts"
        "map ps_tables sts = tbs1" "map ps_tp sts = map (Some \<circ> fst) bs"
        "\<forall>i<length bs. pf_eof (ps_file (sts ! i)) = (Suc i = length bs)" by blast
    show ?thesis using play [unfolded eof if_False] s b f(2) False
      by (auto simp: nth_Cons split: nat.split)
  qed
qed

text \<open>C21: a recording played back shows what the live session showed: when the polls of a session record something
  each, at times that differ from one poll to the next and with fields the play format can read, then playing the
  recorded file batch by batch, for any file system and from any tables, gives after each batch the tables that polling
  the same metrics gives, with the time of the poll, and meets the end of the file with the last batch.\<close>

theorem replay_correct:
  assumes "session_ok bs" "poll_session fs' secs' bs (Some []) tb' = Some (tbs', Some txt)"
    and "poll_session fs secs bs None tb = Some (tbs, None)"
  shows "\<exists>sts. replay fs secs (length bs) \<lparr>ps_file = \<lparr>pf_text = txt, pf_pos = 0, pf_eof = False\<rparr>,
      ps_series = Some [], ps_tp = Some tp, ps_tdiff = Some td, ps_tables = tb\<rparr> = Some sts \<and>
    map ps_tables sts = tbs \<and> map ps_tp sts = map (Some \<circ> fst) bs \<and>
    (\<forall>i<length bs. pf_eof (ps_file (sts ! i)) = (Suc i = length bs))"
proof -
  have "txt = session_text bs" using poll_session_text [OF assms(2)] by simp
  with replay_session [OF assms(1,3), of "[]" "[]" tp td] show ?thesis by simp
qed

text \<open>C36: rewinding does not go back to the beginning of a batch: after a batch has been played, rewinding by one and
  playing again shows the batch without its first record.\<close>

theorem rewind_skips_first_record:
  assumes "list_all record_ok (c # c' # cs)" "list_all recorded (c # c' # cs)" "follows t nx post" "time_ok t"
    and "play_file fs secs \<lparr>ps_file = \<lparr>pf_text = pre @ batch_text t (c # c' # cs) @ post, pf_pos = length pre, pf_eof = False\<rparr>,
      ps_series = Some l, ps_tp = Some tp, ps_tdiff = Some td, ps_tables = tb\<rparr> = Some st"
    and "poll_cerebro fs secs t (Some (c' # cs)) None None tb2 = Some (tb2', None, None)"
  shows "\<exists>f. rewind_file 1 (ps_file st) (the (ps_series st)) = (f, l, 1) \<and>
    map_option ps_tables (play_file fs secs (st\<lparr>ps_file := f, ps_series := Some l, ps_tables := tb2\<rparr>)) = Some tb2'"
proof -
  have fl: "filter recorded (c # c' # cs) = c # c' # cs" "filter recorded (c' # cs) = c' # cs"
    using assms(2) by (auto simp: list_all_iff)
  have ok: "list_all record_ok (filter recorded (c # c' # cs))" "list_all record_ok (filter recorded (c' # cs))"
    using assms(1) unfolding fl by auto
  have "\<exists>tb'. feed_all fs secs t (filter recorded (c # c' # cs)) tb = Some tb'"
    by (rule play_file_feeds [OF ok(1) fl(1) assms(3,4,5)])
  then obtain tb' where tb': "feed_all fs secs t (filter recorded (c # c' # cs)) tb = Some tb'" by blast
  note st = play_file_batch [OF ok(1) fl(1) assms(3,4) tb', of pre l tp td]
  have f2: "feed_all fs secs t (filter recorded (c' # cs)) tb2 = Some tb2'"
    using assms(6) by (auto simp: poll_cerebro_def poll_metrics_feed)
  have tx: "pre @ batch_text t (c # c' # cs) @ post = (pre @ line_of t c) @ batch_text t (c' # cs) @ post"
    using assms(2) by simp
  have "ps_file st = \<lparr>pf_text = (pre @ line_of t c) @ batch_text t (c' # cs) @ post,
      pf_pos = length (pre @ batch_text t (c # c' # cs)), pf_eof = (nx = None)\<rparr>"
    "ps_series st = Some ((length (pre @ line_of t c), word_of_int t) # l)" "ps_tp st = Some t"
    "\<exists>d. ps_tdiff st = Some d"
    using st assms(5) tx by auto
  moreover note play_file_batch [OF ok(2) fl(2) assms(3,4) f2, of "pre @ line_of t c" l]
  ultimately show ?thesis
    by (cases st) (auto simp: seek_to_def)
qed

section \<open>A recorded session\<close>

definition osc_metric :: "string \<Rightarrow> int \<Rightarrow> cmetric" where
  "osc_metric s t = \<lparr>c_name = Some ''lmt_osc'', c_nodename = Some ''mds1'', c_val = Some s, c_time = t\<rparr>"

definition no_tables :: tables where
  "no_tables = \<lparr>tb_mdt = [], tb_ost = [], tb_heap = \<lparr>h_mem = (\<lambda>_. None), h_next = 0\<rparr>\<rparr>"

definition example_session :: "(int \<times> cmetric list) list" where
  "example_session =
     [(100, [osc_metric ''1;mds1;a-OST0;F;b-OST1;F'' 99, osc_metric ''1;mds2;a-OST2;F'' 98, osc_metric ''bad'' 99]),
      (105, [osc_metric ''1;mds1;a-OST0;D'' 104])]"

definition ost_states :: "tables \<Rightarrow> (string \<times> string) list" where
  "ost_states tb = map (\<lambda>o1. (t_name (o_common o1), t_tgtstate (o_common o1))) (tb_ost tb)"

definition session_states :: "string option \<Rightarrow> string option \<Rightarrow> ((string \<times> string) list list \<times> string option) option" where
  "session_states fs recf =
     map_option (\<lambda>(tbs, r). (map ost_states tbs, r)) (poll_session fs 12 example_session recf no_tables)"

lemma example_session_ok: "session_ok example_session"
  by code_simp

lemma example_session_live:
  "session_states (Some ''a'') None = Some ([[(''0'', ''F''), (''2'', ''F'')], [(''0'', ''D''), (''2'', ''F'')]], None)"
  by code_simp

lemma example_session_recorded:
  "session_states None (Some []) = Some ([[(''0'', ''F''), (''1'', ''F''), (''2'', ''F'')], [(''0'', ''D''), (''1'', ''F''), (''2'', ''F'')]],
     Some (''100 99 mds1 lmt_osc 1;mds1;a-OST0;F;b-OST1;F'' @ [newline] @
           ''100 98 mds1 lmt_osc 1;mds2;a-OST2;F'' @ [newline] @
           ''105 104 mds1 lmt_osc 1;mds1;a-OST0;D'' @ [newline]))"
  by code_simp

theorem replay_correct_witness:
  "\<exists>sts. replay (Some ''a'') 12 2 \<lparr>ps_file = \<lparr>pf_text = ''100 99 mds1 lmt_osc 1;mds1;a-OST0;F;b-OST1;F'' @ [newline] @
       ''100 98 mds1 lmt_osc 1;mds2;a-OST2;F'' @ [newline] @ ''105 104 mds1 lmt_osc 1;mds1;a-OST0;D'' @ [newline],
       pf_pos = 0, pf_eof = False\<rparr>, ps_series = Some [], ps_tp = Some 0, ps_tdiff = Some 2, ps_tables = no_tables\<rparr> = Some sts \<and>
     map (ost_states \<circ> ps_tables) sts = [[(''0'', ''F''), (''2'', ''F'')], [(''0'', ''D''), (''2'', ''F'')]] \<and>
     map ps_tp sts = [Some 100, Some 105]"
proof -
  obtain tbs where l: "poll_session (Some ''a'') 12 example_session None no_tables = Some (tbs, None)"
    "map ost_states tbs = [[(''0'', ''F''), (''2'', ''F'')], [(''0'', ''D''), (''2'', ''F'')]]"
    using example_session_live by (auto simp: session_states_def)
  obtain tbs' where r: "poll_session None 12 example_session (Some []) no_tables = Some (tbs',
     Some (''100 99 mds1 lmt_osc 1;mds1;a-OST0;F;b-OST1;F'' @ [newline] @
           ''100 98 mds1 lmt_osc 1;mds2;a-OST2;F'' @ [newline] @ ''105 104 mds1 lmt_osc 1;mds1;a-OST0;D'' @ [newline]))"
    using example_session_recorded by (auto simp: session_states_def)
  have n: "length example_session = 2" "map (Some \<circ> fst) example_session = [Some 100, Some 105]"
    by (simp_all add: example_session_def)
  show ?thesis
    using replay_correct [OF example_session_ok r l(1), of 0 2] l(2) unfolding n by (auto simp flip: map_map)
qed

theorem rewind_skips_first_record_witness:
  "\<exists>st f. play_file None 12 \<lparr>ps_file = \<lparr>pf_text = batch_text 100 [osc_metric ''1;m;a-OST0;F'' 99, osc_metric ''1;m;a-OST1;F'' 99],
       pf_pos = 0, pf_eof = False\<rparr>, ps_series = Some [], ps_tp = Some 0, ps_tdiff = Some 2, ps_tables = no_tables\<rparr> = Some st \<and>
     ost_states (ps_tables st) = [(''0'', ''F''), (''1'', ''F'')] \<and>
     rewind_file 1 (ps_file st) (the (ps_series st)) = (f, [], 1) \<and>
     map_option (ost_states \<circ> ps_tables)
       (play_file None 12 (st\<lparr>ps_file := f, ps_series := Some [], ps_tables := no_tables\<rparr>)) = Some [(''1'', ''F'')]"
proof -
  let ?cs = "[osc_metric ''1;m;a-OST0;F'' 99, osc_metric ''1;m;a-OST1;F'' 99]"
  have e: "map_option (ost_states \<circ> ps_tables) (play_file None 12 \<lparr>ps_file = \<lparr>pf_text = batch_text 100 ?cs, pf_pos = 0, pf_eof = False\<rparr>,
      ps_series = Some [], ps_tp = Some 0, ps_tdiff = Some 2, ps_tables = no_tables\<rparr>) = Some [(''0'', ''F''), (''1'', ''F'')]"
    by code_simp
  then obtain st where st: "play_file None 12 \<lparr>ps_file = \<lparr>pf_text = batch_text 100 ?cs, pf_pos = 0, pf_eof = False\<rparr>,
      ps_series = Some [], ps_tp = Some 0, ps_tdiff = Some 2, ps_tables = no_tables\<rparr> = Some st"
    "ost_states (ps_tables st) = [(''0'', ''F''), (''1'', ''F'')]" by auto
  have "map_option (\<lambda>(tb, _, _). ost_states tb) (poll_cerebro None 12 100 (Some (tl ?cs)) None None no_tables) = Some [(''1'', ''F'')]"
    by code_simp
  then obtain tb2 where p: "poll_cerebro None 12 100 (Some (tl ?cs)) None None no_tables = Some (tb2, None, None)"
    "ost_states tb2 = [(''1'', ''F'')]" by (auto simp: poll_cerebro_def poll_metrics_feed)
  have c: "list_all record_ok ?cs" "list_all recorded ?cs" "time_ok 100" by code_simp+
  have f: "follows 100 None []" by simp
  from rewind_skips_first_record [OF c(1,2) f c(3), of None 12 "[]" "[]" 0 2 no_tables st no_tables tb2]
  show ?thesis using st p by auto
qed

end
