(* ===== verification/Lmt_Ltop_Ui.thy ===== *)
theory Lmt_Ltop_Ui
  imports Lmt_Ltop_Play
begin

text \<open>
  \<open>utils/ltop.c\<close>, the main loop: the geometry of the windows, what every key does, and one pass of the loop from the
  key read to the sorted tables. What the outside world supplies to a pass (the key, the clock, the metrics, the height
  of the terminal) is a record. Drawing on the windows is not part of the state.
\<close>

section \<open>Geometry\<close>

definition topwin_lines :: int where "topwin_lines = 7"

text \<open>A \<open>float\<close> is a rational rounded to 24 bits; converting it to \<open>int\<close> truncates.\<close>

definition trunc :: "rat \<Rightarrow> int" where
  "trunc x = (if x < 0 then - \<lfloor>- x\<rfloor> else \<lfloor>x\<rfloor>)"

definition mdt_share :: "int \<Rightarrow> int \<Rightarrow> int \<Rightarrow> int" where
  "mdt_share detail_size mdts osts =
     (let f = rnd 24; m = f (of_int mdts)
      in trunc (f (2 + f (f (f (of_int detail_size) * m) / f (m + f (of_int osts))))))"

text \<open>The results are \<open>(mdtlines, ostlines)\<close>.\<close>

definition size_windows_proportional :: "int \<Rightarrow> int \<Rightarrow> int \<Rightarrow> int \<times> int" where
  "size_windows_proportional total_size mdts osts =
     (if total_size \<le> topwin_lines + 2 then (0, 0)
      else let mdtlines =
          (if mdts < 2 \<or> total_size \<le> topwin_lines + 5 then 0
           else let detail_size = total_size - topwin_lines;
                    m = mdt_share detail_size mdts osts;
                    m = (if m < 3 then 3 else m);
                    m = (if detail_size - m < 3 then detail_size - 3 else m)
                in if m > mdts + 2 then mdts + 2 else m)
        in (mdtlines, total_size - (topwin_lines + mdtlines)))"

definition min_or_zero :: "int \<Rightarrow> int \<Rightarrow> int" where
  "min_or_zero x y = (let m = (if x < y then x else y) in if m < 0 then 0 else m)"

definition size_windows_prioritize :: "int \<Rightarrow> int \<Rightarrow> int \<Rightarrow> bool \<Rightarrow> int \<times> int" where
  "size_windows_prioritize total_size mdts osts in_ostwin =
     (if total_size \<le> topwin_lines + 2 then (0, 0)
      else let detail_size = total_size - topwin_lines;
               priority_mdt_lines = min_or_zero (mdts + 1) detail_size;
               priority_ost_lines = min_or_zero (osts + 1) detail_size
           in if in_ostwin then (min_or_zero priority_mdt_lines (detail_size - priority_ost_lines), priority_ost_lines)
              else (priority_mdt_lines, min_or_zero priority_ost_lines (detail_size - priority_mdt_lines)))"

section \<open>State\<close>

text \<open>One of the two target windows: \<open>selost\<close>, \<open>minost\<close>, \<open>ostcount\<close>, \<open>ostlines\<close>, \<open>ostview\<close>, \<open>ost_fp\<close> and whether
  \<open>ostwin\<close> exists, or the same for the metadata targets. The pointers \<open>seltgt\<close>, \<open>mintgt\<close> and so on lead to the
  window that is active when a key is read.\<close>

record pane =
  p_sel :: int
  p_min :: int
  p_count :: int
  p_lines :: int
  p_view :: bool
  p_fp :: nat
  p_win :: bool

record ui =
  u_in_ostwin :: bool
  u_ost :: pane
  u_mdt :: pane
  u_prop :: bool
  u_fs :: string
  u_tables :: tables
  u_oss :: "oststat list"
  u_mds :: "mdtstat list"
  u_series :: "ts list"
  u_tcycle :: int
  u_last :: int
  u_period :: int
  u_recf :: "string option"
  u_playf :: "playf option"
  u_pause :: bool
  u_showhelp :: bool
  u_recompute :: bool
  u_resort :: bool
  u_repoll :: bool
  u_quit :: bool

text \<open>What a pass gets from outside: the key and those of the menu, the metrics for the menu and for the tables, the
  clock when the key is handled, tested against the period, read by the poll and read after it, the number of lines of
  the terminal, and whether the file for recording can be opened.\<close>

record tick =
  k_key :: key
  k_keys :: "key list"
  k_menu :: "cmetric list option"
  k_metrics :: "cmetric list option"
  k_now :: int
  k_check :: int
  k_poll :: int
  k_after :: int
  k_lines :: int
  k_open :: bool

definition on_pane :: "(pane \<Rightarrow> pane) \<Rightarrow> ui \<Rightarrow> ui" where
  "on_pane f u = (if u_in_ostwin u then u\<lparr>u_ost := f (u_ost u)\<rparr> else u\<lparr>u_mdt := f (u_mdt u)\<rparr>)"

section \<open>Moving\<close>

definition page_up :: "pane \<Rightarrow> pane" where
  "page_up p = (let m = p_min p - (p_lines p - 1) in p\<lparr>p_min := if m < 0 then 0 else m\<rparr>)"

definition page_down :: "pane \<Rightarrow> pane" where
  "page_down p = (if p_min p + p_lines p \<le> p_count p then p\<lparr>p_min := p_min p + (p_lines p - 1)\<rparr> else p)"

text \<open>The cases of the arrows fall through to those of the pages.\<close>

definition move_up :: "pane \<Rightarrow> pane" where
  "move_up p = (let p = (if p_sel p > 0 then p\<lparr>p_sel := p_sel p - 1\<rparr> else p)
                in if p_sel p \<ge> p_min p then p else page_up p)"

definition move_down :: "pane \<Rightarrow> pane" where
  "move_down p = (let p = (if p_sel p < p_count p - 1 then p\<lparr>p_sel := p_sel p + 1\<rparr> else p)
                  in if p_sel p - p_min p < p_lines p - 1 then p else page_down p)"

definition toggle_view :: "pane \<Rightarrow> pane" where
  "toggle_view p = p\<lparr>p_view := \<not> p_view p, p_min := 0, p_sel := - 1\<rparr>"

section \<open>Data\<close>

text \<open>\<open>_list_empty_out\<close> on both lists of targets.\<close>

definition empty_tables :: "tables \<Rightarrow> tables option" where
  "empty_tables tb = map_option (\<lambda>h. \<lparr>tb_mdt = [], tb_ost = [], tb_heap = h\<rparr>) (empty_out destroy_mdtstat (tb_mdt tb) (tb_heap tb))"

definition empty_lists :: "ui \<Rightarrow> ui option" where
  "empty_lists u = map_option (\<lambda>tb. u\<lparr>u_tables := tb\<rparr>) (empty_tables (u_tables u))"

definition play_st :: "playf \<Rightarrow> ui \<Rightarrow> playst" where
  "play_st f u = \<lparr>ps_file = f, ps_series = Some (u_series u), ps_tp = Some (u_tcycle u), ps_tdiff = Some (u_period u),
     ps_tables = u_tables u\<rparr>"

definition ui_play :: "int \<Rightarrow> playf \<Rightarrow> ui \<Rightarrow> ui option" where
  "ui_play secs f u =
     map_option (\<lambda>st. u\<lparr>u_playf := Some (ps_file st), u_series := the (ps_series st), u_tcycle := the (ps_tp st),
                        u_period := the (ps_tdiff st), u_tables := ps_tables st\<rparr>)
       (play_file (Some (u_fs u)) secs (play_st f u))"

definition ui_poll :: "int \<Rightarrow> int \<Rightarrow> cmetric list option \<Rightarrow> ui \<Rightarrow> ui option" where
  "ui_poll secs now metrics u =
     map_option (\<lambda>(tb, recf, tp). u\<lparr>u_tables := tb, u_recf := recf, u_tcycle := the tp\<rparr>)
       (poll_cerebro (Some (u_fs u)) secs now metrics (u_recf u) (Some (u_tcycle u)) (u_tables u))"

definition ui_sample :: "int \<Rightarrow> int \<Rightarrow> cmetric list option \<Rightarrow> ui \<Rightarrow> ui option" where
  "ui_sample secs now metrics u =
     (case u_playf u of Some f \<Rightarrow> ui_play secs f u | None \<Rightarrow> ui_poll secs now metrics u)"

definition at_eof :: "ui \<Rightarrow> bool" where
  "at_eof u \<longleftrightarrow> (case u_playf u of Some f \<Rightarrow> pf_eof f | None \<Rightarrow> True)"

fun play_n :: "int \<Rightarrow> nat \<Rightarrow> ui \<Rightarrow> ui option" where
  "play_n secs 0 u = Some u"
| "play_n secs (Suc n) u = Option.bind (case u_playf u of Some f \<Rightarrow> ui_play secs f u | None \<Rightarrow> Some u) (play_n secs n)"

text \<open>Every batch that is played consumes text or meets the end of the file, so the loop of the tab key ends.\<close>

lemma play_scan_shrinks: "play_scan text pos = (p, x) \<Longrightarrow> length text - p \<le> length text - pos"
proof -
  assume a: "play_scan text pos = (p, x)"
  obtain vs rest e where s: "scan_dirs play_format (drop pos text) = (vs, rest, e)" by (metis prod_cases3)
  have "length rest \<le> length (drop pos text)"
    by (rule scan_dirs_shrinks [OF _ s]) (simp add: play_format_def)
  moreover have "p = length text - length rest" using a s by (auto simp: play_scan_def)
  ultimately show ?thesis by simp
qed

lemma play_loop_progress:
  "play_loop fs secs text series fpos tmark pos ts tb = Some r \<Longrightarrow> pr_tmark r \<noteq> 0 \<Longrightarrow> tmark = 0 \<or> pos = fpos \<Longrightarrow>
   (if tmark = 0 then length text - pr_pos r < length text - fpos else length text - pr_pos r \<le> length text - fpos)"
proof (induction fs secs "text" series fpos tmark pos ts tb rule: play_loop.induct)
  case (1 fs secs text' series fpos tmark pos ts tb)
  obtain p x where sc: "play_scan text' fpos = (p, x)" by fastforce
  show ?case
  proof (cases x)
    case None
    then show ?thesis using "1.prems" sc play_scan_shrinks [OF sc]
      by (subst (asm) play_loop.simps) (auto split: if_splits)
  next
    case (Some y)
    obtain tnow trcv node name s where y: "y = (tnow, trcv, node, name, s)" by (cases y)
    show ?thesis
    proof (cases "tmark \<noteq> 0 \<and> tmark \<noteq> tnow")
      case True
      then show ?thesis using "1.prems" sc Some y
        by (subst (asm) play_loop.simps) (auto split: if_splits)
    next
      case False
      obtain vers tb' where v: "\<not> (64 \<le> length node \<or> 16 \<le> length name \<or> 65536 \<le> length s)"
        "metric_vers s = Some vers" "play_decode fs secs (sint tnow) (sint trcv) name vers s tb = Some tb'"
        "play_loop fs secs text' series p tnow p (if ts = None \<and> series then Some (p, tnow) else ts) tb' = Some r"
        using "1.prems"(1) sc Some y False
        by (subst (asm) play_loop.simps) (auto split: if_splits option.splits)
      have "(if tnow = 0 then length text' - pr_pos r < length text' - p else length text' - pr_pos r \<le> length text' - p)"
        using "1.IH" [OF sc [symmetric] Some y [symmetric] refl refl refl v(1) False v(2,3,4) "1.prems"(2)] by simp
      moreover have "length text' - p < length text' - fpos" using play_scan_progress sc Some by blast
      ultimately show ?thesis by (auto split: if_splits)
    qed
  qed
qed

definition play_left :: "ui \<Rightarrow> nat" where
  "play_left u = (case u_playf u of Some f \<Rightarrow> length (pf_text f) - pf_pos f | None \<Rightarrow> 0)"

lemma ui_play_progress:
  assumes "ui_play secs f u = Some u'" "\<not> at_eof u'"
  shows "play_left u' < length (pf_text f) - pf_pos f"
proof -
  obtain st where st: "play_file (Some (u_fs u)) secs (play_st f u) = Some st" "u_playf u' = Some (ps_file st)"
    using assms(1) by (auto simp: ui_play_def)
  have e: "\<not> pf_eof f" using st assms(2) by (auto simp: play_file_def play_st_def at_eof_def)
  then obtain r where r: "play_loop (Some (u_fs u)) secs (pf_text f) True (pf_pos f) 0 0 None (u_tables u) = Some r"
    "pr_tmark r \<noteq> 0" "ps_file st = f\<lparr>pf_pos := pr_pos r, pf_eof := pr_eof r\<rparr>"
    using st by (auto simp: play_file_def play_st_def Let_def split: option.splits if_splits)
  show ?thesis using play_loop_progress [OF r(1,2)] r(3) st(2) by (simp add: play_left_def)
qed

function play_until :: "int \<Rightarrow> int \<Rightarrow> ui \<Rightarrow> ui option" where
  "play_until secs t1 u =
     (case u_playf u of
        None \<Rightarrow> Some u
      | Some f \<Rightarrow>
          (case ui_play secs f u of
             None \<Rightarrow> None
           | Some u' \<Rightarrow> if u_tcycle u' < t1 \<and> \<not> at_eof u' then play_until secs t1 u' else Some u'))"
  by pat_completeness auto
termination
  by (relation "measure (\<lambda>(secs, t1, u). play_left u)") (auto dest!: ui_play_progress simp: play_left_def)

declare play_until.simps [simp del]

section \<open>Keys\<close>

definition sort_key_chars :: "char list" where
  "sort_key_chars = ''><tsrwixlgLCumS''"

definition sort_osts :: "ui \<Rightarrow> ui" where
  "sort_osts u = u\<lparr>u_tables := (u_tables u)\<lparr>tb_ost := sort_ostlist (p_fp (u_ost u)) (u_tcycle u) (tb_ost (u_tables u))\<rparr>,
     u_oss := sort_ostlist (p_fp (u_ost u)) (u_tcycle u) (u_oss u)\<rparr>"

definition sort_mdts :: "ui \<Rightarrow> ui option" where
  "sort_mdts u =
     (let srt = sort_mdtlist (p_fp (u_mdt u)) (u_tcycle u) (tb_heap (u_tables u)) in
      case (srt (tb_mdt (u_tables u)), srt (u_mds u)) of
        (Some l, Some l') \<Rightarrow> Some (u\<lparr>u_tables := (u_tables u)\<lparr>tb_mdt := l\<rparr>, u_mds := l'\<rparr>)
      | _ \<Rightarrow> None)"

definition key_sort :: "char \<Rightarrow> ui \<Rightarrow> ui option" where
  "key_sort c u =
     (if u_in_ostwin u then
        map_option (\<lambda>i. sort_osts (u\<lparr>u_ost := (u_ost u)\<lparr>p_fp := i\<rparr>\<rparr>))
          (get_sort_index (Some c) (p_fp (u_ost u)) (map fst (ost_col (u_tcycle u))))
      else
        Option.bind (get_sort_index (Some c) (p_fp (u_mdt u)) (map fst (mdt_col (tb_heap (u_tables u)) (u_tcycle u))))
          (\<lambda>i. sort_mdts (u\<lparr>u_mdt := (u_mdt u)\<lparr>p_fp := i\<rparr>\<rparr>)))"

definition key_switch :: "ui \<Rightarrow> ui" where
  "key_switch u =
     (if (u_prop u \<and> p_win (u_mdt u)) \<or> \<not> u_prop u then u\<lparr>u_in_ostwin := \<not> u_in_ostwin u, u_recompute := True\<rparr> else u)"

definition key_proportional :: "ui \<Rightarrow> ui" where
  "key_proportional u = u\<lparr>u_prop := \<not> u_prop u, u_recompute := True\<rparr>"

definition key_delete :: "ui \<Rightarrow> ui" where
  "key_delete u = u\<lparr>u_ost := (u_ost u)\<lparr>p_sel := - 1\<rparr>, u_mdt := (u_mdt u)\<lparr>p_sel := - 1\<rparr>,
     u_tables := (u_tables u)\<lparr>tb_ost := clear_tags (tb_ost (u_tables u))\<rparr>, u_oss := clear_tags (u_oss u)\<rparr>"

definition key_tag :: "ui \<Rightarrow> ui" where
  "key_tag u =
     (let sel = p_sel (u_ost u); l = tb_ost (u_tables u) in
      if p_view (u_ost u) then u\<lparr>u_tables := (u_tables u)\<lparr>tb_ost := fst (tag_nth_ost l sel None)\<rparr>\<rparr>
      else case tag_nth_ost (u_oss u) sel (Some l) of
        (oss, l') \<Rightarrow> u\<lparr>u_oss := oss, u_tables := (u_tables u)\<lparr>tb_ost := the l'\<rparr>\<rparr>)"

definition key_choose_fs :: "int \<Rightarrow> tick \<Rightarrow> ui \<Rightarrow> ui option" where
  "key_choose_fs secs k u =
     map_option (\<lambda>(newfs, playf, h).
         let u = u\<lparr>u_playf := playf, u_tables := (u_tables u)\<lparr>tb_heap := h\<rparr>\<rparr> in
         case newfs of
           None \<Rightarrow> u
         | Some fs \<Rightarrow>
             if fs = u_fs u then u
             else u\<lparr>u_fs := fs, u_repoll := True, u_in_ostwin := True,
                    u_ost := (u_ost u)\<lparr>p_sel := - 1, p_min := 0\<rparr>, u_mdt := (u_mdt u)\<lparr>p_sel := - 1, p_min := 0\<rparr>\<rparr>)
       (choose_fs (u_playf u) secs (k_now k) (k_menu k) (k_keys k) (tb_heap (u_tables u)))"

text \<open>The file for recording is truncated when it is opened.\<close>

definition key_record :: "bool \<Rightarrow> ui \<Rightarrow> ui" where
  "key_record can_open u =
     (if u_playf u \<noteq> None then u
      else u\<lparr>u_recf := (if u_recf u \<noteq> None then None else if can_open then Some [] else None)\<rparr>)"

definition sampled :: "int \<Rightarrow> ui \<Rightarrow> ui" where
  "sampled now u = u\<lparr>u_last := now, u_recompute := True\<rparr>"

definition key_left :: "int \<Rightarrow> int \<Rightarrow> ui \<Rightarrow> ui option" where
  "key_left secs now u =
     (case u_playf u of
        None \<Rightarrow> Some u
      | Some f \<Rightarrow>
          (case rewind_file 3 f (u_series u) of
             (f', series, n) \<Rightarrow>
               let u' = u\<lparr>u_playf := Some f', u_series := series\<rparr> in
               map_option (sampled now)
                 (Option.bind (if n > 0 then empty_lists u' else Some u') (play_n secs (n - 1)))))"

definition key_backspace :: "int \<Rightarrow> int \<Rightarrow> ui \<Rightarrow> ui option" where
  "key_backspace secs now u =
     (case u_playf u of
        None \<Rightarrow> Some u
      | Some f \<Rightarrow>
          Option.bind (empty_lists u) (\<lambda>u.
            case rewind_file_to (u_tcycle u - 60) f (u_series u) of
              (f1, s1) \<Rightarrow>
                (case rewind_file 1 f1 s1 of
                   (f2, s2, _) \<Rightarrow> map_option (sampled now) (play_n secs 2 (u\<lparr>u_playf := Some f2, u_series := s2\<rparr>)))))"

definition key_right :: "int \<Rightarrow> int \<Rightarrow> ui \<Rightarrow> ui option" where
  "key_right secs now u =
     (case u_playf u of None \<Rightarrow> Some u
      | Some f \<Rightarrow> Option.bind (empty_lists u) (\<lambda>u. map_option (sampled now) (ui_play secs f u)))"

definition key_tab :: "int \<Rightarrow> int \<Rightarrow> ui \<Rightarrow> ui option" where
  "key_tab secs now u =
     (if u_playf u = None then Some u else map_option (sampled now) (play_until secs (u_tcycle u + 60) u))"

definition key_char :: "int \<Rightarrow> tick \<Rightarrow> char \<Rightarrow> ui \<Rightarrow> ui option" where
  "key_char secs k c u =
     (if c = CHR ''z'' \<or> c = CHR ''Z'' then Some (key_switch u)
      else if c = CHR ''P'' then Some (key_proportional u)
      else if c = CHR ''q'' \<or> c = CHR 0x03 then Some (u\<lparr>u_quit := True\<rparr>)
      else if c = CHR ''k'' then Some (on_pane move_up u)
      else if c = CHR 0x15 then Some (on_pane page_up u)
      else if c = CHR ''j'' then Some (on_pane move_down u)
      else if c = CHR 0x04 then Some (on_pane page_down u)
      else if c = CHR ''c'' then Some ((on_pane toggle_view u)\<lparr>u_recompute := True\<rparr>)
      else if c = CHR '' '' then Some (key_tag u)
      else if c = CHR ''f'' then key_choose_fs secs k u
      else if c \<in> set sort_key_chars then key_sort c u
      else if c = CHR ''R'' then Some (key_record (k_open k) u)
      else if c = CHR ''p'' then Some (if u_playf u \<noteq> None then u\<lparr>u_pause := \<not> u_pause u\<rparr> else u)
      else if c = CHR 0x09 then key_tab secs (k_now k) u
      else if c = CHR ''?'' then Some (u\<lparr>u_showhelp := True\<rparr>)
      else Some u)"

definition handle_key :: "int \<Rightarrow> tick \<Rightarrow> ui \<Rightarrow> ui option" where
  "handle_key secs k u =
     (case k_key k of
        KChar c \<Rightarrow> key_char secs k c u
      | KEY_DC \<Rightarrow> Some (key_delete u)
      | KEY_UP \<Rightarrow> Some (on_pane move_up u)
      | KEY_PPAGE \<Rightarrow> Some (on_pane page_up u)
      | KEY_DOWN \<Rightarrow> Some (on_pane move_down u)
      | KEY_NPAGE \<Rightarrow> Some (on_pane page_down u)
      | KEY_LEFT \<Rightarrow> key_left secs (k_now k) u
      | KEY_BACKSPACE \<Rightarrow> key_backspace secs (k_now k) u
      | KEY_RIGHT \<Rightarrow> key_right secs (k_now k) u
      | _ \<Rightarrow> Some u)"

section \<open>One pass of the loop\<close>

definition hide_help :: "key \<Rightarrow> ui \<Rightarrow> ui" where
  "hide_help c u = (if c \<noteq> KEY_ERR \<and> c \<noteq> KChar CHR ''?'' then u\<lparr>u_showhelp := False\<rparr> else u)"

definition do_repoll :: "ui \<Rightarrow> ui option" where
  "do_repoll u = (if u_repoll u then map_option (\<lambda>u. u\<lparr>u_repoll := False, u_last := 0\<rparr>) (empty_lists u) else Some u)"

definition do_sample :: "int \<Rightarrow> tick \<Rightarrow> ui \<Rightarrow> ui option" where
  "do_sample secs k u =
     (if k_check k - u_last u \<ge> u_period u \<and> \<not> u_pause u
      then map_option (sampled (k_after k)) (ui_sample secs (k_poll k) (k_metrics k) u) else Some u)"

definition do_count :: "ui \<Rightarrow> ui" where
  "do_count u =
     (if u_recompute u then
        u\<lparr>u_mdt := (u_mdt u)\<lparr>p_count := int (if p_view (u_mdt u) then length (tb_mdt (u_tables u)) else length (u_mds u))\<rparr>,
          u_ost := (u_ost u)\<lparr>p_count := int (if p_view (u_ost u) then length (tb_ost (u_tables u)) else length (u_oss u))\<rparr>\<rparr>
      else u)"

definition do_size :: "int \<Rightarrow> ui \<Rightarrow> ui" where
  "do_size total_size u =
     (case (if u_prop u then size_windows_proportional total_size (p_count (u_mdt u)) (p_count (u_ost u))
            else size_windows_prioritize total_size (p_count (u_mdt u)) (p_count (u_ost u)) (u_in_ostwin u)) of
        (m, n) \<Rightarrow> u\<lparr>u_mdt := (u_mdt u)\<lparr>p_lines := m\<rparr>, u_ost := (u_ost u)\<lparr>p_lines := n\<rparr>\<rparr>)"

definition create_target_window :: "pane \<Rightarrow> pane" where
  "create_target_window p = p\<lparr>p_win := p_lines p \<ge> 2\<rparr>"

definition do_recompute :: "int \<Rightarrow> ui \<Rightarrow> ui option" where
  "do_recompute secs u =
     (if \<not> u_recompute u then Some u
      else let u = u\<lparr>u_mdt := create_target_window (u_mdt u), u_ost := create_target_window (u_ost u)\<rparr>;
               u = (if p_view (u_ost u) then u else u\<lparr>u_oss := summarize_ost (tb_ost (u_tables u)) (u_tcycle u) secs\<rparr>)
           in map_option (\<lambda>u. u\<lparr>u_resort := True, u_recompute := False\<rparr>)
                (if p_view (u_mdt u) then Some u
                 else map_option (\<lambda>(l, h). u\<lparr>u_mds := l, u_tables := (u_tables u)\<lparr>tb_heap := h\<rparr>\<rparr>)
                        (summarize_mdt (tb_mdt (u_tables u)) (u_mds u) (u_tcycle u) secs (tb_heap (u_tables u)))))"

definition do_resort :: "ui \<Rightarrow> ui option" where
  "do_resort u =
     (if u_resort u then map_option (\<lambda>u. u\<lparr>u_resort := False\<rparr>) (sort_mdts (sort_osts u)) else Some u)"

definition main_pass :: "int \<Rightarrow> tick \<Rightarrow> ui \<Rightarrow> ui option" where
  "main_pass secs k u =
     Option.bind (handle_key secs k u) (\<lambda>u.
     Option.bind (do_repoll (hide_help (k_key k) u)) (\<lambda>u.
     Option.bind (do_sample secs k u) (\<lambda>u.
     Option.bind (do_recompute secs (do_size (k_lines k) (do_count u))) do_resort)))"

text \<open>What precedes the loop: \<open>None\<close> for every \<open>msg_exit\<close>. The first poll leaves \<open>tcycle\<close> uninitialised when cerebro
  cannot be read; then there are no targets and \<open>ltop\<close> exits.\<close>

definition new_pane :: pane where
  "new_pane = \<lparr>p_sel = - 1, p_min = 0, p_count = 0, p_lines = 0, p_view = True, p_fp = 0, p_win = False\<rparr>"

definition start_ui :: "string \<Rightarrow> playf option \<Rightarrow> string option \<Rightarrow> int \<Rightarrow> heap \<Rightarrow> ui" where
  "start_ui fs playf recf period h =
     \<lparr>u_in_ostwin = True, u_ost = new_pane, u_mdt = new_pane, u_prop = False, u_fs = fs,
      u_tables = \<lparr>tb_mdt = [], tb_ost = [], tb_heap = h\<rparr>, u_oss = [], u_mds = [], u_series = [], u_tcycle = 0, u_last = 0,
      u_period = period, u_recf = recf, u_playf = playf, u_pause = False, u_showhelp = False, u_recompute = False,
      u_resort = False, u_repoll = False, u_quit = False\<rparr>"

definition main_start :: "int \<Rightarrow> int \<Rightarrow> string option \<Rightarrow> playf option \<Rightarrow> string option \<Rightarrow> tick \<Rightarrow> ui option" where
  "main_start secs period fs playf recf k =
     (let h = \<lparr>h_mem = (\<lambda>_. None), h_next = 0\<rparr> in
      case (case fs of Some f \<Rightarrow> Some (Some f, playf, h) | None \<Rightarrow> find_first_fs playf secs (k_now k) (k_menu k) h) of
        Some (Some f, playf, h) \<Rightarrow>
          Option.bind (ui_sample secs (k_poll k) (k_metrics k) (start_ui f playf recf period h)) (\<lambda>u.
            if playf \<noteq> None \<and> at_eof u then None
            else Option.bind (sort_mdts (sort_osts u)) (\<lambda>u.
              let u = do_count (u\<lparr>u_recompute := True\<rparr>) in
              if p_count (u_mdt u) = 0 \<and> p_count (u_ost u) = 0 then None
              else let u = do_size (k_lines k) u in
                Some (u\<lparr>u_recompute := False, u_mdt := create_target_window (u_mdt u),
                        u_ost := create_target_window (u_ost u)\<rparr>)))
      | _ \<Rightarrow> None)"

end
