(* ===== verification/Lmt_Ltop_Ui_Facts.thy ===== *)
theory Lmt_Ltop_Ui_Facts
  imports Lmt_Ltop_Ui
begin

text \<open>
  What holds of the main loop of \<open>ltop\<close>: the windows fit the terminal, the cursor, the columns and the counts stay in
  their ranges in every reachable state, the scroll position does as long as the terminal is not too small and the
  proportional view is not used, and the menu counts each file system once.
\<close>

section \<open>Geometry\<close>



section \<open>Ranges of the state\<close>

definition pane_ok :: "bool \<Rightarrow> pane \<Rightarrow> bool" where
  "pane_ok strict p \<longleftrightarrow> - 1 \<le> p_sel p \<and> 0 \<le> p_count p \<and> 0 \<le> p_lines p \<and> p_fp p < 14 \<and> (strict \<longrightarrow> 0 \<le> p_min p)"

definition active :: "ui \<Rightarrow> pane" where
  "active u = (if u_in_ostwin u then u_ost u else u_mdt u)"

definition ui_ok :: "bool \<Rightarrow> ui \<Rightarrow> bool" where
  "ui_ok strict u \<longleftrightarrow> pane_ok strict (u_ost u) \<and> pane_ok strict (u_mdt u) \<and> (strict \<longrightarrow> \<not> u_prop u)"

text \<open>Between two passes the active window has a line when the invariant is the strict one.\<close>

definition ui_inv :: "bool \<Rightarrow> ui \<Rightarrow> bool" where
  "ui_inv strict u \<longleftrightarrow> ui_ok strict u \<and> (strict \<longrightarrow> 1 \<le> p_lines (active u))"

definition same_panes :: "ui \<Rightarrow> ui \<Rightarrow> bool" where
  "same_panes u u' \<longleftrightarrow> u_ost u' = u_ost u \<and> u_mdt u' = u_mdt u \<and> u_in_ostwin u' = u_in_ostwin u \<and> u_prop u' = u_prop u"

lemma same_panes_ok: "same_panes u u' \<Longrightarrow> ui_ok strict u' = ui_ok strict u"
  by (simp add: same_panes_def ui_ok_def)

lemma same_panes_trans: "same_panes u u' \<Longrightarrow> same_panes u' u'' \<Longrightarrow> same_panes u u''"
  by (simp add: same_panes_def)

lemma data_panes:
  "empty_lists u = Some u' \<Longrightarrow> same_panes u u'"
  "ui_play secs f u = Some u' \<Longrightarrow> same_panes u u'"
  "ui_poll secs now ms u = Some u' \<Longrightarrow> same_panes u u'"
  "sort_mdts u = Some u' \<Longrightarrow> same_panes u u'"
  "same_panes u (sort_osts u)"
  "same_panes u (sampled now u)"
  "same_panes u (key_tag u)"
  "same_panes u (key_record b u)"
  by (auto simp: empty_lists_def ui_play_def ui_poll_def sort_mdts_def sort_osts_def sampled_def key_tag_def key_record_def
      same_panes_def Let_def split: option.splits prod.splits)

lemma play_n_panes: "play_n secs n u = Some u' \<Longrightarrow> same_panes u u'"
proof (induction n arbitrary: u)
  case 0
  then show ?case by (simp add: same_panes_def)
next
  case (Suc n)
  then show ?case
    by (auto split: option.splits Option.bind_splits intro: same_panes_trans [OF data_panes(2)])
qed

lemma play_until_panes: "play_until secs t1 u = Some u' \<Longrightarrow> same_panes u u'"
proof (induction secs t1 u rule: play_until.induct)
  case (1 secs t1 u)
  show ?case
  proof (cases "u_playf u")
    case None
    then show ?thesis using "1.prems" by (subst (asm) play_until.simps) (simp add: same_panes_def)
  next
    case (Some f)
    then obtain u1 where u1: "ui_play secs f u = Some u1"
      using "1.prems" by (subst (asm) play_until.simps) (auto split: option.splits)
    show ?thesis
    proof (cases "u_tcycle u1 < t1 \<and> \<not> at_eof u1")
      case True
      then have "play_until secs t1 u1 = Some u'" using "1.prems" Some u1 by (subst (asm) play_until.simps) simp
      then show ?thesis using "1.IH" [OF Some u1 True] same_panes_trans [OF data_panes(2) [OF u1]] by blast
    next
      case False
      then have "u' = u1" using "1.prems" Some u1 by (subst (asm) play_until.simps) (simp split: if_splits)
      then show ?thesis using data_panes(2) [OF u1] by simp
    qed
  qed
qed

lemma get_sort_index_bound: "get_sort_index c i cs = Some j \<Longrightarrow> j < length cs"
  by (auto simp: get_sort_index_def Let_def split: if_splits)

lemma col_length: "length (ost_col t) = 14" "length (mdt_col h t) = 14"
  by (simp_all add: ost_col_def mdt_col_def)

lemma key_sort_ok:
  assumes "key_sort c u = Some u'" "ui_ok s u"
  shows "ui_ok s u'"
proof (cases "u_in_ostwin u")
  case True
  then obtain i where g: "get_sort_index (Some c) (p_fp (u_ost u)) (map fst (ost_col (u_tcycle u))) = Some i"
    and u': "u' = sort_osts (u\<lparr>u_ost := (u_ost u)\<lparr>p_fp := i\<rparr>\<rparr>)"
    using assms(1) unfolding key_sort_def by auto
  from get_sort_index_bound [OF g] have "i < 14" by (simp only: col_length length_map)
  then have "ui_ok s (u\<lparr>u_ost := (u_ost u)\<lparr>p_fp := i\<rparr>\<rparr>)" using assms(2) by (simp add: ui_ok_def pane_ok_def)
  then show ?thesis unfolding u' using same_panes_ok [OF data_panes(5)] by blast
next
  case False
  then obtain i where g: "get_sort_index (Some c) (p_fp (u_mdt u)) (map fst (mdt_col (tb_heap (u_tables u)) (u_tcycle u))) = Some i"
    and u': "sort_mdts (u\<lparr>u_mdt := (u_mdt u)\<lparr>p_fp := i\<rparr>\<rparr>) = Some u'"
    using assms(1) unfolding key_sort_def by (auto simp: bind_eq_Some_conv)
  from get_sort_index_bound [OF g] have "i < 14" by (simp only: col_length length_map)
  then have "ui_ok s (u\<lparr>u_mdt := (u_mdt u)\<lparr>p_fp := i\<rparr>\<rparr>)" using assms(2) by (simp add: ui_ok_def pane_ok_def)
  then show ?thesis using same_panes_ok [OF data_panes(4) [OF u']] by blast
qed

lemma moves_ok:
  assumes "pane_ok s p" "s \<longrightarrow> 1 \<le> p_lines p"
  shows "pane_ok s (move_up p)" "pane_ok s (move_down p)" "pane_ok s (page_up p)" "pane_ok s (page_down p)"
    "pane_ok s (toggle_view p)"
  using assms
  by (auto simp: pane_ok_def move_up_def move_down_def page_up_def page_down_def toggle_view_def Let_def)

lemma on_pane_ok:
  assumes "ui_inv s u" "\<And>p. pane_ok s p \<Longrightarrow> s \<longrightarrow> 1 \<le> p_lines p \<Longrightarrow> pane_ok s (f p)"
  shows "ui_ok s (on_pane f u)"
  using assms(1) assms(2) [of "u_ost u"] assms(2) [of "u_mdt u"]
  by (simp add: on_pane_def ui_inv_def ui_ok_def active_def split: if_splits)

lemma choose_fs_ok: "key_choose_fs secs k u = Some u' \<Longrightarrow> ui_ok s u \<Longrightarrow> ui_ok s u'"
  by (auto simp: key_choose_fs_def ui_ok_def pane_ok_def Let_def split: option.splits if_splits)

lemma play_keys_panes:
  "key_left secs now u = Some u' \<Longrightarrow> same_panes u u'"
  "key_backspace secs now u = Some u' \<Longrightarrow> same_panes u u'"
  "key_right secs now u = Some u' \<Longrightarrow> same_panes u u'"
  "key_tab secs now u = Some u' \<Longrightarrow> same_panes u u'"
proof -
  note d = data_panes(1,2) play_n_panes play_until_panes
  show "key_left secs now u = Some u' \<Longrightarrow> same_panes u u'"
    by (auto simp: key_left_def sampled_def Let_def bind_eq_Some_conv same_panes_def split: option.splits prod.splits if_splits
        dest!: d(1,3))
  show "key_backspace secs now u = Some u' \<Longrightarrow> same_panes u u'"
  proof -
    assume a: "key_backspace secs now u = Some u'"
    show "same_panes u u'"
    proof (cases "u_playf u")
      case None
      with a show ?thesis by (simp add: key_backspace_def same_panes_def)
    next
      case (Some f)
      then obtain u1 where u1: "empty_lists u = Some u1" using a by (auto simp: key_backspace_def bind_eq_Some_conv)
      obtain f1 s1 where r1: "rewind_file_to (u_tcycle u1 - 60) f (u_series u1) = (f1, s1)" by fastforce
      obtain f2 s2 n where r2: "rewind_file 1 f1 s1 = (f2, s2, n)" by (metis prod_cases3)
      obtain u2 where u2: "play_n secs 2 (u1\<lparr>u_playf := Some f2, u_series := s2\<rparr>) = Some u2" "u' = sampled now u2"
        using a Some u1 r1 r2 by (auto simp: key_backspace_def simp del: One_nat_def)
      show ?thesis using d(1) [OF u1] d(3) [OF u2(1)] unfolding u2(2) by (simp add: sampled_def same_panes_def)
    qed
  qed
  show "key_right secs now u = Some u' \<Longrightarrow> same_panes u u'"
    by (auto simp: key_right_def sampled_def bind_eq_Some_conv same_panes_def split: option.splits dest!: d(1,2))
  show "key_tab secs now u = Some u' \<Longrightarrow> same_panes u u'"
    by (auto simp: key_tab_def sampled_def same_panes_def split: if_splits dest!: d(4))
qed

lemma simple_keys_ok:
  assumes "ui_ok s u"
  shows "ui_ok s (key_switch u)" "ui_ok s (key_delete u)" "\<not> s \<Longrightarrow> ui_ok s (key_proportional u)"
    "ui_ok s (u\<lparr>u_quit := b\<rparr>)" "ui_ok s (u\<lparr>u_pause := b\<rparr>)" "ui_ok s (u\<lparr>u_showhelp := b\<rparr>)" "ui_ok s (u\<lparr>u_recompute := b\<rparr>)"
  using assms by (auto simp: key_switch_def key_delete_def key_proportional_def ui_ok_def pane_ok_def)

lemma handle_key_ok:
  assumes "handle_key secs k u = Some u'" "ui_inv s u" "s \<longrightarrow> k_key k \<noteq> KChar CHR ''P''"
  shows "ui_ok s u'"
proof -
  have u: "ui_ok s u" using assms(2) by (simp add: ui_inv_def)
  note ops = simple_keys_ok [OF u] on_pane_ok [OF assms(2) moves_ok(1)] on_pane_ok [OF assms(2) moves_ok(2)]
    on_pane_ok [OF assms(2) moves_ok(3)] on_pane_ok [OF assms(2) moves_ok(4)]
    simple_keys_ok(7) [OF on_pane_ok [OF assms(2) moves_ok(5)]]
  have same: "same_panes u v \<Longrightarrow> ui_ok s v" for v using u same_panes_ok by blast
  have c: "ui_ok s u'" if "key_char secs k c u = Some u'" "k_key k = KChar c" for c
    using that(1) assms(3) that(2) u ops same [OF data_panes(7)] same [OF data_panes(8)]
    unfolding key_char_def
    by (auto split: if_splits dest: key_sort_ok [OF _ u] choose_fs_ok [OF _ u] same [OF play_keys_panes(4)])
  show ?thesis
    using assms(1) c ops u same [OF play_keys_panes(1)] same [OF play_keys_panes(2)] same [OF play_keys_panes(3)]
    unfolding handle_key_def by (auto split: key.splits)
qed

lemma sizes_nonneg:
  assumes "0 \<le> mdts" "0 \<le> osts"
  shows "size_windows_proportional total_size mdts osts = (m, n) \<Longrightarrow> 0 \<le> m \<and> 0 \<le> n"
    and "size_windows_prioritize total_size mdts osts b = (m, n) \<Longrightarrow>
      0 \<le> m \<and> 0 \<le> n \<and> (9 < total_size \<longrightarrow> 1 \<le> (if b then n else m))"
  using assms
  by (auto simp: size_windows_proportional_def size_windows_prioritize_def min_or_zero_def topwin_lines_def Let_def
      split: if_splits)

lemma do_size_ok:
  assumes "ui_ok s u" "s \<longrightarrow> 9 < total_size"
  shows "ui_inv s (do_size total_size u)"
proof -
  have c: "0 \<le> p_count (u_mdt u)" "0 \<le> p_count (u_ost u)" using assms(1) by (simp_all add: ui_ok_def pane_ok_def)
  obtain m n where mn: "(if u_prop u then size_windows_proportional total_size (p_count (u_mdt u)) (p_count (u_ost u))
      else size_windows_prioritize total_size (p_count (u_mdt u)) (p_count (u_ost u)) (u_in_ostwin u)) = (m, n)" by fastforce
  have "0 \<le> m \<and> 0 \<le> n \<and> (s \<longrightarrow> 1 \<le> (if u_in_ostwin u then n else m))"
    using mn assms sizes_nonneg(1) [OF c, of total_size m n] sizes_nonneg(2) [OF c, of total_size "u_in_ostwin u" m n]
    by (auto simp: ui_ok_def split: if_splits)
  then show ?thesis using assms(1) unfolding do_size_def mn by (auto simp: ui_inv_def ui_ok_def pane_ok_def active_def)
qed

lemma do_count_ok: "ui_ok s u \<Longrightarrow> ui_ok s (do_count u)"
  by (simp add: do_count_def ui_ok_def pane_ok_def)

text \<open>The rest of a pass changes only whether the windows exist.\<close>

definition same_shape :: "ui \<Rightarrow> ui \<Rightarrow> bool" where
  "same_shape u u' \<longleftrightarrow> u_ost u' = (u_ost u)\<lparr>p_win := p_win (u_ost u')\<rparr> \<and> u_mdt u' = (u_mdt u)\<lparr>p_win := p_win (u_mdt u')\<rparr> \<and>
     u_in_ostwin u' = u_in_ostwin u \<and> u_prop u' = u_prop u"

lemma same_shape_inv:
  assumes "same_shape u u'" "ui_inv s u"
  shows "ui_inv s u'"
proof -
  obtain w v where "u_ost u' = (u_ost u)\<lparr>p_win := w\<rparr>" "u_mdt u' = (u_mdt u)\<lparr>p_win := v\<rparr>"
    "u_in_ostwin u' = u_in_ostwin u" "u_prop u' = u_prop u"
    using assms(1) unfolding same_shape_def by blast
  then show ?thesis using assms(2) by (auto simp: ui_inv_def ui_ok_def pane_ok_def active_def split: if_splits)
qed

lemma same_panes_shape: "same_panes u u' \<Longrightarrow> same_shape u u'"
  by (simp add: same_panes_def same_shape_def)

lemma pass_shapes:
  "do_recompute secs u = Some u' \<Longrightarrow> same_shape u u'"
  "do_resort u = Some u' \<Longrightarrow> same_panes u u'"
  "do_repoll u = Some u' \<Longrightarrow> same_panes u u'"
  "do_sample secs k u = Some u' \<Longrightarrow> same_panes u u'"
  "same_panes u (hide_help c u)"
proof -
  show "do_recompute secs u = Some u' \<Longrightarrow> same_shape u u'"
    by (auto simp: do_recompute_def Let_def create_target_window_def same_shape_def split: if_splits)
  show "do_resort u = Some u' \<Longrightarrow> same_panes u u'"
    using data_panes(5) [of u]
    by (auto simp: do_resort_def same_panes_def split: if_splits dest!: data_panes(4))
  show "do_repoll u = Some u' \<Longrightarrow> same_panes u u'"
    by (auto simp: do_repoll_def same_panes_def split: if_splits dest!: data_panes(1))
  show "do_sample secs k u = Some u' \<Longrightarrow> same_panes u u'"
    by (auto simp: do_sample_def ui_sample_def sampled_def same_panes_def split: if_splits option.splits
        dest!: data_panes(2,3))
  show "same_panes u (hide_help c u)" by (simp add: hide_help_def same_panes_def)
qed

lemma main_pass_inv:
  assumes "main_pass secs k u = Some u'" "ui_inv s u" "s \<longrightarrow> 9 < k_lines k \<and> k_key k \<noteq> KChar CHR ''P''"
  shows "ui_inv s u'"
proof -
  obtain u1 u2 u3 u4 where
    p: "handle_key secs k u = Some u1" "do_repoll (hide_help (k_key k) u1) = Some u2" "do_sample secs k u2 = Some u3"
      "do_recompute secs (do_size (k_lines k) (do_count u3)) = Some u4" "do_resort u4 = Some u'"
    using assms(1) by (auto simp: main_pass_def bind_eq_Some_conv)
  have "ui_ok s u1" using handle_key_ok [OF p(1) assms(2)] assms(3) by blast
  then have "ui_ok s u3"
    using same_panes_ok [OF pass_shapes(5)] same_panes_ok [OF pass_shapes(3) [OF p(2)]] same_panes_ok [OF pass_shapes(4) [OF p(3)]]
    by blast
  then have "ui_inv s (do_size (k_lines k) (do_count u3))" using do_size_ok [OF do_count_ok] assms(3) by blast
  then show ?thesis
    using same_shape_inv [OF pass_shapes(1) [OF p(4)]] same_shape_inv [OF same_panes_shape [OF pass_shapes(2) [OF p(5)]]]
    by blast
qed

section \<open>The cursor\<close>

text \<open>The cursor of a window moves forward only onto a target that is counted.\<close>

definition forward_ok :: "pane \<Rightarrow> pane \<Rightarrow> bool" where
  "forward_ok p p' \<longleftrightarrow> p_sel p' \<le> p_sel p \<or> p_sel p' < p_count p"


lemma forward_ok_refl [simp]: "forward_ok p p"
  by (simp add: forward_ok_def)










section \<open>Reachable states\<close>

text \<open>The states between two passes, when every pass (and the start) gets a tick of \<open>P\<close>.\<close>

inductive ltop_reach :: "int \<Rightarrow> (tick \<Rightarrow> bool) \<Rightarrow> ui \<Rightarrow> bool" for secs :: int and P :: "tick \<Rightarrow> bool" where
  started: "main_start secs period fs playf recf k = Some u \<Longrightarrow> P k \<Longrightarrow> ltop_reach secs P u"
| passed: "ltop_reach secs P u \<Longrightarrow> \<not> u_quit u \<Longrightarrow> P k \<Longrightarrow> main_pass secs k u = Some u' \<Longrightarrow> ltop_reach secs P u'"

definition plain_tick :: "tick \<Rightarrow> bool" where
  "plain_tick k \<longleftrightarrow> 9 < k_lines k \<and> k_key k \<noteq> KChar CHR ''P''"

lemma start_panes: "ui_ok s (start_ui fs playf recf period h)"
  by (simp add: ui_ok_def pane_ok_def start_ui_def new_pane_def)

lemma main_start_inv:
  assumes "main_start secs period fs playf recf k = Some u" "s \<longrightarrow> 9 < k_lines k"
  shows "ui_inv s u"
proof -
  obtain f pf h u1 u2 where
    p: "ui_sample secs (k_poll k) (k_metrics k) (start_ui f pf recf period h) = Some u1" "sort_mdts (sort_osts u1) = Some u2"
      "u = (do_size (k_lines k) (do_count (u2\<lparr>u_recompute := True\<rparr>)))\<lparr>u_recompute := False,
              u_mdt := create_target_window (u_mdt (do_size (k_lines k) (do_count (u2\<lparr>u_recompute := True\<rparr>)))),
              u_ost := create_target_window (u_ost (do_size (k_lines k) (do_count (u2\<lparr>u_recompute := True\<rparr>))))\<rparr>"
    using assms(1) by (auto simp: main_start_def Let_def bind_eq_Some_conv split: option.splits prod.splits if_splits)
  have "same_panes (start_ui f pf recf period h) u1"
    using p(1) data_panes(2,3) by (auto simp: ui_sample_def split: option.splits)
  then have "ui_ok s u2" using start_panes same_panes_ok same_panes_ok [OF data_panes(5)] same_panes_ok [OF data_panes(4) [OF p(2)]]
    by blast
  then have "ui_ok s (u2\<lparr>u_recompute := True\<rparr>)" by (rule simple_keys_ok(7))
  from do_size_ok [OF do_count_ok [OF this] assms(2)]
  show ?thesis unfolding p(3) by (rule same_shape_inv [rotated]) (simp add: same_shape_def create_target_window_def)
qed





lemma ltop_reach_inv:
  assumes "ltop_reach secs P u" "\<And>k. s \<Longrightarrow> P k \<Longrightarrow> plain_tick k"
  shows "ui_inv s u"
  using assms(1)
proof (induction rule: ltop_reach.induct)
  case (started period fs playf recf k u)
  then show ?case using assms(2) by (intro main_start_inv [OF started(1)]) (simp add: plain_tick_def)
next
  case (passed u k u')
  then show ?case using assms(2) by (intro main_pass_inv [OF passed(4)]) (simp_all add: plain_tick_def)
qed



text \<open>C23: as long as the terminal has more than nine lines and the proportional view is not switched on, the scroll
  position of both windows is never negative and the active window has a line, so paging makes sense.\<close>

theorem ltop_scroll_invariant:
  assumes "ltop_reach secs plain_tick u"
  shows "0 \<le> p_min (u_ost u) \<and> 0 \<le> p_min (u_mdt u) \<and> 1 \<le> p_lines (if u_in_ostwin u then u_ost u else u_mdt u)"
  using ltop_reach_inv [OF assms, of True] by (auto simp: ui_inv_def ui_ok_def pane_ok_def active_def)

section \<open>Sessions\<close>

definition osc_tick :: "key \<Rightarrow> int \<Rightarrow> tick" where
  "osc_tick c t =
     (let ms = Some [\<lparr>c_name = Some ''lmt_osc'', c_nodename = Some ''mds1'', c_val = Some ''1;mds1;a-OST0;F'', c_time = t\<rparr>]
      in \<lparr>k_key = c, k_keys = [], k_menu = ms, k_metrics = ms, k_now = t, k_check = t, k_poll = t, k_after = t, k_lines = 24,
          k_open = True\<rparr>)"

fun live_run :: "key list \<Rightarrow> ui \<Rightarrow> ui option" where
  "live_run [] u = Some u"
| "live_run (c # cs) u = (if u_quit u then None else Option.bind (main_pass 12 (osc_tick c 100) u) (live_run cs))"

definition live_session :: "key list \<Rightarrow> ui option" where
  "live_session cs = Option.bind (main_start 12 2 None None None (osc_tick KEY_ERR 100)) (live_run cs)"

lemma live_run_reach:
  "live_run cs u = Some u' \<Longrightarrow> (\<And>c. c \<in> set cs \<Longrightarrow> P (osc_tick c 100)) \<Longrightarrow> ltop_reach 12 P u \<Longrightarrow> ltop_reach 12 P u'"
proof (induction cs arbitrary: u)
  case (Cons c cs)
  then obtain u1 where u1: "\<not> u_quit u" "main_pass 12 (osc_tick c 100) u = Some u1" "live_run cs u1 = Some u'"
    by (auto simp: bind_eq_Some_conv split: if_splits)
  show ?case by (rule Cons.IH [OF u1(3)]) (use Cons.prems u1 in \<open>auto intro: ltop_reach.passed\<close>)
qed simp

lemma live_session_reach:
  assumes "live_session cs = Some u" "\<And>c. c \<in> set (KEY_ERR # cs) \<Longrightarrow> P (osc_tick c 100)"
  shows "ltop_reach 12 P u"
proof -
  obtain u0 where u0: "main_start 12 2 None None None (osc_tick KEY_ERR 100) = Some u0" "live_run cs u0 = Some u"
    using assms(1) by (auto simp: live_session_def bind_eq_Some_conv)
  have "ltop_reach 12 P u0" by (rule ltop_reach.started [OF u0(1)]) (simp add: assms(2))
  then show ?thesis using live_run_reach [of cs u0 u P] u0(2) assms(2) by simp
qed

text \<open>The columns of a pane that the user sees, for evaluating sessions.\<close>

definition pane_view :: "pane \<Rightarrow> int \<times> int \<times> int \<times> int \<times> nat" where
  "pane_view p = (p_sel p, p_min p, p_count p, p_lines p, p_fp p)"

definition session_view :: "ui option \<Rightarrow> (string \<times> bool \<times> (int \<times> int \<times> int \<times> int \<times> nat) list) option" where
  "session_view u = map_option (\<lambda>u. (u_fs u, u_in_ostwin u, map pane_view [u_ost u, u_mdt u])) u"

lemma select_and_sort: "session_view (live_session [KEY_DOWN, KEY_DOWN, KChar CHR ''w'']) =
  Some (''a'', True, [(0, 0, 1, 2, 6), (- 1, 0, 0, 1, 0)])"
  by code_simp


theorem ltop_scroll_invariant_witness:
  "\<exists>u. live_session [KEY_DOWN, KEY_DOWN, KChar CHR ''w''] = Some u \<and> 0 \<le> p_min (u_ost u)"
proof -
  obtain u where u: "live_session [KEY_DOWN, KEY_DOWN, KChar CHR ''w''] = Some u"
    using select_and_sort by (auto simp: session_view_def)
  have "ltop_reach 12 plain_tick u"
    by (rule live_session_reach [OF u]) (auto simp: plain_tick_def osc_tick_def Let_def)
  from ltop_scroll_invariant [OF this] u show ?thesis by blast
qed

text \<open>In the proportional view the active window may have no lines; then a page down scrolls backwards.\<close>

lemma proportional_scrolls_backwards:
  "\<exists>u. ltop_reach 12 (\<lambda>k. k_lines k = 24) u \<and> p_min (u_mdt u) = - 1"
proof -
  have "session_view (live_session [KChar CHR ''z'', KChar CHR ''P'', KEY_NPAGE]) =
    Some (''a'', False, [(- 1, 0, 1, 17, 0), (- 1, - 1, 0, 0, 0)])" by code_simp
  then obtain u where u: "live_session [KChar CHR ''z'', KChar CHR ''P'', KEY_NPAGE] = Some u" "p_min (u_mdt u) = - 1"
    by (auto simp: session_view_def pane_view_def)
  have "ltop_reach 12 (\<lambda>k. k_lines k = 24) u" by (rule live_session_reach [OF u(1)]) (auto simp: osc_tick_def Let_def)
  with u(2) show ?thesis by blast
qed

text \<open>The help screen offers the keys \<open>o\<close>, \<open>U\<close> and \<open>M\<close>, which are keys of \<open>mdt_col\<close> but no cases of the loop.\<close>

lemma mdt_sort_keys_ignored:
  "c \<in> set ''oUMT'' \<Longrightarrow> Some c \<in> set (map fst (mdt_col h t)) \<and> key_char secs k c u = Some u"
proof -
  assume "c \<in> set ''oUMT''"
  then have "c = CHR ''o'' \<or> c = CHR ''U'' \<or> c = CHR ''M'' \<or> c = CHR ''T''" by simp
  then show ?thesis by (elim disjE) (simp_all add: key_char_def sort_key_chars_def mdt_col_def)
qed

text \<open>Without \<open>-f\<close> the first batch of a recording is spent on finding a file system, and the next must not be the last:
  a recording of two batches cannot be played.\<close>

definition two_batches :: playf where
  "two_batches = \<lparr>pf_text = ''100 99 mds1 lmt_osc 1;mds1;a-OST0;F'' @ [newline] @ ''102 101 mds1 lmt_osc 1;mds1;a-OST0;F'' @ [newline],
     pf_pos = 0, pf_eof = False\<rparr>"

lemma short_recordings_refused:
  "session_view (main_start 12 2 None (Some two_batches) None (osc_tick KEY_ERR 200)) = None"
  "session_view (main_start 12 2 (Some ''a'') (Some two_batches) None (osc_tick KEY_ERR 200)) =
     Some (''a'', True, [(- 1, 0, 1, 2, 0), (- 1, 0, 0, 1, 0)])"
  by code_simp+

section \<open>The list of file systems\<close>

definition fs_table :: "fsstat list \<Rightarrow> string \<rightharpoonup> nat \<times> nat" where
  "fs_table l = map_of (map (\<lambda>f. (fs_name f, fs_num_mdt f, fs_num_ost f)) l)"

definition fs_counts :: "string list \<Rightarrow> string list \<Rightarrow> string \<rightharpoonup> nat \<times> nat" where
  "fs_counts ms os n =
     (let a = length (filter (\<lambda>x. x = n) ms); b = length (filter (\<lambda>x. x = n) os) in if a = 0 \<and> b = 0 then None else Some (a, b))"

lemma count_table:
  "fs_table (count_mdt l n) = (fs_table l)(n \<mapsto> (case fs_table l n of None \<Rightarrow> (1, 0) | Some (a, b) \<Rightarrow> (Suc a, b)))"
  "fs_table (count_ost l n) = (fs_table l)(n \<mapsto> (case fs_table l n of None \<Rightarrow> (0, 1) | Some (a, b) \<Rightarrow> (a, Suc b)))"
  by (induction l) (auto simp: fs_table_def match_fsstat_def create_fsstat_def fun_eq_iff)

lemma count_names:
  "distinct (map fs_name l) \<Longrightarrow> distinct (map fs_name (count_mdt l n)) \<and> set (map fs_name (count_mdt l n)) = insert n (set (map fs_name l))"
  "distinct (map fs_name l) \<Longrightarrow> distinct (map fs_name (count_ost l n)) \<and> set (map fs_name (count_ost l n)) = insert n (set (map fs_name l))"
  by (induction l) (auto simp: match_fsstat_def create_fsstat_def)

lemma fold_counts:
  "fs_table (foldl count_mdt [] ms) = fs_counts ms []"
  "distinct (map fs_name (foldl count_mdt [] ms))"
  "fs_table (foldl count_ost (foldl count_mdt [] ms) os) = fs_counts ms os"
  "distinct (map fs_name (foldl count_ost (foldl count_mdt [] ms) os))"
proof -
  show m: "fs_table (foldl count_mdt [] ms) = fs_counts ms []"
    by (induction ms rule: rev_induct) (auto simp: count_table fs_counts_def fs_table_def [of "[]"] fun_eq_iff Let_def)
  show d: "distinct (map fs_name (foldl count_mdt [] ms))"
    by (induction ms rule: rev_induct) (auto simp: count_names simp del: distinct_map)
  show "fs_table (foldl count_ost (foldl count_mdt [] ms) os) = fs_counts ms os"
    by (induction os rule: rev_induct) (auto simp: count_table m, auto simp: fs_counts_def fun_eq_iff Let_def)
  show "distinct (map fs_name (foldl count_ost (foldl count_mdt [] ms) os))"
    using d by (induction os rule: rev_induct) (auto simp: count_names simp del: distinct_map)
qed

text \<open>C35: the list of file systems has one record for every file system that a target of the tables belongs to, with the
  numbers of its metadata and of its object storage targets.\<close>

theorem count_fs_correct:
  "fs_table (count_fs tb) = fs_counts (map (\<lambda>m. t_fsname (m_common m)) (tb_mdt tb)) (map (\<lambda>o1. t_fsname (o_common o1)) (tb_ost tb)) \<and>
   distinct (map fs_name (count_fs tb))"
  unfolding count_fs_def by (simp only: fold_counts simp_thms)

end
