(* ===== verification/Lmt_Ltop_Draw.thy ===== *)
theory Lmt_Ltop_Draw
  imports Lmt_Ltop_Ui_Facts
begin

text \<open>
  \<open>utils/ltop.c\<close>, the display: what is printed in the windows. The curses library is not part of the program; a function
  that draws is the list of the calls it makes on its window, with the text of a \<open>wprintw\<close> or \<open>mvwprintw\<close> formatted.
  \<open>paint\<close> reads such a list: the lines it prints and the attributes in force.
\<close>

section \<open>Formatting\<close>

text \<open>\<open>%w.ps\<close>, \<open>%-ws\<close>, and \<open>%w.pf\<close> for a \<open>double\<close>.\<close>

definition pad_left :: "nat \<Rightarrow> string \<Rightarrow> string" where
  "pad_left w s = replicate (w - length s) CHR '' '' @ s"

definition pad_right :: "nat \<Rightarrow> string \<Rightarrow> string" where
  "pad_right w s = s @ replicate (w - length s) CHR '' ''"

definition fmt_s :: "nat \<Rightarrow> nat \<Rightarrow> string \<Rightarrow> string" where
  "fmt_s w p s = pad_left w (take p s)"

definition fraction :: "nat \<Rightarrow> nat \<Rightarrow> string" where
  "fraction p n =
     (if p = 0 then []
      else let d = dec_string (n mod 10 ^ p) in CHR ''.'' # replicate (p - length d) (digit_char 0) @ d)"

fun print_fixed :: "nat \<Rightarrow> fp \<Rightarrow> string" where
  "print_fixed p (FFin r) =
     (let n = nat (round_half_even (\<bar>r\<bar> * 10 ^ p))
      in (if r < 0 then ''-'' else []) @ dec_string (n div 10 ^ p) @ fraction p n)"
| "print_fixed p (FInf s) = (if s then ''-inf'' else ''inf'')"
| "print_fixed p FNaN = ''-nan''"

definition fmt_f :: "nat \<Rightarrow> nat \<Rightarrow> fp \<Rightarrow> string" where
  "fmt_f w p x = pad_left w (print_fixed p x)"

text \<open>A header: \<open>%s\<close> is the mark of the sort column, \<open>%%\<close> a percent sign.\<close>

fun hdr_text :: "string \<Rightarrow> string \<Rightarrow> string" where
  "hdr_text mark (CHR ''%'' # CHR ''s'' # cs) = mark @ hdr_text mark cs"
| "hdr_text mark (CHR ''%'' # CHR ''%'' # cs) = CHR ''%'' # hdr_text mark cs"
| "hdr_text mark (c # cs) = c # hdr_text mark cs"
| "hdr_text mark [] = []"

section \<open>Curses\<close>

datatype attr = A_REVERSE | A_UNDERLINE

datatype curses = Wclear | Wmove int int | Wattron attr | Wattroff attr | Wprint string | Mvwprint int int string | Wrefresh

text \<open>The texts printed at a position, with the reverse and the underline attribute.\<close>

fun paint :: "bool \<Rightarrow> bool \<Rightarrow> curses list \<Rightarrow> (int \<times> int \<times> string \<times> bool \<times> bool) list" where
  "paint r u [] = []"
| "paint r u (Wattron a # cs) = (if a = A_REVERSE then paint True u cs else paint r True cs)"
| "paint r u (Wattroff a # cs) = (if a = A_REVERSE then paint False u cs else paint r False cs)"
| "paint r u (Mvwprint y x s # cs) = (y, x, s, r, u) # paint r u cs"
| "paint r u (_ # cs) = paint r u cs"

section \<open>The target windows\<close>

definition ost_heads :: "string list" where
  "ost_heads =
     [''%sOST'', ''%sS'', ''       %sOSS'', ''  %sExp'', ''  %sCR'', ''%srMB/s'', ''%swMB/s'', '' %sIOPS'', ''   %sLOCKS'',
      ''  %sLGR'', ''  %sLCR'', ''%s%%cpu'', ''%s%%mem'', ''%s%%spc'']"

definition mdt_heads :: "string list" where
  "mdt_heads =
     [''%sMDT '', ''        %sMDS'', '' %sOpen'', '' %srMB/s'', '' %swMB/s'', ''%sGetAt'', ''%sSetAt'', ''%sUnlnk'', ''%sMkdir'',
      ''%sRmdir'', '' %s%%cpu'', '' %s%%mem'', '' %s%%spc'', ''%s%%ino'']"

definition hdr_cell :: "nat \<Rightarrow> nat \<Rightarrow> string \<Rightarrow> string" where
  "hdr_cell sel i h = hdr_text (if sel = i then ''>'' else '' '') h"

definition update_display_hdr :: "string list \<Rightarrow> nat \<Rightarrow> curses list" where
  "update_display_hdr heads sel =
     [Wclear, Wmove 0 0, Wattron A_REVERSE] @ map (\<lambda>(i, h). Wprint (hdr_cell sel i h)) (enumerate 0 heads) @
     [Wattroff A_REVERSE, Wrefresh]"

definition ltrunc :: "string \<Rightarrow> nat \<Rightarrow> string" where
  "ltrunc s m = drop (if length s > m then length s - m else 0) s"

definition in_recovery :: "string \<Rightarrow> bool" where
  "in_recovery s \<longleftrightarrow> strstr_split s ''COMPLETE'' = None \<and> strstr_split s ''INACTIVE'' = None"

definition mb :: "fp \<Rightarrow> fp" where "mb x = fp_div x (FFin 1048576)"

definition pct100 :: "sample \<Rightarrow> sample \<Rightarrow> int \<Rightarrow> fp" where
  "pct100 tot free tnow =
     (let t = sample_val tot tnow; f = sample_val free tnow
      in if fp_less (FFin 0) t then fp_mul (fp_div (fp_sub t f) t) (FFin 100) else FFin 0)"

text \<open>The fields of \<open>OST_ROW_FMT\<close> with the blank before each; the numbers with their widths.\<close>

definition ost_numbers :: "int \<Rightarrow> oststat \<Rightarrow> (nat \<times> fp) list" where
  "ost_numbers tnow o1 =
     [(5, sample_val (o_num_exports o1) tnow), (4, sample_rate (o_connect o1) tnow),
      (5, mb (sample_rate (o_rbytes o1) tnow)), (5, mb (sample_rate (o_wbytes o1) tnow)),
      (5, sample_rate (o_iops o1) tnow), (8, sample_val (o_lock_count o1) tnow),
      (5, sample_val (o_grant_rate o1) tnow), (5, sample_val (o_cancel_rate o1) tnow),
      (4, sample_val (t_pct_cpu (o_common o1)) tnow), (4, sample_val (t_pct_mem (o_common o1)) tnow),
      (4, pct100 (o_kbytes_total o1) (o_kbytes_free o1) tnow)]"

definition number_cell :: "nat \<times> fp \<Rightarrow> string" where
  "number_cell = (\<lambda>(w, x). CHR '' '' # fmt_f w 0 x)"

definition ost_cells :: "int \<Rightarrow> oststat \<Rightarrow> string list" where
  "ost_cells tnow o1 =
     (let c = o_common o1
      in [fmt_s 4 4 (t_name c), CHR '' '' # fmt_s 1 1 (t_tgtstate c), CHR '' '' # fmt_s 10 10 (ltrunc (t_servername c) 10)] @
         map number_cell (ost_numbers tnow o1))"

definition ost_line :: "int \<Rightarrow> int \<Rightarrow> oststat \<Rightarrow> string" where
  "ost_line secs tnow o1 =
     (let c = o_common o1; head = fmt_s 4 4 (t_name c) @ '' '' @ fmt_s 1 1 (t_tgtstate c)
      in if tnow - tgt_metric_timestamp c > secs then head @ '' data is stale''
         else if in_recovery (t_recov_status c)
           then head @ '' '' @ fmt_s 10 10 (ltrunc (t_servername c) 10) @ ''   '' @ t_recov_status c
         else concat (ost_cells tnow o1))"

definition update_display_ost :: "int \<Rightarrow> int \<Rightarrow> int \<Rightarrow> oststat \<Rightarrow> curses" where
  "update_display_ost secs tnow line o1 = Mvwprint line 0 (ost_line secs tnow o1)"

text \<open>A metadata target; \<open>None\<close> when a sample it reads has been freed.\<close>

definition mdt_numbers :: "heap \<Rightarrow> int \<Rightarrow> mdtstat \<Rightarrow> (nat \<times> fp) list" where
  "mdt_numbers h tnow m =
     (let rate = (\<lambda>a. sample_rate (sam h a) tnow); pct = (\<lambda>a b. pct100 (sam h a) (sam h b) tnow)
      in map (Pair 5)
           [rate (m_open m), mb (rate (m_read_bytes m)), mb (rate (m_write_bytes m)), rate (m_getattr m), rate (m_setattr m),
            rate (m_unlink m), rate (m_mkdir m), rate (m_rmdir m), sample_val (sam h (t_pct_cpu (m_common m))) tnow,
            sample_val (sam h (t_pct_mem (m_common m))) tnow, pct (m_kbytes_total m) (m_kbytes_free m),
            pct (m_inodes_total m) (m_inodes_free m)])"

definition mdt_cells :: "heap \<Rightarrow> int \<Rightarrow> mdtstat \<Rightarrow> string list" where
  "mdt_cells h tnow m =
     (let c = m_common m
      in [fmt_s 4 4 (t_name c), CHR '' '' # fmt_s 12 12 (ltrunc (t_servername c) 10)] @ map number_cell (mdt_numbers h tnow m))"

definition mdt_row_addrs :: "mdtstat \<Rightarrow> addr list" where
  "mdt_row_addrs m = [m_open m, m_read_bytes m, m_write_bytes m, m_getattr m, m_setattr m, m_unlink m, m_mkdir m, m_rmdir m,
     t_pct_cpu (m_common m), t_pct_mem (m_common m)]"

definition allocated :: "heap \<Rightarrow> addr list \<Rightarrow> bool" where
  "allocated h as = list_all (\<lambda>a. h_mem h a \<noteq> None) as"

definition mdt_line :: "heap \<Rightarrow> int \<Rightarrow> int \<Rightarrow> mdtstat \<Rightarrow> string option" where
  "mdt_line h secs tnow m =
     (let c = m_common m; head = fmt_s 4 4 (t_name c)
      in if \<not> allocated h [m_kbytes_total m, m_kbytes_free m, m_inodes_total m, m_inodes_free m] then None
         else if tnow - tgt_metric_timestamp c > secs then Some (head @ '' data is stale'')
         else if in_recovery (t_recov_status c)
           then Some (head @ ''   '' @ fmt_s 10 10 (ltrunc (t_servername c) 10) @ '' '' @ t_recov_status c)
         else if allocated h (mdt_row_addrs m) then Some (concat (mdt_cells h tnow m)) else None)"

definition update_display_mdt :: "heap \<Rightarrow> int \<Rightarrow> int \<Rightarrow> int \<Rightarrow> mdtstat \<Rightarrow> curses option" where
  "update_display_mdt h secs tnow line m = map_option (Mvwprint line 0) (mdt_line h secs tnow m)"

text \<open>The loop over the targets: \<open>skip\<close> is \<open>skiptgt\<close>, \<open>fn\<close> draws one target and \<open>tg\<close> is its tag.\<close>

fun display_rows :: "(int \<Rightarrow> 'a \<Rightarrow> curses option) \<Rightarrow> ('a \<Rightarrow> bool) \<Rightarrow> int \<Rightarrow> int \<Rightarrow> int \<Rightarrow> int \<Rightarrow> 'a list \<Rightarrow> curses list option" where
  "display_rows fn tg mintgt seltgt skip y [] = Some []"
| "display_rows fn tg mintgt seltgt skip y (t # l) =
     (if skip > 0 then display_rows fn tg mintgt seltgt (skip - 1) y l
      else do { c \<leftarrow> fn y t;
                cs \<leftarrow> display_rows fn tg mintgt seltgt (skip - 1) (y + 1) l;
                let rev = (y - 1 + mintgt = seltgt);
                Some ((if rev then [Wattron A_REVERSE] else []) @ (if tg t then [Wattron A_UNDERLINE] else []) @ [c] @
                      (if rev then [Wattroff A_REVERSE] else []) @ (if tg t then [Wattroff A_UNDERLINE] else []) @ cs) })"

definition update_display_target :: "(int \<Rightarrow> 'a \<Rightarrow> curses option) \<Rightarrow> ('a \<Rightarrow> bool) \<Rightarrow> 'a list \<Rightarrow> int \<Rightarrow> int \<Rightarrow> curses list option" where
  "update_display_target fn tg tgt_data mintgt seltgt =
     map_option (\<lambda>cs. cs @ [Wrefresh]) (display_rows fn tg mintgt seltgt mintgt 1 tgt_data)"

section \<open>The summary\<close>

text \<open>What the display asks the outside world for: the version, whether writing the recording or reading the file played
  has failed, and the text of \<open>ctime\<close>.\<close>

record drawenv =
  d_version :: string
  d_rec_err :: bool
  d_play_err :: bool
  d_ctime :: "int \<Rightarrow> string"

definition total :: "('a \<Rightarrow> fp) \<Rightarrow> 'a list \<Rightarrow> fp \<Rightarrow> fp" where
  "total f l x = foldl (\<lambda>acc t. fp_add acc (f t)) x l"

text \<open>\<open>recovery_str_size\<close> bounds the status; the length is computed as an unsigned \<open>long\<close> and stored as an \<open>int\<close>, so a
  long name gives a negative number.\<close>

definition recov_status_len :: "string \<Rightarrow> int" where
  "recov_status_len fs =
     (let n = 68 - (12 + int (length fs) + 4); n = (if n < 0 then 0 else n)
      in if 64 < n then 64 else n)"

text \<open>The status of the first target in recovery, cut to \<open>n - 1\<close> characters; \<open>None\<close> when \<open>n\<close> is 0 and the terminating NUL
  would be written before the array.\<close>

fun recov_loop :: "int \<Rightarrow> int \<Rightarrow> int \<Rightarrow> mdtstat list \<Rightarrow> string \<Rightarrow> string option" where
  "recov_loop n secs tnow [] s = Some s"
| "recov_loop n secs tnow (m # l) s =
     (let c = m_common m
      in if tnow - tgt_metric_timestamp c < secs \<and> in_recovery (t_recov_status c) \<and> s = [] then
           (if n = 0 then None
            else recov_loop n secs tnow l
                   (take (nat (n - 1)) (snd (snprintf 256 (''MDT'' @ t_name c @ '' '' @ t_recov_status c)))))
         else recov_loop n secs tnow l s)"

definition newest :: "mdtstat list \<Rightarrow> int" where
  "newest l = foldl (\<lambda>t m. if tgt_metric_timestamp (m_common m) > t then tgt_metric_timestamp (m_common m) else t) 0 l"

text \<open>The indicator in the first line: \<open>%*s\<close> takes the width as a minimum, so all of the text of \<open>ctime\<close> is printed.\<close>

definition indicator :: "drawenv \<Rightarrow> bool \<Rightarrow> bool \<Rightarrow> playf option \<Rightarrow> int \<Rightarrow> curses list" where
  "indicator d pause rec playf tnow =
     (let rev = (\<lambda>x s. [Wattron A_REVERSE, Mvwprint 0 x s, Wattroff A_REVERSE])
      in if pause then rev 73 ''PAUSED''
         else if rec then (if d_rec_err d then rev 68 ''WRITE ERROR'' else rev 70 ''RECORDING'')
         else case playf of
             None \<Rightarrow> []
           | Some f \<Rightarrow>
               if d_play_err d then rev 69 ''READ ERROR''
               else if pf_eof f then rev 68 ''END OF FILE''
               else (let ts = d_ctime d tnow in rev 55 (pad_left (length ts - 1) ts)))"

text \<open>The three numbers of a line about space: total, used and free, and the percentage in use, which is not guarded
  against a total of 0.\<close>

definition space_line :: "string \<Rightarrow> string \<Rightarrow> fp \<Rightarrow> fp \<Rightarrow> string" where
  "space_line lab u tot free =
     (let used = fp_sub tot free
      in lab @ fmt_f 10 3 tot @ u @ '' total, '' @ fmt_f 10 3 used @ u @ '' used ('' @
         fmt_f 3 0 (fp_mul (fp_div used tot) (FFin 100)) @ ''%), '' @ fmt_f 10 3 free @ u @ '' free'')"

definition ops_lines :: "(fp \<Rightarrow> string) \<Rightarrow> fp list \<Rightarrow> string list" where
  "ops_lines f v =
     [''   MDops/s: '' @ f (v ! 0) @ '' open,   '' @ f (v ! 1) @ '' close,  '' @ f (v ! 2) @ '' getattr,  '' @ f (v ! 3) @ '' setattr'',
      ''            '' @ f (v ! 4) @ '' link,   '' @ f (v ! 5) @ '' unlink, '' @ f (v ! 6) @ '' mkdir,    '' @ f (v ! 7) @ '' rmdir'',
      ''            '' @ f (v ! 8) @ '' statfs, '' @ f (v ! 9) @ '' rename, '' @ f (v ! 10) @ '' getxattr'']"

definition op_addrs :: "(mdtstat \<Rightarrow> addr) list" where
  "op_addrs = [m_open, m_close, m_getattr, m_setattr, m_link, m_unlink, m_mkdir, m_rmdir, m_statfs, m_rename, m_getxattr]"

definition top_addrs :: "mdtstat \<Rightarrow> addr list" where
  "top_addrs m = map (\<lambda>f. f m) op_addrs @ [m_inodes_free m, m_inodes_total m, m_read_bytes m, m_write_bytes m]"

definition top_lines :: "heap \<Rightarrow> int \<Rightarrow> int \<Rightarrow> oststat list \<Rightarrow> mdtstat list \<Rightarrow> string list" where
  "top_lines h secs tnow osts mdts =
     (let orate = (\<lambda>f. total (\<lambda>t. mb (sample_rate (f t) tnow)) osts (FFin 0));
          tb = (\<lambda>f. total (\<lambda>t. fp_div (sample_val (f t) tnow) (FFin 1073741824)) osts (FFin 0));
          ops = map (\<lambda>f. total (\<lambda>m. sample_rate (sam h (f m)) tnow) mdts (FFin 0)) op_addrs;
          inodes = (\<lambda>f. total (\<lambda>m. mb (sample_val (sam h (f m)) tnow)) mdts (FFin 0));
          rmbps = total (\<lambda>m. mb (sample_rate (sam h (m_read_bytes m)) tnow)) mdts (orate o_rbytes);
          wmbps = total (\<lambda>m. mb (sample_rate (sam h (m_write_bytes m)) tnow)) mdts (orate o_wbytes);
          iops = total (\<lambda>t. sample_rate (o_iops t) tnow) osts (FFin 0);
          live = (tnow - newest mdts \<le> secs);
          no = pad_left 11 []
      in [if live then space_line ''    Inodes: '' ''m'' (inodes m_inodes_total) (inodes m_inodes_free)
          else ''    Inodes: '' @ no @ '' total, '' @ no @ '' used ('' @ pad_left 3 [] @ ''%), '' @ no @ '' free'',
          space_line ''     Space: '' ''t'' (tb o_kbytes_total) (tb o_kbytes_free),
          ''   Bytes/s: '' @ fmt_f 10 3 (fp_div rmbps (FFin 1024)) @ ''g read,  '' @ fmt_f 10 3 (fp_div wmbps (FFin 1024)) @
            ''g write,            '' @ fmt_f 6 0 iops @ '' IOPS''] @
         ops_lines (if live then fmt_f 6 0 else (\<lambda>_. pad_left 6 [])) ops)"

definition update_display_top :: "drawenv \<Rightarrow> heap \<Rightarrow> string \<Rightarrow> oststat list \<Rightarrow> mdtstat list \<Rightarrow> int \<Rightarrow> bool \<Rightarrow> playf option \<Rightarrow>
    int \<Rightarrow> bool \<Rightarrow> curses list option" where
  "update_display_top d h fs osts mdts secs rec playf tnow pause =
     (if \<not> list_all (\<lambda>m. allocated h (top_addrs m)) mdts then None
      else case recov_loop (recov_status_len fs) secs tnow mdts [] of
          None \<Rightarrow> None
        | Some rs \<Rightarrow>
            Some ([Wclear, Mvwprint 0 0 (''Filesystem: '' @ fs @ ''  '' @ rs)] @ indicator d pause rec playf tnow @
                  map (\<lambda>(y, s). Mvwprint (int y) 0 s) (enumerate 1 (top_lines h secs tnow osts mdts)) @ [Wrefresh]))"

section \<open>Help and menu\<close>

definition help_lines :: "string list" where
  "help_lines =
     [''z/Z        switch between OST/MDT window'',
      ''PageUp     Page up through targets'',
      ''PageDown   Page down through targets'',
      ''UpArrow    Move cursor up'',
      ''DownArrow  Move cursor down'',
      ''Space      Tag/untag OST under cursor'',
      ''Delete     Park cursor and clear tags'',
      ''R          Toggle record mode'',
      ''p          Pause data collection/playback'',
      ''RightArrow Fast-fwd playback one sample period'',
      ''LeftArrow  Rewind playback one sample period'',
      ''Tab        Fast-fwd playback one minute'',
      ''Backspace  Rewind playback one minute'',
      ''c          Toggle target/server view'',
      ''f          Select filesystem to monitor'',
      ''>          Sort on next right column'',
      ''<          Sort on next left column'',
      ''t          Sort on target name (ascending)'',
      ''s          Sort on server name (ascending)'',
      ''r          Sort on read b/w (descending)'',
      ''w          Sort on write b/w (descending)'',
      ''x          Sort on export count (ascending/OST)'',
      ''C          Sort on connect rate (descending/OST)'',
      ''i          Sort on IOPS (descending/OST)'',
      ''l          Sort on lock count (descending/OST)'',
      ''g          Sort on lock grant rate (descending/OST)'',
      ''L          Sort on lock cancel  rate (descending/OST)'',
      ''o          Sort on open rate (descending/MDT)'',
      ''C          Sort on close rate (descending/MDT)'',
      ''g          Sort on getattr rate (descending/MDT)'',
      ''S          Sort on setattr rate (descending/MDT)'',
      ''U          Sort on unlink rate (descending/MDT)'',
      ''M          Sort on mkdir rate (descending/MDT)'',
      ''r          Sort on rmdir rate (descending/MDT)'',
      ''R          Sort on rename rate (descending/MDT)'',
      ''u          Sort on %cpu utilization (descending)'',
      ''m          Sort on %memory utilization (descending)'',
      ''S          Sort on %disk space utilization (descending)'',
      ''q          Quit'']"

definition update_display_help :: "drawenv \<Rightarrow> curses list" where
  "update_display_help d =
     [Wclear, Wattron A_REVERSE, Mvwprint 0 0 (''Help for Interactive Commands - ltop version '' @ d_version d), Wattroff A_REVERSE] @
     map (\<lambda>(y, s). Mvwprint (int y) 2 s) (enumerate 2 help_lines) @ [Wrefresh]"

text \<open>The counts are 64-bit numbers passed where \<open>%4d\<close> reads an \<open>int\<close>: their low 32 bits.\<close>

definition fmt_d4 :: "nat \<Rightarrow> string" where
  "fmt_d4 n = (let i = sint (of_nat n :: u32) in pad_left 4 ((if i < 0 then ''-'' else []) @ dec_string (nat \<bar>i\<bar>)))"

fun menu_rows :: "nat \<Rightarrow> nat \<Rightarrow> fsstat list \<Rightarrow> curses list" where
  "menu_rows selfs y [] = []"
| "menu_rows selfs y (f # l) =
     (let on = (y - 3 = selfs)
      in (if on then [Wattron A_UNDERLINE] else []) @
         [Mvwprint (int y) 0 (pad_right 17 (fs_name f) @ '' '' @ fmt_d4 (fs_num_mdt f) @ ''    '' @ fmt_d4 (fs_num_ost f))] @
         (if on then [Wattroff A_UNDERLINE] else []) @ menu_rows selfs (Suc y) l)"

definition update_display_choose_fs :: "nat \<Rightarrow> fsstat list \<Rightarrow> curses list" where
  "update_display_choose_fs selfs fsl =
     [Wclear, Mvwprint 0 0 ''Select a filesystem to monitor.'', Mvwprint 1 0 [], Wattron A_REVERSE,
      Mvwprint 2 0 ''NAME              MDTs    OSTs'', Wattroff A_REVERSE] @ menu_rows selfs 3 fsl @ [Wrefresh]"

text \<open>What the menu has drawn when a file system is chosen or another key leaves it: one drawing when it opens and one for
  every move.\<close>

fun menu_screens :: "fsstat list \<Rightarrow> nat \<Rightarrow> key list \<Rightarrow> curses list list" where
  "menu_screens fsl selfs [] = []"
| "menu_screens fsl selfs (c # cs) =
     (if c = KEY_UP \<or> c = KChar CHR ''k'' then
        (if selfs > 0 then update_display_choose_fs (selfs - 1) fsl # menu_screens fsl (selfs - 1) cs else menu_screens fsl selfs cs)
      else if c = KEY_DOWN \<or> c = KChar CHR ''j'' then
        (if Suc selfs < length fsl then update_display_choose_fs (Suc selfs) fsl # menu_screens fsl (Suc selfs) cs
         else menu_screens fsl selfs cs)
      else if c = KChar newline \<or> c = KEY_ENTER \<or> c = KChar CHR '' '' then
        (if selfs < length fsl then [] else menu_screens fsl selfs cs)
      else if c = KEY_ERR then menu_screens fsl selfs cs
      else [])"

definition choose_screens :: "fsstat list \<Rightarrow> key list \<Rightarrow> curses list list" where
  "choose_screens fsl keys = update_display_choose_fs 0 fsl # (if fsl = [] then [] else menu_screens fsl 0 keys)"

section \<open>The screen\<close>

text \<open>The drawing at the top of the main loop: the calls on the three windows. A window that is not drawn has \<open>None\<close>; the help
  covers the top window and leaves the others.\<close>

record screen =
  s_top :: "curses list"
  s_mdt :: "curses list option"
  s_ost :: "curses list option"

definition draw_mdt :: "int \<Rightarrow> ui \<Rightarrow> curses list option" where
  "draw_mdt secs u =
     map_option (\<lambda>cs. update_display_hdr mdt_heads (p_fp (u_mdt u)) @ cs)
       (update_display_target (update_display_mdt (tb_heap (u_tables u)) secs (u_tcycle u)) (\<lambda>m. t_tag (m_common m))
          (if p_view (u_mdt u) then tb_mdt (u_tables u) else u_mds u) (p_min (u_mdt u)) (p_sel (u_mdt u)))"

definition draw_ost :: "int \<Rightarrow> ui \<Rightarrow> curses list option" where
  "draw_ost secs u =
     map_option (\<lambda>cs. update_display_hdr ost_heads (p_fp (u_ost u)) @ cs)
       (update_display_target (\<lambda>y t. Some (update_display_ost secs (u_tcycle u) y t)) (\<lambda>t. t_tag (o_common t))
          (if p_view (u_ost u) then tb_ost (u_tables u) else u_oss u) (p_min (u_ost u)) (p_sel (u_ost u)))"

definition draw_screen :: "drawenv \<Rightarrow> int \<Rightarrow> ui \<Rightarrow> screen option" where
  "draw_screen d secs u =
     (if u_showhelp u then Some \<lparr>s_top = update_display_help d, s_mdt = None, s_ost = None\<rparr>
      else do { top \<leftarrow> update_display_top d (tb_heap (u_tables u)) (u_fs u) (tb_ost (u_tables u)) (tb_mdt (u_tables u)) secs
                         (u_recf u \<noteq> None) (u_playf u) (u_tcycle u) (u_pause u);
                m \<leftarrow> (if p_win (u_mdt u) then map_option Some (draw_mdt secs u) else Some None);
                t \<leftarrow> (if p_win (u_ost u) then map_option Some (draw_ost secs u) else Some None);
                Some \<lparr>s_top = top, s_mdt = m, s_ost = t\<rparr> })"

section \<open>The program\<close>

text \<open>The options: \<open>writable path\<close> tells whether a recording can be opened, \<open>contents path\<close> what a recording holds that can be
  read. \<open>None\<close> for every exit. The numbers are converted from \<open>unsigned long\<close> to \<open>int\<close>.\<close>

record ltop_opts =
  lo_fs :: "string option"
  lo_period :: int
  lo_sopt :: bool
  lo_secs :: int
  lo_recpath :: string
  lo_recf :: bool
  lo_playf :: "playf option"

definition ltop_defaults :: ltop_opts where
  "ltop_defaults = \<lparr>lo_fs = None, lo_period = 2, lo_sopt = False, lo_secs = 12, lo_recpath = ''ltop.log'', lo_recf = False, lo_playf = None\<rparr>"

definition opt_int :: "string \<Rightarrow> int" where
  "opt_int s = sint (ucast (fst (strtoul10 s)) :: u32)"

definition ltop_option :: "(string \<Rightarrow> bool) \<Rightarrow> (string \<Rightarrow> string option) \<Rightarrow> char \<Rightarrow> string \<Rightarrow> ltop_opts \<Rightarrow> ltop_opts option" where
  "ltop_option writable contents c arg p =
     (if c = CHR ''f'' then Some (p\<lparr>lo_fs := Some arg\<rparr>)
      else if c = CHR ''t'' then Some (p\<lparr>lo_period := opt_int arg, lo_sopt := True\<rparr>)
      else if c = CHR ''s'' then Some (p\<lparr>lo_secs := opt_int arg\<rparr>)
      else if c = CHR ''r'' then (if writable arg then Some (p\<lparr>lo_recpath := arg, lo_recf := True\<rparr>) else None)
      else if c = CHR ''p'' then
        map_option (\<lambda>t. p\<lparr>lo_playf := Some \<lparr>pf_text = t, pf_pos = 0, pf_eof = False\<rparr>\<rparr>) (contents arg)
      else None)"

fun ltop_options :: "(string \<Rightarrow> bool) \<Rightarrow> (string \<Rightarrow> string option) \<Rightarrow> (char \<times> string) list \<Rightarrow> ltop_opts \<Rightarrow> ltop_opts option" where
  "ltop_options writable contents [] p = Some p"
| "ltop_options writable contents ((c, arg) # opts) p =
     Option.bind (ltop_option writable contents c arg p) (ltop_options writable contents opts)"

definition check_ltop_options :: "bool \<Rightarrow> ltop_opts \<Rightarrow> bool" where
  "check_ltop_options rest p \<longleftrightarrow> \<not> rest \<and> \<not> (lo_playf p \<noteq> None \<and> lo_sopt p) \<and> \<not> (lo_playf p \<noteq> None \<and> lo_recf p)"

text \<open>The loop draws, then handles a key, until the key q has ended it or the inputs are used up.\<close>

fun ltop_loop :: "drawenv \<Rightarrow> int \<Rightarrow> tick list \<Rightarrow> ui \<Rightarrow> (screen list \<times> ui) option" where
  "ltop_loop d secs [] u = Some ([], u)"
| "ltop_loop d secs (k # ks) u =
     (if u_quit u then Some ([], u)
      else do { s \<leftarrow> draw_screen d secs u;
                u' \<leftarrow> main_pass secs k u;
                (ss, u'') \<leftarrow> ltop_loop d secs ks u';
                Some (s # ss, u'') })"

definition ltop_main :: "(string \<Rightarrow> bool) \<Rightarrow> (string \<Rightarrow> string option) \<Rightarrow> drawenv \<Rightarrow> (char \<times> string) list \<Rightarrow> bool \<Rightarrow> tick \<Rightarrow> tick list \<Rightarrow>
    (screen list \<times> ui) option" where
  "ltop_main writable contents d opts rest k ks =
     do { p \<leftarrow> ltop_options writable contents opts ltop_defaults;
          if \<not> check_ltop_options rest p then None
          else do { u \<leftarrow> main_start (lo_secs p) (lo_period p) (lo_fs p) (lo_playf p) (if lo_recf p then Some [] else None) k;
                    ltop_loop d (lo_secs p) ks u } }"

section \<open>What the windows show\<close>

text \<open>The target with index \<open>i\<close> is on line \<open>i - mintgt + 1\<close>.\<close>

definition shown_rows :: "('a \<Rightarrow> string) \<Rightarrow> ('a \<Rightarrow> bool) \<Rightarrow> int \<Rightarrow> int \<Rightarrow> 'a list \<Rightarrow> (int \<times> int \<times> string \<times> bool \<times> bool) list" where
  "shown_rows tx tg mintgt seltgt l =
     map (\<lambda>(i, t). (int i - mintgt + 1, 0, tx t, int i = seltgt, tg t)) (drop (nat mintgt) (enumerate 0 l))"

lemma paint_attr [simp]:
  "paint r u ((if b then [Wattron A_REVERSE] else []) @ cs) = paint (b \<or> r) u cs"
  "paint r u ((if b then [Wattron A_UNDERLINE] else []) @ cs) = paint r (b \<or> u) cs"
  "paint r u ((if b then [Wattroff A_REVERSE] else []) @ cs) = paint (\<not> b \<and> r) u cs"
  "paint r u ((if b then [Wattroff A_UNDERLINE] else []) @ cs) = paint r (\<not> b \<and> u) cs"
  by simp_all

lemma enumerate_shift: "map f (enumerate (Suc n) l) = map (\<lambda>(i, t). f (Suc i, t)) (enumerate n l)"
  by (simp add: enumerate_Suc_eq case_prod_unfold apfst_def map_prod_def)

lemma display_rows_paint:
  "display_rows (\<lambda>y t. map_option (Mvwprint y 0) (tx t)) tg m sel skip y l = Some cs \<Longrightarrow>
   paint False False (cs @ rest) =
     map (\<lambda>(i, t). (y + int i, 0, the (tx t), y + int i - 1 + m = sel, tg t)) (enumerate 0 (drop (nat skip) l)) @ paint False False rest"
proof (induction l arbitrary: skip y cs)
  case (Cons t l)
  show ?case
  proof (cases "skip > 0")
    case True
    then have "nat skip = Suc (nat (skip - 1))" by simp
    with Cons.IH [of "skip - 1" y cs] Cons.prems True show ?thesis by simp
  next
    case False
    obtain s ds where ds: "tx t = Some s" "display_rows (\<lambda>y t. map_option (Mvwprint y 0) (tx t)) tg m sel (skip - 1) (y + 1) l = Some ds"
      "cs = (if y - 1 + m = sel then [Wattron A_REVERSE] else []) @ (if tg t then [Wattron A_UNDERLINE] else []) @ [Mvwprint y 0 s] @
            (if y - 1 + m = sel then [Wattroff A_REVERSE] else []) @ (if tg t then [Wattroff A_UNDERLINE] else []) @ ds"
      using False Cons.prems by (auto simp: bind_eq_Some_conv Let_def)
    have n: "nat skip = 0" "nat (skip - 1) = 0" using False by simp_all
    show ?thesis using Cons.IH [OF ds(2)]
      by (simp add: ds(3) n enumerate_shift del: enumerate_simps) (simp add: ds(1) enumerate_shift add_ac)
  qed
qed simp

lemma display_rows_total:
  "(\<And>t. t \<in> set l \<Longrightarrow> tx t \<noteq> None) \<Longrightarrow>
   display_rows (\<lambda>y t. map_option (Mvwprint y 0) (tx t)) tg m sel skip y l \<noteq> None"
proof (induction l arbitrary: skip y)
  case (Cons t l)
  obtain s where s: "tx t = Some s" using Cons.prems by force
  have ih: "display_rows (\<lambda>y t. map_option (Mvwprint y 0) (tx t)) tg m sel k z l \<noteq> None" for k z
    by (rule Cons.IH) (simp add: Cons.prems)
  show ?case using ih [of "skip - 1" y] ih [of "skip - 1" "y + 1"] s by (cases "skip > 0") (auto simp: bind_eq_Some_conv Let_def)
qed simp

lemma shown_rows_drop:
  "0 \<le> m \<Longrightarrow> shown_rows tx tg m sel l =
     map (\<lambda>(i, t). (1 + int i, 0, tx t, int i + m = sel, tg t)) (enumerate 0 (drop (nat m) l))"
  unfolding shown_rows_def by (rule nth_equalityI) (auto simp: nth_enumerate_eq)

lemma update_display_target_rows:
  assumes "0 \<le> m" "update_display_target (\<lambda>y t. map_option (Mvwprint y 0) (tx t)) tg l m sel = Some cs"
  shows "paint False False cs = shown_rows (\<lambda>t. the (tx t)) tg m sel l"
proof -
  obtain ds where "display_rows (\<lambda>y t. map_option (Mvwprint y 0) (tx t)) tg m sel m 1 l = Some ds" "cs = ds @ [Wrefresh]"
    using assms(2) by (auto simp: update_display_target_def)
  with display_rows_paint [OF this(1), of "[Wrefresh]"] show ?thesis by (simp add: shown_rows_drop [OF assms(1)])
qed

lemma paint_hdr: "paint False False (update_display_hdr heads sel @ cs) = paint False False cs"
proof -
  have "paint r u (map (\<lambda>(i, h). Wprint (hdr_cell sel i h)) l @ cs') = paint r u cs'" for r u l cs'
    by (induction l) auto
  then show ?thesis by (simp add: update_display_hdr_def)
qed

text \<open>C22: in every state \<open>ltop\<close> reaches with a terminal of more than nine lines and without the proportional view, the window
  of the storage targets shows the targets (or their servers) from the scroll position on, in their order, one per line under
  the header; the line of the selected one is reversed and those of the tagged ones are underlined, and no other. When no
  sample it reads has been freed, the same holds of the window of the metadata targets.\<close>

theorem target_window_correct:
  assumes "ltop_reach secs plain_tick u"
  shows "(\<exists>cs. draw_ost secs u = Some cs \<and>
      paint False False cs =
        shown_rows (ost_line secs (u_tcycle u)) (\<lambda>t. t_tag (o_common t)) (p_min (u_ost u)) (p_sel (u_ost u))
          (if p_view (u_ost u) then tb_ost (u_tables u) else u_oss u)) \<and>
    (let mdts = (if p_view (u_mdt u) then tb_mdt (u_tables u) else u_mds u); tx = mdt_line (tb_heap (u_tables u)) secs (u_tcycle u)
     in (\<forall>m \<in> set mdts. tx m \<noteq> None) \<longrightarrow>
        (\<exists>cs. draw_mdt secs u = Some cs \<and>
          paint False False cs = shown_rows (\<lambda>m. the (tx m)) (\<lambda>m. t_tag (m_common m)) (p_min (u_mdt u)) (p_sel (u_mdt u)) mdts))"
  (is "?ost \<and> ?mdt")
proof
  have m: "0 \<le> p_min (u_ost u)" "0 \<le> p_min (u_mdt u)"
    using ltop_reach_inv [OF assms, of True] by (auto simp: ui_inv_def ui_ok_def pane_ok_def)
  let ?osts = "if p_view (u_ost u) then tb_ost (u_tables u) else u_oss u"
  let ?fn = "\<lambda>y t. map_option (Mvwprint y 0) (Some (ost_line secs (u_tcycle u) t))"
  obtain cs where cs: "update_display_target ?fn (\<lambda>t. t_tag (o_common t)) ?osts (p_min (u_ost u)) (p_sel (u_ost u)) = Some cs"
    using display_rows_total [of ?osts "\<lambda>t. Some (ost_line secs (u_tcycle u) t)"] unfolding update_display_target_def by blast
  from update_display_target_rows [OF m(1) cs] cs show ?ost
    unfolding draw_ost_def update_display_ost_def by (simp add: paint_hdr)
  show ?mdt unfolding Let_def
  proof
    let ?mdts = "if p_view (u_mdt u) then tb_mdt (u_tables u) else u_mds u"
    let ?tx = "mdt_line (tb_heap (u_tables u)) secs (u_tcycle u)"
    assume "\<forall>m \<in> set ?mdts. ?tx m \<noteq> None"
    then obtain cs where cs: "update_display_target (\<lambda>y m. map_option (Mvwprint y 0) (?tx m)) (\<lambda>m. t_tag (m_common m)) ?mdts
        (p_min (u_mdt u)) (p_sel (u_mdt u)) = Some cs"
      using display_rows_total [of ?mdts ?tx] unfolding update_display_target_def by blast
    from update_display_target_rows [OF m(2) cs] cs show "\<exists>cs. draw_mdt secs u = Some cs \<and>
        paint False False cs = shown_rows (\<lambda>m. the (?tx m)) (\<lambda>m. t_tag (m_common m)) (p_min (u_mdt u)) (p_sel (u_mdt u)) ?mdts"
      unfolding draw_mdt_def update_display_mdt_def by (simp add: paint_hdr)
  qed
qed

section \<open>Columns\<close>

lemma length_dec_string: "n < 10 ^ w \<Longrightarrow> 0 < w \<Longrightarrow> length (dec_string n) \<le> w"
proof (induction n arbitrary: w rule: dec_string.induct)
  case (1 n)
  show ?case
  proof (cases "n < 10")
    case False
    then obtain v where v: "w = Suc v" "0 < v" using "1.prems" by (cases w; cases "w - 1") auto
    have "n div 10 < 10 ^ v" using "1.prems"(1) v(1) by (simp add: less_mult_imp_div_less mult.commute)
    from "1.IH" [OF False this v(2)] False v(1) show ?thesis by (subst dec_string.simps) simp
  qed (use "1.prems" in \<open>subst dec_string.simps, simp\<close>)
qed

text \<open>A number that is not negative and has at most \<open>w\<close> digits after rounding.\<close>

definition fits :: "nat \<times> fp \<Rightarrow> bool" where
  "fits = (\<lambda>(w, x). case x of FFin r \<Rightarrow> 0 \<le> r \<and> r < 10 ^ w - 1 / 2 | _ \<Rightarrow> False)"

lemma round_below: "0 \<le> r \<Longrightarrow> r < of_int k - 1 / 2 \<Longrightarrow> round_half_even r < k"
  unfolding round_half_even_def Let_def by (auto split: if_splits) linarith+

lemma number_cell_length:
  assumes "fits (w, x)" "0 < w"
  shows "length (number_cell (w, x)) = Suc w"
proof -
  obtain r where r: "x = FFin r" "0 \<le> r" "r < of_int (10 ^ w) - 1 / 2" using assms(1) by (auto simp: fits_def split: fp.splits)
  have "round_half_even r < 10 ^ w" using round_below [OF r(2,3)] .
  then have "nat (round_half_even r) < 10 ^ w" using round_half_even_nonneg [OF r(2)] by (simp add: nat_less_iff)
  then have "length (print_fixed 0 x) \<le> w" using r(1,2) assms(2) by (simp add: fraction_def length_dec_string)
  then show ?thesis by (simp add: number_cell_def fmt_f_def pad_left_def)
qed

lemma fmt_s_length: "p \<le> w \<Longrightarrow> length (fmt_s w p s) = w"
  by (simp add: fmt_s_def pad_left_def)

lemma ost_heads_length: "map (\<lambda>(i, h). length (hdr_cell sel i h)) (enumerate 0 ost_heads) = [4, 2, 11, 6, 5, 6, 6, 6, 9, 6, 6, 5, 5, 5]"
  by (simp add: hdr_cell_def ost_heads_def)

lemma mdt_heads_length: "map (\<lambda>(i, h). length (hdr_cell sel i h)) (enumerate 0 mdt_heads) = [5, 12, 6, 7, 7, 6, 6, 6, 6, 6, 6, 6, 6, 5]"
  by (simp add: hdr_cell_def mdt_heads_def)

text \<open>While the numbers of a storage target fit their fields, every column of its line is as wide as the header of the
  column, whichever column is sorted, and the line is within the 90 columns of the window.\<close>

theorem ost_columns_line_up:
  assumes "list_all fits (ost_numbers tnow o1)"
  shows "map length (ost_cells tnow o1) = map (\<lambda>(i, h). length (hdr_cell sel i h)) (enumerate 0 ost_heads) \<and>
    length (concat (ost_cells tnow o1)) \<le> 90"
proof -
  have "map length (ost_cells tnow o1) = [4, 2, 11, 6, 5, 6, 6, 6, 9, 6, 6, 5, 5, 5]"
    using assms by (simp add: ost_cells_def ost_numbers_def Let_def fmt_s_length number_cell_length)
  then show ?thesis by (simp add: ost_heads_length length_concat)
qed

text \<open>The headers of the metadata window are up to two columns right of the numbers.\<close>

lemma mdt_columns_shifted:
  assumes "list_all fits (mdt_numbers h tnow m)"
  shows "map length (mdt_cells h tnow m) = [4, 13, 6, 6, 6, 6, 6, 6, 6, 6, 6, 6, 6, 6]"
  using assms by (simp add: mdt_cells_def mdt_numbers_def Let_def fmt_s_length number_cell_length)

section \<open>The summary and the menu\<close>

text \<open>The summary takes the seven lines of the top window, and the percentage of a file system without storage targets is not a
  number.\<close>

lemma paint_lines:
  "paint r u (map (\<lambda>(y, s). Mvwprint (int y) x s) (enumerate n l) @ cs) =
     map (\<lambda>(y, s). (int y, x, s, r, u)) (enumerate n l) @ paint r u cs"
  by (induction l arbitrary: n) auto


lemma no_osts_prints_nan:
  "top_lines h secs tnow [] mdts ! 1 = ''     Space:      0.000t total,      0.000t used (-nan%),      0.000t free''"
  by (simp add: top_lines_def Let_def total_def space_line_def) code_simp

lemma paint_menu_rows:
  "3 \<le> y \<Longrightarrow> paint False False (menu_rows selfs y l @ cs) =
     map (\<lambda>(i, f). (int i, 0, pad_right 17 (fs_name f) @ '' '' @ fmt_d4 (fs_num_mdt f) @ ''    '' @ fmt_d4 (fs_num_ost f), False, i - 3 = selfs))
       (enumerate y l) @ paint False False cs"
  by (induction l arbitrary: y) (auto simp: Let_def)

text \<open>The name and the lines of the menu that are underlined.\<close>

definition underlined :: "curses list \<Rightarrow> string list" where
  "underlined cs = map (\<lambda>(y, x, s, r, u). s) (filter (\<lambda>(y, x, s, r, u). u) (paint False False cs))"

lemma filter_enumerate:
  "filter (\<lambda>p. fst p = k) (enumerate n l) = (if n \<le> k \<and> k < n + length l then [(k, l ! (k - n))] else [])"
  by (induction l arbitrary: n) (auto simp: nth_Cons' Suc_diff_Suc)

lemma menu_underlines:
  assumes "selfs < length fsl"
  shows "\<exists>counts. underlined (update_display_choose_fs selfs fsl) = [pad_right 17 (fs_name (fsl ! selfs)) @ counts]"
proof -
  have "underlined (update_display_choose_fs selfs fsl) =
      map (\<lambda>(i, f). pad_right 17 (fs_name f) @ '' '' @ fmt_d4 (fs_num_mdt f) @ ''    '' @ fmt_d4 (fs_num_ost f))
        (filter (\<lambda>p. fst p - 3 = selfs) (enumerate 3 fsl))"
    by (simp add: underlined_def update_display_choose_fs_def paint_menu_rows filter_map comp_def case_prod_unfold)
  also have "filter (\<lambda>p. fst p - 3 = selfs) (enumerate 3 fsl) = filter (\<lambda>p. fst p = selfs + 3) (enumerate 3 fsl)"
    by (rule filter_cong) (auto simp: in_set_enumerate_eq)
  also have "\<dots> = [(selfs + 3, fsl ! selfs)]" using assms by (simp add: filter_enumerate)
  finally show ?thesis by simp
qed

lemma menu_screens_last:
  "choose_loop fsl selfs keys = Some (Some name, rest) \<Longrightarrow> selfs < length fsl \<Longrightarrow>
   \<exists>j < length fsl. name = fs_name (fsl ! j) \<and>
     last (update_display_choose_fs selfs fsl # menu_screens fsl selfs keys) = update_display_choose_fs j fsl"
proof (induction keys arbitrary: selfs)
  case (Cons c keys)
  have up: ?case if "choose_loop fsl j keys = Some (Some name, rest)" "j < length fsl"
    "last (update_display_choose_fs selfs fsl # menu_screens fsl selfs (c # keys)) =
     last (update_display_choose_fs j fsl # menu_screens fsl j keys)" for j
    using Cons.IH [OF that(1,2)] that(3) by simp
  show ?case
  proof (cases "c = KEY_UP \<or> c = KChar CHR ''k''")
    case True
    then show ?thesis using Cons.prems by (intro up [of "selfs - 1"]) auto
  next
    case nu: False
    show ?thesis
    proof (cases "c = KEY_DOWN \<or> c = KChar CHR ''j''")
      case True
      then show ?thesis using Cons.prems nu by (intro up [of "if Suc selfs < length fsl then Suc selfs else selfs"]) (auto split: if_splits)
    next
      case False
      then show ?thesis using Cons.prems nu up [of selfs] by (auto split: if_splits)
    qed
  qed
qed simp

text \<open>The file system that is chosen from the menu is the one that was underlined, alone, in the last drawing of it.\<close>

theorem menu_choice_correct:
  assumes "fsl \<noteq> []" "choose_loop fsl 0 keys = Some (Some name, rest)"
  shows "\<exists>counts. underlined (last (choose_screens fsl keys)) = [pad_right 17 name @ counts]"
proof -
  obtain j where "j < length fsl" "name = fs_name (fsl ! j)" "last (choose_screens fsl keys) = update_display_choose_fs j fsl"
    using menu_screens_last [OF assms(2)] assms(1) by (auto simp: choose_screens_def)
  then show ?thesis using menu_underlines by simp
qed

theorem menu_choice_correct_witness:
  "\<exists>counts. underlined (last (choose_screens [create_fsstat ''a'' 1 2, create_fsstat ''b'' 0 3] [KEY_DOWN, KEY_ENTER])) =
    [pad_right 17 ''b'' @ counts]"
  by (rule menu_choice_correct [where rest = "[]"]) (simp_all add: create_fsstat_def)

theorem target_window_correct_witness:
  "\<exists>u cs. live_session [KEY_DOWN] = Some u \<and> draw_ost 12 u = Some cs \<and> p_sel (u_ost u) = 0 \<and>
    map (\<lambda>(y, x, s, r, _). (y, r)) (paint False False cs) = [(1, True)]"
proof -
  have v: "map_option (\<lambda>u. (p_sel (u_ost u), p_min (u_ost u), p_view (u_ost u), length (tb_ost (u_tables u)))) (live_session [KEY_DOWN]) =
      Some (0, 0, True, 1)" by code_simp
  then obtain u where u: "live_session [KEY_DOWN] = Some u" "p_sel (u_ost u) = 0" "p_min (u_ost u) = 0" "p_view (u_ost u)"
    "length (tb_ost (u_tables u)) = 1" by auto
  then obtain t where t: "tb_ost (u_tables u) = [t]" by (cases "tb_ost (u_tables u)") auto
  have "ltop_reach 12 plain_tick u"
    by (rule live_session_reach [OF u(1)]) (auto simp: plain_tick_def osc_tick_def Let_def)
  from target_window_correct [OF this] u t show ?thesis by (auto simp: shown_rows_def)
qed

definition ost_example :: oststat where "ost_example = new_oststat ''a-OST0000'' 12"

theorem ost_columns_line_up_witness:
  "map length (ost_cells 0 ost_example) = [4, 2, 11, 6, 5, 6, 6, 6, 9, 6, 6, 5, 5, 5]"
proof -
  have "list_all fits (ost_numbers 0 ost_example)" by code_simp
  from ost_columns_line_up [OF this, of 3] show ?thesis by (simp only: ost_heads_length)
qed

text \<open>With a negative scroll position, which the proportional view can reach, the first line is reversed although nothing is
  selected.\<close>

lemma negative_scroll_marks_first:
  "display_rows fn tg (- 1) (- 1) (- 1) 1 [t] = map_option (\<lambda>c. [Wattron A_REVERSE] @ (if tg t then [Wattron A_UNDERLINE] else []) @ [c] @
     [Wattroff A_REVERSE] @ (if tg t then [Wattroff A_UNDERLINE] else [])) (fn 1 t)"
  by (cases "fn 1 t") simp_all

section \<open>Runs of the program\<close>

text \<open>Every state the program draws is reachable.\<close>

lemma ltop_loop_reach:
  "ltop_loop d secs ks u = Some (ss, u') \<Longrightarrow> ltop_reach secs P u \<Longrightarrow> (\<And>k. k \<in> set ks \<Longrightarrow> P k) \<Longrightarrow> ltop_reach secs P u'"
proof (induction ks arbitrary: u ss)
  case (Cons k ks)
  show ?case
  proof (cases "u_quit u")
    case False
    then obtain s u1 ss1 where "draw_screen d secs u = Some s" "main_pass secs k u = Some u1" "ltop_loop d secs ks u1 = Some (ss1, u')"
      using Cons.prems(1) by (auto simp: bind_eq_Some_conv)
    with Cons.IH [of u1 ss1] Cons.prems False ltop_reach.passed [of secs P u k u1] show ?thesis by simp
  qed (use Cons.prems in simp)
qed simp

lemma ltop_loop_append:
  "ltop_loop d secs (ks @ ks') u =
     Option.bind (ltop_loop d secs ks u) (\<lambda>(ss, u'). map_option (\<lambda>(ss', u''). (ss @ ss', u'')) (ltop_loop d secs ks' u'))"
proof (induction ks arbitrary: u)
  case Nil
  then show ?case by (cases "ltop_loop d secs ks' u") auto
next
  case (Cons k ks)
  show ?case
  proof (cases "u_quit u")
    case True
    then show ?thesis by (cases ks') auto
  next
    case False
    then show ?thesis
      by (cases "draw_screen d secs u"; cases "main_pass secs k u") (auto simp: Cons.IH split: bind_splits option.splits)
  qed
qed

end
