(* ===== verification/Lsd_Hostlist.thy ===== *)
theory Lsd_Hostlist
  imports Lmt_Cstdio Lsd_Hash
begin

text \<open>
  \<open>liblsd/hostlist.c\<close>: lists of host names kept as ranges of numeric suffixes. This theory holds the ranges, the
  parser, the list operations, the printers and the iterators; \<open>Lsd_Hostlist_Facts\<close> relates them to the list of
  host names they stand for.

  The array \<open>hr\<close> of a list owns its \<open>hostrange\<close> objects. A slot is the address of the object and its value;
  iterators keep such an address next to the index. The capacity of the array is not modelled: \<open>hostlist_expand\<close>
  fails only when memory is exhausted. Mutexes are not modelled. \<open>None\<close> is a failed assertion, an access outside
  a buffer or through a stale pointer, or a loop that does not end.
\<close>

section \<open>Widths\<close>

text \<open>The loop of \<open>_zero_padded\<close>.\<close>

fun zero_padded_loop :: "nat \<Rightarrow> nat \<Rightarrow> nat" where
  "zero_padded_loop num n = (if num div 10 = 0 then n else zero_padded_loop (num div 10) (n + 1))"

declare zero_padded_loop.simps [simp del]

definition zero_padded :: "u64 \<Rightarrow> nat \<Rightarrow> nat" where
  "zero_padded num width =
     (let n = zero_padded_loop (unat num) 1 in if width > n then width - n else 0)"

text \<open>The two widths are those of different objects; \<open>Some\<close> holds their values after the call returned 1.\<close>

definition width_equiv :: "u64 \<Rightarrow> nat \<Rightarrow> u64 \<Rightarrow> nat \<Rightarrow> (nat \<times> nat) option" where
  "width_equiv n wn m wm =
     (let npad = zero_padded n wn; nmpad = zero_padded n wm; mpad = zero_padded m wm; mnpad = zero_padded m wn
      in if npad \<noteq> nmpad \<and> mpad \<noteq> mnpad then None
         else if npad \<noteq> nmpad then (if mpad = mnpad then Some (wn, wn) else None)
         else (if npad = nmpad then Some (wm, wm) else None))"

section \<open>Host names\<close>

record hostname =
  hn_hostname :: string
  hn_prefix :: string
  hn_num :: u64
  hn_suffix :: "string option"

definition max_host_suffix :: nat where "max_host_suffix = 2 ^ 25"

text \<open>The length of the prefix: the index of its last character plus one.\<close>

definition host_prefix_end :: "string \<Rightarrow> nat" where
  "host_prefix_end hostname = length (dropWhile isdigit (rev hostname))"

definition hostname_create_with_suffix :: "string \<Rightarrow> nat \<Rightarrow> hostname" where
  "hostname_create_with_suffix hostname n =
     (if n = length hostname
      then \<lparr>hn_hostname = hostname, hn_prefix = hostname, hn_num = 0, hn_suffix = None\<rparr>
      else case strtoul10 (drop n hostname) of (num, p) \<Rightarrow>
        if p = [] \<and> unat num \<le> max_host_suffix
        then \<lparr>hn_hostname = hostname, hn_prefix = take n hostname, hn_num = num, hn_suffix = Some (drop n hostname)\<rparr>
        else \<lparr>hn_hostname = hostname, hn_prefix = hostname, hn_num = num, hn_suffix = None\<rparr>)"

definition hostname_create :: "string \<Rightarrow> hostname" where
  "hostname_create hostname = hostname_create_with_suffix hostname (host_prefix_end hostname)"

section \<open>Ranges\<close>

record hostrange =
  hr_prefix :: string
  hr_lo :: u64
  hr_hi :: u64
  hr_width :: nat
  hr_singlehost :: bool

definition hostrange_create_single :: "string \<Rightarrow> hostrange" where
  "hostrange_create_single prefix =
     \<lparr>hr_prefix = prefix, hr_lo = 0, hr_hi = 0, hr_width = 0, hr_singlehost = True\<rparr>"

definition hostrange_create :: "string \<Rightarrow> u64 \<Rightarrow> u64 \<Rightarrow> nat \<Rightarrow> hostrange" where
  "hostrange_create prefix lo hi width =
     \<lparr>hr_prefix = prefix, hr_lo = lo, hr_hi = hi, hr_width = width, hr_singlehost = False\<rparr>"

definition hostrange_count :: "hostrange \<Rightarrow> u64" where
  "hostrange_count hr = (if hr_singlehost hr then 1 else hr_hi hr - hr_lo hr + 1)"

definition hostrange_copy :: "hostrange \<Rightarrow> hostrange" where
  "hostrange_copy hr =
     (if hr_singlehost hr then hostrange_create_single (hr_prefix hr)
      else hostrange_create (hr_prefix hr) (hr_lo hr) (hr_hi hr) (hr_width hr))"

text \<open>The range and, when it is split, the upper part.\<close>

definition hostrange_delete_host :: "hostrange \<Rightarrow> u64 \<Rightarrow> (hostrange \<times> hostrange option) option" where
  "hostrange_delete_host hr n =
     (if \<not> (hr_lo hr \<le> n \<and> n \<le> hr_hi hr) then None
      else if n = hr_lo hr then Some (hr\<lparr>hr_lo := hr_lo hr + 1\<rparr>, None)
      else if n = hr_hi hr then Some (hr\<lparr>hr_hi := hr_hi hr - 1\<rparr>, None)
      else Some (hr\<lparr>hr_hi := n - 1\<rparr>, Some ((hostrange_copy hr)\<lparr>hr_lo := n + 1\<rparr>)))"

definition hostrange_prefix_cmp :: "hostrange \<Rightarrow> hostrange \<Rightarrow> int" where
  "hostrange_prefix_cmp h1 h2 =
     (let retval = strcmp (hr_prefix h1) (hr_prefix h2)
      in if retval = 0 then of_bool (hr_singlehost h2) - of_bool (hr_singlehost h1) else retval)"

definition hostrange_within_range :: "hostrange \<Rightarrow> hostrange \<Rightarrow> bool" where
  "hostrange_within_range h1 h2 \<longleftrightarrow>
     hostrange_prefix_cmp h1 h2 = 0 \<and> \<not> (hr_singlehost h1 \<or> hr_singlehost h2)"

text \<open>\<open>Some\<close> holds the two ranges with their widths adjusted.\<close>

definition hostrange_width_combine :: "hostrange \<Rightarrow> hostrange \<Rightarrow> (hostrange \<times> hostrange) option" where
  "hostrange_width_combine h0 h1 =
     map_option (\<lambda>(w0, w1). (h0\<lparr>hr_width := w0\<rparr>, h1\<lparr>hr_width := w1\<rparr>))
       (width_equiv (hr_lo h0) (hr_width h0) (hr_lo h1) (hr_width h1))"

text \<open>The comparison adjusts widths. The difference of the suffixes is returned as an \<open>int\<close>.\<close>

definition hostrange_cmp :: "hostrange \<Rightarrow> hostrange \<Rightarrow> int \<times> hostrange \<times> hostrange" where
  "hostrange_cmp h1 h2 =
     (let retval = hostrange_prefix_cmp h1 h2
      in if retval = 0 then
           (case hostrange_width_combine h1 h2 of
              Some (h1', h2') \<Rightarrow> (sint (ucast (hr_lo h1 - hr_lo h2) :: u32), h1', h2')
            | None \<Rightarrow> (int (hr_width h1) - int (hr_width h2), h1, h2))
         else (retval, h1, h2))"

definition hostrange_empty :: "hostrange \<Rightarrow> bool" where
  "hostrange_empty hr \<longleftrightarrow> hr_hi hr < hr_lo hr \<or> hr_hi hr = - 1"

text \<open>\<open>%0*lu\<close>.\<close>

definition fmt_width :: "nat \<Rightarrow> u64 \<Rightarrow> string" where
  "fmt_width width n = replicate (width - length (print_u64 n)) CHR ''0'' @ print_u64 n"

definition hostrange_pop :: "hostrange \<Rightarrow> string option \<times> hostrange" where
  "hostrange_pop hr =
     (if hr_singlehost hr then (Some (hr_prefix hr), hr\<lparr>hr_lo := hr_lo hr + 1\<rparr>)
      else if hostrange_count hr > 0 then
        (let size = length (hr_prefix hr) + hr_width hr + 16
         in (Some (snd (snprintf size (hr_prefix hr @ fmt_width (hr_width hr) (hr_hi hr)))), hr\<lparr>hr_hi := hr_hi hr - 1\<rparr>))
      else (None, hr))"

definition hostrange_shift :: "hostrange \<Rightarrow> string option \<times> hostrange" where
  "hostrange_shift hr =
     (if hr_singlehost hr then (Some (hr_prefix hr), hr\<lparr>hr_lo := hr_lo hr + 1\<rparr>)
      else if hostrange_count hr > 0 then
        (let size = length (hr_prefix hr) + hr_width hr + 16
         in (Some (snd (snprintf size (hr_prefix hr @ fmt_width (hr_width hr) (hr_lo hr)))), hr\<lparr>hr_lo := hr_lo hr + 1\<rparr>))
      else (None, hr))"

text \<open>The number of duplicates, or -1, and the two ranges. The assertion is evaluated, so it adjusts widths too.\<close>

definition hostrange_join :: "hostrange \<Rightarrow> hostrange \<Rightarrow> (int \<times> hostrange \<times> hostrange) option" where
  "hostrange_join h1 h2 =
     (case hostrange_cmp h1 h2 of (c, a, b) \<Rightarrow>
        if \<not> c \<le> 0 then None
        else Some (case (if hostrange_prefix_cmp a b = 0 then hostrange_width_combine a b else None) of
            None \<Rightarrow> (- 1, a, b)
          | Some (x, y) \<Rightarrow>
              if hr_singlehost x \<and> hr_singlehost y then (1, x, y)
              else if hr_hi x = hr_lo y - 1 then (0, x\<lparr>hr_hi := hr_hi y\<rparr>, y)
              else if hr_hi x \<ge> hr_lo y then
                (if hr_hi x < hr_hi y then (sint (ucast (hr_hi x - hr_lo y + 1) :: u32), x\<lparr>hr_hi := hr_hi y\<rparr>, y)
                 else (sint (ucast (hostrange_count y) :: u32), x, y))
              else (- 1, x, y)))"

text \<open>The intersection and the two ranges.\<close>

definition hostrange_intersect :: "hostrange \<Rightarrow> hostrange \<Rightarrow> (hostrange option \<times> hostrange \<times> hostrange) option" where
  "hostrange_intersect h1 h2 =
     (if hr_singlehost h1 \<or> hr_singlehost h2 then Some (None, h1, h2)
      else case hostrange_cmp h1 h2 of (c, a, b) \<Rightarrow>
        if \<not> c \<le> 0 then None
        else Some (case (if hostrange_prefix_cmp a b = 0 \<and> hr_hi a > hr_lo b then hostrange_width_combine a b else None) of
            None \<Rightarrow> (None, a, b)
          | Some (x, y) \<Rightarrow>
              (Some ((hostrange_copy x)\<lparr>hr_lo := hr_lo y, hr_hi := if hr_hi y < hr_hi x then hr_hi y else hr_hi x\<rparr>), x, y)))"

text \<open>A suffix of two characters or more lies behind the prefix, so the prefix has the length asked for.\<close>

lemma hostname_suffix_pos:
  assumes "hn_suffix (hostname_create_with_suffix hostname n) = Some suffix" "length suffix > 1"
  shows "length (hn_prefix (hostname_create_with_suffix hostname n)) = n \<and> n + 1 < length hostname"
  using assms by (auto simp: hostname_create_with_suffix_def split: if_splits prod.splits)

text \<open>The host name object is made from a name and the length of its prefix. A recursive call makes the prefix one
  character longer.\<close>

function hostrange_hn_within :: "hostrange \<Rightarrow> string \<Rightarrow> nat \<Rightarrow> int \<times> hostrange" where
  "hostrange_hn_within hr hostname n =
     (let hn = hostname_create_with_suffix hostname n
      in if hr_singlehost hr then (if hn_hostname hn = hr_prefix hr then 0 else - 1, hr)
         else case hn_suffix hn of
           None \<Rightarrow> (- 1, hr)
         | Some suffix \<Rightarrow>
             (let len_hn = length (hn_prefix hn); len_hr = length (hr_prefix hr); width = length suffix
              in if take len_hn (hr_prefix hr) \<noteq> hn_prefix hn then (- 1, hr)
                 else if len_hn < len_hr \<and> width > 1 \<and> isdigit (hr_prefix hr ! (len_hr - 1)) \<and>
                         hr_prefix hr ! len_hn = suffix ! 0
                 then hostrange_hn_within hr hostname (len_hn + 1)
                 else if hn_num hn \<le> hr_hi hr \<and> hn_num hn \<ge> hr_lo hr then
                   (case width_equiv (hr_lo hr) (hr_width hr) (hn_num hn) width of
                      None \<Rightarrow> (- 1, hr)
                    | Some (w, _) \<Rightarrow> (sint (ucast (hn_num hn - hr_lo hr) :: u32), hr\<lparr>hr_width := w\<rparr>))
                 else (- 1, hr)))"
  by pat_completeness auto

termination
proof (relation "measure (\<lambda>(hr, hostname, n). length hostname - n)", simp, goal_cases)
  case (1 hr hostname n hn suffix len_hn len_hr width)
  have "hn_suffix (hostname_create_with_suffix hostname n) = Some suffix" "length suffix > 1" using 1 by simp_all
  note pos = hostname_suffix_pos [OF this]
  have "len_hn = n" using pos 1 by simp
  then show ?case using pos by (simp add: diff_less_mono2)
qed

declare hostrange_hn_within.simps [simp del]


section \<open>Lists\<close>

type_synonym rid = nat

record hl_iter =
  it_idx :: nat
  it_hr :: "rid option"
  it_depth :: int

text \<open>\<open>hl_hr\<close> has the \<open>nranges\<close> used slots; the others are null. \<open>nhosts\<close> is an \<open>int\<close> that a list of less than
  \<open>2^31\<close> hosts does not overflow. \<open>hl_next\<close> is an address that was not used before.\<close>

record hostlist =
  hl_hr :: "(rid \<times> hostrange) list"
  hl_nhosts :: int
  hl_ilist :: "(nat \<times> hl_iter) list"
  hl_next :: rid

definition hostlist_new :: hostlist where
  "hostlist_new = \<lparr>hl_hr = [], hl_nhosts = 0, hl_ilist = [], hl_next = 0\<rparr>"

text \<open>The address in slot \<open>i\<close>.\<close>

definition slot_addr :: "(rid \<times> hostrange) list \<Rightarrow> nat \<Rightarrow> rid option" where
  "slot_addr rs i = (if i < length rs then Some (fst (rs ! i)) else None)"

text \<open>\<open>hl->nhosts += hostrange_count (hr)\<close>.\<close>

definition add_hosts :: "int \<Rightarrow> hostrange \<Rightarrow> int" where
  "add_hosts n hr = n + sint (ucast (hostrange_count hr) :: u32)"

definition hostlist_push_range :: "hostlist \<Rightarrow> hostrange \<Rightarrow> int \<times> hostlist" where
  "hostlist_push_range hl hr =
     (let rs = hl_hr hl; nhosts = add_hosts (hl_nhosts hl) hr;
          tail = (if rs \<noteq> [] then Some (last rs) else None)
      in case (case tail of None \<Rightarrow> None
               | Some (a, t) \<Rightarrow>
                   if hostrange_prefix_cmp t hr = 0 \<and> hr_hi t = hr_lo hr - 1
                   then map_option (\<lambda>(t', hr'). (a, t'\<lparr>hr_hi := hr_hi hr\<rparr>)) (hostrange_width_combine t hr)
                   else None) of
           Some t2 \<Rightarrow> (nhosts, hl\<lparr>hl_hr := butlast rs @ [t2], hl_nhosts := nhosts\<rparr>)
         | None \<Rightarrow> (nhosts, hl\<lparr>hl_hr := rs @ [(hl_next hl, hostrange_copy hr)], hl_nhosts := nhosts,
                              hl_next := hl_next hl + 1\<rparr>))"

definition hostlist_push_hr :: "hostlist \<Rightarrow> string \<Rightarrow> u64 \<Rightarrow> u64 \<Rightarrow> nat \<Rightarrow> int \<times> hostlist" where
  "hostlist_push_hr hl prefix lo hi width = hostlist_push_range hl (hostrange_create prefix lo hi width)"

text \<open>Iterators at or behind the new slot move on; they read the address of their new slot.\<close>

definition hostlist_insert_range :: "hostlist \<Rightarrow> hostrange \<Rightarrow> nat \<Rightarrow> bool \<times> hostlist" where
  "hostlist_insert_range hl hr n =
     (let rs = hl_hr hl
      in if n > length rs then (False, hl)
         else let rs' = take n rs @ (hl_next hl, hostrange_copy hr) # drop n rs
              in (True, hl\<lparr>hl_hr := rs', hl_next := hl_next hl + 1,
                    hl_ilist := map (\<lambda>(a, i). (a, if it_idx i \<ge> n
                      then i\<lparr>it_idx := it_idx i + 1, it_hr := slot_addr rs' (it_idx i + 1)\<rparr> else i)) (hl_ilist hl)\<rparr>))"

definition iterator_reset :: "(rid \<times> hostrange) list \<Rightarrow> hl_iter \<Rightarrow> hl_iter" where
  "iterator_reset rs i = i\<lparr>it_idx := 0, it_hr := slot_addr rs 0, it_depth := - 1\<rparr>"

definition shift_iterator :: "(rid \<times> hostrange) list \<Rightarrow> nat \<Rightarrow> int \<Rightarrow> nat \<Rightarrow> hl_iter \<Rightarrow> hl_iter" where
  "shift_iterator rs idx depth n i =
     (if n = 0 then
        (if it_idx i = idx \<and> it_depth i \<ge> depth
         then i\<lparr>it_depth := if it_depth i > - 1 then it_depth i - 1 else - 1\<rparr> else i)
      else if it_idx i \<ge> idx then
        (if it_idx i \<ge> n then i\<lparr>it_idx := it_idx i - n, it_hr := slot_addr rs (it_idx i - n)\<rparr>
         else iterator_reset rs (i\<lparr>it_idx := it_idx i - n\<rparr>))
      else i)"

definition hostlist_shift_iterators :: "hostlist \<Rightarrow> nat \<Rightarrow> int \<Rightarrow> nat \<Rightarrow> hostlist" where
  "hostlist_shift_iterators hl idx depth n =
     hl\<lparr>hl_ilist := map (\<lambda>(a, i). (a, shift_iterator (hl_hr hl) idx depth n i)) (hl_ilist hl)\<rparr>"

definition hostlist_delete_range :: "hostlist \<Rightarrow> nat \<Rightarrow> hostlist option" where
  "hostlist_delete_range hl n =
     (if \<not> n < length (hl_hr hl) then None
      else Some (hostlist_shift_iterators (hl\<lparr>hl_hr := take n (hl_hr hl) @ drop (n + 1) (hl_hr hl)\<rparr>) n 0 1))"

definition hostlist_push_host :: "hostlist \<Rightarrow> string \<Rightarrow> hostlist" where
  "hostlist_push_host hl str =
     (let hn = hostname_create str
      in snd (hostlist_push_range hl
           (case hn_suffix hn of
              Some suffix \<Rightarrow> hostrange_create (hn_prefix hn) (hn_num hn) (hn_num hn) (length suffix)
            | None \<Rightarrow> hostrange_create_single str)))"

fun push_ranges :: "hostlist \<Rightarrow> hostrange list \<Rightarrow> int \<Rightarrow> int \<times> hostlist" where
  "push_ranges h1 [] n = (n, h1)"
| "push_ranges h1 (hr # hrs) n =
     (case hostlist_push_range h1 hr of (m, h1') \<Rightarrow> push_ranges h1' hrs (n + m))"

text \<open>\<open>hostlist_push_range\<close> adjusts the width of the range it is given when that range joins the last one. The ranges of
  the second list after they have been pushed:\<close>

definition pushed_range :: "hostlist \<Rightarrow> hostrange \<Rightarrow> hostrange" where
  "pushed_range hl hr =
     (if hl_hr hl = [] then hr
      else let t = snd (last (hl_hr hl))
           in if hostrange_prefix_cmp t hr = 0 \<and> hr_hi t = hr_lo hr - 1
              then (case hostrange_width_combine t hr of None \<Rightarrow> hr | Some (t', hr') \<Rightarrow> hr') else hr)"

fun pushed_ranges :: "hostlist \<Rightarrow> hostrange list \<Rightarrow> hostrange list" where
  "pushed_ranges h1 [] = []"
| "pushed_ranges h1 (hr # hrs) = pushed_range h1 hr # pushed_ranges (snd (hostlist_push_range h1 hr)) hrs"

text \<open>The return value and both lists.\<close>

definition hostlist_push_list :: "hostlist \<Rightarrow> hostlist \<Rightarrow> int \<times> hostlist \<times> hostlist" where
  "hostlist_push_list h1 h2 =
     (let hrs = map snd (hl_hr h2) in
      case push_ranges h1 hrs 0 of
        (n, h1') \<Rightarrow> (n, h1', h2\<lparr>hl_hr := zip (map fst (hl_hr h2)) (pushed_ranges h1 hrs)\<rparr>))"

definition hostlist_copy :: "hostlist \<Rightarrow> hostlist" where
  "hostlist_copy hl =
     \<lparr>hl_hr = zip [0..<length (hl_hr hl)] (map (\<lambda>(a, hr). hostrange_copy hr) (hl_hr hl)),
      hl_nhosts = hl_nhosts hl, hl_ilist = [], hl_next = length (hl_hr hl)\<rparr>"

definition hostlist_count :: "hostlist \<Rightarrow> int" where
  "hostlist_count hl = hl_nhosts hl"

section \<open>Parsing\<close>

definition is_sep :: "char \<Rightarrow> bool" where
  "is_sep c \<longleftrightarrow> c = CHR 0x09 \<or> c = CHR '','' \<or> c = CHR '' ''"

text \<open>The text between \<open>tok\<close> and \<open>*str\<close>, and the text at \<open>*str\<close>; \<open>Some\<close> when the call returned 1.\<close>

definition advance_past_brackets :: "string \<Rightarrow> string \<Rightarrow> (string \<times> string) option" where
  "advance_past_brackets tok str =
     (if CHR ''['' \<in> set tok \<and> CHR '']'' \<notin> set tok \<and> CHR '']'' \<in> set str \<and>
         CHR ''['' \<notin> set (takeWhile (\<lambda>c. c \<noteq> CHR '']'') str)
      then Some (tok @ takeWhile (\<lambda>c. c \<noteq> CHR '']'') str @ '']'', tl (dropWhile (\<lambda>c. c \<noteq> CHR '']'') str))
      else None)"

function next_tok_loop :: "string \<Rightarrow> string \<Rightarrow> string \<times> string" where
  "next_tok_loop tok str =
     (let tok1 = tok @ takeWhile (\<lambda>c. \<not> is_sep c) str; str1 = dropWhile (\<lambda>c. \<not> is_sep c) str
      in case advance_past_brackets tok1 str1 of
           None \<Rightarrow> (tok1, str1)
         | Some (tok2, str2) \<Rightarrow> next_tok_loop tok2 str2)"
  by pat_completeness auto

termination
proof (relation "measure (\<lambda>(tok, str). length str)", simp, goal_cases)
  case (1 tok str tok1 str1 p tok2 str2)
  then have str2: "str2 = tl (dropWhile (\<lambda>c. c \<noteq> CHR '']'') str1)" and "CHR '']'' \<in> set str1"
    by (auto simp: advance_past_brackets_def split: if_splits)
  then have "dropWhile (\<lambda>c. c \<noteq> CHR '']'') str1 \<noteq> []" by auto
  then have "length str2 < length (dropWhile (\<lambda>c. c \<noteq> CHR '']'') str1)" using str2 by simp
  also have "\<dots> \<le> length str1" by (rule length_dropWhile_le)
  also have "\<dots> \<le> length str" using 1 by (simp add: length_dropWhile_le)
  finally show ?case by simp
qed

declare next_tok_loop.simps [simp del]

definition next_tok :: "string \<Rightarrow> (string \<times> string) option" where
  "next_tok str =
     (let s = dropWhile is_sep str
      in if s = [] then None
         else case next_tok_loop [] s of (tok, s1) \<Rightarrow> Some (tok, dropWhile is_sep s1))"

record prange =
  pr_lo :: u64
  pr_hi :: u64
  pr_width :: nat

definition max_range :: nat where "max_range = 16384"

definition max_ranges :: nat where "max_ranges = 10240"

text \<open>\<open>Inl\<close> holds the \<open>errno\<close> of a failure. \<open>p\<close> is null or the text behind the first hyphen; the end pointer of
  the second conversion replaces that of the first.\<close>

datatype hl_errno = HL_EINVAL | HL_ERANGE | HL_NONE

definition parse_single_range :: "string \<Rightarrow> hl_errno + prange" where
  "parse_single_range s =
     (let str = takeWhile (\<lambda>c. c \<noteq> CHR ''-'') s;
          p = (if CHR ''-'' \<in> set s then Some (tl (dropWhile (\<lambda>c. c \<noteq> CHR ''-'') s)) else None)
      in if (case p of Some (c # _) \<Rightarrow> c = CHR ''-'' | _ \<Rightarrow> False) then Inl HL_EINVAL
         else case strtoul10 str of (lo, q) \<Rightarrow>
           if q = str then Inl HL_EINVAL
           else case (case p of Some (c # t) \<Rightarrow> (case strtoul10 (c # t) of (hi, q2) \<Rightarrow> (hi, q2, q2 = c # t)) | _ \<Rightarrow> (lo, q, False)) of
             (hi, q, q_is_p) \<Rightarrow>
               if q_is_p \<or> q \<noteq> [] then Inl HL_EINVAL
               else if lo > hi then Inl HL_EINVAL
               else if hi - lo + 1 > of_nat max_range then Inl HL_ERANGE
               else Inr \<lparr>pr_lo = lo, pr_hi = hi, pr_width = length str\<rparr>)"

text \<open>Split at the commas; at most \<open>len\<close> ranges.\<close>

function parse_range_list :: "string \<Rightarrow> nat \<Rightarrow> hl_errno + prange list" where
  "parse_range_list str len =
     (if len = 0 then Inl HL_NONE
      else case parse_single_range (takeWhile (\<lambda>c. c \<noteq> CHR '','') str) of
             Inl e \<Rightarrow> Inl e
           | Inr r \<Rightarrow>
               if CHR '','' \<in> set str
               then (case parse_range_list (tl (dropWhile (\<lambda>c. c \<noteq> CHR '','') str)) (len - 1) of
                       Inl e \<Rightarrow> Inl e | Inr rs \<Rightarrow> Inr (r # rs))
               else Inr [r])"
  by pat_completeness auto

termination by (relation "measure snd") auto

declare parse_range_list.simps [simp del]

fun push_range_list :: "hostlist \<Rightarrow> string \<Rightarrow> prange list \<Rightarrow> hostlist" where
  "push_range_list hl pfx [] = hl"
| "push_range_list hl pfx (r # rs) =
     push_range_list (snd (hostlist_push_hr hl pfx (pr_lo r) (pr_hi r) (pr_width r))) pfx rs"

text \<open>The suffixes of a range, from \<open>lo\<close> up to \<open>hi\<close>.\<close>

definition suffixes :: "u64 \<Rightarrow> u64 \<Rightarrow> u64 list" where
  "suffixes lo hi = map of_nat [unat lo..<Suc (unat hi)]"

text \<open>One single host per suffix. The loop \<open>j <= hi\<close> does not end when \<open>hi\<close> is the largest number.\<close>

fun push_range_list_with_suffix :: "hostlist \<Rightarrow> string \<Rightarrow> string \<Rightarrow> prange list \<Rightarrow> hostlist option" where
  "push_range_list_with_suffix hl pfx sfx [] = Some hl"
| "push_range_list_with_suffix hl pfx sfx (r # rs) =
     (if pr_hi r = - 1 then None
      else push_range_list_with_suffix
        (fold (\<lambda>j hl. snd (hostlist_push_range hl
           (hostrange_create_single (snd (snprintf 4096 (pfx @ fmt_width (pr_width r) j @ sfx))))))
           (suffixes (pr_lo r) (pr_hi r)) hl) pfx sfx rs)"

text \<open>One token; the outer \<open>None\<close> is a loop that does not end, \<open>Inl\<close> an error.\<close>

definition push_token :: "hostlist \<Rightarrow> string \<Rightarrow> (hl_errno + hostlist) option" where
  "push_token hl tok =
     (if CHR ''['' \<in> set tok then
        (let prefix = takeWhile (\<lambda>c. c \<noteq> CHR ''['') tok; p = tl (dropWhile (\<lambda>c. c \<noteq> CHR ''['') tok)
         in if CHR '']'' \<in> set p then
              (case parse_range_list (takeWhile (\<lambda>c. c \<noteq> CHR '']'') p) max_ranges of
                 Inl e \<Rightarrow> Some (Inl e)
               | Inr ranges \<Rightarrow>
                   (let q = tl (dropWhile (\<lambda>c. c \<noteq> CHR '']'') p)
                    in if q \<noteq> [] then map_option Inr (push_range_list_with_suffix hl prefix q ranges)
                       else Some (Inr (push_range_list hl prefix ranges))))
            else Some (Inr (hostlist_push_host hl (take 1023 tok))))
      else Some (Inr (hostlist_push_host hl (take 1023 tok))))"

lemma next_tok_loop_shorter: "next_tok_loop tok str = (tok', str') \<Longrightarrow> length str' \<le> length str"
proof (induction tok str arbitrary: tok' str' rule: next_tok_loop.induct)
  case (1 tok str)
  let ?t = "tok @ takeWhile (\<lambda>c. \<not> is_sep c) str" and ?s = "dropWhile (\<lambda>c. \<not> is_sep c) str"
  have s: "length ?s \<le> length str" by (rule length_dropWhile_le)
  show ?case
  proof (cases "advance_past_brackets ?t ?s")
    case None
    then have "next_tok_loop tok str = (?t, ?s)" by (subst next_tok_loop.simps) (simp add: Let_def)
    then show ?thesis using 1(2) s by simp
  next
    case (Some p)
    obtain t2 s2 where p: "p = (t2, s2)" by (cases p)
    have "next_tok_loop t2 s2 = (tok', str')"
      using 1(2) Some p by (subst (asm) next_tok_loop.simps) (simp add: Let_def)
    then have le: "length str' \<le> length s2" using 1(1) [OF refl refl Some p [symmetric]] by blast
    have "s2 = tl (dropWhile (\<lambda>c. c \<noteq> CHR '']'') ?s)"
      using Some p by (auto simp: advance_past_brackets_def split: if_splits)
    then have "length s2 \<le> length ?s" using length_dropWhile_le [of "\<lambda>c. c \<noteq> CHR '']''" ?s] by simp
    then show ?thesis using le s by simp
  qed
qed

lemma next_tok_shorter: "next_tok str = Some (tok, str') \<Longrightarrow> length str' < length str"
proof -
  assume a: "next_tok str = Some (tok, str')"
  let ?s = "dropWhile is_sep str"
  obtain t s1 where l: "next_tok_loop [] ?s = (t, s1)" by (cases "next_tok_loop [] ?s")
  have ne: "?s \<noteq> []" and str': "str' = dropWhile is_sep s1" using a l by (auto simp: next_tok_def Let_def split: if_splits)
  obtain c cs where s: "?s = c # cs" using ne by (cases ?s) auto
  have c: "\<not> is_sep c" using s hd_dropWhile [of is_sep str] ne by simp
  let ?t = "takeWhile (\<lambda>c. \<not> is_sep c) ?s" and ?r = "dropWhile (\<lambda>c. \<not> is_sep c) ?s"
  have r: "length ?r < length ?s" using s c length_dropWhile_le [of "\<lambda>c. \<not> is_sep c" cs] by simp
  have "length s1 \<le> length ?r"
  proof (cases "advance_past_brackets ?t ?r")
    case None
    then show ?thesis using l by (subst (asm) next_tok_loop.simps) (simp add: Let_def)
  next
    case (Some p)
    obtain t2 s2 where p: "p = (t2, s2)" by (cases p)
    have "length s1 \<le> length s2"
      using l Some p by (subst (asm) next_tok_loop.simps) (auto simp: Let_def intro: next_tok_loop_shorter)
    moreover have "length s2 \<le> length ?r"
      using Some p length_dropWhile_le [of "\<lambda>c. c \<noteq> CHR '']''" ?r] by (auto simp: advance_past_brackets_def split: if_splits)
    ultimately show ?thesis by simp
  qed
  moreover have "length str' \<le> length s1" using str' by (simp add: length_dropWhile_le)
  moreover have "length ?s \<le> length str" by (rule length_dropWhile_le)
  ultimately show ?thesis using r by simp
qed

function create_loop :: "string \<Rightarrow> hostlist \<Rightarrow> (hl_errno + hostlist) option" where
  "create_loop str hl =
     (case next_tok str of
        None \<Rightarrow> Some (Inr hl)
      | Some (tok, str') \<Rightarrow>
          (case push_token hl tok of
             Some (Inr hl') \<Rightarrow> create_loop str' hl'
           | r \<Rightarrow> r))"
  by pat_completeness auto

termination by (relation "measure (\<lambda>(str, hl). length str)") (auto dest: next_tok_shorter)

declare create_loop.simps [simp del]

definition hostlist_create_bracketed :: "string option \<Rightarrow> (hl_errno + hostlist) option" where
  "hostlist_create_bracketed hostlist =
     (case hostlist of None \<Rightarrow> Some (Inr hostlist_new) | Some s \<Rightarrow> create_loop s hostlist_new)"

definition hostlist_create :: "string option \<Rightarrow> (hl_errno + hostlist) option" where
  "hostlist_create str = hostlist_create_bracketed str"

text \<open>The return value is the number of hosts of the new list; 0 when the text does not parse.\<close>

definition hostlist_push :: "hostlist \<Rightarrow> string option \<Rightarrow> (int \<times> hostlist) option" where
  "hostlist_push hl hosts =
     (case hosts of None \<Rightarrow> Some (0, hl)
      | Some s \<Rightarrow>
          map_option (\<lambda>r. case r of Inl _ \<Rightarrow> (0, hl)
            | Inr new \<Rightarrow> (hl_nhosts new, fst (snd (hostlist_push_list hl new)))) (hostlist_create (Some s)))"


section \<open>Removing and finding hosts\<close>

text \<open>A count above 0 with no range would read a null slot.\<close>

definition hostlist_pop :: "hostlist \<Rightarrow> (string option \<times> hostlist) option" where
  "hostlist_pop hl =
     (if hl_nhosts hl > 0 then
        (if hl_hr hl = [] then None
         else case last (hl_hr hl) of (a, hr) \<Rightarrow>
          (case hostrange_pop hr of (host, hr') \<Rightarrow>
             Some (host, hl\<lparr>hl_hr := butlast (hl_hr hl) @ (if hostrange_empty hr' then [] else [(a, hr')]),
                            hl_nhosts := hl_nhosts hl - 1\<rparr>)))
      else Some (None, hl))"

definition hostlist_shift :: "hostlist \<Rightarrow> (string option \<times> hostlist) option" where
  "hostlist_shift hl =
     (if hl_nhosts hl > 0 then
        (case hl_hr hl of
           [] \<Rightarrow> None
         | (a, hr) # rs \<Rightarrow>
             (case hostrange_shift hr of (host, hr') \<Rightarrow>
                (let hl1 = hl\<lparr>hl_hr := (a, hr') # rs, hl_nhosts := hl_nhosts hl - 1\<rparr>
                 in if hostrange_empty hr' then map_option (Pair host) (hostlist_delete_range hl1 0)
                    else Some (host, hostlist_shift_iterators hl1 0 0 0))))
      else Some (None, hl))"

definition maxhostnamelen :: nat where "maxhostnamelen = 64"

text \<open>\<open>_hostrange_string\<close>: a prefix that does not fit moves the second write out of the buffer; \<open>depth\<close> is added to the
  unsigned first suffix modulo \<open>2^64\<close>, also when it is negative.\<close>

definition hostrange_string :: "hostrange \<Rightarrow> int \<Rightarrow> string option" where
  "hostrange_string hr depth =
     (let buf = snd (snprintf (maxhostnamelen + 15) (hr_prefix hr)); len = length (hr_prefix hr)
      in if hr_singlehost hr then Some buf
         else if len > maxhostnamelen + 15 then None
         else Some (buf @ snd (snprintf (maxhostnamelen + 15 - len) (fmt_width (hr_width hr) (hr_lo hr + of_int depth)))))"

text \<open>The position of the range with host number \<open>n\<close>, and the number of hosts before it.\<close>

fun nth_range :: "hostrange list \<Rightarrow> int \<Rightarrow> int \<Rightarrow> (nat \<times> int) option" where
  "nth_range [] n count = None"
| "nth_range (hr # hrs) n count =
     (let num_in_range = sint (ucast (hostrange_count hr) :: u32)
      in if n \<le> num_in_range - 1 + count then Some (0, count)
         else map_option (\<lambda>(i, c). (Suc i, c)) (nth_range hrs n (count + num_in_range)))"

text \<open>The outer \<open>None\<close> is an access outside the buffer, the inner one the null pointer.\<close>

definition hostlist_nth :: "hostlist \<Rightarrow> int \<Rightarrow> string option option" where
  "hostlist_nth hl n =
     (case nth_range (map snd (hl_hr hl)) n 0 of
        None \<Rightarrow> Some None
      | Some (i, count) \<Rightarrow> map_option Some (hostrange_string (snd (hl_hr hl ! i)) (n - count)))"

definition hostlist_delete_nth :: "hostlist \<Rightarrow> int \<Rightarrow> hostlist option" where
  "hostlist_delete_nth hl n =
     (if \<not> (n \<ge> 0 \<and> n \<le> hl_nhosts hl) then None
      else map_option (\<lambda>hl. hl\<lparr>hl_nhosts := hl_nhosts hl - 1\<rparr>)
        (case nth_range (map snd (hl_hr hl)) n 0 of
           None \<Rightarrow> Some hl
         | Some (i, count) \<Rightarrow>
             (case hl_hr hl ! i of (a, hr) \<Rightarrow>
                if hr_singlehost hr then hostlist_delete_range hl i
                else case hostrange_delete_host hr (hr_lo hr + of_int n - of_int count) of
                       None \<Rightarrow> None
                     | Some (hr', new) \<Rightarrow>
                         (let hl1 = hl\<lparr>hl_hr := (hl_hr hl)[i := (a, hr')]\<rparr>
                          in case new of
                               Some h \<Rightarrow> Some (snd (hostlist_insert_range hl1 h (i + 1)))
                             | None \<Rightarrow> if hostrange_empty hr' then hostlist_delete_range hl1 i else Some hl1))))"

text \<open>The index of the host, or -1; the search adjusts widths.\<close>

fun find_loop :: "(rid \<times> hostrange) list \<Rightarrow> string \<Rightarrow> int \<Rightarrow> int \<times> (rid \<times> hostrange) list" where
  "find_loop [] hostname count = (- 1, [])"
| "find_loop ((a, hr) # hrs) hostname count =
     (case hostrange_hn_within hr hostname (host_prefix_end hostname) of (offset, hr') \<Rightarrow>
        if offset \<ge> 0 then (count + offset, (a, hr') # hrs)
        else case find_loop hrs hostname (count + sint (ucast (hostrange_count hr') :: u32)) of
               (r, hrs') \<Rightarrow> (r, (a, hr') # hrs'))"

definition hostlist_find :: "hostlist \<Rightarrow> string option \<Rightarrow> int \<times> hostlist" where
  "hostlist_find hl hostname =
     (case hostname of None \<Rightarrow> (- 1, hl)
      | Some s \<Rightarrow> (case find_loop (hl_hr hl) s 0 of (r, rs) \<Rightarrow> (r, hl\<lparr>hl_hr := rs\<rparr>)))"

definition hostlist_delete_host :: "hostlist \<Rightarrow> string \<Rightarrow> (int \<times> hostlist) option" where
  "hostlist_delete_host hl hostname =
     (case hostlist_find hl (Some hostname) of (n, hl1) \<Rightarrow>
        if n \<ge> 0 then map_option (Pair 1) (hostlist_delete_nth hl1 n) else Some (0, hl1))"

text \<open>Pop every host of the second list; it has as many as its count says.\<close>

fun delete_loop :: "nat \<Rightarrow> hostlist \<Rightarrow> hostlist \<Rightarrow> int \<Rightarrow> (int \<times> hostlist) option" where
  "delete_loop 0 hltmp hl n = None"
| "delete_loop (Suc fuel) hltmp hl n =
     (case hostlist_pop hltmp of
        None \<Rightarrow> None
      | Some (None, _) \<Rightarrow> Some (n, hl)
      | Some (Some hostname, hltmp') \<Rightarrow>
          (case hostlist_delete_host hl hostname of
             None \<Rightarrow> None | Some (m, hl') \<Rightarrow> delete_loop fuel hltmp' hl' (n + m)))"

definition hostlist_delete :: "hostlist \<Rightarrow> string option \<Rightarrow> (int \<times> hostlist) option" where
  "hostlist_delete hl hosts =
     (case hostlist_create hosts of
        None \<Rightarrow> None
      | Some (Inl _) \<Rightarrow> Some (0, hl)
      | Some (Inr hltmp) \<Rightarrow> delete_loop (Suc (nat (hl_nhosts hltmp))) hltmp hl 0)"

section \<open>Printing\<close>

text \<open>The loop of \<open>hostrange_to_string\<close>: the text so far; \<open>None\<close> when the buffer is full.\<close>

function to_string_loop :: "hostrange \<Rightarrow> nat \<Rightarrow> u64 \<Rightarrow> string \<Rightarrow> string option" where
  "to_string_loop hr n i buf =
     (if i \<le> hr_hi hr then
        (let host = hr_prefix hr @ fmt_width (hr_width hr) i
         in if length host \<ge> n - length buf then None
            else to_string_loop hr n (i + 1) (buf @ host @ '',''))
      else Some buf)"
  by pat_completeness auto

termination by (relation "measure (\<lambda>(hr, n, i, buf). n - length buf)") auto

declare to_string_loop.simps [simp del]

text \<open>The returned length and the text in the buffer; the separator is a comma. The length of a truncated text is -1 and
  the text is not modelled. \<open>None\<close> is
  the write before the buffer when the range is empty.\<close>

definition hostrange_to_string :: "hostrange \<Rightarrow> nat \<Rightarrow> (int \<times> string) option" where
  "hostrange_to_string hr n =
     (if n = 0 then Some (0, [])
      else if hr_singlehost hr then Some (snprintf n (hr_prefix hr))
      else case to_string_loop hr n (hr_lo hr) [] of
             None \<Rightarrow> Some (- 1, [])
           | Some buf \<Rightarrow> if buf = [] then None else Some (int (length buf) - 1, butlast buf))"

text \<open>The loop of \<open>hostlist_deranged_string\<close>: the text with a comma behind every range; \<open>Inl\<close> when it is truncated,
  \<open>None\<close> when a comma is written behind the buffer.\<close>

fun deranged_loop :: "hostrange list \<Rightarrow> nat \<Rightarrow> string \<Rightarrow> (unit + string) option" where
  "deranged_loop [] n buf = Some (Inr buf)"
| "deranged_loop (hr # hrs) n buf =
     (case hostrange_to_string hr (n - length buf) of
        None \<Rightarrow> None
      | Some (ret, txt) \<Rightarrow>
          if ret < 0 \<or> ret > int (n - length buf) then Some (Inl ())
          else if length buf + nat ret \<ge> n then None
          else deranged_loop hrs n (buf @ txt @ '',''))"

definition hostlist_deranged_string :: "hostlist \<Rightarrow> nat \<Rightarrow> (int \<times> string) option" where
  "hostlist_deranged_string hl n =
     (case deranged_loop (map snd (hl_hr hl)) n [] of
        None \<Rightarrow> None
      | Some (Inl _) \<Rightarrow> Some (- 1, [])
      | Some (Inr buf) \<Rightarrow> if n = 0 then None else Some (int (length (butlast buf)), butlast buf))"

text \<open>The length and the text; the length is that of the whole text.\<close>

definition hostrange_numstr :: "hostrange \<Rightarrow> nat \<Rightarrow> nat \<times> string" where
  "hostrange_numstr hr n =
     (if hr_singlehost hr \<or> n = 0 then (0, [])
      else let s1 = fmt_width (hr_width hr) (hr_lo hr); len = length s1
           in if len < n \<and> hr_lo hr < hr_hi hr
              then (let s2 = ''-'' @ fmt_width (hr_width hr) (hr_hi hr)
                    in (len + length s2, s1 @ snd (snprintf (n - len) s2)))
              else (len, snd (snprintf n s1)))"

definition is_bracket_needed :: "hostrange \<Rightarrow> hostrange list \<Rightarrow> bool" where
  "is_bracket_needed h1 rest \<longleftrightarrow>
     hostrange_count h1 > 1 \<or> (case rest of [] \<Rightarrow> False | h2 # _ \<Rightarrow> hostrange_within_range h1 h2)"

text \<open>The loop of \<open>_get_bracketed_list\<close> from the range \<open>hr\<close>: length, text and the ranges left.\<close>

fun bracket_loop :: "bool \<Rightarrow> nat \<Rightarrow> hostrange \<Rightarrow> hostrange list \<Rightarrow> nat \<Rightarrow> string \<Rightarrow> nat \<times> string \<times> hostrange list" where
  "bracket_loop brk n hr rest len buf =
     (case hostrange_numstr hr (n - len) of (ret, txt) \<Rightarrow>
        (let len1 = len + ret; buf1 = buf @ txt
         in if len1 \<ge> n then (len1, buf1, hr # rest)
            else let len2 = (if brk then len1 + 1 else len1); buf2 = (if brk then buf1 @ '','' else buf1)
                 in case rest of
                      h # hs \<Rightarrow> if hostrange_within_range h hr then bracket_loop brk n h hs len2 buf2 else (len2, buf2, rest)
                    | [] \<Rightarrow> (len2, buf2, [])))"

definition get_bracketed_list :: "hostrange \<Rightarrow> hostrange list \<Rightarrow> nat \<Rightarrow> nat \<times> string \<times> hostrange list" where
  "get_bracketed_list hr rest n =
     (let brk = is_bracket_needed hr rest; len = length (hr_prefix hr); buf = snd (snprintf n (hr_prefix hr))
      in if len > n then (n, buf, hr # rest)
         else let (len1, buf1) = (if brk \<and> len < n then (len + 1, buf @ ''['') else (len, buf))
              in case bracket_loop brk n hr rest len1 buf1 of
                   (l, b, left) \<Rightarrow>
                     if brk \<and> l < n \<and> l > 0 then (l, butlast b @ '']'', left)
                     else if l \<ge> n then (l, take (n - 1) b, left)
                     else (l, b, left))"

text \<open>Every call consumes a range or fills the buffer, so one call per range and one more are enough.\<close>

fun ranged_loop :: "nat \<Rightarrow> hostrange list \<Rightarrow> nat \<Rightarrow> nat \<Rightarrow> string \<Rightarrow> nat \<times> string" where
  "ranged_loop 0 hrs n len buf = (len, buf)"
| "ranged_loop (Suc fuel) hrs n len buf =
     (case hrs of
        hr # rest \<Rightarrow>
          if len < n then
            (case get_bracketed_list hr rest (n - len) of (l, txt, left) \<Rightarrow>
               (let len1 = len + l; buf1 = buf @ txt
                in if len1 > 0 \<and> len1 < n \<and> left \<noteq> [] then ranged_loop fuel left n (len1 + 1) (buf1 @ '','')
                   else ranged_loop fuel left n len1 buf1))
          else (len, buf)
      | [] \<Rightarrow> (len, buf))"

definition hostlist_ranged_string :: "hostlist \<Rightarrow> nat \<Rightarrow> int \<times> string" where
  "hostlist_ranged_string hl n =
     (case ranged_loop (length (hl_hr hl) + 1) (map snd (hl_hr hl)) n 0 [] of
        (len, buf) \<Rightarrow> if len \<ge> n then (- 1, take (n - 1) buf) else (int len, buf))"


definition maxhostrangelen :: nat where "maxhostrangelen = 1024"

text \<open>Take the last ranges that share a bracketed list. \<open>None\<close> also stands for a list that keeps null slots: when the
  moved ranges join on the way, fewer slots are given up than were emptied.\<close>

definition hostlist_pop_range :: "hostlist \<Rightarrow> (string option \<times> hostlist) option" where
  "hostlist_pop_range hl =
     (if hl_hr hl = [] then Some (None, hl)
      else let rs = hl_hr hl; tail = snd (last rs);
               k = length (takeWhile (\<lambda>(a, hr). hostrange_within_range tail hr) (rev (butlast rs))) + 1;
               keep = length rs - k;
               hltmp = snd (push_ranges hostlist_new (map snd (drop keep rs)) 0)
           in if length (hl_hr hltmp) \<noteq> k then None
              else Some (Some (snd (hostlist_ranged_string hltmp maxhostrangelen)),
                         hl\<lparr>hl_hr := take keep rs, hl_nhosts := hl_nhosts hl - hl_nhosts hltmp\<rparr>))"

text \<open>The iterators are moved before the slots: they read the addresses of the old slots.\<close>

definition hostlist_shift_range :: "hostlist \<Rightarrow> (string option \<times> hostlist) option" where
  "hostlist_shift_range hl =
     (case hl_hr hl of
        [] \<Rightarrow> Some (None, hl)
      | (a, hr) # rest \<Rightarrow>
          (let first = (let (x, h1) = hostlist_push_range hostlist_new hr in snd (hd (hl_hr h1)));
               k = length (takeWhile (\<lambda>(a, h). hostrange_within_range first h) rest) + 1;
               hltmp = snd (push_ranges hostlist_new (map snd (take k (hl_hr hl))) 0)
           in if length (hl_hr hltmp) \<noteq> k then None
              else let hl1 = hostlist_shift_iterators hl k 0 k
                   in Some (Some (snd (hostlist_ranged_string hltmp 1024)),
                            hl1\<lparr>hl_hr := drop k (hl_hr hl), hl_nhosts := hl_nhosts hl - hl_nhosts hltmp\<rparr>)))"

section \<open>Iterators\<close>

text \<open>Iterators are named by their address \<open>a\<close>, which is new at their creation.\<close>

definition hostlist_iterator_create :: "hostlist \<Rightarrow> nat \<Rightarrow> hostlist" where
  "hostlist_iterator_create hl a =
     hl\<lparr>hl_ilist := (a, \<lparr>it_idx = 0, it_hr = slot_addr (hl_hr hl) 0, it_depth = - 1\<rparr>) # hl_ilist hl\<rparr>"

definition set_hl_iter :: "hostlist \<Rightarrow> nat \<Rightarrow> hl_iter \<Rightarrow> hostlist" where
  "set_hl_iter hl a i = hl\<lparr>hl_ilist := map (\<lambda>(b, j). (b, if b = a then i else j)) (hl_ilist hl)\<rparr>"

definition hostlist_iterator_reset :: "hostlist \<Rightarrow> nat \<Rightarrow> hostlist option" where
  "hostlist_iterator_reset hl a =
     map_option (\<lambda>i. set_hl_iter hl a (iterator_reset (hl_hr hl) i)) (map_of (hl_ilist hl) a)"

definition hostlist_iterator_destroy :: "hostlist \<Rightarrow> nat \<Rightarrow> hostlist" where
  "hostlist_iterator_destroy hl a =
     hl\<lparr>hl_ilist := takeWhile (\<lambda>(b, j). b \<noteq> a) (hl_ilist hl) @ tl (dropWhile (\<lambda>(b, j). b \<noteq> a) (hl_ilist hl))\<rparr>"

text \<open>The range behind the stored address; \<open>None\<close> when it is null or freed.\<close>

definition iter_range :: "hostlist \<Rightarrow> hl_iter \<Rightarrow> hostrange option" where
  "iter_range hl i = Option.bind (it_hr i) (map_of (hl_hr hl))"

definition iterator_advance :: "hostlist \<Rightarrow> hl_iter \<Rightarrow> hl_iter option" where
  "iterator_advance hl i =
     (if it_idx i \<ge> length (hl_hr hl) then Some i
      else case iter_range hl i of
             None \<Rightarrow> None
           | Some hr \<Rightarrow>
               (let i1 = i\<lparr>it_depth := it_depth i + 1\<rparr>
                in Some (if of_int (it_depth i1) > hr_hi hr - hr_lo hr
                         then i1\<lparr>it_depth := 0, it_idx := it_idx i + 1, it_hr := slot_addr (hl_hr hl) (it_idx i + 1)\<rparr>
                         else i1)))"

definition iterator_advance_range :: "hostlist \<Rightarrow> hl_iter \<Rightarrow> hl_iter option" where
  "iterator_advance_range hl i =
     (let i1 = i\<lparr>it_depth := it_depth i + 1\<rparr>; rest = drop (it_idx i + 1) (hl_hr hl)
      in if it_depth i1 > 0 then
           (case (if rest = [] then Some 0
                  else map_option (\<lambda>hr. length (takeWhile (\<lambda>(a, h). hostrange_within_range hr h) rest)) (iter_range hl i)) of
              None \<Rightarrow> None
            | Some k \<Rightarrow>
                Some (i1\<lparr>it_idx := it_idx i + 1 + k, it_hr := slot_addr (hl_hr hl) (it_idx i + 1 + k), it_depth := 0\<rparr>))
         else Some i1)"

definition hostlist_next :: "hostlist \<Rightarrow> nat \<Rightarrow> (string option \<times> hostlist) option" where
  "hostlist_next hl a =
     (case map_of (hl_ilist hl) a of
        None \<Rightarrow> None
      | Some i \<Rightarrow>
          (case iterator_advance hl i of
             None \<Rightarrow> None
           | Some i1 \<Rightarrow>
               if it_idx i1 \<ge> length (hl_hr hl) then Some (None, set_hl_iter hl a i1)
               else case iter_range hl i1 of
                      None \<Rightarrow> None
                    | Some hr \<Rightarrow>
                        (let suffix = (if hr_singlehost hr then []
                               else snd (snprintf 15 (fmt_width (hr_width hr) (hr_lo hr + of_int (it_depth i1)))))
                         in Some (Some (hr_prefix hr @ suffix), set_hl_iter hl a i1))))"

definition hostlist_next_range :: "hostlist \<Rightarrow> nat \<Rightarrow> (string option \<times> hostlist) option" where
  "hostlist_next_range hl a =
     (case map_of (hl_ilist hl) a of
        None \<Rightarrow> None
      | Some i \<Rightarrow>
          (case iterator_advance_range hl i of
             None \<Rightarrow> None
           | Some i1 \<Rightarrow>
               (case drop (it_idx i1) (map snd (hl_hr hl)) of
                  [] \<Rightarrow> Some (None, set_hl_iter hl a i1)
                | hr # rest \<Rightarrow>
                    (case get_bracketed_list hr rest maxhostrangelen of
                       (l, txt, left) \<Rightarrow> Some (Some txt, set_hl_iter hl a i1)))))"

definition hostlist_remove :: "hostlist \<Rightarrow> nat \<Rightarrow> hostlist option" where
  "hostlist_remove hl a =
     (case map_of (hl_ilist hl) a of
        None \<Rightarrow> None
      | Some i \<Rightarrow>
          (case (it_hr i, iter_range hl i) of
             (Some r, Some hr) \<Rightarrow>
               (case hostrange_delete_host hr (hr_lo hr + of_int (it_depth i)) of
                  None \<Rightarrow> None
                | Some (hr', new) \<Rightarrow>
                    (let hl1 = hl\<lparr>hl_hr := map (\<lambda>(b, h). (b, if b = r then hr' else h)) (hl_hr hl)\<rparr>
                     in map_option (\<lambda>hl. hl\<lparr>hl_nhosts := hl_nhosts hl - 1\<rparr>)
                       (case new of
                          Some h \<Rightarrow>
                            (let hl2 = snd (hostlist_insert_range hl1 h (it_idx i + 1))
                             in Some (set_hl_iter hl2 a (i\<lparr>it_idx := it_idx i + 1,
                                  it_hr := slot_addr (hl_hr hl2) (it_idx i + 1), it_depth := - 1\<rparr>)))
                        | None \<Rightarrow>
                            if hostrange_empty hr' then hostlist_delete_range hl1 (it_idx i)
                            else Some (set_hl_iter hl1 a (i\<lparr>it_depth := it_depth i - 1\<rparr>)))))
           | _ \<Rightarrow> None))"

section \<open>Sorting and sets\<close>

definition attempt_range_join :: "hostlist \<Rightarrow> nat \<Rightarrow> (int \<times> hostlist) option" where
  "attempt_range_join hl loc =
     (if \<not> (0 < loc \<and> loc < length (hl_hr hl)) then None
      else case (hl_hr hl ! (loc - 1), hl_hr hl ! loc) of
        ((a, h1), (b, h2)) \<Rightarrow>
          (case hostrange_join h1 h2 of
             None \<Rightarrow> None
           | Some (ndup, h1', h2') \<Rightarrow>
               (let hl1 = hl\<lparr>hl_hr := (hl_hr hl)[loc - 1 := (a, h1'), loc := (b, h2')]\<rparr>
                in if ndup \<ge> 0
                   then map_option (\<lambda>hl2. (ndup, hl2\<lparr>hl_nhosts := hl_nhosts hl2 - ndup\<rparr>)) (hostlist_delete_range hl1 loc)
                   else Some (ndup, hl1))))"

text \<open>The loop of \<open>hostlist_uniq\<close>; every round deletes a range or moves on.\<close>

fun uniq_loop :: "nat \<Rightarrow> nat \<Rightarrow> hostlist \<Rightarrow> hostlist option" where
  "uniq_loop 0 i hl = (if i < length (hl_hr hl) then None else Some hl)"
| "uniq_loop (Suc fuel) i hl =
     (if i < length (hl_hr hl) then
        (case attempt_range_join hl i of
           None \<Rightarrow> None
         | Some (n, hl') \<Rightarrow> uniq_loop fuel (if n < 0 then i + 1 else i) hl')
      else Some hl)"

text \<open>\<open>qs\<close> is the effect of \<open>qsort\<close> with \<open>_cmp\<close> on the array.\<close>

definition hostlist_uniq :: "((rid \<times> hostrange) list \<Rightarrow> (rid \<times> hostrange) list) \<Rightarrow> hostlist \<Rightarrow> hostlist option" where
  "hostlist_uniq qs hl =
     (if length (hl_hr hl) \<le> 1 then Some hl
      else map_option (\<lambda>hl. hl\<lparr>hl_ilist := map (\<lambda>(a, i). (a, iterator_reset (hl_hr hl) i)) (hl_ilist hl)\<rparr>)
        (uniq_loop (length (hl_hr hl)) 1 (hl\<lparr>hl_hr := qs (hl_hr hl)\<rparr>)))"

text \<open>The loop of \<open>hostset_insert_range\<close> from slot \<open>i\<close>: the number of hosts of the range and the range.\<close>

definition hostset_insert_at :: "hostlist \<Rightarrow> hostrange \<Rightarrow> nat \<Rightarrow> int \<Rightarrow> (int \<times> hostlist) option" where
  "hostset_insert_at hl hr i nhosts =
     (case hl_hr hl ! i of (a, x) \<Rightarrow>
       (case hostrange_join hr x of
          None \<Rightarrow> None
        | Some (n, hr', x') \<Rightarrow>
            (let hl1 = hl\<lparr>hl_hr := (hl_hr hl)[i := (a, x')]\<rparr>;
                 ndups = (if n \<ge> 0 then n else 0)
             in case (if n \<ge> 0 then hostlist_delete_range hl1 i else Some hl1) of
                  None \<Rightarrow> None
                | Some hl2 \<Rightarrow>
                    (let hl3 = snd (hostlist_insert_range hl2 hr' i)
                     in case (if i > 0 then attempt_range_join hl3 i else Some (- 1, hl3)) of
                          None \<Rightarrow> None
                        | Some (m, hl4) \<Rightarrow>
                            (let nd = (if m > 0 then ndups + m else ndups)
                             in Some (nhosts - nd, hl4\<lparr>hl_nhosts := hl_nhosts hl4 + (nhosts - nd)\<rparr>))))))"

fun hostset_insert_loop :: "nat \<Rightarrow> hostlist \<Rightarrow> hostrange \<Rightarrow> nat \<Rightarrow> int \<Rightarrow> (int \<times> hostlist) option" where
  "hostset_insert_loop 0 hl hr i nhosts = None"
| "hostset_insert_loop (Suc fuel) hl hr i nhosts =
     (if i < length (hl_hr hl) then
        (case hl_hr hl ! i of (a, x) \<Rightarrow>
         (case hostrange_cmp hr x of (c, hr1, x1) \<Rightarrow>
            (let hl1 = hl\<lparr>hl_hr := (hl_hr hl)[i := (a, x1)]\<rparr>
             in if c \<le> 0 then hostset_insert_at hl1 hr1 i nhosts
                else hostset_insert_loop fuel hl1 hr1 (i + 1) nhosts)))
      else
        (let hl1 = hl\<lparr>hl_hr := hl_hr hl @ [(hl_next hl, hostrange_copy hr)], hl_next := hl_next hl + 1,
                      hl_nhosts := hl_nhosts hl + nhosts\<rparr>
         in if length (hl_hr hl1) > 1
            then map_option (\<lambda>(n, hl2). (nhosts - (if n \<le> 0 then 0 else n), hl2)) (attempt_range_join hl1 (length (hl_hr hl1) - 1))
            else Some (nhosts, hl1)))"

definition hostset_insert_range :: "hostlist \<Rightarrow> hostrange \<Rightarrow> (int \<times> hostlist) option" where
  "hostset_insert_range hl hr =
     hostset_insert_loop (length (hl_hr hl) + 1) hl hr 0 (sint (ucast (hostrange_count hr) :: u32))"

fun hostset_insert_ranges :: "hostlist \<Rightarrow> hostrange list \<Rightarrow> int \<Rightarrow> (int \<times> hostlist) option" where
  "hostset_insert_ranges hl [] n = Some (n, hl)"
| "hostset_insert_ranges hl (hr # hrs) n =
     (case hostset_insert_range hl hr of None \<Rightarrow> None | Some (m, hl') \<Rightarrow> hostset_insert_ranges hl' hrs (n + m))"

definition hostset_create :: "((rid \<times> hostrange) list \<Rightarrow> (rid \<times> hostrange) list) \<Rightarrow> string option \<Rightarrow> (hl_errno + hostlist) option" where
  "hostset_create qs hosts =
     (case hostlist_create hosts of
        None \<Rightarrow> None
      | Some (Inl e) \<Rightarrow> Some (Inl e)
      | Some (Inr hl) \<Rightarrow> map_option Inr (hostlist_uniq qs hl))"

definition hostset_insert :: "((rid \<times> hostrange) list \<Rightarrow> (rid \<times> hostrange) list) \<Rightarrow> hostlist \<Rightarrow> string option \<Rightarrow> (int \<times> hostlist) option" where
  "hostset_insert qs hs hosts =
     (case hostlist_create hosts of
        None \<Rightarrow> None
      | Some (Inl _) \<Rightarrow> Some (0, hs)
      | Some (Inr hl) \<Rightarrow>
          (case hostlist_uniq qs hl of None \<Rightarrow> None
           | Some hl' \<Rightarrow> hostset_insert_ranges hs (map snd (hl_hr hl')) 0))"

fun hostset_find_loop :: "(rid \<times> hostrange) list \<Rightarrow> string \<Rightarrow> bool \<times> (rid \<times> hostrange) list" where
  "hostset_find_loop [] host = (False, [])"
| "hostset_find_loop ((a, hr) # hrs) host =
     (case hostrange_hn_within hr host (host_prefix_end host) of (offset, hr') \<Rightarrow>
        if offset \<ge> 0 then (True, (a, hr') # hrs)
        else case hostset_find_loop hrs host of (r, hrs') \<Rightarrow> (r, (a, hr') # hrs'))"

definition hostset_find_host :: "hostlist \<Rightarrow> string \<Rightarrow> bool \<times> hostlist" where
  "hostset_find_host hs host =
     (case hostset_find_loop (hl_hr hs) host of (r, rs) \<Rightarrow> (r, hs\<lparr>hl_hr := rs\<rparr>))"

fun within_loop :: "nat \<Rightarrow> hostlist \<Rightarrow> hostlist \<Rightarrow> int \<Rightarrow> (int \<times> hostlist) option" where
  "within_loop 0 hl hs nfound = None"
| "within_loop (Suc fuel) hl hs nfound =
     (case hostlist_pop hl of
        None \<Rightarrow> None
      | Some (None, _) \<Rightarrow> Some (nfound, hs)
      | Some (Some hostname, hl') \<Rightarrow>
          (case hostset_find_host hs hostname of (b, hs') \<Rightarrow> within_loop fuel hl' hs' (nfound + of_bool b)))"

definition hostset_within :: "hostlist \<Rightarrow> string option \<Rightarrow> (bool \<times> hostlist) option" where
  "hostset_within hs hosts =
     (case hostlist_create hosts of
        None \<Rightarrow> None
      | Some (Inl _) \<Rightarrow> Some (False, hs)
      | Some (Inr hl) \<Rightarrow>
          (let nhosts = hostlist_count hl
           in map_option (\<lambda>(nfound, hs'). (nhosts = nfound, hs')) (within_loop (Suc (nat (hl_nhosts hl))) hl hs 0)))"

definition hostset_delete :: "hostlist \<Rightarrow> string option \<Rightarrow> (int \<times> hostlist) option" where
  "hostset_delete hs hosts = hostlist_delete hs hosts"

definition hostset_delete_host :: "hostlist \<Rightarrow> string \<Rightarrow> (int \<times> hostlist) option" where
  "hostset_delete_host hs hostname = hostlist_delete_host hs hostname"

definition hostset_count :: "hostlist \<Rightarrow> int" where
  "hostset_count hs = hostlist_count hs"

end
