(* ===== verification/Lsd_Hostlist_Facts.thy ===== *)
theory Lsd_Hostlist_Facts
  imports Lsd_Hostlist
begin

text \<open>
  The list of host names a \<open>hostlist\<close> stands for, and what the operations of \<open>Lsd_Hostlist\<close> do to it.
\<close>

section \<open>Widths\<close>

lemma zero_padded_loop_eq: "zero_padded_loop num n + 1 = n + length (dec_string num)"
proof (induction num n rule: zero_padded_loop.induct)
  case (1 num n)
  show ?case
  proof (cases "num div 10 = 0")
    case True
    then show ?thesis by (simp add: zero_padded_loop.simps [of num] dec_string.simps [of num] div_eq_0_iff)
  next
    case False
    then have "\<not> num < 10" by simp
    then show ?thesis using 1 False by (simp add: zero_padded_loop.simps [of num] dec_string.simps [of num])
  qed
qed

lemma zero_padded_eq: "zero_padded n w = w - length (print_u64 n)"
proof -
  have "zero_padded_loop (unat n) 1 = length (dec_string (unat n))" using zero_padded_loop_eq [of "unat n" 1] by simp
  then show ?thesis by (simp add: zero_padded_def print_u64_def Let_def)
qed

lemma dec_string_mono: "n \<le> k \<Longrightarrow> length (dec_string n) \<le> length (dec_string k)"
proof (induction n arbitrary: k rule: dec_string.induct)
  case (1 n)
  show ?case
  proof (cases "n < 10")
    case True
    then have "length (dec_string n) = 1" by (simp add: dec_string.simps [of n])
    moreover have "0 < length (dec_string k)" by simp
    ultimately show ?thesis by linarith
  next
    case False
    then have "length (dec_string (n div 10)) \<le> length (dec_string (k div 10))" using 1 by (simp add: div_le_mono)
    then show ?thesis using False 1(2) by (simp add: dec_string.simps [of n] dec_string.simps [of k])
  qed
qed

lemma fmt_width_eq: "fmt_width w n = replicate (zero_padded n w) CHR ''0'' @ print_u64 n"
  by (simp add: fmt_width_def zero_padded_eq)

text \<open>Equal padding of the lowest suffix is equal padding of all.\<close>

lemma same_padding:
  assumes "zero_padded n w = zero_padded n w'" "n \<le> k"
  shows "fmt_width w k = fmt_width w' k"
proof -
  have "length (print_u64 n) \<le> length (print_u64 k)"
    using assms(2) by (simp add: print_u64_def dec_string_mono word_le_nat_alt)
  then have "zero_padded k w = zero_padded k w'" using assms(1) by (auto simp: zero_padded_eq)
  then show ?thesis by (simp add: fmt_width_eq)
qed

lemma width_equiv_sound:
  assumes "width_equiv n wn m wm = Some (w1, w2)"
  shows "w2 = w1" "n \<le> k \<Longrightarrow> fmt_width w1 k = fmt_width wn k" "m \<le> k \<Longrightarrow> fmt_width w1 k = fmt_width wm k"
proof -
  have *: "w2 = w1 \<and> zero_padded n w1 = zero_padded n wn \<and> zero_padded m w1 = zero_padded m wm"
    using assms by (auto simp: width_equiv_def Let_def split: if_splits)
  show "w2 = w1" "n \<le> k \<Longrightarrow> fmt_width w1 k = fmt_width wn k" "m \<le> k \<Longrightarrow> fmt_width w1 k = fmt_width wm k"
    using * same_padding [of n w1 wn k] same_padding [of m w1 wm k] by auto
qed

lemma width_equiv_self: "width_equiv n w m w = Some (w, w)"
  by (simp add: width_equiv_def Let_def)

section \<open>Hosts of a range\<close>

definition hr_hosts :: "hostrange \<Rightarrow> string list" where
  "hr_hosts hr =
     (if hr_singlehost hr then [hr_prefix hr]
      else map (\<lambda>k. hr_prefix hr @ fmt_width (hr_width hr) k) (suffixes (hr_lo hr) (hr_hi hr)))"

text \<open>Ranges the parser makes from suffixes of at most 15 digits.\<close>

definition range_ok :: "hostrange \<Rightarrow> bool" where
  "range_ok hr \<longleftrightarrow>
     (if hr_singlehost hr then hr_lo hr = 0 \<and> hr_hi hr = 0 \<and> hr_width hr = 0
      else hr_lo hr \<le> hr_hi hr \<and> unat (hr_hi hr) < 10 ^ 15)"

definition hosts :: "hostrange list \<Rightarrow> string list" where
  "hosts hrs = concat (map hr_hosts hrs)"

definition hl_hosts :: "hostlist \<Rightarrow> string list" where
  "hl_hosts hl = hosts (map snd (hl_hr hl))"

lemma hosts_simps [simp]: "hosts [] = []" "hosts (hr # hrs) = hr_hosts hr @ hosts hrs" "hosts (xs @ ys) = hosts xs @ hosts ys"
  by (simp_all add: hosts_def)

lemma suffixes_mem: "k \<in> set (suffixes lo hi) \<Longrightarrow> lo \<le> k \<and> k \<le> hi"
proof -
  assume "k \<in> set (suffixes lo hi)"
  then obtain j where j: "k = of_nat j" "unat lo \<le> j" "j \<le> unat hi" by (auto simp: suffixes_def)
  then have "j < 18446744073709551616" using unat_u64_bound [of hi] by linarith
  then have "unat k = j" using j by (simp add: unat_of_nat)
  then show ?thesis using j by (simp add: word_le_nat_alt)
qed

lemma suffixes_split:
  assumes "lo \<le> m" "unat n = Suc (unat m)" "n \<le> hi"
  shows "suffixes lo hi = suffixes lo m @ suffixes n hi"
proof -
  have "[unat lo..<Suc (unat hi)] = [unat lo..<unat n] @ [unat n..<Suc (unat hi)]"
    using assms upt_add_eq_append [of "unat lo" "unat n" "Suc (unat hi) - unat n"] by (simp add: word_le_nat_alt del: upt_Suc)
  then show ?thesis using assms(2) by (simp add: suffixes_def del: upt_Suc)
qed

lemma suffixes_single [simp]: "suffixes n n = [n]"
  by (simp add: suffixes_def)

lemma length_suffixes: "length (suffixes lo hi) = Suc (unat hi) - unat lo"
  unfolding suffixes_def length_map by (rule length_upt)

lemma hr_hosts_width:
  assumes "\<And>k. hr_lo hr \<le> k \<Longrightarrow> fmt_width w k = fmt_width (hr_width hr) k"
  shows "hr_hosts (hr\<lparr>hr_width := w\<rparr>) = hr_hosts hr"
  using assms by (auto simp: hr_hosts_def dest: suffixes_mem)

lemma count_nat:
  assumes "range_ok hr"
  shows "unat (hostrange_count hr) = length (hr_hosts hr)"
proof (cases "hr_singlehost hr")
  case False
  then have ok: "hr_lo hr \<le> hr_hi hr" "unat (hr_hi hr) < 10 ^ 15" using assms by (simp_all add: range_ok_def)
  have "unat (hr_hi hr - hr_lo hr + 1) = unat (hr_hi hr) - unat (hr_lo hr) + 1"
    using ok by (simp add: unat_word_ariths unat_sub)
  then show ?thesis using False ok(1) by (simp add: hostrange_count_def hr_hosts_def length_suffixes word_le_nat_alt)
qed (simp add: hostrange_count_def hr_hosts_def)

lemma int_of_u64:
  assumes "unat (w :: u64) < 2 ^ 31"
  shows "sint (ucast w :: u32) = int (unat w)"
proof -
  have u: "int (unat w) = uint w" by simp
  have "uint w < 2 ^ 31" using iffD2 [OF of_nat_less_iff [where 'a = int] assms] by simp
  moreover have "- (2 ^ 31) \<le> uint w" by (rule order_trans [OF _ uint_ge_0]) simp
  ultimately have t: "signed_take_bit 31 (uint w) = uint w" by (intro signed_take_bit_int_eq_self)
  have "sint (word_of_int (uint w) :: u32) = signed_take_bit (LENGTH(32) - 1) (uint w)" by (rule sint_sbintrunc')
  then have "sint (word_of_int (uint w) :: u32) = uint w" using t by simp
  then show ?thesis unfolding u ucast_eq .
qed

lemma unat_max_u64: "unat (- 1 :: u64) = 18446744073709551615"
  by (simp add: unsigned_minus_1_eq_mask mask_eq_exp_minus_1)

lemma count_int:
  assumes "range_ok hr" "length (hr_hosts hr) < 2 ^ 31"
  shows "sint (ucast (hostrange_count hr) :: u32) = int (length (hr_hosts hr))"
  using int_of_u64 [of "hostrange_count hr"] count_nat [OF assms(1)] assms(2) by simp

lemma prefix_cmp_0:
  "hostrange_prefix_cmp h1 h2 = 0 \<longleftrightarrow> hr_prefix h1 = hr_prefix h2 \<and> hr_singlehost h1 = hr_singlehost h2"
  by (auto simp: hostrange_prefix_cmp_def strcmp_def Let_def split: if_splits)

lemma hostrange_copy_id: "range_ok hr \<Longrightarrow> hostrange_copy hr = hr"
  by (cases hr) (auto simp: hostrange_copy_def hostrange_create_single_def hostrange_create_def range_ok_def)


section \<open>Pushing ranges\<close>

text \<open>The number of hosts agrees with the ranges and stays below the largest \<open>int\<close>; addresses are not reused.\<close>

definition hl_ok :: "hostlist \<Rightarrow> bool" where
  "hl_ok hl \<longleftrightarrow> list_all range_ok (map snd (hl_hr hl)) \<and> hl_nhosts hl = int (length (hl_hosts hl)) \<and>
     length (hl_hosts hl) < 2 ^ 31 \<and> distinct (map fst (hl_hr hl)) \<and> (\<forall>a \<in> set (map fst (hl_hr hl)). a < hl_next hl)"

lemma hosts_join:
  assumes "range_ok t" "range_ok hr" "hostrange_prefix_cmp t hr = 0" "hr_hi t = hr_lo hr - 1"
    and "hostrange_width_combine t hr = Some (t', hr')"
  shows "hr_hosts (t'\<lparr>hr_hi := hr_hi hr\<rparr>) = hr_hosts t @ hr_hosts hr" "range_ok (t'\<lparr>hr_hi := hr_hi hr\<rparr>)"
proof -
  obtain w1 w2 where w: "width_equiv (hr_lo t) (hr_width t) (hr_lo hr) (hr_width hr) = Some (w1, w2)" "t' = t\<lparr>hr_width := w1\<rparr>"
    using assms(5) by (auto simp: hostrange_width_combine_def)
  have p: "hr_prefix t = hr_prefix hr" "hr_singlehost t = hr_singlehost hr" using assms(3) by (simp_all add: prefix_cmp_0)
  have ns: "\<not> hr_singlehost t"
  proof
    assume "hr_singlehost t"
    then have "hr_hi t = 0" "hr_lo hr = 0" using assms(1,2) p by (simp_all add: range_ok_def)
    then show False using assms(4) by simp
  qed
  have t: "hr_lo t \<le> hr_hi t" "unat (hr_hi t) < 10 ^ 15" and h: "hr_lo hr \<le> hr_hi hr" "unat (hr_hi hr) < 10 ^ 15"
    using assms(1,2) ns p by (simp_all add: range_ok_def)
  have "hr_lo hr \<noteq> 0" using assms(4) t(2) by (auto simp: unat_max_u64)
  then have "0 < unat (hr_lo hr)" "unat (hr_hi t) = unat (hr_lo hr) - 1"
    using assms(4) by (simp_all add: unat_gt_0 unat_minus_one)
  then have n: "unat (hr_lo hr) = Suc (unat (hr_hi t))" by simp
  have split: "suffixes (hr_lo t) (hr_hi hr) = suffixes (hr_lo t) (hr_hi t) @ suffixes (hr_lo hr) (hr_hi hr)"
    by (rule suffixes_split [OF t(1) n h(1)])
  show "hr_hosts (t'\<lparr>hr_hi := hr_hi hr\<rparr>) = hr_hosts t @ hr_hosts hr"
    using ns p width_equiv_sound(2,3) [OF w(1)] by (auto simp: hr_hosts_def w(2) split dest: suffixes_mem)
  have "hr_lo t \<le> hr_hi hr" using t(1) n h(1) by (simp add: word_le_nat_alt)
  then show "range_ok (t'\<lparr>hr_hi := hr_hi hr\<rparr>)" using ns h(2) by (simp add: range_ok_def w(2))
qed

lemma push_range_ok:
  assumes "hl_ok hl" "range_ok hr" "length (hl_hosts hl) + length (hr_hosts hr) < 2 ^ 31"
    and "hostlist_push_range hl hr = (n, hl')"
  shows "hl_ok hl'" "hl_hosts hl' = hl_hosts hl @ hr_hosts hr" "n = int (length (hl_hosts hl'))"
proof -
  let ?rs = "hl_hr hl"
  have ok: "list_all range_ok (map snd ?rs)" "hl_nhosts hl = int (length (hl_hosts hl))" "distinct (map fst ?rs)"
    "\<And>a. a \<in> set (map fst ?rs) \<Longrightarrow> a < hl_next hl" using assms(1) by (auto simp: hl_ok_def)
  have c: "add_hosts (hl_nhosts hl) hr = int (length (hl_hosts hl)) + int (length (hr_hosts hr))"
    using count_int [OF assms(2)] assms(3) ok(2) by (simp add: add_hosts_def)
  let ?app = "hl\<lparr>hl_hr := ?rs @ [(hl_next hl, hostrange_copy hr)], hl_nhosts := add_hosts (hl_nhosts hl) hr, hl_next := hl_next hl + 1\<rparr>"
  have app: "hl_ok ?app" "hl_hosts ?app = hl_hosts hl @ hr_hosts hr"
    using ok assms(2,3) c by (auto simp: hl_ok_def hl_hosts_def hostrange_copy_id [OF assms(2)] less_SucI)
  have "hl_ok hl' \<and> hl_hosts hl' = hl_hosts hl @ hr_hosts hr \<and> n = int (length (hl_hosts hl'))"
  proof (cases "\<exists>a t t' hr'. ?rs \<noteq> [] \<and> last ?rs = (a, t) \<and> hostrange_prefix_cmp t hr = 0 \<and> hr_hi t = hr_lo hr - 1 \<and>
      hostrange_width_combine t hr = Some (t', hr')")
    case False
    then have "hl' = ?app \<and> n = add_hosts (hl_nhosts hl) hr"
      using assms(4) unfolding hostlist_push_range_def Let_def by (auto split: prod.splits if_splits option.splits)
    then show ?thesis using app c by simp
  next
    case True
    then obtain a t t' hr' where l: "?rs \<noteq> []" "last ?rs = (a, t)" "hostrange_prefix_cmp t hr = 0" "hr_hi t = hr_lo hr - 1"
      "hostrange_width_combine t hr = Some (t', hr')" by blast
    obtain us where us: "?rs = us @ [(a, t)]" using l(1,2) by (metis append_butlast_last_id)
    have n: "n = add_hosts (hl_nhosts hl) hr" and hl': "hl' = hl\<lparr>hl_hr := us @ [(a, t'\<lparr>hr_hi := hr_hi hr\<rparr>)], hl_nhosts := n\<rparr>"
      using assms(4) l us unfolding hostlist_push_range_def Let_def by auto
    have t: "range_ok t" using ok(1) us by simp
    note j = hosts_join [OF t assms(2) l(3-5)]
    have h: "hl_hosts hl' = hl_hosts hl @ hr_hosts hr" using j(1) us hl' by (simp add: hl_hosts_def)
    have "hl_ok hl'" using ok us j(2) h assms(3) n c unfolding hl_ok_def hl' by (auto simp: hl_hosts_def)
    then show ?thesis using h n c by simp
  qed
  then show "hl_ok hl'" "hl_hosts hl' = hl_hosts hl @ hr_hosts hr" "n = int (length (hl_hosts hl'))" by auto
qed

lemma hostlist_new_ok [simp]: "hl_ok hostlist_new" "hl_hosts hostlist_new = []"
  by (simp_all add: hl_ok_def hostlist_new_def hl_hosts_def)

end
