(* ===== verification/Lsd_Hostlist_Text.thy ===== *)
theory Lsd_Hostlist_Text
  imports Lsd_Hostlist_Facts
begin

text \<open>
  Host expressions: their text, the hosts they stand for, and that \<open>hostlist_create\<close> and
  \<open>hostlist_ranged_string\<close> of \<open>liblsd/hostlist.c\<close> agree on them.
\<close>

section \<open>Numerals with leading zeros\<close>

lemma digit_char_digit_val: "isdigit c \<Longrightarrow> digit_char (digit_val c) = c"
  by (simp add: isdigit_def digit_char_def digit_val_def)

lemma digit_char_0 [simp]: "digit_char 0 = CHR ''0''" "isdigit CHR ''0''"
  by (simp_all add: isdigit_def) (code_simp)

lemma digit_val_bound: "isdigit c \<Longrightarrow> digit_val c < 10"
  by (auto simp: isdigit_def digit_val_def)

lemma nat_of_digits_pad [simp]: "nat_of_digits (replicate n CHR ''0'' @ ds) = nat_of_digits ds"
proof (induction n)
  case (Suc n)
  have "nat_of_digits (CHR ''0'' # xs) = nat_of_digits xs" for xs by (simp add: nat_of_digits_def digit_val_def)
  then show ?case using Suc by simp
qed simp

lemma digits_pad:
  assumes "\<forall>c \<in> set d. isdigit c" "d \<noteq> []"
  shows "replicate (length d - length (dec_string (nat_of_digits d))) CHR ''0'' @ dec_string (nat_of_digits d) = d"
  using assms
proof (induction d rule: rev_induct)
  case (snoc c d)
  have c: "digit_char (digit_val c) = c" "digit_val c < 10" using snoc(2) digit_char_digit_val digit_val_bound by auto
  show ?case
  proof (cases "nat_of_digits d = 0")
    case True
    have "d = replicate (length d) CHR ''0''"
    proof (cases "d = []")
      case False
      then have "replicate (length d - 1) CHR ''0'' @ ''0'' = d"
        using snoc(1,2) True by (simp add: dec_string_digit)
      then show ?thesis using False by (metis One_nat_def Suc_pred length_greater_0_conv replicate_append_same replicate_Suc)
    qed simp
    then show ?thesis using True c by (simp add: dec_string_digit)
  next
    case False
    then have d: "d \<noteq> []" by auto
    have "dec_string (10 * nat_of_digits d + digit_val c) = dec_string (nat_of_digits d) @ [c]"
      using False c by (subst dec_string.simps) simp
    moreover have "replicate (length d - length (dec_string (nat_of_digits d))) CHR ''0'' @ dec_string (nat_of_digits d) = d"
      using snoc(1,2) d by simp
    ultimately show ?thesis by simp
  qed
qed simp

lemma strtoul10_digits:
  assumes "\<forall>c \<in> set d. isdigit c" "d \<noteq> []"
  shows "strtoul10 d = (strtou64 (False, nat_of_digits d), [])"
proof -
  have h: "isdigit (hd d)" using assms by simp
  then have "skip_ws d = d" "take_sign d = (False, d)"
    using assms(2) by (simp_all add: skip_ws_nonspace take_sign_digit)
  then show ?thesis using assms by (simp add: strtoul10_def conv_int_def Let_def)
qed

lemma fmt_width_digits: "c \<in> set (fmt_width w n) \<Longrightarrow> isdigit c"
  by (auto simp: fmt_width_def print_u64_def dest: dec_string_digits)

lemma fmt_width_ne [simp]: "fmt_width w n \<noteq> []"
  by (simp add: fmt_width_def print_u64_def)

lemma strtoul10_fmt [simp]: "strtoul10 (fmt_width w n) = (n, [])"
proof -
  have v: "nat_of_digits (fmt_width w n) = unat n" by (simp add: fmt_width_def print_u64_def)
  have "\<not> 18446744073709551616 \<le> unat n" using unat_u64_bound [of n] by (meson not_le)
  then have "strtou64 (False, unat n) = n" by (simp add: strtou64_def)
  then show ?thesis using strtoul10_digits [of "fmt_width w n"] v fmt_width_digits by auto
qed

text \<open>The width read from the text pads the suffixes of the range as before.\<close>

lemma fmt_width_len: "n \<le> k \<Longrightarrow> fmt_width (length (fmt_width w n)) k = fmt_width w k"
  by (rule same_padding [of n]) (simp_all add: zero_padded_eq fmt_width_def)

section \<open>Single hosts\<close>

lemma host_prefix_end_split:
  "\<exists>p d. s = p @ d \<and> host_prefix_end s = length p \<and> (\<forall>c \<in> set d. isdigit c)"
proof -
  have "s = rev (dropWhile isdigit (rev s)) @ rev (takeWhile isdigit (rev s))"
    by (metis rev_append rev_rev_ident takeWhile_dropWhile_id)
  moreover have "\<forall>c \<in> set (rev (takeWhile isdigit (rev s))). isdigit c" by (auto dest: set_takeWhileD)
  ultimately show ?thesis unfolding host_prefix_end_def by (metis length_rev)
qed

lemma push_host_range:
  "\<exists>hr. hostlist_push_host hl s = snd (hostlist_push_range hl hr) \<and> range_ok hr \<and> hr_hosts hr = [s]"
proof -
  obtain p d where s: "s = p @ d" "host_prefix_end s = length p" "\<forall>c \<in> set d. isdigit c" using host_prefix_end_split by blast
  let ?hn = "hostname_create s"
  show ?thesis
  proof (cases "hn_suffix ?hn")
    case None
    then show ?thesis by (intro exI [of _ "hostrange_create_single s"])
      (simp add: hostlist_push_host_def hostrange_create_single_def range_ok_def hr_hosts_def)
  next
    case (Some sfx)
    let ?num = "strtou64 (False, nat_of_digits d)"
    have d: "d \<noteq> []" using Some s by (auto simp: hostname_create_def hostname_create_with_suffix_def)
    have st: "strtoul10 d = (?num, [])" by (rule strtoul10_digits [OF s(3) d])
    have c: "sfx = d" "hn_prefix ?hn = p" "hn_num ?hn = ?num" "unat ?num \<le> max_host_suffix"
      using Some s d st by (auto simp: hostname_create_def hostname_create_with_suffix_def split: if_splits)
    have lt: "nat_of_digits d < 2 ^ 64"
      by (rule ccontr) (use c(4) in \<open>simp add: strtou64_def unat_max_u64 max_host_suffix_def\<close>)
    have u: "unat ?num = nat_of_digits d" using lt by (simp add: strtou64_def unat_of_nat)
    have "fmt_width (length d) ?num = d" using digits_pad [OF s(3) d] by (simp add: fmt_width_def print_u64_def u)
    then show ?thesis using Some c u s(1)
      by (intro exI [of _ "hostrange_create p ?num ?num (length d)"])
        (simp add: hostlist_push_host_def hostrange_create_def range_ok_def hr_hosts_def max_host_suffix_def)
  qed
qed

lemma push_host_ok:
  assumes "hl_ok hl" "length (hl_hosts hl) + 1 < 2 ^ 31"
  shows "hl_ok (hostlist_push_host hl s)" "hl_hosts (hostlist_push_host hl s) = hl_hosts hl @ [s]"
proof -
  obtain hr where hr: "hostlist_push_host hl s = snd (hostlist_push_range hl hr)" "range_ok hr" "hr_hosts hr = [s]"
    using push_host_range by blast
  obtain n hl' where p: "hostlist_push_range hl hr = (n, hl')" by (cases "hostlist_push_range hl hr")
  note ok = push_range_ok [OF assms(1) hr(2) _ p]
  show "hl_ok (hostlist_push_host hl s)" "hl_hosts (hostlist_push_host hl s) = hl_hosts hl @ [s]"
    using ok assms(2) hr p by simp_all
qed

section \<open>Host expressions\<close>

datatype hexpr = HName string | HBracket string "prange list"

definition item_text :: "prange \<Rightarrow> string" where
  "item_text r = fmt_width (pr_width r) (pr_lo r) @
     (if pr_lo r < pr_hi r then ''-'' @ fmt_width (pr_width r) (pr_hi r) else [])"

fun commas :: "string list \<Rightarrow> string" where
  "commas [] = []"
| "commas [x] = x"
| "commas (x # y # zs) = x @ '','' @ commas (y # zs)"

fun expr_text :: "hexpr \<Rightarrow> string" where
  "expr_text (HName s) = s"
| "expr_text (HBracket p rs) = p @ ''['' @ commas (map item_text rs) @ '']''"

definition item_range :: "string \<Rightarrow> prange \<Rightarrow> hostrange" where
  "item_range p r = hostrange_create p (pr_lo r) (pr_hi r) (pr_width r)"

fun expr_hosts :: "hexpr \<Rightarrow> string list" where
  "expr_hosts (HName s) = [s]"
| "expr_hosts (HBracket p rs) = hosts (map (item_range p) rs)"

text \<open>Characters that end a token or delimit ranges.\<close>

definition name_ok :: "string \<Rightarrow> bool" where
  "name_ok s \<longleftrightarrow> list_all (\<lambda>c. \<not> is_sep c \<and> c \<noteq> CHR ''['' \<and> c \<noteq> CHR '']'') s"

definition item_ok :: "prange \<Rightarrow> bool" where
  "item_ok r \<longleftrightarrow> pr_lo r \<le> pr_hi r \<and> unat (pr_hi r) < 10 ^ 15 \<and> unat (pr_hi r) - unat (pr_lo r) < max_range"

fun expr_ok :: "hexpr \<Rightarrow> bool" where
  "expr_ok (HName s) \<longleftrightarrow> s \<noteq> [] \<and> length s \<le> 1023 \<and> name_ok s"
| "expr_ok (HBracket p rs) \<longleftrightarrow> name_ok p \<and> rs \<noteq> [] \<and> length rs \<le> max_ranges \<and> list_all item_ok rs"

lemma fmt_width_ne2 [simp]: "[] \<noteq> fmt_width w n"
  using fmt_width_ne [of w n] by metis

lemma fmt_width_no: "\<not> isdigit c \<Longrightarrow> c \<notin> set (fmt_width w n)"
  using fmt_width_digits by blast

lemma commas_Cons: "commas (x # ys) = x @ (if ys = [] then [] else CHR '','' # commas ys)"
  by (cases ys) simp_all

lemma set_commas: "c \<in> set (commas xs) \<Longrightarrow> c = CHR '','' \<or> (\<exists>x \<in> set xs. c \<in> set x)"
  by (induction xs) (auto simp: commas_Cons split: if_splits)

lemma set_item_text: "c \<in> set (item_text r) \<Longrightarrow> c = CHR ''-'' \<or> isdigit c"
  by (auto simp: item_text_def dest: fmt_width_digits split: if_splits)

lemma not_digit [simp]: "\<not> isdigit CHR '',''" "\<not> isdigit CHR ''[''" "\<not> isdigit CHR '']''"
  by (simp_all add: isdigit_def)

lemma digit_not_sep [simp]: "isdigit c \<Longrightarrow> \<not> is_sep c"
  by (auto simp: is_sep_def isdigit_def)

lemma not_sep [simp]: "\<not> is_sep CHR ''-''" "\<not> is_sep CHR ''[''" "\<not> is_sep CHR '']''" "is_sep CHR '',''"
  by (simp_all add: is_sep_def)

lemma name_ok_no: "name_ok s \<Longrightarrow> c \<in> set s \<Longrightarrow> \<not> is_sep c \<and> c \<noteq> CHR ''['' \<and> c \<noteq> CHR '']''"
  by (simp add: name_ok_def list_all_iff)

text \<open>The text between the brackets.\<close>

lemma items_no_bracket:
  assumes "b = commas (map item_text rs)"
  shows "CHR ''['' \<notin> set b" "CHR '']'' \<notin> set b"
  using set_commas [of _ "map item_text rs"] set_item_text unfolding assms by fastforce+

section \<open>Tokens\<close>

lemma next_tok_loop_stop:
  assumes "advance_past_brackets (tok @ takeWhile (\<lambda>c. \<not> is_sep c) str) (dropWhile (\<lambda>c. \<not> is_sep c) str) = None"
  shows "next_tok_loop tok str = (tok @ takeWhile (\<lambda>c. \<not> is_sep c) str, dropWhile (\<lambda>c. \<not> is_sep c) str)"
  by (subst next_tok_loop.simps) (simp add: assms Let_def)

lemma next_tok_loop_go:
  assumes "advance_past_brackets (tok @ takeWhile (\<lambda>c. \<not> is_sep c) str) (dropWhile (\<lambda>c. \<not> is_sep c) str) = Some (t, s)"
  shows "next_tok_loop tok str = next_tok_loop t s"
  by (subst next_tok_loop.simps) (simp add: assms Let_def)

definition tok_end :: "string \<Rightarrow> bool" where
  "tok_end rest \<longleftrightarrow> rest = [] \<or> is_sep (hd rest)"

lemma tok_end_split:
  assumes "tok_end rest" "\<forall>c \<in> set x. \<not> is_sep c"
  shows "takeWhile (\<lambda>c. \<not> is_sep c) (x @ rest) = x" "dropWhile (\<lambda>c. \<not> is_sep c) (x @ rest) = rest"
  using assms by (cases rest; simp add: tok_end_def)+

lemma next_tok_loop_name:
  assumes "name_ok s" "tok_end rest"
  shows "next_tok_loop [] (s @ rest) = (s, rest)"
proof -
  have "\<forall>c \<in> set s. \<not> is_sep c" using assms(1) name_ok_no by blast
  note sp = tok_end_split [OF assms(2) this]
  have "CHR ''['' \<notin> set s" using assms(1) name_ok_no by blast
  then have "advance_past_brackets s rest = None" by (simp add: advance_past_brackets_def)
  then show ?thesis using next_tok_loop_stop [of "[]" "s @ rest"] sp by simp
qed

lemma next_tok_loop_bracket:
  assumes "name_ok p" "tok_end rest" "CHR ''['' \<notin> set b" "CHR '']'' \<notin> set b"
  shows "next_tok_loop [] (p @ ''['' @ b @ '']'' @ rest) = (p @ ''['' @ b @ '']'', rest)"
proof -
  have p: "\<forall>c \<in> set p. \<not> is_sep c" "CHR '']'' \<notin> set p" using assms(1) name_ok_no by blast+
  have stop: "advance_past_brackets (p @ ''['' @ b @ '']'') rest = None" by (simp add: advance_past_brackets_def)
  show ?thesis
  proof (cases "\<forall>c \<in> set b. \<not> is_sep c")
    case True
    then have "\<forall>c \<in> set (p @ ''['' @ b @ '']''). \<not> is_sep c" using p(1) by auto
    note sp = tok_end_split [OF assms(2) this]
    show ?thesis using next_tok_loop_stop [of "[]" "p @ ''['' @ b @ '']'' @ rest"] sp stop by simp
  next
    case False
    define b1 where "b1 = takeWhile (\<lambda>c. \<not> is_sep c) b"
    define b2 where "b2 = dropWhile (\<lambda>c. \<not> is_sep c) b"
    have b2: "b2 \<noteq> []" using False by (auto simp: b2_def)
    have b: "b = b1 @ b2" "\<forall>c \<in> set b1. \<not> is_sep c" "b2 \<noteq> []" "is_sep (hd b2)"
      using b2 hd_dropWhile [of "\<lambda>c. \<not> is_sep c" b] by (auto simp: b1_def b2_def dest: set_takeWhileD)
    have "tok_end (b2 @ '']'' @ rest)" using b(3,4) by (simp add: tok_end_def)
    moreover have "\<forall>c \<in> set (p @ ''['' @ b1). \<not> is_sep c" using p(1) b(2) by auto
    ultimately have sp: "takeWhile (\<lambda>c. \<not> is_sep c) (p @ ''['' @ b1 @ b2 @ '']'' @ rest) = p @ ''['' @ b1"
      "dropWhile (\<lambda>c. \<not> is_sep c) (p @ ''['' @ b1 @ b2 @ '']'' @ rest) = b2 @ '']'' @ rest"
      using tok_end_split [of "b2 @ '']'' @ rest" "p @ ''['' @ b1"] by simp_all
    have nb: "\<forall>c \<in> set b2. c \<noteq> CHR '']''" "CHR '']'' \<notin> set b1" "CHR ''['' \<notin> set b2" using assms(3,4) b(1) by auto
    then have "advance_past_brackets (p @ ''['' @ b1) (b2 @ '']'' @ rest) = Some (p @ ''['' @ b @ '']'', rest)"
      using p(2) b(1) by (simp add: advance_past_brackets_def)
    then have "next_tok_loop [] (p @ ''['' @ b @ '']'' @ rest) = next_tok_loop (p @ ''['' @ b @ '']'') rest"
      using next_tok_loop_go [of "[]" "p @ ''['' @ b1 @ b2 @ '']'' @ rest"] sp b(1) by simp
    also have "\<dots> = (p @ ''['' @ b @ '']'', rest)"
      using next_tok_loop_stop [of "p @ ''['' @ b @ '']''" rest] tok_end_split [OF assms(2), of "[]"] stop by simp
    finally show ?thesis .
  qed
qed

lemma next_tok_expr:
  assumes "expr_ok e" "tok_end rest"
  shows "next_tok (expr_text e @ rest) = Some (expr_text e, dropWhile is_sep rest)"
proof -
  have "next_tok_loop [] (expr_text e @ rest) = (expr_text e, rest)"
  proof (cases e)
    case (HName s)
    then show ?thesis using next_tok_loop_name assms by simp
  next
    case (HBracket p rs)
    then show ?thesis using next_tok_loop_bracket [OF _ assms(2) items_no_bracket [OF refl]] assms(1) by simp
  qed
  moreover have "expr_text e \<noteq> [] \<and> \<not> is_sep (hd (expr_text e))"
  proof (cases e)
    case (HName s)
    then show ?thesis using assms(1) name_ok_no [of s "hd s"] by simp
  next
    case (HBracket p rs)
    then show ?thesis using assms(1) name_ok_no [of p "hd p"] by (cases p) auto
  qed
  moreover then have "dropWhile is_sep (expr_text e @ rest) = expr_text e @ rest"
    by (intro dropWhile_hd_stop) simp_all
  ultimately show ?thesis by (simp add: next_tok_def)
qed


section \<open>Ranges between brackets\<close>

lemma parse_item:
  assumes "item_ok r"
  shows "parse_single_range (item_text r) = Inr \<lparr>pr_lo = pr_lo r, pr_hi = pr_hi r, pr_width = length (fmt_width (pr_width r) (pr_lo r))\<rparr>"
proof -
  let ?lo = "fmt_width (pr_width r) (pr_lo r)" and ?hi = "fmt_width (pr_width r) (pr_hi r)"
  have ok: "pr_lo r \<le> pr_hi r" "unat (pr_hi r) < 10 ^ 15" "unat (pr_hi r) - unat (pr_lo r) < max_range"
    using assms by (simp_all add: item_ok_def)
  have nd: "\<forall>c \<in> set ?lo. c \<noteq> CHR ''-''" using fmt_width_no [of "CHR ''-''"] by auto
  have "unat (pr_hi r - pr_lo r + 1) = unat (pr_hi r) - unat (pr_lo r) + 1"
    using ok by (simp add: unat_word_ariths unat_sub)
  then have range: "\<not> pr_hi r - pr_lo r + 1 > of_nat max_range"
    using ok(3) by (simp add: max_range_def word_less_nat_alt)
  have le: "\<not> pr_lo r > pr_hi r" using ok(1) by simp
  show ?thesis
  proof (cases "pr_lo r < pr_hi r")
    case False
    then have eq: "pr_hi r = pr_lo r" using ok(1) by simp
    have "CHR ''-'' \<notin> set ?lo" using nd by auto
    then show ?thesis using nd False eq range by (simp add: parse_single_range_def item_text_def Let_def)
  next
    case True
    obtain c t where hi: "?hi = c # t" by (cases ?hi) auto
    then have "c \<noteq> CHR ''-''" using fmt_width_no [of "CHR ''-''" "pr_width r" "pr_hi r"] by auto
    moreover have "strtoul10 (c # t) = (pr_hi r, [])" using strtoul10_fmt [of "pr_width r" "pr_hi r"] hi by simp
    ultimately show ?thesis using True nd hi le range by (simp add: parse_single_range_def item_text_def Let_def)
  qed
qed

lemma parse_items:
  assumes "list_all item_ok rs" "rs \<noteq> []" "length rs \<le> n"
  shows "parse_range_list (commas (map item_text rs)) n =
    Inr (map (\<lambda>r. \<lparr>pr_lo = pr_lo r, pr_hi = pr_hi r, pr_width = length (fmt_width (pr_width r) (pr_lo r))\<rparr>) rs)"
  using assms
proof (induction rs arbitrary: n)
  case (Cons r rs)
  have nc: "\<forall>c \<in> set (item_text r). c \<noteq> CHR '',''" using set_item_text by fastforce
  have n: "n \<noteq> 0" using Cons(4) by simp
  have r: "item_ok r" using Cons(2) by simp
  show ?case
  proof (cases "rs = []")
    case True
    have "CHR '','' \<notin> set (item_text r)" using nc by auto
    then show ?thesis using True nc n parse_item [OF r] by (simp add: parse_range_list.simps)
  next
    case False
    then have "commas (map item_text (r # rs)) = item_text r @ CHR '','' # commas (map item_text rs)"
      by (simp add: commas_Cons)
    moreover have "parse_range_list (commas (map item_text rs)) (n - 1) =
      Inr (map (\<lambda>r. \<lparr>pr_lo = pr_lo r, pr_hi = pr_hi r, pr_width = length (fmt_width (pr_width r) (pr_lo r))\<rparr>) rs)"
      using Cons False by simp
    ultimately show ?thesis using nc n parse_item [OF r] by (subst parse_range_list.simps) simp
  qed
qed simp

lemma item_range_ok:
  assumes "item_ok r"
  shows "range_ok (hostrange_create p (pr_lo r) (pr_hi r) (length (fmt_width (pr_width r) (pr_lo r))))"
    "hr_hosts (hostrange_create p (pr_lo r) (pr_hi r) (length (fmt_width (pr_width r) (pr_lo r)))) = hr_hosts (item_range p r)"
  using assms fmt_width_len [of "pr_lo r" _ "pr_width r"]
  by (auto simp: item_ok_def range_ok_def hostrange_create_def hr_hosts_def item_range_def dest: suffixes_mem)

lemma push_items_ok:
  assumes "hl_ok hl" "list_all item_ok rs" "length (hl_hosts hl) + length (hosts (map (item_range p) rs)) < 2 ^ 31"
    and "hl' = push_range_list hl p (map (\<lambda>r. \<lparr>pr_lo = pr_lo r, pr_hi = pr_hi r, pr_width = length (fmt_width (pr_width r) (pr_lo r))\<rparr>) rs)"
  shows "hl_ok hl' \<and> hl_hosts hl' = hl_hosts hl @ hosts (map (item_range p) rs)"
  using assms
proof (induction rs arbitrary: hl)
  case (Cons r rs)
  let ?hr = "hostrange_create p (pr_lo r) (pr_hi r) (length (fmt_width (pr_width r) (pr_lo r)))"
  obtain n h1 where p: "hostlist_push_range hl ?hr = (n, h1)" by (cases "hostlist_push_range hl ?hr")
  have r: "item_ok r" using Cons(3) by simp
  note i = item_range_ok [OF r, of p]
  have h1: "hl_ok h1" "hl_hosts h1 = hl_hosts hl @ hr_hosts (item_range p r)"
    using push_range_ok [OF Cons(2) i(1) _ p] i(2) Cons(4) by simp_all
  then show ?case using Cons(1) [OF h1(1)] Cons(3-5) p by (simp add: hostlist_push_hr_def)
qed simp

section \<open>Creating a list\<close>

lemma push_expr_ok:
  assumes "hl_ok hl" "expr_ok e" "length (hl_hosts hl) + length (expr_hosts e) < 2 ^ 31"
  shows "\<exists>hl'. push_token hl (expr_text e) = Some (Inr hl') \<and> hl_ok hl' \<and> hl_hosts hl' = hl_hosts hl @ expr_hosts e"
proof (cases e)
  case (HName s)
  have "CHR ''['' \<notin> set s" using HName assms(2) name_ok_no by auto
  then show ?thesis using HName assms push_host_ok [OF assms(1)] by (simp add: push_token_def)
next
  case (HBracket p rs)
  let ?b = "commas (map item_text rs)"
  have p: "\<forall>c \<in> set p. c \<noteq> CHR ''[''" using HBracket assms(2) name_ok_no by auto
  have b: "\<forall>c \<in> set ?b. c \<noteq> CHR '']''" using items_no_bracket(2) [OF refl] by auto
  have "parse_range_list ?b max_ranges =
    Inr (map (\<lambda>r. \<lparr>pr_lo = pr_lo r, pr_hi = pr_hi r, pr_width = length (fmt_width (pr_width r) (pr_lo r))\<rparr>) rs)"
    using parse_items HBracket assms(2) by simp
  then have "push_token hl (expr_text e) = Some (Inr (push_range_list hl p
    (map (\<lambda>r. \<lparr>pr_lo = pr_lo r, pr_hi = pr_hi r, pr_width = length (fmt_width (pr_width r) (pr_lo r))\<rparr>) rs)))"
    using p b HBracket by (simp add: push_token_def Let_def)
  then show ?thesis using push_items_ok [OF assms(1) _ _ refl, of rs p] HBracket assms(2,3) by simp
qed

lemma create_loop_ok:
  assumes "hl_ok hl" "list_all expr_ok es" "length (hl_hosts hl) + length (concat (map expr_hosts es)) < 2 ^ 31"
  shows "\<exists>hl'. create_loop (commas (map expr_text es)) hl = Some (Inr hl') \<and> hl_ok hl' \<and>
    hl_hosts hl' = hl_hosts hl @ concat (map expr_hosts es)"
  using assms
proof (induction es arbitrary: hl)
  case Nil
  then show ?case by (simp add: create_loop.simps next_tok_def)
next
  case (Cons e es)
  let ?rest = "if es = [] then [] else CHR '','' # commas (map expr_text es)"
  have e: "expr_ok e" using Cons(3) by simp
  have te: "tok_end ?rest" by (simp add: tok_end_def)
  have dr: "dropWhile is_sep ?rest = commas (map expr_text es)"
  proof (cases es)
    case (Cons e' es')
    have "expr_ok e'" using \<open>list_all expr_ok (e # es)\<close> Cons by simp
    then have "commas (map expr_text es) \<noteq> [] \<and> \<not> is_sep (hd (commas (map expr_text es)))"
      using Cons name_ok_no by (cases e') (auto simp: commas_Cons hd_append)
    then show ?thesis using Cons by (simp add: dropWhile_hd_stop)
  qed simp
  have nt: "next_tok (commas (map expr_text (e # es))) = Some (expr_text e, commas (map expr_text es))"
    using next_tok_expr [OF e te] dr by (simp add: commas_Cons)
  obtain h1 where h1: "push_token hl (expr_text e) = Some (Inr h1)" "hl_ok h1" "hl_hosts h1 = hl_hosts hl @ expr_hosts e"
    using push_expr_ok [OF Cons(2) e] Cons(4) by auto
  then show ?case using Cons(1) [OF h1(2)] Cons(3,4) nt by (subst create_loop.simps) simp
qed

section \<open>Printing\<close>

definition range_item :: "hostrange \<Rightarrow> prange" where
  "range_item hr = \<lparr>pr_lo = hr_lo hr, pr_hi = hr_hi hr, pr_width = hr_width hr\<rparr>"

text \<open>The expressions \<open>hostlist_ranged_string\<close> prints.\<close>

function exprs :: "hostrange list \<Rightarrow> hexpr list" where
  "exprs [] = []"
| "exprs (hr # rest) =
     (if is_bracket_needed hr rest
      then HBracket (hr_prefix hr) (map range_item (hr # takeWhile (hostrange_within_range hr) rest)) #
             exprs (dropWhile (hostrange_within_range hr) rest)
      else HName (hr_prefix hr @ (if hr_singlehost hr then [] else fmt_width (hr_width hr) (hr_lo hr))) # exprs rest)"
  by pat_completeness auto

termination by (relation "measure length") (auto simp: le_imp_less_Suc length_dropWhile_le)

lemma within_range_iff:
  "hostrange_within_range h1 h2 \<longleftrightarrow> hr_prefix h1 = hr_prefix h2 \<and> \<not> hr_singlehost h1 \<and> \<not> hr_singlehost h2"
  by (auto simp: hostrange_within_range_def prefix_cmp_0)

lemma within_range_trans:
  assumes "hostrange_within_range h1 h2"
  shows "hostrange_within_range h1 = hostrange_within_range h2"
  using assms by (intro ext) (auto simp: within_range_iff)

lemma numstr_fits:
  assumes "hostrange_numstr hr m = (ret, tx)" "ret < m" "\<not> hr_singlehost hr"
  shows "tx = item_text (range_item hr) \<and> ret = length tx"
  using assms by (auto simp: hostrange_numstr_def item_text_def range_item_def Let_def snprintf_fits split: if_splits)

declare bracket_loop.simps [simp del]

lemma bracket_loop_fits:
  assumes "bracket_loop True n hr rest len buf = (l, b, left)" "l < n" "\<not> hr_singlehost hr"
    and "g = hr # takeWhile (hostrange_within_range hr) rest"
  shows "b = buf @ concat (map (\<lambda>x. item_text (range_item x) @ '','') g) \<and> length b + len = length buf + l \<and>
    left = dropWhile (hostrange_within_range hr) rest"
  using assms
proof (induction rest arbitrary: hr len buf g)
  case Nil
  obtain ret tx where num: "hostrange_numstr hr (n - len) = (ret, tx)" by (cases "hostrange_numstr hr (n - len)")
  then have lt: "len + ret < n" using Nil(1,2) by (auto simp: Let_def bracket_loop.simps [of True n hr] split: if_splits)
  then have "ret < n - len" by simp
  note f = numstr_fits [OF num this Nil(3)]
  then show ?case using Nil num lt by (auto simp: Let_def bracket_loop.simps [of True n hr])
next
  case (Cons h hs)
  obtain ret tx where num: "hostrange_numstr hr (n - len) = (ret, tx)" by (cases "hostrange_numstr hr (n - len)")
  then have lt: "len + ret < n" using Cons(2,3) by (auto simp: Let_def bracket_loop.simps [of True n hr] split: if_splits)
  then have "ret < n - len" by simp
  note f = numstr_fits [OF num this Cons(4)]
  show ?case
  proof (cases "hostrange_within_range h hr")
    case True
    then have w: "hostrange_within_range hr h" by (auto simp: within_range_iff)
    have ns: "\<not> hr_singlehost h" using True by (simp add: within_range_iff)
    have "bracket_loop True n h hs (len + ret + 1) (buf @ tx @ '','') = (l, b, left)"
      using Cons(2) num lt True by (simp add: Let_def bracket_loop.simps [of True n hr])
    note IH = Cons(1) [OF this Cons(3) ns refl]
    show ?thesis using IH f w Cons(5) within_range_trans [OF w] by auto
  next
    case False
    then have "\<not> hostrange_within_range hr h" by (auto simp: within_range_iff)
    then show ?thesis using Cons(2-5) num lt f False by (auto simp: Let_def bracket_loop.simps [of True n hr])
  qed
qed

lemma concat_commas: "xs \<noteq> [] \<Longrightarrow> concat (map (\<lambda>x. f x @ '','') xs) = commas (map f xs) @ '',''"
  by (induction xs) (auto simp: commas_Cons)

lemma bracket_not_single: "is_bracket_needed hr rest \<Longrightarrow> \<not> hr_singlehost hr"
  by (auto simp: is_bracket_needed_def hostrange_count_def within_range_iff split: list.splits if_splits)

lemma get_bracketed_fits:
  assumes "get_bracketed_list hr rest n = (l, tx, left)" "l < n" "range_ok hr"
  shows "\<exists>e us. exprs (hr # rest) = e # exprs left \<and> tx = expr_text e \<and> l = length tx \<and> rest = us @ left"
proof -
  let ?p = "hr_prefix hr" and ?brk = "is_bracket_needed hr rest"
  have np: "length ?p \<le> n" using assms by (auto simp: get_bracketed_list_def Let_def split: if_splits)
  show ?thesis
  proof (cases ?brk)
    case True
    have "length ?p < n"
    proof (rule ccontr)
      assume "\<not> length ?p < n"
      then have "length ?p = n" using np by simp
      then have "l \<ge> n" using assms(1) True
        by (auto simp: get_bracketed_list_def Let_def hostrange_numstr_def bracket_loop.simps split: if_splits prod.splits)
      then show False using assms(2) by simp
    qed
    then have s: "snd (snprintf n ?p) = ?p" by (simp add: snprintf_fits)
    obtain l1 b left1 where bl: "bracket_loop True n hr rest (length ?p + 1) (?p @ ''['') = (l1, b, left1)"
      by (cases "bracket_loop True n hr rest (length ?p + 1) (?p @ ''['')")
    have l1: "l1 = l" "left1 = left" using assms bl s True \<open>length ?p < n\<close>
      by (auto simp: get_bracketed_list_def Let_def split: if_splits)
    note f = bracket_loop_fits [OF bl [unfolded l1] assms(2) bracket_not_single [OF True] refl]
    let ?g = "hr # takeWhile (hostrange_within_range hr) rest"
    define c where "c = ?p @ ''['' @ commas (map item_text (map range_item ?g))"
    have b: "b = c @ '',''"
      using f concat_commas [of ?g "\<lambda>x. item_text (range_item x)"] by (simp add: c_def comp_def)
    have l: "l = length b" using conjunct1 [OF conjunct2 [OF f]] by simp
    then have "tx = butlast b @ '']''" using assms bl s True l1 \<open>length ?p < n\<close> b
      by (auto simp: get_bracketed_list_def Let_def split: if_splits)
    then have "tx = c @ '']''" using b by (simp only: butlast_snoc)
    then have "tx = expr_text (HBracket ?p (map range_item ?g))" "l = length tx"
      using b l by (simp add: c_def, simp)
    then show ?thesis using True f
      by (intro exI [of _ "HBracket ?p (map range_item ?g)"] exI [of _ "takeWhile (hostrange_within_range hr) rest"]) simp
  next
    case False
    have nw: "\<not> hostrange_within_range h hr" if "rest = h # hs" for h hs
      using False that by (auto simp: is_bracket_needed_def within_range_iff)
    let ?num = "if hr_singlehost hr then [] else fmt_width (hr_width hr) (hr_lo hr)"
    obtain ret nt where num: "hostrange_numstr hr (n - length ?p) = (ret, nt)" by (cases "hostrange_numstr hr (n - length ?p)")
    note [simp] = bracket_loop.simps
    have l: "l = length ?p + ret" "length ?p + ret < n"
      using assms np num False nw by (auto simp: get_bracketed_list_def Let_def split: if_splits list.splits)
    then have lt: "length ?p < n" "ret < n - length ?p" by simp_all
    have nt: "nt = ?num \<and> ret = length nt"
    proof (cases "hr_singlehost hr")
      case True
      then show ?thesis using num by (simp add: hostrange_numstr_def)
    next
      case ns: False
      have "\<not> hr_lo hr < hr_hi hr"
      proof
        assume "hr_lo hr < hr_hi hr"
        then have "hr_hi hr - hr_lo hr + 1 \<le> 1" using False ns by (simp add: is_bracket_needed_def hostrange_count_def not_less)
        then show False using \<open>hr_lo hr < hr_hi hr\<close>
          using assms(3) ns by (simp add: word_le_nat_alt word_less_nat_alt unat_word_ariths unat_sub range_ok_def)
      qed
      then show ?thesis using num lt ns by (auto simp: hostrange_numstr_def snprintf_fits Let_def split: if_splits)
    qed
    then have "tx = ?p @ ?num" "left = rest"
      using assms np num False nw l lt nt by (auto simp: get_bracketed_list_def Let_def snprintf_fits split: list.splits)
    then show ?thesis using False nt l by simp
  qed
qed


lemma expr_text_ne: "exprs hrs = e # es \<Longrightarrow> list_all (\<lambda>hr. hr_singlehost hr \<longrightarrow> hr_prefix hr \<noteq> []) hrs \<Longrightarrow> expr_text e \<noteq> []"
  by (cases hrs) (auto split: if_splits)

lemma ranged_loop_stop: "len \<ge> n \<Longrightarrow> ranged_loop fuel hrs n len buf = (len, buf)"
  by (cases fuel; cases hrs) simp_all

lemma ranged_loop_fits:
  assumes "ranged_loop fuel hrs n len buf = (l, b)" "l < n" "length hrs < fuel" "len < n" "len = length buf"
    and "list_all (\<lambda>hr. range_ok hr \<and> (hr_singlehost hr \<longrightarrow> hr_prefix hr \<noteq> [])) hrs"
  shows "b = buf @ commas (map expr_text (exprs hrs)) \<and> l = length b"
  using assms
proof (induction fuel arbitrary: hrs len buf)
  case (Suc fuel)
  show ?case
  proof (cases hrs)
    case Nil
    then show ?thesis using Suc(2,6) by auto
  next
    case (Cons hr rest)
    obtain k tx left where g: "get_bracketed_list hr rest (n - len) = (k, tx, left)" by (cases "get_bracketed_list hr rest (n - len)")
    let ?next = "if len + k > 0 \<and> len + k < n \<and> left \<noteq> [] then ranged_loop fuel left n (len + k + 1) ((buf @ tx) @ '','')
      else ranged_loop fuel left n (len + k) (buf @ tx)"
    have step: "?next = (l, b)" using Suc(2,5) Cons g by (simp add: Let_def)
    have kn: "len + k < n"
    proof (rule ccontr)
      assume "\<not> len + k < n"
      then have "?next = (len + k, buf @ tx)" using ranged_loop_stop [of n "len + k"] by simp
      then show False using step Suc(3) \<open>\<not> len + k < n\<close> by simp
    qed
    have r: "range_ok hr" "list_all (\<lambda>hr. range_ok hr \<and> (hr_singlehost hr \<longrightarrow> hr_prefix hr \<noteq> [])) rest" using Suc(7) Cons by simp_all
    obtain e us where e: "exprs (hr # rest) = e # exprs left" "tx = expr_text e" "k = length tx" "rest = us @ left"
    proof -
      have "k < n - len" using kn by simp
      from get_bracketed_fits [OF g this r(1)] show ?thesis using that by blast
    qed
    have all: "list_all (\<lambda>hr. hr_singlehost hr \<longrightarrow> hr_prefix hr \<noteq> []) (hr # rest)"
      using Suc(7) Cons by (simp add: list_all_iff)
    have ne: "k > 0" using expr_text_ne [OF e(1) all] e(2,3) by simp
    have left: "list_all (\<lambda>hr. range_ok hr \<and> (hr_singlehost hr \<longrightarrow> hr_prefix hr \<noteq> [])) left" "length left < fuel"
      using r(2) e(4) Suc(4) Cons by simp_all
    show ?thesis
    proof (cases "left = []")
      case True
      then have "ranged_loop fuel [] n (len + k) (buf @ tx) = (l, b)" using step by simp
      then have "l = len + k \<and> b = buf @ tx" by (cases fuel) simp_all
      then show ?thesis using True e Cons Suc(6) by simp
    next
      case False
      then have l: "ranged_loop fuel left n (len + k + 1) ((buf @ tx) @ '','') = (l, b)" using step kn ne by simp
      have "len + k + 1 < n"
      proof (rule ccontr)
        assume "\<not> len + k + 1 < n"
        then show False using ranged_loop_stop [of n "len + k + 1"] l Suc(3) by simp
      qed
      then have IH: "b = ((buf @ tx) @ '','') @ commas (map expr_text (exprs left)) \<and> l = length b"
        using Suc(1) [OF l Suc(3) left(2) _ _ left(1)] Suc(6) e(3) by simp
      have "exprs left \<noteq> []" using False by (cases left) auto
      then show ?thesis using IH e Cons by (simp add: commas_Cons)
    qed
  qed
qed simp

text \<open>The expressions stand for the hosts of the ranges.\<close>

definition printable :: "hostrange \<Rightarrow> bool" where
  "printable hr \<longleftrightarrow> range_ok hr \<and> name_ok (hr_prefix hr) \<and> (hr_singlehost hr \<longrightarrow> hr_prefix hr \<noteq> []) \<and>
     length (hr_prefix hr) + (if hr_singlehost hr then 0 else length (fmt_width (hr_width hr) (hr_lo hr))) \<le> 1023 \<and>
     unat (hr_hi hr) - unat (hr_lo hr) < max_range"

lemma item_range_item: "\<not> hr_singlehost hr \<Longrightarrow> item_range (hr_prefix hr) (range_item hr) = hr"
  by (cases hr) (simp add: item_range_def range_item_def hostrange_create_def)

lemma count_1:
  assumes "range_ok hr" "\<not> hostrange_count hr > 1" "\<not> hr_singlehost hr"
  shows "hr_hi hr = hr_lo hr"
proof -
  have "hr_lo hr \<le> hr_hi hr" "unat (hr_hi hr) < 10 ^ 15" using assms(1,3) by (simp_all add: range_ok_def)
  moreover then have "unat (hr_hi hr - hr_lo hr + 1) = unat (hr_hi hr) - unat (hr_lo hr) + 1"
    by (simp add: unat_word_ariths unat_sub)
  ultimately show ?thesis using assms(2,3) by (simp add: hostrange_count_def word_less_nat_alt word_le_nat_alt word_unat_eq_iff)
qed

lemma name_ok_append [simp]: "name_ok (a @ b) \<longleftrightarrow> name_ok a \<and> name_ok b"
  by (simp add: name_ok_def)

lemma name_ok_fmt [simp]: "name_ok (fmt_width w n)"
  using fmt_width_digits [of _ w n] fmt_width_no [of "CHR ''[''" w n] fmt_width_no [of "CHR '']''" w n]
  by (auto simp: name_ok_def list_all_iff dest: digit_not_sep)

lemma exprs_ok:
  assumes "list_all printable hrs" "length hrs \<le> max_ranges"
  shows "list_all expr_ok (exprs hrs) \<and> concat (map expr_hosts (exprs hrs)) = hosts hrs"
  using assms
proof (induction hrs rule: exprs.induct)
  case (2 hr rest)
  let ?g = "takeWhile (hostrange_within_range hr) rest" and ?d = "dropWhile (hostrange_within_range hr) rest"
  have p: "printable hr" "list_all printable rest" using 2(3) by simp_all
  show ?case
  proof (cases "is_bracket_needed hr rest")
    case True
    have ns: "\<not> hr_singlehost hr" by (rule bracket_not_single [OF True])
    have g: "list_all printable ?g" "list_all printable ?d"
      using p(2) by (auto simp: list_all_iff dest: set_takeWhileD set_dropWhileD)
    have mem: "hr_prefix h = hr_prefix hr \<and> \<not> hr_singlehost h" if "h \<in> set (hr # ?g)" for h
      using that ns by (auto simp: within_range_iff dest: set_takeWhileD)
    have "list_all item_ok (map range_item (hr # ?g))"
      unfolding list_all_iff set_map
    proof (intro ballI)
      fix r assume "r \<in> range_item ` set (hr # ?g)"
      then obtain h where h: "r = range_item h" "h \<in> set (hr # ?g)" by blast
      then have "printable h" using g(1) p(1) by (auto simp: list_all_iff)
      then show "item_ok r" using mem [OF h(2)] h(1) by (simp add: item_ok_def range_item_def printable_def range_ok_def)
    qed
    moreover have "length (hr # ?g) \<le> max_ranges" using 2(4) length_takeWhile_le [of "hostrange_within_range hr" rest] by simp
    moreover have "map (item_range (hr_prefix hr)) (map range_item (hr # ?g)) = hr # ?g"
      unfolding map_map
    proof (rule map_idI)
      fix h assume "h \<in> set (hr # ?g)"
      then show "(item_range (hr_prefix hr) \<circ> range_item) h = h"
        using mem [of h] item_range_item [of h] by simp
    qed
    moreover have "hosts ?g @ hosts ?d = hosts rest"
      unfolding hosts_simps(3) [symmetric] takeWhile_dropWhile_id ..
    moreover have "list_all expr_ok (exprs ?d) \<and> concat (map expr_hosts (exprs ?d)) = hosts ?d"
      using 2(1) [OF True g(2)] 2(4) length_dropWhile_le [of "hostrange_within_range hr" rest] by simp
    ultimately show ?thesis using True p(1) by (simp add: printable_def)
  next
    case False
    have IH: "list_all expr_ok (exprs rest) \<and> concat (map expr_hosts (exprs rest)) = hosts rest"
      using 2(2) [OF False p(2)] 2(4) by simp
    have "hr_hosts hr = [hr_prefix hr @ (if hr_singlehost hr then [] else fmt_width (hr_width hr) (hr_lo hr))]"
      using False p(1) count_1 [of hr] by (auto simp: hr_hosts_def is_bracket_needed_def printable_def)
    then show ?thesis using IH False p(1) by (cases "hr_singlehost hr") (simp_all add: printable_def)
  qed
qed simp


section \<open>Properties\<close>

text \<open>C25: \<open>hostlist_create\<close> of a comma-separated list of host names and bracketed ranges returns a list of exactly
  the hosts these stand for, in order, with their zero padding, and counts them.\<close>

theorem hostlist_create_correct:
  assumes "list_all expr_ok es" "length (concat (map expr_hosts es)) < 2 ^ 31"
  shows "\<exists>hl. hostlist_create (Some (commas (map expr_text es))) = Some (Inr hl) \<and> hl_ok hl \<and>
    hl_hosts hl = concat (map expr_hosts es) \<and> hostlist_count hl = int (length (hl_hosts hl))"
  using create_loop_ok [OF hostlist_new_ok(1) assms(1)] assms(2)
  by (auto simp: hostlist_create_def hostlist_create_bracketed_def hostlist_count_def hl_ok_def)

theorem hostlist_create_correct_witness:
  "\<exists>hl. hostlist_create (Some ''foo[08-10,3],bar'') = Some (Inr hl) \<and>
    hl_hosts hl = [''foo08'', ''foo09'', ''foo10'', ''foo3'', ''bar''] \<and> hostlist_count hl = 5"
proof -
  let ?es = "[HBracket ''foo'' [\<lparr>pr_lo = 8, pr_hi = 10, pr_width = 2\<rparr>, \<lparr>pr_lo = 3, pr_hi = 3, pr_width = 1\<rparr>], HName ''bar'']"
  have h: "concat (map expr_hosts ?es) = [''foo08'', ''foo09'', ''foo10'', ''foo3'', ''bar'']"
    and t: "commas (map expr_text ?es) = ''foo[08-10,3],bar''" by code_simp+
  have "list_all expr_ok ?es" by code_simp
  then obtain hl where "hostlist_create (Some ''foo[08-10,3],bar'') = Some (Inr hl)"
    "hl_hosts hl = [''foo08'', ''foo09'', ''foo10'', ''foo3'', ''bar'']" "hostlist_count hl = int (length (hl_hosts hl))"
    using hostlist_create_correct [of ?es] unfolding h t by auto
  then show ?thesis by simp
qed

text \<open>C26: the text \<open>hostlist_ranged_string\<close> writes, when it reports that it fit the buffer, is read back by
  \<open>hostlist_create\<close> as a list of the same hosts in the same order. The ranges hold fewer than \<open>MAX_RANGE\<close> hosts, which
  is what the parser accepts.\<close>

theorem hostlist_ranged_roundtrip:
  assumes "hl_ok hl" "list_all printable (map snd (hl_hr hl))" "length (hl_hr hl) \<le> max_ranges"
    and "hostlist_ranged_string hl n = (len, s)" "len \<ge> 0"
  shows "len = int (length s) \<and>
    (\<exists>hl'. hostlist_create (Some s) = Some (Inr hl') \<and> hl_ok hl' \<and> hl_hosts hl' = hl_hosts hl)"
proof -
  let ?hrs = "map snd (hl_hr hl)"
  obtain l b where rl: "ranged_loop (length (hl_hr hl) + 1) ?hrs n 0 [] = (l, b)"
    by (cases "ranged_loop (length (hl_hr hl) + 1) ?hrs n 0 []")
  have l: "l < n" "len = int l" "s = b" using assms(4,5) rl by (auto simp: hostlist_ranged_string_def split: if_splits)
  have "list_all (\<lambda>hr. range_ok hr \<and> (hr_singlehost hr \<longrightarrow> hr_prefix hr \<noteq> [])) ?hrs"
    using assms(2) by (simp add: list_all_iff printable_def)
  then have b: "b = commas (map expr_text (exprs ?hrs))" "l = length b"
    using ranged_loop_fits [OF rl l(1)] l(1) by simp_all
  have "list_all expr_ok (exprs ?hrs)" "concat (map expr_hosts (exprs ?hrs)) = hl_hosts hl"
    using exprs_ok [OF assms(2)] assms(3) by (simp_all add: hl_hosts_def)
  moreover have "length (hl_hosts hl) < 2 ^ 31" using assms(1) by (simp add: hl_ok_def)
  ultimately obtain hl' where "create_loop b hostlist_new = Some (Inr hl')" "hl_ok hl'" "hl_hosts hl' = hl_hosts hl"
    using create_loop_ok [OF hostlist_new_ok(1), of "exprs ?hrs"] b(1) by auto
  then show ?thesis using l b(2) by (simp add: hostlist_create_def hostlist_create_bracketed_def)
qed

definition hl_example :: hostlist where
  "hl_example = (case hostlist_create (Some ''foo[08-10,3],bar'') of Some (Inr hl) \<Rightarrow> hl | _ \<Rightarrow> hostlist_new)"

lemma hl_example_eq:
  "hl_example = \<lparr>hl_hr = [(0, \<lparr>hr_prefix = ''foo'', hr_lo = 8, hr_hi = 10, hr_width = 2, hr_singlehost = False\<rparr>),
     (1, \<lparr>hr_prefix = ''foo'', hr_lo = 3, hr_hi = 3, hr_width = 1, hr_singlehost = False\<rparr>),
     (2, \<lparr>hr_prefix = ''bar'', hr_lo = 0, hr_hi = 0, hr_width = 0, hr_singlehost = True\<rparr>)], hl_nhosts = 5, hl_ilist = [], hl_next = 3\<rparr>"
  by code_simp

lemma hl_example_ok: "hl_ok hl_example" "list_all printable (map snd (hl_hr hl_example))"
  "hl_hosts hl_example = [''foo08'', ''foo09'', ''foo10'', ''foo3'', ''bar'']"
proof -
  show h: "hl_hosts hl_example = [''foo08'', ''foo09'', ''foo10'', ''foo3'', ''bar'']" by code_simp
  show "list_all printable (map snd (hl_hr hl_example))" by code_simp
  then have "list_all range_ok (map snd (hl_hr hl_example))" by (auto simp: list_all_iff printable_def)
  then show "hl_ok hl_example" using h by (auto simp: hl_ok_def hl_example_eq)
qed

theorem hostlist_ranged_roundtrip_witness:
  "\<exists>hl'. hostlist_ranged_string hl_example 100 = (16, ''foo[08-10,3],bar'') \<and>
    hostlist_create (Some ''foo[08-10,3],bar'') = Some (Inr hl') \<and> hl_hosts hl' = hl_hosts hl_example"
proof -
  have p: "hostlist_ranged_string hl_example 100 = (16, ''foo[08-10,3],bar'')" by code_simp
  have "length (hl_hr hl_example) \<le> max_ranges" by (simp add: hl_example_eq max_ranges_def)
  from hostlist_ranged_roundtrip [OF hl_example_ok(1,2) this p] show ?thesis using p by auto
qed

end
