(* ===== verification/Lsd_Hostlist_Ops.thy ===== *)
theory Lsd_Hostlist_Ops
  imports Lsd_Hostlist_Text
begin

text \<open>
  Taking hosts out of a list of \<open>liblsd/hostlist.c\<close> at either end, by position, by name and through an iterator.
\<close>

section \<open>Sources of hosts\<close>

text \<open>An operation that returns the hosts of a sequence one after the other and then the null pointer.\<close>

fun drain_hosts :: "('s \<Rightarrow> (string option \<times> 's) option) \<Rightarrow> nat \<Rightarrow> 's \<Rightarrow> string list option" where
  "drain_hosts f 0 s = None"
| "drain_hosts f (Suc fuel) s =
     (case f s of
        None \<Rightarrow> None
      | Some (None, _) \<Rightarrow> Some []
      | Some (Some h, s') \<Rightarrow> map_option ((#) h) (drain_hosts f fuel s'))"

locale host_source =
  fixes ok :: "'s \<Rightarrow> bool" and view :: "'s \<Rightarrow> string list" and f :: "'s \<Rightarrow> (string option \<times> 's) option"
  assumes source_end: "ok s \<Longrightarrow> view s = [] \<Longrightarrow> \<exists>s'. f s = Some (None, s') \<and> ok s' \<and> view s' = []"
    and source_next: "ok s \<Longrightarrow> view s = x # xs \<Longrightarrow> \<exists>s'. f s = Some (Some x, s') \<and> ok s' \<and> view s' = xs"
begin

lemma drain: "ok s \<Longrightarrow> length (view s) < fuel \<Longrightarrow> drain_hosts f fuel s = Some (view s)"
proof (induction fuel arbitrary: s)
  case (Suc fuel)
  show ?case
  proof (cases "view s")
    case Nil
    then show ?thesis using source_end [OF Suc(2) Nil] by auto
  next
    case (Cons x xs)
    obtain s' where s': "f s = Some (Some x, s')" "ok s'" "view s' = xs" using source_next [OF Suc(2) Cons] by blast
    then show ?thesis using Suc(1) [OF s'(2)] Suc(3) Cons by simp
  qed
qed simp

end

section \<open>The ends of a range\<close>

lemma hr_hosts_ne [simp]: "range_ok hr \<Longrightarrow> hr_hosts hr \<noteq> []"
  by (auto simp: range_ok_def hr_hosts_def suffixes_def word_le_nat_alt split: if_splits)

lemma fmt_width_bound:
  assumes "unat n < 10 ^ 15"
  shows "length (fmt_width w n) < w + 16"
proof -
  have "length (dec_string (unat n)) \<le> 15" by (rule length_dec_string_le) (use assms in simp_all)
  then show ?thesis by (simp add: fmt_width_def print_u64_def)
qed

lemma suffixes_last: "lo < hi \<Longrightarrow> suffixes lo hi = suffixes lo (hi - 1) @ [hi]"
proof -
  assume a: "lo < hi"
  then have h: "unat hi = Suc (unat (hi - 1))" using unat_gt_0 [of hi] by (auto simp: unat_minus_one word_less_nat_alt)
  then have "lo \<le> hi - 1" using a by (simp add: word_le_nat_alt word_less_nat_alt)
  then show ?thesis using suffixes_split [of lo "hi - 1" hi hi] h by simp
qed

lemma suffixes_first: "lo < hi \<Longrightarrow> suffixes lo hi = lo # suffixes (lo + 1) hi"
proof -
  assume a: "lo < hi"
  then have "unat lo < unat hi" by (simp add: word_less_nat_alt)
  then have "Suc (unat lo) < 18446744073709551616" using unat_u64_bound [of hi] by linarith
  then have l: "unat (lo + 1) = Suc (unat lo)" by (simp add: unat_word_ariths)
  then have "lo + 1 \<le> hi" using a by (simp add: word_le_nat_alt word_less_nat_alt)
  then show ?thesis using suffixes_split [of lo lo "lo + 1" hi] l by simp
qed

lemma pop_range:
  assumes "range_ok hr" "hostrange_pop hr = (h, hr')"
  shows "h = Some (last (hr_hosts hr))"
    "hostrange_empty hr' \<longleftrightarrow> butlast (hr_hosts hr) = []"
    "\<not> hostrange_empty hr' \<Longrightarrow> range_ok hr' \<and> hr_hosts hr' = butlast (hr_hosts hr)"
proof -
  have *: "h = Some (last (hr_hosts hr)) \<and> (if butlast (hr_hosts hr) = [] then hostrange_empty hr'
    else \<not> hostrange_empty hr' \<and> range_ok hr' \<and> hr_hosts hr' = butlast (hr_hosts hr))"
  proof (cases "hr_singlehost hr")
    case True
    then show ?thesis using assms by (auto simp: hostrange_pop_def hr_hosts_def hostrange_empty_def range_ok_def)
  next
    case False
    let ?p = "\<lambda>k. hr_prefix hr @ fmt_width (hr_width hr) k"
    have ok: "hr_lo hr \<le> hr_hi hr" "unat (hr_hi hr) < 10 ^ 15" using assms(1) False by (simp_all add: range_ok_def)
    have "unat (hostrange_count hr) > 0" using count_nat [OF assms(1)] hr_hosts_ne [OF assms(1)] by simp
    then have c: "hostrange_count hr > 0" by (simp add: word_less_nat_alt)
    have "length (?p (hr_hi hr)) < length (hr_prefix hr) + hr_width hr + 16"
      using fmt_width_bound [OF ok(2), of "hr_width hr"] by simp
    then have h: "h = Some (?p (hr_hi hr))" "hr' = hr\<lparr>hr_hi := hr_hi hr - 1\<rparr>"
      using assms(2) False c by (auto simp: hostrange_pop_def snprintf_fits Let_def simp del: length_append)
    show ?thesis
    proof (cases "hr_lo hr < hr_hi hr")
      case True
      have hh: "hr_hosts hr = map ?p (suffixes (hr_lo hr) (hr_hi hr - 1)) @ [?p (hr_hi hr)]"
        using False suffixes_last [OF True] by (simp add: hr_hosts_def)
      have "hr_hi hr \<noteq> 0" using True by auto
      then have u: "unat (hr_hi hr - 1) = unat (hr_hi hr) - 1" "0 < unat (hr_hi hr)"
        by (simp_all add: unat_minus_one unat_gt_0)
      then have le: "hr_lo hr \<le> hr_hi hr - 1" "unat (hr_hi hr - 1) < 10 ^ 15"
        using True ok(2) by (simp_all add: word_le_nat_alt word_less_nat_alt)
      then have "hr_hi hr - 1 \<noteq> - 1" by (auto simp: unat_max_u64)
      moreover have "suffixes (hr_lo hr) (hr_hi hr - 1) \<noteq> []" using le(1) by (simp add: suffixes_def word_le_nat_alt)
      ultimately show ?thesis using False h hh le by (simp add: range_ok_def hr_hosts_def hostrange_empty_def not_less)
    next
      case nl: False
      then have eq: "hr_hi hr = hr_lo hr" using ok(1) by simp
      have "hostrange_empty hr'"
      proof (cases "hr_lo hr = 0")
        case True
        then show ?thesis using h(2) eq by (simp add: hostrange_empty_def)
      next
        case False
        then have "unat (hr_lo hr - 1) < unat (hr_lo hr)" by (simp add: unat_minus_one unat_gt_0)
        then show ?thesis using h(2) eq by (simp add: hostrange_empty_def word_less_nat_alt)
      qed
      then show ?thesis using False h eq by (simp add: hr_hosts_def)
    qed
  qed
  show "h = Some (last (hr_hosts hr))" "hostrange_empty hr' \<longleftrightarrow> butlast (hr_hosts hr) = []"
    "\<not> hostrange_empty hr' \<Longrightarrow> range_ok hr' \<and> hr_hosts hr' = butlast (hr_hosts hr)"
    using * by (auto split: if_splits)
qed

lemma shift_range:
  assumes "range_ok hr" "hostrange_shift hr = (h, hr')"
  shows "h = Some (hd (hr_hosts hr))"
    "hostrange_empty hr' \<longleftrightarrow> tl (hr_hosts hr) = []"
    "\<not> hostrange_empty hr' \<Longrightarrow> range_ok hr' \<and> hr_hosts hr' = tl (hr_hosts hr)"
proof -
  have *: "h = Some (hd (hr_hosts hr)) \<and> (if tl (hr_hosts hr) = [] then hostrange_empty hr'
    else \<not> hostrange_empty hr' \<and> range_ok hr' \<and> hr_hosts hr' = tl (hr_hosts hr))"
  proof (cases "hr_singlehost hr")
    case True
    then show ?thesis using assms by (auto simp: hostrange_shift_def hr_hosts_def hostrange_empty_def range_ok_def)
  next
    case False
    let ?p = "\<lambda>k. hr_prefix hr @ fmt_width (hr_width hr) k"
    have ok: "hr_lo hr \<le> hr_hi hr" "unat (hr_hi hr) < 10 ^ 15" using assms(1) False by (simp_all add: range_ok_def)
    then have lo: "unat (hr_lo hr) < 10 ^ 15" by (simp add: word_le_nat_alt)
    have "unat (hostrange_count hr) > 0" using count_nat [OF assms(1)] hr_hosts_ne [OF assms(1)] by simp
    then have c: "hostrange_count hr > 0" by (simp add: word_less_nat_alt)
    have "length (?p (hr_lo hr)) < length (hr_prefix hr) + hr_width hr + 16"
      using fmt_width_bound [OF lo, of "hr_width hr"] by simp
    then have h: "h = Some (?p (hr_lo hr))" "hr' = hr\<lparr>hr_lo := hr_lo hr + 1\<rparr>"
      using assms(2) False c by (auto simp: hostrange_shift_def snprintf_fits Let_def simp del: length_append)
    have l: "unat (hr_lo hr + 1) = Suc (unat (hr_lo hr))" using lo by (simp add: unat_word_ariths)
    have m: "hr_hi hr \<noteq> - 1" using ok(2) by (auto simp: unat_max_u64)
    show ?thesis
    proof (cases "hr_lo hr < hr_hi hr")
      case True
      have hh: "hr_hosts hr = ?p (hr_lo hr) # map ?p (suffixes (hr_lo hr + 1) (hr_hi hr))"
        using False suffixes_first [OF True] by (simp add: hr_hosts_def)
      have le: "hr_lo hr + 1 \<le> hr_hi hr" using True l by (simp add: word_le_nat_alt word_less_nat_alt)
      moreover then have "suffixes (hr_lo hr + 1) (hr_hi hr) \<noteq> []" by (simp add: suffixes_def word_le_nat_alt)
      ultimately show ?thesis using False h hh ok m by (simp add: range_ok_def hr_hosts_def hostrange_empty_def not_less)
    next
      case nl: False
      then have eq: "hr_hi hr = hr_lo hr" using ok(1) by simp
      have "hostrange_empty hr'" using h(2) eq l by (simp add: hostrange_empty_def word_less_nat_alt)
      then show ?thesis using False h eq by (simp add: hr_hosts_def)
    qed
  qed
  show "h = Some (hd (hr_hosts hr))" "hostrange_empty hr' \<longleftrightarrow> tl (hr_hosts hr) = []"
    "\<not> hostrange_empty hr' \<Longrightarrow> range_ok hr' \<and> hr_hosts hr' = tl (hr_hosts hr)"
    using * by (auto split: if_splits)
qed


section \<open>The ends of a list\<close>

lemma hl_ok_range: "hl_ok hl \<Longrightarrow> (a, hr) \<in> set (hl_hr hl) \<Longrightarrow> range_ok hr"
  by (auto simp: hl_ok_def list_all_iff)

lemma hosts_Nil: "list_all range_ok hrs \<Longrightarrow> hosts hrs = [] \<longleftrightarrow> hrs = []"
  by (cases hrs) simp_all

lemma hl_hosts_Nil: "hl_ok hl \<Longrightarrow> hl_hosts hl = [] \<longleftrightarrow> hl_hr hl = []"
  by (simp add: hl_hosts_def hl_ok_def hosts_Nil)

lemma pop_end: "hl_ok hl \<Longrightarrow> hl_hosts hl = [] \<Longrightarrow> hostlist_pop hl = Some (None, hl)"
  by (simp add: hostlist_pop_def hl_ok_def)

lemma pop_next:
  assumes "hl_ok hl" "hl_hosts hl = xs @ [x]"
  shows "\<exists>hl'. hostlist_pop hl = Some (Some x, hl') \<and> hl_ok hl' \<and> hl_hosts hl' = xs"
proof -
  have "hl_hr hl \<noteq> []" using assms hl_hosts_Nil [OF assms(1)] by auto
  then obtain us a hr where rs: "hl_hr hl = us @ [(a, hr)]" by (metis surj_pair append_butlast_last_id)
  obtain h hr' where p: "hostrange_pop hr = (h, hr')" by (cases "hostrange_pop hr")
  have ok: "range_ok hr" using hl_ok_range [OF assms(1), of a hr] rs by simp
  note f = pop_range [OF ok p]
  have n: "hl_nhosts hl = int (length xs) + 1" using assms by (simp add: hl_ok_def)
  have "hosts (map snd us) @ hr_hosts hr = xs @ [x]" using assms(2) rs by (simp add: hl_hosts_def)
  then have x: "last (hr_hosts hr) = x" "hosts (map snd us) @ butlast (hr_hosts hr) = xs"
    using hr_hosts_ne [OF ok] by (metis last_appendR last_snoc, metis butlast_append butlast_snoc)
  let ?hl = "hl\<lparr>hl_hr := us @ (if hostrange_empty hr' then [] else [(a, hr')]), hl_nhosts := hl_nhosts hl - 1\<rparr>"
  have r: "hostlist_pop hl = Some (Some x, ?hl)" using rs p n f(1) x(1) by (simp add: hostlist_pop_def)
  have v: "hl_hosts ?hl = xs" using x(2) f(2,3) by (cases "hostrange_empty hr'") (auto simp: hl_hosts_def)
  moreover have "hl_ok ?hl" using assms(1) rs f(3) n v by (auto simp: hl_ok_def hl_hosts_def)
  ultimately show ?thesis using r by blast
qed

lemma shift_iterators_hl [simp]: "hl_hr (hostlist_shift_iterators hl i d n) = hl_hr hl"
  "hl_nhosts (hostlist_shift_iterators hl i d n) = hl_nhosts hl" "hl_next (hostlist_shift_iterators hl i d n) = hl_next hl"
  by (simp_all add: hostlist_shift_iterators_def)

lemma shift_end: "hl_ok hl \<Longrightarrow> hl_hosts hl = [] \<Longrightarrow> hostlist_shift hl = Some (None, hl)"
  by (simp add: hostlist_shift_def hl_ok_def)

lemma shift_next:
  assumes "hl_ok hl" "hl_hosts hl = x # xs"
  shows "\<exists>hl'. hostlist_shift hl = Some (Some x, hl') \<and> hl_ok hl' \<and> hl_hosts hl' = xs"
proof -
  have "hl_hr hl \<noteq> []" using assms hl_hosts_Nil [OF assms(1)] by auto
  then obtain a hr us where rs: "hl_hr hl = (a, hr) # us" by (metis surj_pair list.exhaust)
  obtain h hr' where p: "hostrange_shift hr = (h, hr')" by (cases "hostrange_shift hr")
  have ok: "range_ok hr" using hl_ok_range [OF assms(1), of a hr] rs by simp
  note f = shift_range [OF ok p]
  have n: "hl_nhosts hl = int (length xs) + 1" using assms by (simp add: hl_ok_def)
  have "hr_hosts hr @ hosts (map snd us) = x # xs" using assms(2) rs by (simp add: hl_hosts_def)
  then have x: "hd (hr_hosts hr) = x" "tl (hr_hosts hr) @ hosts (map snd us) = xs"
    using hr_hosts_ne [OF ok] by (cases "hr_hosts hr"; simp)+
  show ?thesis
  proof (cases "hostrange_empty hr'")
    case True
    then obtain hl' where hl': "hostlist_shift hl = Some (Some x, hl')" "hl_hr hl' = us" "hl_nhosts hl' = hl_nhosts hl - 1" "hl_next hl' = hl_next hl"
      using rs p n f(1) x(1) by (simp add: hostlist_shift_def hostlist_delete_range_def)
    then have v: "hl_hosts hl' = xs" using x(2) f(2) True by (simp add: hl_hosts_def)
    have "hl_ok hl'" using assms(1) rs n v hl' by (auto simp: hl_ok_def hl_hosts_def)
    then show ?thesis using hl' v by blast
  next
    case False
    then obtain hl' where hl': "hostlist_shift hl = Some (Some x, hl')" "hl_hr hl' = (a, hr') # us" "hl_nhosts hl' = hl_nhosts hl - 1" "hl_next hl' = hl_next hl"
      using rs p n f(1) x(1) by (simp add: hostlist_shift_def)
    then have v: "hl_hosts hl' = xs" using x(2) f(3) [OF False] by (simp add: hl_hosts_def)
    have "hl_ok hl'" using assms(1) rs n v hl' f(3) [OF False] by (auto simp: hl_ok_def hl_hosts_def)
    then show ?thesis using hl' v by blast
  qed
qed

interpretation hl_pop: host_source hl_ok "\<lambda>hl. rev (hl_hosts hl)" hostlist_pop
proof unfold_locales
  fix hl assume "hl_ok hl" "rev (hl_hosts hl) = []"
  then show "\<exists>hl'. hostlist_pop hl = Some (None, hl') \<and> hl_ok hl' \<and> rev (hl_hosts hl') = []" using pop_end by simp
next
  fix hl x xs assume "hl_ok hl" "rev (hl_hosts hl) = x # xs"
  then show "\<exists>hl'. hostlist_pop hl = Some (Some x, hl') \<and> hl_ok hl' \<and> rev (hl_hosts hl') = xs"
    using pop_next [of hl "rev xs" x] by (simp add: rev_eq_Cons_iff rev_swap)
qed

interpretation hl_shift: host_source hl_ok hl_hosts hostlist_shift
  by unfold_locales (use shift_end shift_next in auto)

section \<open>Hosts by position\<close>

lemma hl_ok_count:
  assumes "hl_ok hl" "hr \<in> set (map snd (hl_hr hl))"
  shows "sint (ucast (hostrange_count hr) :: u32) = int (length (hr_hosts hr))"
proof -
  obtain xs ys where s: "map snd (hl_hr hl) = xs @ hr # ys" using assms(2) by (metis split_list)
  have "length (hr_hosts hr) \<le> length (hl_hosts hl)" by (simp add: hl_hosts_def s)
  then show ?thesis using count_int [of hr] assms by (auto simp: hl_ok_def list_all_iff)
qed

lemma nth_range_correct:
  assumes "\<And>hr. hr \<in> set hrs \<Longrightarrow> sint (ucast (hostrange_count hr) :: u32) = int (length (hr_hosts hr))"
    and "c \<le> n" "n - c < int (length (hosts hrs))"
  shows "\<exists>us hr vs c'. hrs = us @ hr # vs \<and> nth_range hrs n c = Some (length us, c') \<and> c' = c + int (length (hosts us)) \<and>
    c' \<le> n \<and> n - c' < int (length (hr_hosts hr))"
  using assms
proof (induction hrs arbitrary: c)
  case (Cons hr hrs)
  have len: "sint (ucast (hostrange_count hr) :: u32) = int (length (hr_hosts hr))" using Cons(2) by simp
  show ?case
  proof (cases "n \<le> int (length (hr_hosts hr)) - 1 + c")
    case True
    then show ?thesis using len Cons(3) by (intro exI [of _ "[]"] exI [of _ hr] exI [of _ hrs] exI [of _ c]) (simp add: Let_def)
  next
    case False
    then have "\<exists>us h vs c'. hrs = us @ h # vs \<and> nth_range hrs n (c + int (length (hr_hosts hr))) = Some (length us, c') \<and>
      c' = c + int (length (hr_hosts hr)) + int (length (hosts us)) \<and> c' \<le> n \<and> n - c' < int (length (hr_hosts h))"
      by (intro Cons(1)) (use Cons in auto)
    then obtain us h vs c' where i: "hrs = us @ h # vs" "nth_range hrs n (c + int (length (hr_hosts hr))) = Some (length us, c')"
      "c' = c + int (length (hr_hosts hr)) + int (length (hosts us))" "c' \<le> n" "n - c' < int (length (hr_hosts h))" by blast
    then show ?thesis using False len
      by (intro exI [of _ "hr # us"] exI [of _ h] exI [of _ vs] exI [of _ c']) (simp add: Let_def)
  qed
qed simp

text \<open>Position \<open>n\<close> lies \<open>k\<close> hosts into the range behind \<open>us\<close>.\<close>

lemma position:
  assumes "hl_ok hl" "0 \<le> n" "n < int (length (hl_hosts hl))"
  shows "\<exists>us a hr vs k. hl_hr hl = us @ (a, hr) # vs \<and> nth_range (map snd (hl_hr hl)) n 0 = Some (length us, n - int k) \<and>
    nat n = length (hosts (map snd us)) + k \<and> k < length (hr_hosts hr)"
proof -
  obtain us hr vs c where i: "map snd (hl_hr hl) = us @ hr # vs" "nth_range (map snd (hl_hr hl)) n 0 = Some (length us, c)"
    "c = int (length (hosts us))" "c \<le> n" "n - c < int (length (hr_hosts hr))"
    using nth_range_correct [of "map snd (hl_hr hl)" 0 n] hl_ok_count [OF assms(1)] assms(2,3) by (auto simp: hl_hosts_def)
  then obtain us' a vs' where s: "hl_hr hl = us' @ (a, hr) # vs'" "us = map snd us'"
    by (auto simp: map_eq_append_conv map_eq_Cons_conv)
  show ?thesis using i s by (intro exI [of _ us'] exI [of _ a] exI [of _ hr] exI [of _ vs'] exI [of _ "nat (n - c)"]) auto
qed

lemma nth_suffix: "lo \<le> hi \<Longrightarrow> k < length (suffixes lo hi) \<Longrightarrow> suffixes lo hi ! k = lo + of_nat k"
  by (simp add: suffixes_def word_le_nat_alt del: upt_Suc)

lemma hr_hosts_nth:
  assumes "range_ok hr" "\<not> hr_singlehost hr" "k < length (hr_hosts hr)"
  shows "hr_hosts hr ! k = hr_prefix hr @ fmt_width (hr_width hr) (hr_lo hr + of_nat k)"
  using assms nth_suffix [of "hr_lo hr" "hr_hi hr" k] by (simp add: hr_hosts_def range_ok_def)

lemma hosts_at:
  assumes "hl_hr hl = us @ (a, hr) # vs" "k < length (hr_hosts hr)"
  shows "hl_hosts hl ! (length (hosts (map snd us)) + k) = hr_hosts hr ! k"
  using assms by (simp add: hl_hosts_def nth_append)

lemma hostlist_nth_eq:
  assumes "hl_ok hl" "0 \<le> n" "n < int (length (hl_hosts hl))" "length (hl_hosts hl ! nat n) < maxhostnamelen + 15"
  shows "hostlist_nth hl n = Some (Some (hl_hosts hl ! nat n))"
proof -
  obtain us a hr vs k where p: "hl_hr hl = us @ (a, hr) # vs" "nth_range (map snd (hl_hr hl)) n 0 = Some (length us, n - int k)"
    "nat n = length (hosts (map snd us)) + k" "k < length (hr_hosts hr)" using position [OF assms(1-3)] by blast
  have ok: "range_ok hr" using hl_ok_range [OF assms(1), of a hr] p(1) by simp
  have h: "hl_hosts hl ! nat n = hr_hosts hr ! k" using hosts_at [OF p(1,4)] p(3) by simp
  have "hostrange_string hr (int k) = Some (hr_hosts hr ! k)"
  proof (cases "hr_singlehost hr")
    case True
    then show ?thesis using assms(4) h p(4) by (simp add: hostrange_string_def hr_hosts_def snprintf_fits)
  next
    case False
    have e: "hr_hosts hr ! k = hr_prefix hr @ fmt_width (hr_width hr) (hr_lo hr + of_nat k)"
      by (rule hr_hosts_nth [OF ok False p(4)])
    then show ?thesis using False assms(4) h by (simp add: hostrange_string_def snprintf_fits)
  qed
  moreover have "n - (n - int k) = int k" by simp
  ultimately show ?thesis using p(1,2) h by (simp add: hostlist_nth_def nth_append)
qed

section \<open>Deleting by position\<close>

lemma delete_range_hr:
  "n < length (hl_hr hl) \<Longrightarrow> \<exists>hl'. hostlist_delete_range hl n = Some hl' \<and> hl_hr hl' = take n (hl_hr hl) @ drop (n + 1) (hl_hr hl) \<and>
    hl_nhosts hl' = hl_nhosts hl \<and> hl_next hl' = hl_next hl"
  by (simp add: hostlist_delete_range_def)

text \<open>Without a host in the middle the range is cut in two.\<close>

lemma delete_host_range:
  assumes "range_ok hr" "\<not> hr_singlehost hr" "k < length (hr_hosts hr)"
  shows "\<exists>hr' new. hostrange_delete_host hr (hr_lo hr + of_nat k) = Some (hr', new) \<and>
    (case new of None \<Rightarrow> (if length (hr_hosts hr) = 1 then hostrange_empty hr'
        else \<not> hostrange_empty hr' \<and> range_ok hr' \<and> hr_hosts hr' = take k (hr_hosts hr) @ drop (k + 1) (hr_hosts hr))
     | Some h \<Rightarrow> range_ok hr' \<and> range_ok h \<and> hr_hosts hr' = take k (hr_hosts hr) \<and> hr_hosts h = drop (k + 1) (hr_hosts hr))"
proof -
  let ?lo = "hr_lo hr" and ?hi = "hr_hi hr" and ?n = "hr_lo hr + of_nat k"
  have ok: "?lo \<le> ?hi" "unat ?hi < 10 ^ 15" using assms(1,2) by (simp_all add: range_ok_def)
  have len: "length (hr_hosts hr) = Suc (unat ?hi) - unat ?lo" using assms(2) by (simp add: hr_hosts_def length_suffixes)
  have k: "unat ?lo + k \<le> unat ?hi" using assms(3) len by simp
  have m: "?hi \<noteq> - 1" using ok(2) by (auto simp: unat_max_u64)
  have lt: "unat ?lo + k < 18446744073709551616" using k ok(2) by simp
  have un: "unat ?n = unat ?lo + k" using lt by (simp add: unat_word_ariths unat_of_nat)
  have bounds: "?lo \<le> ?n" "?n \<le> ?hi" using un k by (simp_all add: word_le_nat_alt)
  let ?p = "\<lambda>j. hr_prefix hr @ fmt_width (hr_width hr) j"
  have hh: "hr_hosts hr = map ?p (suffixes ?lo ?hi)" using assms(2) by (simp add: hr_hosts_def)
  show ?thesis
  proof (cases "?n = ?lo")
    case True
    then have k0: "k = 0" using un by simp
    let ?hr = "hr\<lparr>hr_lo := ?lo + 1\<rparr>"
    have l1: "unat (?lo + 1) = Suc (unat ?lo)" using ok by (simp add: unat_word_ariths word_le_nat_alt)
    have "if length (hr_hosts hr) = 1 then hostrange_empty ?hr
      else \<not> hostrange_empty ?hr \<and> range_ok ?hr \<and> hr_hosts ?hr = take k (hr_hosts hr) @ drop (k + 1) (hr_hosts hr)"
    proof (cases "?lo < ?hi")
      case True
      have ne: "length (hr_hosts hr) \<noteq> 1" using True len by (simp add: word_less_nat_alt)
      have le: "?lo + 1 \<le> ?hi" using True l1 by (simp add: word_le_nat_alt word_less_nat_alt)
      have "\<not> hostrange_empty ?hr" using le m by (simp add: hostrange_empty_def not_less)
      moreover have "range_ok ?hr" using assms(2) le ok(2) by (simp add: range_ok_def)
      moreover have "hr_hosts ?hr = drop 1 (hr_hosts hr)" using assms(2) suffixes_first [OF True] by (simp add: hr_hosts_def)
      ultimately show ?thesis using ne k0 by simp
    next
      case False
      then have "?hi = ?lo" using ok(1) by simp
      moreover then have "hostrange_empty ?hr" using l1 by (simp add: hostrange_empty_def word_less_nat_alt)
      ultimately show ?thesis using len by simp
    qed
    then show ?thesis using bounds True by (simp add: hostrange_delete_host_def)
  next
    case nlo: False
    show ?thesis
    proof (cases "?n = ?hi")
      case True
      let ?hr = "hr\<lparr>hr_hi := ?hi - 1\<rparr>"
      have lt: "?lo < ?hi" using nlo True bounds by simp
      then have ne: "length (hr_hosts hr) \<noteq> 1" using len by (simp add: word_less_nat_alt)
      have "?hi \<noteq> 0" using lt by auto
      then have h1: "unat (?hi - 1) = unat ?hi - 1" "0 < unat ?hi" by (simp_all add: unat_minus_one unat_gt_0)
      then have le: "?lo \<le> ?hi - 1" "unat (?hi - 1) < 10 ^ 15" using lt ok(2) by (simp_all add: word_le_nat_alt word_less_nat_alt)
      have "?hi - 1 \<noteq> - 1" using le(2) by (auto simp: unat_max_u64)
      then have "\<not> hostrange_empty ?hr" using le by (simp add: hostrange_empty_def not_less)
      moreover have "range_ok ?hr" using assms(2) le by (simp add: range_ok_def)
      moreover have "hr_hosts ?hr = take k (hr_hosts hr) @ drop (k + 1) (hr_hosts hr)"
      proof -
        have hh2: "hr_hosts hr = hr_hosts ?hr @ [?p ?hi]" using assms(2) suffixes_last [OF lt] by (simp add: hr_hosts_def)
        have "unat ?hi = unat ?lo + k" using un True by simp
        then have "length (hr_hosts hr) = k + 1" using len by simp
        then show ?thesis unfolding hh2 by simp
      qed
      ultimately show ?thesis using bounds True nlo ne by (simp add: hostrange_delete_host_def)
    next
      case nhi: False
      let ?a = "hr\<lparr>hr_hi := ?n - 1\<rparr>" and ?b = "(hostrange_copy hr)\<lparr>hr_lo := ?n + 1\<rparr>"
      have "?n \<noteq> 0" using nlo bounds(1) by auto
      then have u: "unat (?n - 1) = unat ?n - 1" "0 < unat ?n" by (simp_all add: unat_minus_one unat_gt_0)
      have lo: "unat ?lo < unat ?n" using nlo bounds(1) by (metis order_le_less word_less_nat_alt)
      have hi: "unat ?n < unat ?hi" using nhi bounds(2) by (metis order_le_less word_less_nat_alt)
      have u1: "unat (?n + 1) = Suc (unat ?n)" using hi ok(2) by (simp add: unat_word_ariths)
      have le: "?lo \<le> ?n - 1" "?n + 1 \<le> ?hi" using u u1 lo hi by (simp_all add: word_le_nat_alt)
      have b: "?b = hr\<lparr>hr_lo := ?n + 1\<rparr>" using hostrange_copy_id [OF assms(1)] by simp
      have s1: "suffixes ?lo ?hi = suffixes ?lo (?n - 1) @ suffixes ?n ?hi"
        by (rule suffixes_split) (use le u bounds in simp_all)
      have s2: "suffixes ?n ?hi = ?n # suffixes (?n + 1) ?hi"
        by (rule suffixes_first) (use hi in \<open>simp add: word_less_nat_alt\<close>)
      have ka: "length (hr_hosts ?a) = k" using assms(2) u un lo by (simp add: hr_hosts_def length_suffixes)
      have "hr_hosts hr = hr_hosts ?a @ ?p ?n # hr_hosts ?b"
        unfolding b using assms(2) s1 s2 by (simp add: hr_hosts_def)
      then have "hr_hosts ?a = take k (hr_hosts hr)" "hr_hosts ?b = drop (k + 1) (hr_hosts hr)" using ka by simp_all
      moreover have "range_ok ?a" "range_ok ?b" unfolding b using assms(2) le ok(2) u hi by (simp_all add: range_ok_def)
      ultimately show ?thesis using bounds nlo nhi by (simp add: hostrange_delete_host_def)
    qed
  qed
qed

lemma delete_middle:
  assumes "hl_ok hl" "hl_hr hl = us @ (a, hr) # vs" "k < length (hr_hosts hr)" "n = length (hosts (map snd us)) + k"
    and "hl_hr hl' = us @ ms @ vs" "list_all range_ok (map snd ms)"
      "hosts (map snd ms) = take k (hr_hosts hr) @ drop (k + 1) (hr_hosts hr)" "hl_nhosts hl' = hl_nhosts hl - 1"
    and "distinct (map fst ms)" "\<And>b. b \<in> set (map fst ms) \<Longrightarrow> b < hl_next hl' \<and> (b = a \<or> b = hl_next hl)" "hl_next hl \<le> hl_next hl'"
  shows "hl_ok hl'" "hl_hosts hl' = take n (hl_hosts hl) @ drop (n + 1) (hl_hosts hl)"
proof -
  have h: "hl_hosts hl = hosts (map snd us) @ hr_hosts hr @ hosts (map snd vs)" using assms(2) by (simp add: hl_hosts_def)
  show v: "hl_hosts hl' = take n (hl_hosts hl) @ drop (n + 1) (hl_hosts hl)"
    using assms(3-5,7) unfolding h by (simp add: hl_hosts_def)
  have len: "length (hl_hosts hl) = Suc (length (hl_hosts hl'))" using assms(3,4) unfolding v h by simp
  have lt: "\<And>b. b \<in> set (map fst (us @ vs)) \<Longrightarrow> b < hl_next hl \<and> b \<noteq> a" and d: "distinct (map fst (us @ vs))"
    using assms(1,2) by (auto simp: hl_ok_def)
  have "set (map fst ms) \<inter> set (map fst (us @ vs)) = {}" using assms(10) lt by blast
  then have "distinct (map fst (hl_hr hl'))" using assms(9) d unfolding assms(5) by (simp add: Int_Un_distrib Int_commute)
  moreover have "\<forall>b \<in> set (map fst (hl_hr hl')). b < hl_next hl'"
  proof
    fix b assume "b \<in> set (map fst (hl_hr hl'))"
    then have "b \<in> set (map fst ms) \<or> b \<in> set (map fst (us @ vs))" unfolding assms(5) by auto
    then show "b < hl_next hl'" using assms(10) [of b] lt [of b] assms(11) by linarith
  qed
  moreover have "list_all range_ok (map snd (hl_hr hl'))" using assms(1,2,6) unfolding assms(5) by (simp add: hl_ok_def)
  ultimately show "hl_ok hl'" using assms(1,8) len by (simp add: hl_ok_def)
qed

lemma insert_range_hr:
  "n \<le> length (hl_hr hl) \<Longrightarrow> hl_hr (snd (hostlist_insert_range hl hr n)) = take n (hl_hr hl) @ (hl_next hl, hostrange_copy hr) # drop n (hl_hr hl) \<and>
    hl_nhosts (snd (hostlist_insert_range hl hr n)) = hl_nhosts hl \<and> hl_next (snd (hostlist_insert_range hl hr n)) = hl_next hl + 1"
  by (simp add: hostlist_insert_range_def Let_def)

lemma hostlist_delete_nth_ok:
  assumes "hl_ok hl" "0 \<le> n" "n < int (length (hl_hosts hl))"
  shows "\<exists>hl'. hostlist_delete_nth hl n = Some hl' \<and> hl_ok hl' \<and>
    hl_hosts hl' = take (nat n) (hl_hosts hl) @ drop (nat n + 1) (hl_hosts hl)"
proof -
  obtain us a hr vs k where p: "hl_hr hl = us @ (a, hr) # vs" "nth_range (map snd (hl_hr hl)) n 0 = Some (length us, n - int k)"
    "nat n = length (hosts (map snd us)) + k" "k < length (hr_hosts hr)" using position [OF assms] by blast
  have ok: "range_ok hr" and a: "a < hl_next hl" using hl_ok_range [OF assms(1), of a hr] assms(1) p(1) by (simp_all add: hl_ok_def)
  have le: "n \<le> hl_nhosts hl" using assms by (simp add: hl_ok_def)
  note mid = delete_middle [OF assms(1) p(1,4,3)]
  have del: "\<exists>hl'. hostlist_delete_range (hl\<lparr>hl_hr := us @ (a, h) # vs\<rparr>) (length us) = Some hl' \<and> hl_hr hl' = us @ vs \<and>
      hl_nhosts hl' = hl_nhosts hl \<and> hl_next hl' = hl_next hl" for h
    by (simp add: hostlist_delete_range_def)
  show ?thesis
  proof (cases "hr_singlehost hr")
    case True
    then have one: "length (hr_hosts hr) = 1" by (simp add: hr_hosts_def)
    obtain hl1 where hl1: "hostlist_delete_range hl (length us) = Some hl1" "hl_hr hl1 = us @ vs" "hl_nhosts hl1 = hl_nhosts hl"
      "hl_next hl1 = hl_next hl" using delete_range_hr [of "length us" hl] p(1) by auto
    let ?hl = "hl1\<lparr>hl_nhosts := hl_nhosts hl1 - 1\<rparr>"
    have "hostlist_delete_nth hl n = Some ?hl" using p(1,2) True assms(2) le hl1(1) by (simp add: hostlist_delete_nth_def)
    moreover have "hl_ok ?hl" "hl_hosts ?hl = take (nat n) (hl_hosts hl) @ drop (nat n + 1) (hl_hosts hl)"
      using mid [of ?hl "[]"] hl1 one p(4) by simp_all
    ultimately show ?thesis by blast
  next
    case False
    obtain hr' new where d: "hostrange_delete_host hr (hr_lo hr + of_nat k) = Some (hr', new)"
      "case new of None \<Rightarrow> (if length (hr_hosts hr) = 1 then hostrange_empty hr'
        else \<not> hostrange_empty hr' \<and> range_ok hr' \<and> hr_hosts hr' = take k (hr_hosts hr) @ drop (k + 1) (hr_hosts hr))
       | Some h \<Rightarrow> range_ok hr' \<and> range_ok h \<and> hr_hosts hr' = take k (hr_hosts hr) \<and> hr_hosts h = drop (k + 1) (hr_hosts hr)"
      using delete_host_range [OF ok False p(4)] by auto
    have e: "hr_lo hr + of_int n - of_int (n - int k) = hr_lo hr + of_nat k" by simp
    let ?hl1 = "hl\<lparr>hl_hr := us @ (a, hr') # vs\<rparr>"
    let ?tail = "case new of Some h \<Rightarrow> Some (snd (hostlist_insert_range ?hl1 h (length us + 1)))
      | None \<Rightarrow> if hostrange_empty hr' then hostlist_delete_range ?hl1 (length us) else Some ?hl1"
    have r: "hostlist_delete_nth hl n = map_option (\<lambda>hl. hl\<lparr>hl_nhosts := hl_nhosts hl - 1\<rparr>) ?tail"
      using p(1,2) False assms(2) le d(1) e by (cases new) (simp_all add: hostlist_delete_nth_def Let_def)
    show ?thesis
    proof (cases new)
      case None
      show ?thesis
      proof (cases "length (hr_hosts hr) = 1")
        case True
        obtain hl1 where hl1: "hostlist_delete_range ?hl1 (length us) = Some hl1" "hl_hr hl1 = us @ vs"
          "hl_nhosts hl1 = hl_nhosts hl" "hl_next hl1 = hl_next hl" using del by blast
        have "hostlist_delete_nth hl n = Some (hl1\<lparr>hl_nhosts := hl_nhosts hl1 - 1\<rparr>)" using r None True d(2) hl1(1) by simp
        then show ?thesis using mid [of "hl1\<lparr>hl_nhosts := hl_nhosts hl1 - 1\<rparr>" "[]"] hl1 True p(4) by simp
      next
        case False
        then have "hostlist_delete_nth hl n = Some (?hl1\<lparr>hl_nhosts := hl_nhosts hl - 1\<rparr>)" using r None d(2) by simp
        then show ?thesis using mid [of "?hl1\<lparr>hl_nhosts := hl_nhosts hl - 1\<rparr>" "[(a, hr')]"] None False d(2) a by simp
      qed
    next
      case (Some h)
      let ?hl = "(snd (hostlist_insert_range ?hl1 h (length us + 1)))\<lparr>hl_nhosts := hl_nhosts hl - 1\<rparr>"
      have h: "range_ok h" "range_ok hr'" "hr_hosts hr' @ hr_hosts h = take k (hr_hosts hr) @ drop (k + 1) (hr_hosts hr)"
        using Some d(2) by simp_all
      note i = insert_range_hr [of "length us + 1" ?hl1 h]
      have "hostlist_delete_nth hl n = Some ?hl" using r Some i by simp
      moreover have "hl_hr ?hl = us @ [(a, hr'), (hl_next hl, h)] @ vs" "hl_next ?hl = hl_next hl + 1"
        using i hostrange_copy_id [OF h(1)] by simp_all
      moreover have "b < Suc (hl_next hl)" if "b = a \<or> b = hl_next hl" for b using that a by auto
      ultimately show ?thesis using mid [of ?hl "[(a, hr'), (hl_next hl, h)]"] h a by simp
    qed
  qed
qed

end
