(* ===== verification/Lsd_Hostlist_Find.thy ===== *)
theory Lsd_Hostlist_Find
  imports Lsd_Hostlist_Ops
begin

text \<open>
  \<open>hostlist_find\<close>, \<open>hostlist_delete_host\<close> and \<open>hostlist_delete\<close>: they find and remove the first of equal hosts when the
  list has no range whose prefix extends that of the host; otherwise they may hit another host.
\<close>

section \<open>Finding a host\<close>

definition first_index :: "string \<Rightarrow> string list \<Rightarrow> int" where
  "first_index s xs = (if s \<in> set xs then int (length (takeWhile (\<lambda>x. x \<noteq> s) xs)) else - 1)"

text \<open>The host can be looked up: its suffix is not beyond the largest one, and no range has a prefix that is longer than
  the host's prefix and begins with it.\<close>

definition no_longer_prefix :: "string \<Rightarrow> hostrange \<Rightarrow> bool" where
  "no_longer_prefix s hr \<longleftrightarrow> hr_singlehost hr \<or>
     (let n = host_prefix_end s in take n (hr_prefix hr) = take n s \<longrightarrow> hr_prefix hr = take n s)"

definition findable :: "hostlist \<Rightarrow> string \<Rightarrow> bool" where
  "findable hl s \<longleftrightarrow> unat (fst (strtoul10 (drop (host_prefix_end s) s))) \<le> max_host_suffix \<and>
     list_all (no_longer_prefix s) (map snd (hl_hr hl))"

lemma host_split:
  "\<exists>p d. s = p @ d \<and> host_prefix_end s = length p \<and> (\<forall>c \<in> set d. isdigit c) \<and> (p = [] \<or> \<not> isdigit (last p))"
proof -
  let ?r = "dropWhile isdigit (rev s)"
  have "s = rev ?r @ rev (takeWhile isdigit (rev s))"
    by (metis rev_append rev_rev_ident takeWhile_dropWhile_id)
  moreover have "\<forall>c \<in> set (rev (takeWhile isdigit (rev s))). isdigit c" by (auto dest: set_takeWhileD)
  moreover have "rev ?r = [] \<or> \<not> isdigit (last (rev ?r))" using hd_dropWhile [of isdigit "rev s"] by (auto simp: last_rev)
  ultimately show ?thesis unfolding host_prefix_end_def by (metis length_rev)
qed

lemma fmt_width_inj: "fmt_width w j = fmt_width w k \<longleftrightarrow> j = k"
  by (metis fst_conv strtoul10_fmt)

lemma distinct_suffixes: "distinct (suffixes lo hi)"
proof -
  have "j < 18446744073709551616" if "j \<in> set [unat lo..<Suc (unat hi)]" for j
  proof -
    have "j \<le> unat hi" using that by (simp del: upt_Suc)
    then show ?thesis using unat_u64_bound [of hi] by linarith
  qed
  then have "inj_on (of_nat :: nat \<Rightarrow> u64) (set [unat lo..<Suc (unat hi)])"
    by (intro inj_on_inverseI [where g = unat]) (simp add: unat_of_nat)
  then show ?thesis unfolding suffixes_def by (simp add: distinct_map del: upt_Suc)
qed

lemma distinct_hr_hosts: "distinct (hr_hosts hr)"
  by (simp add: hr_hosts_def distinct_map distinct_suffixes inj_on_def fmt_width_inj)

lemma first_index_nth:
  assumes "distinct xs" "k < length xs" "xs ! k = s"
  shows "first_index s xs = int k"
proof -
  have xs: "xs = take k xs @ s # drop (Suc k) xs" using assms(2,3) id_take_nth_drop by auto
  then have "s \<notin> set (take k xs)" using assms(1) by (metis distinct.simps(2) distinct_append disjoint_iff list.set_intros(1))
  then have "takeWhile (\<lambda>x. x \<noteq> s) (take k xs @ s # drop (Suc k) xs) = take k xs" by (subst takeWhile_append2) auto
  then have "length (takeWhile (\<lambda>x. x \<noteq> s) xs) = k" using xs assms(2) by (metis length_take min.absorb4)
  moreover have "s \<in> set xs" using assms(2,3) nth_mem by auto
  ultimately show ?thesis by (simp add: first_index_def)
qed

lemma mem_hr_hosts:
  assumes "hr_lo hr \<le> n" "n \<le> hr_hi hr"
  shows "n \<in> set (suffixes (hr_lo hr) (hr_hi hr))"
proof -
  have "unat n \<in> set [unat (hr_lo hr)..<Suc (unat (hr_hi hr))]" using assms by (simp add: word_le_nat_alt less_Suc_eq_le del: upt_Suc)
  then have "of_nat (unat n) \<in> (of_nat :: nat \<Rightarrow> u64) ` set [unat (hr_lo hr)..<Suc (unat (hr_hi hr))]" by (rule imageI)
  then show ?thesis unfolding suffixes_def by (simp del: upt_Suc)
qed

lemma width_equiv_len:
  assumes "fmt_width w m = d"
  shows "\<exists>w1 w2. width_equiv n w m (length d) = Some (w1, w2)"
proof -
  have "zero_padded m (length d) = zero_padded m w" using assms by (auto simp: zero_padded_eq fmt_width_def)
  then show ?thesis by (simp add: width_equiv_def Let_def)
qed

lemma hn_within_correct:
  assumes "range_ok hr" "length (hr_hosts hr) < 2 ^ 31" "no_longer_prefix s hr"
    and "unat (fst (strtoul10 (drop (host_prefix_end s) s))) \<le> max_host_suffix"
    and "hostrange_hn_within hr s (host_prefix_end s) = (off, hr')"
  shows "off = first_index s (hr_hosts hr) \<and> range_ok hr' \<and> hr_hosts hr' = hr_hosts hr \<and>
    hr_prefix hr' = hr_prefix hr \<and> hr_singlehost hr' = hr_singlehost hr"
proof -
  obtain p d where s: "s = p @ d" "host_prefix_end s = length p" "\<forall>c \<in> set d. isdigit c" "p = [] \<or> \<not> isdigit (last p)"
    using host_split by blast
  let ?hn = "hostname_create_with_suffix s (length p)"
  have w: "hostrange_hn_within hr s (length p) = (off, hr')" using assms(5) s(2) by simp
  consider (single) "hr_singlehost hr" | (nodigits) "\<not> hr_singlehost hr" "d = []" | (num) "\<not> hr_singlehost hr" "d \<noteq> []" by blast
  then show ?thesis
  proof cases
    case single
    have "hn_hostname ?hn = s" by (auto simp: hostname_create_with_suffix_def split: prod.splits)
    then show ?thesis using w single assms(1)
      by (subst (asm) hostrange_hn_within.simps) (auto simp: Let_def hr_hosts_def first_index_def split: if_splits)
  next
    case nodigits
    have "s \<notin> set (hr_hosts hr)"
    proof
      assume "s \<in> set (hr_hosts hr)"
      then obtain k where k: "s = hr_prefix hr @ fmt_width (hr_width hr) k" using nodigits(1) by (auto simp: hr_hosts_def)
      then have "isdigit (last s)" using fmt_width_digits last_in_set by (metis fmt_width_ne last_appendR)
      then show False using s(1,4) nodigits(2) k by simp
    qed
    moreover have "hn_suffix ?hn = None" using s(1) nodigits(2) by (simp add: hostname_create_with_suffix_def)
    ultimately show ?thesis using w nodigits(1) assms(1)
      by (subst (asm) hostrange_hn_within.simps) (auto simp: Let_def first_index_def)
  next
    case num
    let ?num = "fst (strtoul10 d)"
    have st: "strtoul10 d = (?num, [])" using strtoul10_digits [OF s(3) num(2)] by simp
    have small: "unat ?num \<le> max_host_suffix" using assms(4) s(1,2) by simp
    have hn: "hn_suffix ?hn = Some d" "hn_prefix ?hn = p" "hn_num ?hn = ?num"
      using s(1) num(2) st small by (auto simp: hostname_create_with_suffix_def split: prod.splits)
    have pad: "fmt_width (length d) ?num = d"
    proof -
      have e: "?num = strtou64 (False, nat_of_digits d)" using strtoul10_digits [OF s(3) num(2)] by simp
      have "nat_of_digits d < 2 ^ 64"
        by (rule ccontr) (use small in \<open>simp add: e strtou64_def unat_max_u64 max_host_suffix_def\<close>)
      then have "unat ?num = nat_of_digits d" by (simp add: e strtou64_def unat_of_nat)
      then show ?thesis using digits_pad [OF s(3) num(2)] by (simp add: fmt_width_def print_u64_def)
    qed
    show ?thesis
    proof (cases "take (length p) (hr_prefix hr) = p")
      case False
      have "s \<notin> set (hr_hosts hr)"
      proof
        assume "s \<in> set (hr_hosts hr)"
        then obtain k where k: "p @ d = hr_prefix hr @ fmt_width (hr_width hr) k" using num(1) s(1) by (auto simp: hr_hosts_def)
        then obtain u where u: "(p = hr_prefix hr @ u \<and> u @ d = fmt_width (hr_width hr) k) \<or> (p @ u = hr_prefix hr)"
          by (auto simp: append_eq_append_conv2)
        then show False
        proof
          assume a: "p = hr_prefix hr @ u \<and> u @ d = fmt_width (hr_width hr) k"
          show False
          proof (cases "u = []")
            case True
            then show False using a False by simp
          next
            case ne: False
            then have "isdigit (last u)" using a fmt_width_digits last_in_set by (metis Un_iff set_append)
            then show False using s(4) a ne by simp
          qed
        next
          assume "p @ u = hr_prefix hr"
          then have "take (length p) (hr_prefix hr) = p" by (metis append_eq_conv_conj)
          then show False using False by simp
        qed
      qed
      then show ?thesis using w num(1) assms(1) hn False
        by (subst (asm) hostrange_hn_within.simps) (auto simp: Let_def first_index_def)
    next
      case True
      then have p: "hr_prefix hr = p" using assms(3) num(1) s(1,2) by (simp add: no_longer_prefix_def)
      have mem: "s \<in> set (hr_hosts hr) \<longleftrightarrow> hr_lo hr \<le> ?num \<and> ?num \<le> hr_hi hr \<and> fmt_width (hr_width hr) ?num = d"
      proof
        assume "s \<in> set (hr_hosts hr)"
        then obtain k where k: "k \<in> set (suffixes (hr_lo hr) (hr_hi hr))" "d = fmt_width (hr_width hr) k"
          using num(1) s(1) p by (auto simp: hr_hosts_def)
        then show "hr_lo hr \<le> ?num \<and> ?num \<le> hr_hi hr \<and> fmt_width (hr_width hr) ?num = d" using suffixes_mem [OF k(1)] by simp
      next
        assume "hr_lo hr \<le> ?num \<and> ?num \<le> hr_hi hr \<and> fmt_width (hr_width hr) ?num = d"
        then show "s \<in> set (hr_hosts hr)" using mem_hr_hosts [of hr ?num] num(1) s(1) p
          by (auto simp: hr_hosts_def intro: rev_image_eqI)
      qed
      have step: "(off, hr') = (if ?num \<le> hr_hi hr \<and> ?num \<ge> hr_lo hr then
          (case width_equiv (hr_lo hr) (hr_width hr) ?num (length d) of None \<Rightarrow> (- 1, hr)
           | Some (w, _) \<Rightarrow> (sint (ucast (?num - hr_lo hr) :: u32), hr\<lparr>hr_width := w\<rparr>)) else (- 1, hr))"
        using w num(1) p unfolding hostrange_hn_within.simps [of hr s "length p"] Let_def hn by simp
      show ?thesis
      proof (cases "s \<in> set (hr_hosts hr)")
        case True
        then have r: "hr_lo hr \<le> ?num" "?num \<le> hr_hi hr" "fmt_width (hr_width hr) ?num = d" using mem by simp_all
        obtain w1 w2 where we: "width_equiv (hr_lo hr) (hr_width hr) ?num (length d) = Some (w1, w2)"
          using width_equiv_len [OF r(3)] by blast
        let ?k = "unat (?num - hr_lo hr)"
        have k: "?k = unat ?num - unat (hr_lo hr)" using r(1) by (simp add: unat_sub)
        have kl: "?k < length (hr_hosts hr)" using num(1) k r(1,2) by (simp add: hr_hosts_def length_suffixes word_le_nat_alt)
        have "hr_hosts hr ! ?k = s" using hr_hosts_nth [OF assms(1) num(1) kl] r(3) s(1) p by simp
        then have "first_index s (hr_hosts hr) = int ?k" by (rule first_index_nth [OF distinct_hr_hosts kl])
        moreover have "sint (ucast (?num - hr_lo hr) :: u32) = int ?k" by (rule int_of_u64) (use kl assms(2) in linarith)
        moreover have "hr_hosts (hr\<lparr>hr_width := w1\<rparr>) = hr_hosts hr"
          using width_equiv_sound(2) [OF we] by (intro hr_hosts_width) simp
        ultimately show ?thesis using step r(1,2) we assms(1) num(1) by (simp add: range_ok_def)
      next
        case False
        have "hr' = hr \<and> off = - 1"
        proof (cases "?num \<le> hr_hi hr \<and> ?num \<ge> hr_lo hr")
          case True
          then have "fmt_width (hr_width hr) ?num \<noteq> d" using False mem by simp
          then have "width_equiv (hr_lo hr) (hr_width hr) ?num (length d) = None"
            using width_equiv_sound(2,3) [of "hr_lo hr" "hr_width hr" ?num "length d"] True pad
            by (cases "width_equiv (hr_lo hr) (hr_width hr) ?num (length d)") auto
          then show ?thesis using step True by simp
        next
          case False
          then show ?thesis using step by (simp split: if_splits)
        qed
        then show ?thesis using False assms(1) by (simp add: first_index_def)
      qed
    qed
  qed
qed


lemma first_index_append: "first_index s (xs @ ys) =
    (if s \<in> set xs then first_index s xs else if s \<in> set ys then int (length xs) + first_index s ys else - 1)"
  by (auto simp: first_index_def takeWhile_append split: if_splits)

lemma first_index_range: "s \<in> set xs \<Longrightarrow> 0 \<le> first_index s xs \<and> first_index s xs < int (length xs) \<and> xs ! nat (first_index s xs) = s"
proof -
  assume a: "s \<in> set xs"
  then have ne: "dropWhile (\<lambda>x. x \<noteq> s) xs \<noteq> []" by (simp add: dropWhile_eq_Nil_conv)
  then have "length (takeWhile (\<lambda>x. x \<noteq> s) xs) < length xs"
    by (metis length_append length_greater_0_conv less_add_same_cancel1 takeWhile_dropWhile_id)
  then show ?thesis using a nth_length_takeWhile [of "\<lambda>x. x \<noteq> s" xs] by (simp add: first_index_def)
qed

lemma find_loop_correct:
  assumes "list_all range_ok (map snd rs)" "length (hosts (map snd rs)) < 2 ^ 31" "list_all (no_longer_prefix s) (map snd rs)"
    and "unat (fst (strtoul10 (drop (host_prefix_end s) s))) \<le> max_host_suffix" "find_loop rs s c = (r, rs')"
  shows "r = (if s \<in> set (hosts (map snd rs)) then c + first_index s (hosts (map snd rs)) else - 1) \<and>
    list_all range_ok (map snd rs') \<and> hosts (map snd rs') = hosts (map snd rs) \<and> map fst rs' = map fst rs \<and>
    map (\<lambda>(a, hr). (hr_prefix hr, hr_singlehost hr)) rs' = map (\<lambda>(a, hr). (hr_prefix hr, hr_singlehost hr)) rs"
  using assms
proof (induction rs s c arbitrary: r rs' rule: find_loop.induct)
  case (2 a hr hrs s c)
  obtain off hr' where w: "hostrange_hn_within hr s (host_prefix_end s) = (off, hr')"
    by (cases "hostrange_hn_within hr s (host_prefix_end s)")
  have h: "off = first_index s (hr_hosts hr)" "range_ok hr'" "hr_hosts hr' = hr_hosts hr" "hr_prefix hr' = hr_prefix hr"
    "hr_singlehost hr' = hr_singlehost hr" using hn_within_correct [OF _ _ _ 2(5) w] 2(2-4) by simp_all
  show ?case
  proof (cases "s \<in> set (hr_hosts hr)")
    case True
    then show ?thesis using 2(2,6) w h first_index_range [OF True] by (auto simp: first_index_append)
  next
    case False
    then have off: "off = - 1" using h(1) by (simp add: first_index_def)
    have cnt: "sint (ucast (hostrange_count hr') :: u32) = int (length (hr_hosts hr))"
      using count_int [OF h(2)] h(3) 2(3) by simp
    obtain r1 rs1 where f: "find_loop hrs s (c + int (length (hr_hosts hr))) = (r1, rs1)"
      by (cases "find_loop hrs s (c + int (length (hr_hosts hr)))")
    have e: "r = r1" "rs' = (a, hr') # rs1" using 2(6) w off cnt f by simp_all
    have ih: "r1 = (if s \<in> set (hosts (map snd hrs)) then c + int (length (hr_hosts hr)) + first_index s (hosts (map snd hrs)) else - 1) \<and>
      list_all range_ok (map snd rs1) \<and> hosts (map snd rs1) = hosts (map snd hrs) \<and> map fst rs1 = map fst hrs \<and>
      map (\<lambda>(a, hr). (hr_prefix hr, hr_singlehost hr)) rs1 = map (\<lambda>(a, hr). (hr_prefix hr, hr_singlehost hr)) hrs"
      using 2(1) [OF w [symmetric] _ _ _ _ 2(5)] 2(2-4) off f cnt by simp
    then show ?thesis using False h e by (auto simp: first_index_append)
  qed
qed simp

lemma find_correct:
  assumes "hl_ok hl" "findable hl s" "hostlist_find hl (Some s) = (r, hl')"
  shows "r = first_index s (hl_hosts hl) \<and> hl_ok hl' \<and> hl_hosts hl' = hl_hosts hl \<and> 
    map (\<lambda>(a, hr). (hr_prefix hr, hr_singlehost hr)) (hl_hr hl') = map (\<lambda>(a, hr). (hr_prefix hr, hr_singlehost hr)) (hl_hr hl)"
proof -
  obtain r1 rs' where f: "find_loop (hl_hr hl) s 0 = (r1, rs')" by (cases "find_loop (hl_hr hl) s 0")
  have e: "r = r1" "hl' = hl\<lparr>hl_hr := rs'\<rparr>" using assms(3) f by (simp_all add: hostlist_find_def)
  have ok: "list_all range_ok (map snd (hl_hr hl))" "length (hosts (map snd (hl_hr hl))) < 2 ^ 31"
    using assms(1) by (simp_all add: hl_ok_def hl_hosts_def)
  have fl: "r1 = (if s \<in> set (hosts (map snd (hl_hr hl))) then 0 + first_index s (hosts (map snd (hl_hr hl))) else - 1) \<and>
    list_all range_ok (map snd rs') \<and> hosts (map snd rs') = hosts (map snd (hl_hr hl)) \<and> map fst rs' = map fst (hl_hr hl) \<and>
    map (\<lambda>(a, hr). (hr_prefix hr, hr_singlehost hr)) rs' = map (\<lambda>(a, hr). (hr_prefix hr, hr_singlehost hr)) (hl_hr hl)"
    by (rule find_loop_correct [OF ok _ _ f]) (use assms(2) in \<open>simp_all add: findable_def\<close>)
  then have hs: "hl_hosts hl' = hl_hosts hl" by (simp add: e hl_hosts_def)
  have "hl_ok hl'" using assms(1) fl hs unfolding hl_ok_def by (simp add: e)
  then show ?thesis using fl hs by (simp add: e hl_hosts_def first_index_def)
qed

section \<open>Deleting by name\<close>

text \<open>The prefixes that decide whether a host can be looked up are not changed.\<close>

definition shapes :: "hostlist \<Rightarrow> (string \<times> bool) set" where
  "shapes hl = (\<lambda>(a, hr). (hr_prefix hr, hr_singlehost hr)) ` set (hl_hr hl)"

lemma shapes_iff: "(p, b) \<in> shapes hl \<longleftrightarrow> (\<exists>a hr. (a, hr) \<in> set (hl_hr hl) \<and> p = hr_prefix hr \<and> b = hr_singlehost hr)"
  by (force simp: shapes_def)

lemma shapes_subset: "(\<And>a hr. (a, hr) \<in> set (hl_hr hl') \<Longrightarrow> (hr_prefix hr, hr_singlehost hr) \<in> shapes hl) \<Longrightarrow> shapes hl' \<subseteq> shapes hl"
  by (force simp: shapes_def [of hl'])

lemma shapes_mem: "(a, hr) \<in> set (hl_hr hl) \<Longrightarrow> (hr_prefix hr, hr_singlehost hr) \<in> shapes hl"
  by (force simp: shapes_def)

lemma findable_shapes: "shapes hl' \<subseteq> shapes hl \<Longrightarrow> findable hl s \<Longrightarrow> findable hl' s"
proof -
  have sh: "list_all (no_longer_prefix s) (map snd (hl_hr hl)) \<longleftrightarrow> (\<forall>(p, b) \<in> shapes hl. b \<or>
      (take (host_prefix_end s) p = take (host_prefix_end s) s \<longrightarrow> p = take (host_prefix_end s) s))" for hl
    by (auto simp: list_all_iff no_longer_prefix_def shapes_def Let_def)
  show "shapes hl' \<subseteq> shapes hl \<Longrightarrow> findable hl s \<Longrightarrow> findable hl' s" unfolding findable_def sh by blast
qed

lemma delete_host_shape:
  assumes "hostrange_delete_host hr n = Some (hr', new)"
  shows "hr_prefix hr' = hr_prefix hr \<and> hr_singlehost hr' = hr_singlehost hr \<and>
    (\<forall>h. new = Some h \<longrightarrow> hr_prefix h = hr_prefix hr \<and> hr_singlehost h = hr_singlehost hr)"
  using assms by (auto simp: hostrange_delete_host_def hostrange_copy_def hostrange_create_def hostrange_create_single_def split: if_splits)

lemma delete_range_shapes: "hostlist_delete_range hl i = Some hl' \<Longrightarrow> shapes hl' \<subseteq> shapes hl"
  by (rule shapes_subset) (auto simp: hostlist_delete_range_def dest!: in_set_takeD in_set_dropD intro: shapes_mem split: if_splits)

lemma update_shapes:
  assumes "i < length (hl_hr hl)" "hr_prefix hr' = hr_prefix (snd (hl_hr hl ! i))" "hr_singlehost hr' = hr_singlehost (snd (hl_hr hl ! i))"
  shows "shapes (hl\<lparr>hl_hr := (hl_hr hl)[i := (a, hr')]\<rparr>) \<subseteq> shapes hl"
proof (rule shapes_subset)
  fix b h assume "(b, h) \<in> set (hl_hr (hl\<lparr>hl_hr := (hl_hr hl)[i := (a, hr')]\<rparr>))"
  then have "(b, h) = (a, hr') \<or> (b, h) \<in> set (hl_hr hl)" using set_update_subset_insert [of "hl_hr hl" i "(a, hr')"] by auto
  then show "(hr_prefix h, hr_singlehost h) \<in> shapes hl"
    using shapes_mem [of "fst (hl_hr hl ! i)" "snd (hl_hr hl ! i)" hl] nth_mem [OF assms(1)] assms(2,3) by (auto intro: shapes_mem)
qed

lemma insert_range_shapes:
  assumes "(hr_prefix hr, hr_singlehost hr) \<in> shapes hl"
  shows "shapes (snd (hostlist_insert_range hl hr n)) \<subseteq> shapes hl"
proof (rule shapes_subset)
  have c: "hr_prefix (hostrange_copy hr) = hr_prefix hr" "hr_singlehost (hostrange_copy hr) = hr_singlehost hr"
    by (simp_all add: hostrange_copy_def hostrange_create_def hostrange_create_single_def)
  fix b h assume "(b, h) \<in> set (hl_hr (snd (hostlist_insert_range hl hr n)))"
  then have "h = hostrange_copy hr \<or> (b, h) \<in> set (hl_hr hl)"
    by (auto simp: hostlist_insert_range_def Let_def dest: in_set_takeD in_set_dropD split: if_splits)
  then show "(hr_prefix h, hr_singlehost h) \<in> shapes hl" using assms c by (auto intro: shapes_mem)
qed

lemma nth_range_less: "nth_range hrs n c = Some (i, m) \<Longrightarrow> i < length hrs"
  by (induction hrs arbitrary: c i m) (auto simp: Let_def split: if_splits)

lemma delete_nth_shapes:
  assumes "hostlist_delete_nth hl n = Some hl'"
  shows "shapes hl' \<subseteq> shapes hl"
proof (cases "nth_range (map snd (hl_hr hl)) n 0")
  case None
  then show ?thesis using assms by (auto simp: hostlist_delete_nth_def shapes_def split: if_splits)
next
  case (Some p)
  obtain i m a hr where p: "p = (i, m)" "hl_hr hl ! i = (a, hr)" by (metis surj_pair)
  have i: "i < length (hl_hr hl)" using nth_range_less [of "map snd (hl_hr hl)"] Some p by simp
  let ?t = "if hr_singlehost hr then hostlist_delete_range hl i
      else case hostrange_delete_host hr (hr_lo hr + of_int n - of_int m) of None \<Rightarrow> None
        | Some (hr', new) \<Rightarrow> (case new of
              Some h \<Rightarrow> Some (snd (hostlist_insert_range (hl\<lparr>hl_hr := (hl_hr hl)[i := (a, hr')]\<rparr>) h (i + 1)))
            | None \<Rightarrow> if hostrange_empty hr' then hostlist_delete_range (hl\<lparr>hl_hr := (hl_hr hl)[i := (a, hr')]\<rparr>) i
                       else Some (hl\<lparr>hl_hr := (hl_hr hl)[i := (a, hr')]\<rparr>))"
  have "0 \<le> n \<and> n \<le> hl_nhosts hl" using assms by (auto simp: hostlist_delete_nth_def split: if_splits)
  then have "map_option (\<lambda>hl. hl\<lparr>hl_nhosts := hl_nhosts hl - 1\<rparr>) ?t = Some hl'"
    using assms unfolding hostlist_delete_nth_def Let_def Some p option.case prod.case by simp
  then obtain hl2 where hl2: "hl' = hl2\<lparr>hl_nhosts := hl_nhosts hl2 - 1\<rparr>" "?t = Some hl2" by (auto simp only: map_option_eq_Some)
  have s2: "shapes hl2 \<subseteq> shapes hl"
  proof (cases "hr_singlehost hr")
    case True
    then show ?thesis using hl2(2) delete_range_shapes by simp
  next
    case False
    then obtain hr' new where d: "hostrange_delete_host hr (hr_lo hr + of_int n - of_int m) = Some (hr', new)"
      using hl2(2) by (auto split: option.splits)
    let ?hl1 = "hl\<lparr>hl_hr := (hl_hr hl)[i := (a, hr')]\<rparr>"
    have s1: "shapes ?hl1 \<subseteq> shapes hl" by (rule update_shapes) (use i p delete_host_shape [OF d] in simp_all)
    show ?thesis
    proof (cases new)
      case None
      then have "hl2 = ?hl1 \<or> hostlist_delete_range ?hl1 i = Some hl2" using hl2(2) False d by (simp split: if_splits)
      then show ?thesis using s1 delete_range_shapes by blast
    next
      case (Some h)
      have "(a, hr') \<in> set (hl_hr ?hl1)" using i by (simp add: set_update_memI)
      then have "(hr_prefix hr', hr_singlehost hr') \<in> shapes ?hl1" by (rule shapes_mem)
      moreover have "hr_prefix h = hr_prefix hr'" "hr_singlehost h = hr_singlehost hr'"
        using delete_host_shape [OF d] Some by auto
      ultimately have "(hr_prefix h, hr_singlehost h) \<in> shapes ?hl1" by (simp only:)
      then have "shapes (snd (hostlist_insert_range ?hl1 h (i + 1))) \<subseteq> shapes ?hl1" by (rule insert_range_shapes)
      moreover have "hl2 = snd (hostlist_insert_range ?hl1 h (i + 1))" using hl2(2) False d Some by simp
      ultimately show ?thesis using s1 by blast
    qed
  qed
  then show ?thesis by (simp add: hl2(1) shapes_def)
qed

lemma remove1_first:
  assumes "s \<in> set xs"
  shows "take (nat (first_index s xs)) xs @ drop (nat (first_index s xs) + 1) xs = remove1 s xs"
proof -
  have "take (length (takeWhile (\<lambda>x. x \<noteq> s) xs)) xs @ drop (Suc (length (takeWhile (\<lambda>x. x \<noteq> s) xs))) xs = remove1 s xs"
    using assms by (induction xs) auto
  then show ?thesis using assms by (simp add: first_index_def)
qed

lemma delete_host_correct:
  assumes "hl_ok hl" "findable hl s"
  shows "\<exists>hl'. hostlist_delete_host hl s = Some (of_bool (s \<in> set (hl_hosts hl)), hl') \<and> hl_ok hl' \<and>
    hl_hosts hl' = remove1 s (hl_hosts hl) \<and> shapes hl' \<subseteq> shapes hl"
proof -
  obtain r hl1 where f: "hostlist_find hl (Some s) = (r, hl1)" by (cases "hostlist_find hl (Some s)")
  note c = find_correct [OF assms f]
  have "set (map (\<lambda>(a, hr). (hr_prefix hr, hr_singlehost hr)) (hl_hr hl1)) = set (map (\<lambda>(a, hr). (hr_prefix hr, hr_singlehost hr)) (hl_hr hl))"
    using c by simp
  then have sh: "shapes hl1 = shapes hl" by (simp add: shapes_def)
  show ?thesis
  proof (cases "s \<in> set (hl_hosts hl)")
    case True
    note fi = first_index_range [OF True]
    have "\<exists>hl'. hostlist_delete_nth hl1 r = Some hl' \<and> hl_ok hl' \<and> hl_hosts hl' = take (nat r) (hl_hosts hl1) @ drop (nat r + 1) (hl_hosts hl1)"
      by (rule hostlist_delete_nth_ok) (use c fi in simp_all)
    then obtain hl' where d: "hostlist_delete_nth hl1 r = Some hl'" "hl_ok hl'" "hl_hosts hl' = remove1 s (hl_hosts hl)"
      using remove1_first [OF True] c by auto
    then have "hostlist_delete_host hl s = Some (1, hl')" using f c fi by (simp add: hostlist_delete_host_def)
    then show ?thesis using d delete_nth_shapes [OF d(1)] sh True by (intro exI [of _ hl']) simp
  next
    case False
    then have "hostlist_delete_host hl s = Some (0, hl1)" using f c by (simp add: hostlist_delete_host_def first_index_def)
    then show ?thesis using False c sh by (intro exI [of _ hl1]) (simp add: remove1_idem)
  qed
qed

lemma length_remove1_Suc: "x \<in> set xs \<Longrightarrow> length xs = Suc (length (remove1 x xs))"
  by (induction xs) auto

lemma delete_loop_correct:
  assumes "hl_ok hl" "hl_ok t" "\<forall>s \<in> set (hl_hosts t). findable hl s" "length (hl_hosts t) < fuel"
  shows "\<exists>hl'. delete_loop fuel t hl n = Some (n + int (length (hl_hosts hl)) - int (length (hl_hosts hl')), hl') \<and> hl_ok hl' \<and>
    hl_hosts hl' = fold remove1 (rev (hl_hosts t)) (hl_hosts hl)"
  using assms
proof (induction fuel arbitrary: t hl n)
  case (Suc fuel)
  show ?case
  proof (cases "hl_hosts t" rule: rev_cases)
    case Nil
    then show ?thesis using pop_end [OF Suc(3)] Suc(2) by simp
  next
    case (snoc xs x)
    obtain t' where t': "hostlist_pop t = Some (Some x, t')" "hl_ok t'" "hl_hosts t' = xs" using pop_next [OF Suc(3) snoc] by blast
    obtain hl1 where d: "hostlist_delete_host hl x = Some (of_bool (x \<in> set (hl_hosts hl)), hl1)" "hl_ok hl1"
      "hl_hosts hl1 = remove1 x (hl_hosts hl)" "shapes hl1 \<subseteq> shapes hl"
      using delete_host_correct [OF Suc(2), of x] Suc(4) snoc by auto
    have len: "of_bool (x \<in> set (hl_hosts hl)) + int (length (hl_hosts hl1)) = int (length (hl_hosts hl))"
      using d(3) length_remove1_Suc [of x "hl_hosts hl"] by (auto simp: remove1_idem)
    have "\<forall>s \<in> set (hl_hosts t'). findable hl1 s" using Suc(4) snoc t'(3) findable_shapes [OF d(4)] by simp
    then obtain hl' where ih: "delete_loop fuel t' hl1 (n + of_bool (x \<in> set (hl_hosts hl))) =
        Some (n + of_bool (x \<in> set (hl_hosts hl)) + int (length (hl_hosts hl1)) - int (length (hl_hosts hl')), hl')" "hl_ok hl'"
      "hl_hosts hl' = fold remove1 (rev (hl_hosts t')) (hl_hosts hl1)"
      using Suc(1) [OF d(2) t'(2), of "n + of_bool (x \<in> set (hl_hosts hl))"] Suc(5) snoc t'(3) by auto
    have "delete_loop (Suc fuel) t hl n = delete_loop fuel t' hl1 (n + of_bool (x \<in> set (hl_hosts hl)))"
      using t'(1) d(1) by simp
    then show ?thesis using ih d(3) t'(3) snoc len by (intro exI [of _ hl']) simp
  qed
qed simp

section \<open>Properties\<close>

text \<open>C27: \<open>hostlist_delete\<close> of a list of well-formed host expressions from a well-formed list removes the first occurrence of every host they stand for, the last
  one first, whatever ranges have to be cut; it returns the number of hosts removed and keeps the list well formed. Every
  host must be one that can be looked up: its numeric suffix is at most \<open>MAX_HOST_SUFFIX\<close> (\<open>2^25\<close>), and the list has no range
  whose prefix is longer than that of the host and begins with it (with such a range another host may be removed, see
  \<open>hostlist_delete_other_host\<close>). The expressions stand for fewer than \<open>2^31\<close> hosts.\<close>

theorem hostlist_delete_correct:
  assumes "hl_ok hl" "list_all expr_ok es" "length (concat (map expr_hosts es)) < 2 ^ 31"
    and "\<forall>s \<in> set (concat (map expr_hosts es)). findable hl s"
  shows "\<exists>hl'. hostlist_delete hl (Some (commas (map expr_text es))) =
      Some (int (length (hl_hosts hl)) - int (length (hl_hosts hl')), hl') \<and> hl_ok hl' \<and>
    hl_hosts hl' = fold remove1 (rev (concat (map expr_hosts es))) (hl_hosts hl)"
proof -
  obtain t where t: "hostlist_create (Some (commas (map expr_text es))) = Some (Inr t)" "hl_ok t"
    "hl_hosts t = concat (map expr_hosts es)"
    using create_loop_ok [OF hostlist_new_ok(1) assms(2)] assms(3) by (auto simp: hostlist_create_def hostlist_create_bracketed_def)
  have "length (hl_hosts t) < Suc (nat (hl_nhosts t))" using t(2) by (simp add: hl_ok_def)
  from delete_loop_correct [OF assms(1) t(2) _ this, of 0] show ?thesis
    using assms(4) t by (simp add: hostlist_delete_def)
qed

theorem hostlist_delete_correct_witness:
  "\<exists>hl'. hostlist_delete hl_example (Some ''bar,foo09'') = Some (2, hl') \<and> hl_hosts hl' = [''foo08'', ''foo10'', ''foo3'']"
proof -
  let ?es = "[HName ''bar'', HName ''foo09'']"
  have f: "\<forall>s \<in> set (concat (map expr_hosts ?es)). findable hl_example s" unfolding hl_example_eq by code_simp
  have e: "list_all expr_ok ?es" by code_simp
  have t: "commas (map expr_text ?es) = ''bar,foo09''" and l: "length (concat (map expr_hosts ?es)) < 2 ^ 31" by simp_all
  from hostlist_delete_correct [OF hl_example_ok(1) e l f] show ?thesis unfolding t hl_example_ok(3) by auto
qed

lemma fmt_width_1: "fmt_width 1 j = print_u64 j"
proof -
  have "0 < length (print_u64 j)" by (simp add: print_u64_def)
  then have "1 - length (print_u64 j) = 0" by linarith
  then show ?thesis unfolding fmt_width_def by simp
qed

text \<open>The longest prefix that is no range prefix: the search takes the host for one of the range.\<close>

lemma hn_within_longer:
  assumes "p = [] \<or> \<not> isdigit (last p)" "q \<noteq> []" "\<not> isdigit (last q)" "lo \<le> k" "k \<le> hi" "unat k \<le> max_host_suffix"
  shows "\<exists>w. hostrange_hn_within (hostrange_create (p @ q) lo hi 1) (p @ print_u64 k) (host_prefix_end (p @ print_u64 k)) =
      (sint (ucast (k - lo) :: u32), hostrange_create (p @ q) lo hi w) \<and> (\<forall>j \<ge> lo. fmt_width w j = fmt_width 1 j)"
proof -
  let ?s = "p @ print_u64 k" and ?hr = "hostrange_create (p @ q) lo hi 1"
  have pk: "print_u64 k = fmt_width 0 k" by (simp add: fmt_width_def)
  then have dig: "\<And>c. c \<in> set (print_u64 k) \<Longrightarrow> isdigit c" and ne: "print_u64 k \<noteq> []" and st: "strtoul10 (print_u64 k) = (k, [])"
    using fmt_width_digits [of _ 0 k] by simp_all
  have e: "host_prefix_end ?s = length p"
  proof -
    have "dropWhile isdigit (rev p) = rev p" using assms(1) by (cases p rule: rev_cases) auto
    moreover have "dropWhile isdigit (rev (print_u64 k) @ rev p) = dropWhile isdigit (rev p)"
      by (rule dropWhile_append2) (use dig in \<open>unfold set_rev, blast\<close>)
    ultimately show ?thesis by (simp add: host_prefix_end_def)
  qed
  have hn: "hn_suffix (hostname_create_with_suffix ?s (length p)) = Some (print_u64 k)"
    "hn_prefix (hostname_create_with_suffix ?s (length p)) = p" "hn_num (hostname_create_with_suffix ?s (length p)) = k"
    using ne st assms(6) by (simp_all add: hostname_create_with_suffix_def)
  have nd: "\<not> isdigit ((p @ q) ! (length (p @ q) - 1))" 
    using assms(2,3) last_conv_nth [of "p @ q"] by simp
  obtain w w2 where we: "width_equiv lo 1 k (length (print_u64 k)) = Some (w, w2)"
    using width_equiv_len [OF fmt_width_1 [of k], of lo] by blast
  have "hostrange_hn_within ?hr ?s (length p) = (sint (ucast (k - lo) :: u32), ?hr\<lparr>hr_width := w\<rparr>)"
    using nd assms(4,5) we unfolding hostrange_hn_within.simps [of ?hr ?s "length p"] Let_def hn
    by (simp add: hostrange_create_def)
  then show ?thesis using width_equiv_sound(2) [OF we] by (auto simp: e hostrange_create_def)
qed

text \<open>The prefix test of \<open>hostrange_hn_within\<close> compares only as many characters as the host's prefix has. When the list
  is one range with prefix \<open>pq\<close>, where \<open>q\<close> does not end in a digit, a request to delete the host with prefix \<open>p\<close>, which is
  not in the list, removes the host of the range with the same number.\<close>

theorem hostlist_delete_other_host:
  assumes "p = [] \<or> \<not> isdigit (last p)" "q \<noteq> []" "\<not> isdigit (last q)" "lo \<le> k" "k \<le> hi" "unat hi \<le> max_host_suffix"
    and "hl_ok hl" "hl_hr hl = [(a, hostrange_create (p @ q) lo hi 1)]"
  shows "p @ print_u64 k \<notin> set (hl_hosts hl) \<and>
    (\<exists>hl'. hostlist_delete_host hl (p @ print_u64 k) = Some (1, hl') \<and>
      hl_hosts hl' = remove1 (p @ q @ print_u64 k) (hl_hosts hl))"
proof
  let ?hr = "hostrange_create (p @ q) lo hi 1" and ?s = "p @ print_u64 k"
  have hs: "hl_hosts hl = map (\<lambda>j. p @ q @ print_u64 j) (suffixes lo hi)"
    by (simp add: hl_hosts_def assms(8) hostrange_create_def hr_hosts_def fmt_width_1 del: One_nat_def)
  have dig: "\<forall>c \<in> set (print_u64 j). isdigit c" for j using fmt_width_digits [of _ 1 j] unfolding fmt_width_1 by blast
  show "?s \<notin> set (hl_hosts hl)"
  proof
    assume "?s \<in> set (hl_hosts hl)"
    then obtain j where j: "print_u64 k = q @ print_u64 j" unfolding hs by auto
    then have "last q \<in> set (print_u64 k)" using assms(2) by simp
    then show False using dig [of k] assms(3) by blast
  qed
  have ok: "range_ok ?hr" and b: "length (hr_hosts ?hr) < 2 ^ 31" using assms(7,8) by (simp_all add: hl_ok_def hl_hosts_def)
  have kh: "unat k \<le> max_host_suffix" using assms(5,6) by (simp add: word_le_nat_alt)
  obtain w where w: "hostrange_hn_within ?hr ?s (host_prefix_end ?s) = (sint (ucast (k - lo) :: u32), hostrange_create (p @ q) lo hi w)"
    "\<forall>j \<ge> lo. fmt_width w j = fmt_width 1 j" using hn_within_longer [OF assms(1-5) kh] by blast
  let ?k = "unat (k - lo)" and ?hl1 = "hl\<lparr>hl_hr := [(a, hostrange_create (p @ q) lo hi w)]\<rparr>"
  have kl: "?k < length (hl_hosts hl)" using assms(4,5) by (simp add: hs length_suffixes unat_sub word_le_nat_alt)
  have si: "sint (ucast (k - lo) :: u32) = int ?k"
    by (rule int_of_u64) (use kl b in \<open>simp add: hl_hosts_def assms(8)\<close>)
  have h1: "hl_hosts ?hl1 = hl_hosts hl"
    using hr_hosts_width [of ?hr w] w(2) by (simp add: hl_hosts_def assms(8) hostrange_create_def del: One_nat_def)
  then have ok1: "hl_ok ?hl1" using assms(7,8) unfolding hl_ok_def by (simp add: range_ok_def hostrange_create_def)
  have "hostlist_find hl (Some ?s) = (int ?k, ?hl1)" using w(1) si by (simp add: hostlist_find_def assms(8))
  then have d: "hostlist_delete_host hl ?s = map_option (Pair 1) (hostlist_delete_nth ?hl1 (int ?k))"
    by (simp add: hostlist_delete_host_def)
  have el: "hl_hosts hl ! ?k = p @ q @ print_u64 k" using kl nth_suffix [of lo hi ?k] assms(4,5) by (simp add: hs)
  have "distinct (hl_hosts hl)" using distinct_hr_hosts [of ?hr] by (simp add: hl_hosts_def assms(8))
  then have fi: "first_index (p @ q @ print_u64 k) (hl_hosts hl) = int ?k" using first_index_nth kl el by blast
  moreover have "p @ q @ print_u64 k \<in> set (hl_hosts hl)" using el kl nth_mem by metis
  ultimately have r: "take ?k (hl_hosts hl) @ drop (?k + 1) (hl_hosts hl) = remove1 (p @ q @ print_u64 k) (hl_hosts hl)"
    using remove1_first [of "p @ q @ print_u64 k" "hl_hosts hl"] by simp
  have "\<exists>hl'. hostlist_delete_nth ?hl1 (int ?k) = Some hl' \<and> hl_ok hl' \<and>
      hl_hosts hl' = take (nat (int ?k)) (hl_hosts ?hl1) @ drop (nat (int ?k) + 1) (hl_hosts ?hl1)"
    by (rule hostlist_delete_nth_ok [OF ok1]) (simp_all only: h1 of_nat_less_iff kl of_nat_0_le_iff)
  then show "\<exists>hl'. hostlist_delete_host hl ?s = Some (1, hl') \<and> hl_hosts hl' = remove1 (p @ q @ print_u64 k) (hl_hosts hl)"
    unfolding d h1 using r by auto
qed

theorem hostlist_delete_other_host_witness:
  "\<exists>hl hl'. hostlist_create (Some ''foobar[1-10]'') = Some (Inr hl) \<and> ''foo5'' \<notin> set (hl_hosts hl) \<and>
    hostlist_delete_host hl ''foo5'' = Some (1, hl') \<and> hl_hosts hl' = remove1 ''foobar5'' (hl_hosts hl)"
proof -
  let ?hl = "\<lparr>hl_hr = [(0, hostrange_create (''foo'' @ ''bar'') 1 10 1)], hl_nhosts = 10, hl_ilist = [], hl_next = 1\<rparr>"
  have c: "hostlist_create (Some ''foobar[1-10]'') = Some (Inr ?hl)" by code_simp
  have l: "length (hl_hosts ?hl) = 10" by (simp add: hl_hosts_def hostrange_create_def hr_hosts_def length_suffixes)
  have "hl_ok ?hl" using l by (simp add: hl_ok_def range_ok_def hostrange_create_def)
  moreover have "print_u64 5 = ''5''" by code_simp
  moreover have "\<not> isdigit (last ''foo'')" "\<not> isdigit (last ''bar'')" by (simp_all add: isdigit_def)
  ultimately show ?thesis using hostlist_delete_other_host [of "''foo''" "''bar''" 1 5 10 ?hl 0] c
    by (simp add: max_host_suffix_def)
qed

end
