(* ===== verification/Lsd_Hostlist_Iter.thy ===== *)
theory Lsd_Hostlist_Iter
  imports Lsd_Hostlist_Find
begin

text \<open>
  Iterators of \<open>liblsd/hostlist.c\<close>: without changes to the list, \<open>hostlist_next\<close> returns its hosts one after the other.
  At the end, what goes wrong when the list is changed.
\<close>

section \<open>A walk over the hosts\<close>

text \<open>\<open>hostlist_next\<close> prints a suffix into 16 bytes, 15 of which it hands to \<open>snprintf\<close>.\<close>

definition short_suffix :: "hostrange \<Rightarrow> bool" where
  "short_suffix hr \<longleftrightarrow> hr_singlehost hr \<or> length (fmt_width (hr_width hr) (hr_hi hr)) < 15"

definition iter_at :: "hostlist \<Rightarrow> hl_iter \<Rightarrow> bool" where
  "iter_at hl i \<longleftrightarrow> it_hr i = slot_addr (hl_hr hl) (it_idx i) \<and> - 1 \<le> it_depth i \<and>
     (it_idx i < length (hl_hr hl) \<longrightarrow> it_depth i < int (length (hr_hosts (snd (hl_hr hl ! it_idx i)))))"

definition iter_ok :: "nat \<Rightarrow> hostlist \<Rightarrow> bool" where
  "iter_ok a hl \<longleftrightarrow> hl_ok hl \<and> list_all short_suffix (map snd (hl_hr hl)) \<and>
     (case map_of (hl_ilist hl) a of None \<Rightarrow> False | Some i \<Rightarrow> iter_at hl i)"

text \<open>The hosts an iterator has still to return.\<close>

definition iter_left :: "hostlist \<Rightarrow> hl_iter \<Rightarrow> string list" where
  "iter_left hl i = (if it_idx i < length (hl_hr hl)
     then drop (nat (it_depth i + 1)) (hr_hosts (snd (hl_hr hl ! it_idx i))) @ hosts (map snd (drop (it_idx i + 1) (hl_hr hl)))
     else [])"

definition hosts_left :: "nat \<Rightarrow> hostlist \<Rightarrow> string list" where
  "hosts_left a hl = (case map_of (hl_ilist hl) a of None \<Rightarrow> [] | Some i \<Rightarrow> iter_left hl i)"

lemma map_of_set_iter: "map_of (hl_ilist hl) a = Some j \<Longrightarrow> map_of (hl_ilist (set_hl_iter hl a i)) a = Some i"
proof -
  have "map_of xs a = Some j \<Longrightarrow> map_of (map (\<lambda>(b, j). (b, if b = a then i else j)) xs) a = Some i" for xs
    by (induction xs) (auto split: if_splits)
  then show "map_of (hl_ilist hl) a = Some j \<Longrightarrow> map_of (hl_ilist (set_hl_iter hl a i)) a = Some i"
    by (simp add: set_hl_iter_def)
qed

lemma set_hl_iter_simps [simp]: "hl_hr (set_hl_iter hl a i) = hl_hr hl" "hl_ok (set_hl_iter hl a i) = hl_ok hl"
  "iter_left (set_hl_iter hl a i) j = iter_left hl j" "iter_at (set_hl_iter hl a i) j = iter_at hl j"
  by (simp_all add: set_hl_iter_def hl_ok_def hl_hosts_def iter_left_def iter_at_def)

lemma iter_set:
  assumes "iter_ok a hl" "iter_at hl i"
  shows "iter_ok a (set_hl_iter hl a i)" "hosts_left a (set_hl_iter hl a i) = iter_left hl i"
proof -
  obtain j where j: "map_of (hl_ilist hl) a = Some j" using assms(1) by (auto simp: iter_ok_def split: option.splits)
  show "iter_ok a (set_hl_iter hl a i)" "hosts_left a (set_hl_iter hl a i) = iter_left hl i"
    using assms map_of_set_iter [OF j, of i] by (simp_all add: iter_ok_def hosts_left_def)
qed

lemma iter_range_at:
  assumes "hl_ok hl" "iter_at hl i" "it_idx i < length (hl_hr hl)"
  shows "iter_range hl i = Some (snd (hl_hr hl ! it_idx i))"
proof -
  have "map_of (hl_hr hl) (fst (hl_hr hl ! it_idx i)) = Some (snd (hl_hr hl ! it_idx i))"
    by (rule map_of_is_SomeI) (use assms in \<open>simp_all add: hl_ok_def\<close>)
  then show ?thesis using assms(2,3) by (simp add: iter_range_def iter_at_def slot_addr_def)
qed

lemma fmt_width_short: "k \<le> hi \<Longrightarrow> length (fmt_width w hi) < 15 \<Longrightarrow> length (fmt_width w k) < 15"
proof -
  assume a: "k \<le> hi" "length (fmt_width w hi) < 15"
  have "length (print_u64 k) \<le> length (print_u64 hi)"
    using a(1) by (simp add: print_u64_def dec_string_mono word_le_nat_alt)
  moreover have "length (fmt_width w j) = max w (length (print_u64 j))" for j by (simp add: fmt_width_def max_def)
  ultimately show ?thesis using a(2) by simp
qed

text \<open>The host an iterator points at, and the hosts behind it.\<close>

lemma iter_emit:
  assumes "iter_ok a hl" "iter_at hl i" "it_idx i < length (hl_hr hl)" "0 \<le> it_depth i"
  shows "\<exists>hr. iter_range hl i = Some hr \<and>
    hr_prefix hr @ (if hr_singlehost hr then [] else snd (snprintf 15 (fmt_width (hr_width hr) (hr_lo hr + of_int (it_depth i))))) =
      hr_hosts hr ! nat (it_depth i) \<and>
    iter_left hl (i\<lparr>it_depth := it_depth i - 1\<rparr>) = hr_hosts hr ! nat (it_depth i) # iter_left hl i"
proof -
  let ?hr = "snd (hl_hr hl ! it_idx i)" and ?k = "nat (it_depth i)"
  have ok: "hl_ok hl" using assms(1) by (simp add: iter_ok_def)
  have mem: "hl_hr hl ! it_idx i \<in> set (hl_hr hl)" using assms(3) by simp
  have r: "range_ok ?hr" using hl_ok_range [OF ok, of "fst (hl_hr hl ! it_idx i)" ?hr] mem by simp
  have short: "short_suffix ?hr" using assms(1) mem by (auto simp: iter_ok_def list_all_iff)
  have k: "?k < length (hr_hosts ?hr)" using assms(2-4) by (auto simp: iter_at_def)
  have tx: "hr_prefix ?hr @ (if hr_singlehost ?hr then []
      else snd (snprintf 15 (fmt_width (hr_width ?hr) (hr_lo ?hr + of_int (it_depth i))))) = hr_hosts ?hr ! ?k"
  proof (cases "hr_singlehost ?hr")
    case True
    then show ?thesis using k by (simp add: hr_hosts_def)
  next
    case False
    let ?n = "hr_lo ?hr + of_nat ?k"
    have d: "of_int (it_depth i) = (of_nat ?k :: u64)" using assms(4) by simp
    have "?n \<in> set (suffixes (hr_lo ?hr) (hr_hi ?hr))"
      using k nth_suffix [of "hr_lo ?hr" "hr_hi ?hr" ?k] False r nth_mem [of ?k "suffixes (hr_lo ?hr) (hr_hi ?hr)"]
      by (simp add: hr_hosts_def range_ok_def)
    then have le: "?n \<le> hr_hi ?hr" using suffixes_mem by blast
    have "length (fmt_width (hr_width ?hr) ?n) < 15"
      by (rule fmt_width_short [OF le]) (use short False in \<open>simp add: short_suffix_def\<close>)
    then show ?thesis using hr_hosts_nth [OF r False k] False by (simp add: d snprintf_fits)
  qed
  have "drop ?k (hr_hosts ?hr) = hr_hosts ?hr ! ?k # drop (Suc ?k) (hr_hosts ?hr)" using k by (rule Cons_nth_drop_Suc [symmetric])
  then have "iter_left hl (i\<lparr>it_depth := it_depth i - 1\<rparr>) = hr_hosts ?hr ! ?k # iter_left hl i"
    using assms(3,4) by (simp add: iter_left_def nat_add_distrib)
  then show ?thesis using iter_range_at [OF ok assms(2,3)] tx by blast
qed

lemma iter_depth_count:
  assumes "range_ok hr" "0 \<le> d" "d \<le> int (length (hr_hosts hr))" "length (hr_hosts hr) < 2 ^ 31"
  shows "of_int d > hr_hi hr - hr_lo hr \<longleftrightarrow> d = int (length (hr_hosts hr))"
proof -
  have len: "length (hr_hosts hr) = Suc (unat (hr_hi hr - hr_lo hr))"
  proof (cases "hr_singlehost hr")
    case True
    then show ?thesis using assms(1) by (simp add: range_ok_def hr_hosts_def)
  next
    case False
    then show ?thesis using assms(1) by (simp add: range_ok_def hr_hosts_def length_suffixes unat_sub word_le_nat_alt Suc_diff_le)
  qed
  obtain n where n: "d = int n" using assms(2) nonneg_int_cases by blast
  have "n < 18446744073709551616" using assms(3,4) n by simp
  then have "unat (of_nat n :: u64) = n" by (simp add: unat_of_nat)
  then have "of_int d > hr_hi hr - hr_lo hr \<longleftrightarrow> unat (hr_hi hr - hr_lo hr) < n" by (simp add: n word_less_nat_alt)
  also have "\<dots> \<longleftrightarrow> n = length (hr_hosts hr)" using len assms(3) n by linarith
  finally show ?thesis unfolding n by (simp only: of_nat_eq_iff)
qed

text \<open>Nothing but the iterator \<open>a\<close> differs: neither the ranges nor the count nor another iterator.\<close>

definition only_iter :: "nat \<Rightarrow> hostlist \<Rightarrow> hostlist \<Rightarrow> bool" where
  "only_iter a hl hl' \<longleftrightarrow> hl_hr hl' = hl_hr hl \<and> hl_nhosts hl' = hl_nhosts hl \<and> hl_next hl' = hl_next hl \<and>
     (\<forall>b. b \<noteq> a \<longrightarrow> map_of (hl_ilist hl') b = map_of (hl_ilist hl) b)"

lemma only_iter_refl [simp]: "only_iter a hl hl"
  by (simp add: only_iter_def)

lemma only_iter_trans: "only_iter a hl hl' \<Longrightarrow> only_iter a hl' hl'' \<Longrightarrow> only_iter a hl hl''"
  by (simp add: only_iter_def)

lemma only_iter_set [simp]: "only_iter a hl (set_hl_iter hl a i)"
proof -
  have "b \<noteq> a \<Longrightarrow> map_of (map (\<lambda>(b, j). (b, if b = a then i else j)) xs) b = map_of xs b" for b xs
    by (induction xs) auto
  then show ?thesis by (simp add: only_iter_def set_hl_iter_def)
qed

text \<open>One call: either the end, or the first of the hosts left.\<close>

lemma hostlist_next_step:
  assumes "iter_ok a hl"
  shows "\<exists>hl'. hostlist_next hl a = Some (case hosts_left a hl of [] \<Rightarrow> None | h # _ \<Rightarrow> Some h, hl') \<and> iter_ok a hl' \<and>
    hosts_left a hl' = tl (hosts_left a hl) \<and> only_iter a hl hl'"
proof -
  obtain i where i: "map_of (hl_ilist hl) a = Some i" "iter_at hl i" using assms by (auto simp: iter_ok_def split: option.splits)
  have ok: "hl_ok hl" using assms by (simp add: iter_ok_def)
  have v: "hosts_left a hl = iter_left hl i" using i by (simp add: hosts_left_def)
  show ?thesis
  proof (cases "it_idx i < length (hl_hr hl)")
    case False
    then show ?thesis using i v iter_set [OF assms i(2)]
      by (intro exI [of _ "set_hl_iter hl a i"]) (simp add: hostlist_next_def iterator_advance_def iter_left_def)
  next
    case True
    let ?hr = "snd (hl_hr hl ! it_idx i)" and ?i1 = "i\<lparr>it_depth := it_depth i + 1\<rparr>"
      and ?i2 = "i\<lparr>it_depth := 0, it_idx := it_idx i + 1, it_hr := slot_addr (hl_hr hl) (it_idx i + 1)\<rparr>"
    have mem: "hl_hr hl ! it_idx i \<in> set (hl_hr hl)" using True by simp
    have r: "range_ok ?hr" using hl_ok_range [OF ok, of "fst (hl_hr hl ! it_idx i)" ?hr] mem by simp
    have "length (hr_hosts ?hr) \<le> length (hl_hosts hl)"
    proof -
      have "hl_hr hl = take (it_idx i) (hl_hr hl) @ hl_hr hl ! it_idx i # drop (Suc (it_idx i)) (hl_hr hl)" by (rule id_take_nth_drop [OF True])
      then have "hl_hosts hl = hosts (map snd (take (it_idx i) (hl_hr hl))) @ hr_hosts ?hr @ hosts (map snd (drop (Suc (it_idx i)) (hl_hr hl)))"
        unfolding hl_hosts_def by (metis hosts_simps(2,3) list.simps(9) map_append)
      then show ?thesis by simp
    qed
    then have cnt: "length (hr_hosts ?hr) < 2 ^ 31" using ok by (simp add: hl_ok_def)
    have d: "0 \<le> it_depth i + 1" "it_depth i + 1 \<le> int (length (hr_hosts ?hr))" using i(2) True by (simp_all add: iter_at_def)
    have adv: "iterator_advance hl i = Some (if it_depth i + 1 = int (length (hr_hosts ?hr)) then ?i2 else ?i1)"
      using iter_range_at [OF ok i(2) True] True iter_depth_count [OF r d cnt] by (simp add: iterator_advance_def Let_def)
    have emit: "\<exists>hl'. hostlist_next hl a = Some (case iter_left hl i of [] \<Rightarrow> None | h # _ \<Rightarrow> Some h, hl') \<and> iter_ok a hl' \<and>
        hosts_left a hl' = tl (iter_left hl i) \<and> only_iter a hl hl'"
      if a: "iterator_advance hl i = Some j" "iter_at hl j" "it_idx j < length (hl_hr hl)" "0 \<le> it_depth j"
        "iter_left hl (j\<lparr>it_depth := it_depth j - 1\<rparr>) = iter_left hl i" for j
    proof -
      obtain hr where e: "iter_range hl j = Some hr"
        "hr_prefix hr @ (if hr_singlehost hr then [] else snd (snprintf 15 (fmt_width (hr_width hr) (hr_lo hr + of_int (it_depth j))))) =
          hr_hosts hr ! nat (it_depth j)"
        "iter_left hl i = hr_hosts hr ! nat (it_depth j) # iter_left hl j"
        using iter_emit [OF assms a(2-4)] a(5) by auto
      have "hostlist_next hl a = Some (Some (hr_hosts hr ! nat (it_depth j)), set_hl_iter hl a j)"
        using i(1) a(1,3) e(1) e(2) by (simp add: hostlist_next_def Let_def)
      then show ?thesis using iter_set [OF assms a(2)] e(3) by (intro exI [of _ "set_hl_iter hl a j"]) simp
    qed
    show ?thesis
    proof (cases "it_depth i + 1 = int (length (hr_hosts ?hr))")
      case False
      have "iter_at hl ?i1" using i(2) d False by (simp add: iter_at_def)
      moreover have "?i1\<lparr>it_depth := it_depth ?i1 - 1\<rparr> = i" by simp
      ultimately show ?thesis using emit [of ?i1] adv False True d(1) v by simp
    next
      case last: True
      have left: "iter_left hl i = hosts (map snd (drop (it_idx i + 1) (hl_hr hl)))" using last True by (simp add: iter_left_def)
      show ?thesis
      proof (cases "it_idx i + 1 < length (hl_hr hl)")
        case False
        have at: "iter_at hl ?i2" using False by (simp add: iter_at_def)
        have "hostlist_next hl a = Some (None, set_hl_iter hl a ?i2)" using i(1) adv last False by (simp add: hostlist_next_def)
        then show ?thesis using iter_set [OF assms at] False left v
          by (intro exI [of _ "set_hl_iter hl a ?i2"]) (simp add: iter_left_def)
      next
        case lt: True
        have m2: "hl_hr hl ! (it_idx i + 1) \<in> set (hl_hr hl)" using lt by simp
        have "range_ok (snd (hl_hr hl ! (it_idx i + 1)))"
          using hl_ok_range [OF ok, of "fst (hl_hr hl ! (it_idx i + 1))"] m2 by simp
        then have "iter_at hl ?i2" by (simp add: iter_at_def)
        moreover have "iter_left hl (?i2\<lparr>it_depth := it_depth ?i2 - 1\<rparr>) = iter_left hl i"
          using lt left Cons_nth_drop_Suc [OF lt] by (simp add: iter_left_def) (metis hosts_simps(2) list.simps(9))
        ultimately show ?thesis using emit [of ?i2] adv last lt v by simp
      qed
    qed
  qed
qed

text \<open>Several calls, and what they return.\<close>

fun next_n :: "nat \<Rightarrow> nat \<Rightarrow> hostlist \<Rightarrow> (string option list \<times> hostlist) option" where
  "next_n a 0 hl = Some ([], hl)"
| "next_n a (Suc n) hl =
     (case hostlist_next hl a of None \<Rightarrow> None
      | Some (h, hl') \<Rightarrow> map_option (\<lambda>(hs, hl''). (h # hs, hl'')) (next_n a n hl'))"

lemma next_n_walk:
  "iter_ok a hl \<Longrightarrow> \<exists>hl'. next_n a n hl = Some (map Some (take n (hosts_left a hl)) @ replicate (n - length (hosts_left a hl)) None, hl') \<and>
     only_iter a hl hl'"
proof (induction n arbitrary: hl)
  case 0
  then show ?case by simp
next
  case (Suc n)
  obtain hl1 where h1: "hostlist_next hl a = Some (case hosts_left a hl of [] \<Rightarrow> None | h # _ \<Rightarrow> Some h, hl1)" "iter_ok a hl1"
    "hosts_left a hl1 = tl (hosts_left a hl)" "only_iter a hl hl1" using hostlist_next_step [OF Suc(2)] by blast
  obtain hl2 where h2: "next_n a n hl1 = Some (map Some (take n (hosts_left a hl1)) @ replicate (n - length (hosts_left a hl1)) None, hl2)"
    "only_iter a hl1 hl2" using Suc(1) [OF h1(2)] by blast
  show ?case using h1(1,3) h2(1) only_iter_trans [OF h1(4) h2(2)] by (cases "hosts_left a hl") simp_all
qed

interpretation hl_next: host_source "iter_ok a" "hosts_left a" "\<lambda>hl. hostlist_next hl a" for a
proof unfold_locales
  fix hl assume "iter_ok a hl" "hosts_left a hl = []"
  then show "\<exists>hl'. hostlist_next hl a = Some (None, hl') \<and> iter_ok a hl' \<and> hosts_left a hl' = []"
    using hostlist_next_step [of a hl] by auto
next
  fix hl x xs assume "iter_ok a hl" "hosts_left a hl = x # xs"
  then show "\<exists>hl'. hostlist_next hl a = Some (Some x, hl') \<and> iter_ok a hl' \<and> hosts_left a hl' = xs"
    using hostlist_next_step [of a hl] by auto
qed

lemma hostlist_next_drains:
  assumes "iter_ok a hl" "length (hosts_left a hl) < fuel"
  shows "drain_hosts (\<lambda>hl. hostlist_next hl a) fuel hl = Some (hosts_left a hl)"
  by (rule hl_next.drain [OF assms])

section \<open>Properties\<close>

text \<open>C28: \<open>hostlist_shift\<close> called until it returns the null pointer returns the hosts of the list in order, as often as each
  is in it, and ends.\<close>

theorem hostlist_shift_drains:
  assumes "hl_ok hl" "length (hl_hosts hl) < fuel"
  shows "drain_hosts hostlist_shift fuel hl = Some (hl_hosts hl)"
  using hl_shift.drain [OF assms] .

theorem hostlist_shift_drains_witness:
  "drain_hosts hostlist_shift 6 hl_example = Some [''foo08'', ''foo09'', ''foo10'', ''foo3'', ''bar'']"
  using hostlist_shift_drains [OF hl_example_ok(1), of 6] by (simp add: hl_example_ok(3))

text \<open>\<open>hostlist_pop\<close> called until it returns the null pointer returns the hosts of the list in reverse order.\<close>

theorem hostlist_pop_drains:
  assumes "hl_ok hl" "length (hl_hosts hl) < fuel"
  shows "drain_hosts hostlist_pop fuel hl = Some (rev (hl_hosts hl))"
  using hl_pop.drain [OF assms(1)] assms(2) by simp

theorem hostlist_pop_drains_witness:
  "drain_hosts hostlist_pop 6 hl_example = Some [''bar'', ''foo3'', ''foo10'', ''foo09'', ''foo08'']"
  using hostlist_pop_drains [OF hl_example_ok(1), of 6] by (simp add: hl_example_ok(3))

text \<open>C29: a new iterator over a well-formed list whose suffixes print in less than 15 characters: \<open>n\<close> calls of \<open>hostlist_next\<close>
  return the first \<open>n\<close> hosts in order, and null pointers when there are no more; afterwards the ranges, the count and every
  other iterator of the list are what they were.\<close>

theorem hostlist_iterator_walks:
  assumes "hl_ok hl" "list_all short_suffix (map snd (hl_hr hl))"
  shows "\<exists>hl'. next_n a n (hostlist_iterator_create hl a) =
      Some (map Some (take n (hl_hosts hl)) @ replicate (n - length (hl_hosts hl)) None, hl') \<and>
    hl_hr hl' = hl_hr hl \<and> hl_nhosts hl' = hl_nhosts hl \<and> (\<forall>b. b \<noteq> a \<longrightarrow> map_of (hl_ilist hl') b = map_of (hl_ilist hl) b)"
proof -
  let ?hl = "hostlist_iterator_create hl a"
  have at: "iter_at ?hl \<lparr>it_idx = 0, it_hr = slot_addr (hl_hr hl) 0, it_depth = - 1\<rparr>"
    by (simp add: hostlist_iterator_create_def iter_at_def)
  have ok: "iter_ok a ?hl" using assms at by (simp add: hostlist_iterator_create_def iter_ok_def hl_ok_def hl_hosts_def)
  have "hosts_left a ?hl = hl_hosts hl"
    by (cases "hl_hr hl") (simp_all add: hostlist_iterator_create_def hosts_left_def iter_left_def hl_hosts_def)
  then show ?thesis using next_n_walk [OF ok, of n] by (auto simp: only_iter_def hostlist_iterator_create_def)
qed

theorem hostlist_iterator_walks_witness:
  "\<exists>hl'. next_n 7 6 (hostlist_iterator_create hl_example 7) =
     Some ([Some ''foo08'', Some ''foo09'', Some ''foo10'', Some ''foo3'', Some ''bar'', None], hl') \<and> hl_hr hl' = hl_hr hl_example \<and>
     hl_nhosts hl' = hl_nhosts hl_example"
proof -
  have "list_all short_suffix (map snd (hl_hr hl_example))" unfolding hl_example_eq by code_simp
  then show ?thesis using hostlist_iterator_walks [OF hl_example_ok(1), of 7 6] by (auto simp: hl_example_ok(3))
qed

section \<open>Changes during a walk, sets\<close>

definition hl_of :: "string \<Rightarrow> hostlist" where
  "hl_of s = (case hostlist_create (Some s) of Some (Inr hl) \<Rightarrow> hl | _ \<Rightarrow> hostlist_new)"

text \<open>Removing the only host of a range moves the iterator back into the range before it.\<close>

lemma hostlist_remove_revisits:
  "case next_n 0 4 (hostlist_iterator_create (hl_of ''f[1-3],foo,bar'') 0) of
     None \<Rightarrow> False
   | Some (hs, hl) \<Rightarrow> hs = [Some ''f1'', Some ''f2'', Some ''f3'', Some ''foo''] \<and>
       map_option fst (Option.bind (hostlist_remove hl 0) (next_n 0 3)) = Some [Some ''f2'', Some ''f3'', Some ''bar'']"
  by code_simp

text \<open>\<open>hostset_insert_range\<close> subtracts the duplicates \<open>_attempt_range_join\<close> has already subtracted.\<close>

lemma hostset_insert_miscounts:
  "case hostset_insert id (hl_of ''f[1-5],f9'') (Some ''f[4-7]'') of
     None \<Rightarrow> False
   | Some (n, hs) \<Rightarrow> hostset_count hs = 6 \<and> length (hl_hosts hs) = 8"
  by code_simp

text \<open>Ranges of different widths between two others keep them from being joined.\<close>

lemma hostlist_uniq_keeps_duplicates:
  "case hostlist_uniq id (hl_of ''f[5-20],f05,f[10-12]'') of
     None \<Rightarrow> False
   | Some hl \<Rightarrow> count_list (hl_hosts hl) ''f10'' = 2"
  by code_simp

text \<open>The comma behind the last range goes behind a buffer that the text fills.\<close>

lemma hostlist_deranged_overflow: "hostlist_deranged_string (hl_of ''foo,bar'') 3 = None"
  by code_simp

text \<open>The end pointer of the second number hides the text behind the first.\<close>

lemma parse_single_range_ignores: "parse_single_range ''1x-3'' = Inr \<lparr>pr_lo = 1, pr_hi = 3, pr_width = 2\<rparr>"
  by code_simp

text \<open>Ranges that join when they are moved leave null slots behind.\<close>

lemma hostlist_pop_range_null_slots:
  "case hostlist_delete (hl_of ''f1,f5,f2'') (Some ''f5'') of
     None \<Rightarrow> False
   | Some (n, hl) \<Rightarrow> n = 1 \<and> hostlist_pop_range hl = None"
  by code_simp

end
