(* ===== verification/Lsd_Hostlist_Sort.thy ===== *)
theory Lsd_Hostlist_Sort
  imports Lsd_Hostlist_Iter
begin

text \<open>
  \<open>liblsd/hostlist.c\<close>, sorting a list, splitting and joining its ranges, and the operations on sets that hand the list on.
  The loop of \<open>hostlist_coalesce\<close> starts again at the end whenever it has split two ranges; it takes the number of rounds
  it may use.
\<close>

section \<open>Joining neighbours\<close>

definition collapse_at :: "nat \<Rightarrow> hostlist \<Rightarrow> hostlist option" where
  "collapse_at i hl =
     (let (a, hprev) = hl_hr hl ! (i - 1); hnext = snd (hl_hr hl ! i) in
      case (if hostrange_prefix_cmp hprev hnext = 0 \<and> hr_hi hprev = hr_lo hnext - 1
            then hostrange_width_combine hprev hnext else None) of
        None \<Rightarrow> Some hl
      | Some (x, y) \<Rightarrow> hostlist_delete_range (hl\<lparr>hl_hr := (hl_hr hl)[i - 1 := (a, x\<lparr>hr_hi := hr_hi hnext\<rparr>)]\<rparr>) i)"

fun collapse_loop :: "nat \<Rightarrow> hostlist \<Rightarrow> hostlist option" where
  "collapse_loop 0 hl = Some hl"
| "collapse_loop (Suc i) hl = Option.bind (collapse_at (Suc i) hl) (collapse_loop i)"

definition hostlist_collapse :: "hostlist \<Rightarrow> hostlist option" where
  "hostlist_collapse hl = collapse_loop (length (hl_hr hl) - 1) hl"

section \<open>Splitting overlaps\<close>

text \<open>The hosts of the intersection go between the two ranges; those that neither range keeps go in twice.\<close>

fun insert_singles :: "hostrange \<Rightarrow> u64 \<Rightarrow> u64 \<Rightarrow> u64 list \<Rightarrow> nat \<Rightarrow> hostlist \<Rightarrow> hostlist" where
  "insert_singles new prev_hi next_lo [] j hl = hl"
| "insert_singles new prev_hi next_lo (k # ks) j hl =
     (let hr = hostrange_create (hr_prefix new) k k (hr_width new);
          (j1, hl1) = (if k > prev_hi then (j + 1, snd (hostlist_insert_range hl hr j)) else (j, hl));
          (j2, hl2) = (if k < next_lo then (j1 + 1, snd (hostlist_insert_range hl1 hr j1)) else (j1, hl1))
      in insert_singles new prev_hi next_lo ks j2 hl2)"

text \<open>Whether the ranges at \<open>i - 1\<close> and \<open>i\<close> were split, and the list; \<open>None\<close> for a failing assertion, or when the lower
  range were empty, because the upper one would then be read after it was freed.\<close>

definition coalesce_at :: "nat \<Rightarrow> hostlist \<Rightarrow> (bool \<times> hostlist) option" where
  "coalesce_at i hl =
     (case (hl_hr hl ! (i - 1), hl_hr hl ! i) of ((a, h1), (b, h2)) \<Rightarrow>
        (case hostrange_intersect h1 h2 of
           None \<Rightarrow> None
         | Some (None, x, y) \<Rightarrow> Some (False, hl\<lparr>hl_hr := (hl_hr hl)[i - 1 := (a, x), i := (b, y)]\<rparr>)
         | Some (Some new, x, y) \<Rightarrow>
             (let y1 = (if hr_hi new < hr_hi x then y\<lparr>hr_hi := hr_hi x\<rparr> else y);
                  x1 = x\<lparr>hr_hi := hr_lo new\<rparr>; y2 = y1\<lparr>hr_lo := hr_hi new\<rparr>;
                  hl1 = hl\<lparr>hl_hr := (hl_hr hl)[i - 1 := (a, x1), i := (b, y2)]\<rparr>
              in if hostrange_empty x1 then None
                 else Some (True, insert_singles new (hr_hi x1) (hr_lo y2) (suffixes (hr_lo new) (hr_hi new)) i hl1))))"

fun coalesce_loop :: "nat \<Rightarrow> nat \<Rightarrow> hostlist \<Rightarrow> hostlist option" where
  "coalesce_loop 0 i hl = (if i = 0 then Some hl else None)"
| "coalesce_loop (Suc fuel) i hl =
     (if i = 0 then Some hl
      else case coalesce_at i hl of
        None \<Rightarrow> None
      | Some (split, hl') \<Rightarrow> coalesce_loop fuel (if split then length (hl_hr hl') - 1 else i - 1) hl')"

definition hostlist_coalesce :: "nat \<Rightarrow> hostlist \<Rightarrow> hostlist option" where
  "hostlist_coalesce fuel hl = Option.bind (coalesce_loop fuel (length (hl_hr hl) - 1) hl) hostlist_collapse"

text \<open>\<open>qs\<close> is the effect of \<open>qsort\<close> with \<open>_cmp\<close> on the array.\<close>

definition hostlist_sort :: "((rid \<times> hostrange) list \<Rightarrow> (rid \<times> hostrange) list) \<Rightarrow> nat \<Rightarrow> hostlist \<Rightarrow> hostlist option" where
  "hostlist_sort qs fuel hl =
     (if length (hl_hr hl) \<le> 1 then Some hl
      else let rs = qs (hl_hr hl)
           in hostlist_coalesce fuel (hl\<lparr>hl_hr := rs, hl_ilist := map (\<lambda>(a, i). (a, iterator_reset rs i)) (hl_ilist hl)\<rparr>))"

section \<open>Sets\<close>

text \<open>A \<open>hostset\<close> is its list.\<close>

definition hostset_copy :: "hostlist \<Rightarrow> hostlist" where "hostset_copy hs = hostlist_copy hs"

definition hostset_iterator_create :: "hostlist \<Rightarrow> nat \<Rightarrow> hostlist" where
  "hostset_iterator_create hs a = hostlist_iterator_create hs a"

definition hostset_shift :: "hostlist \<Rightarrow> (string option \<times> hostlist) option" where "hostset_shift hs = hostlist_shift hs"

definition hostset_pop :: "hostlist \<Rightarrow> (string option \<times> hostlist) option" where "hostset_pop hs = hostlist_pop hs"

definition hostset_shift_range :: "hostlist \<Rightarrow> (string option \<times> hostlist) option" where
  "hostset_shift_range hs = hostlist_shift_range hs"

definition hostset_pop_range :: "hostlist \<Rightarrow> (string option \<times> hostlist) option" where
  "hostset_pop_range hs = hostlist_pop_range hs"

definition hostset_ranged_string :: "hostlist \<Rightarrow> nat \<Rightarrow> int \<times> string" where
  "hostset_ranged_string hs n = hostlist_ranged_string hs n"

definition hostset_deranged_string :: "hostlist \<Rightarrow> nat \<Rightarrow> (int \<times> string) option" where
  "hostset_deranged_string hs n = hostlist_deranged_string hs n"

definition hostlist_nranges :: "hostlist \<Rightarrow> nat" where "hostlist_nranges hl = length (hl_hr hl)"

definition hostset_nranges :: "hostlist \<Rightarrow> nat" where "hostset_nranges hs = length (hl_hr hs)"

section \<open>Joining keeps the hosts\<close>

lemma collapse_at_ok:
  assumes "hl_ok hl" "0 < i" "i < length (hl_hr hl)"
  shows "\<exists>hl'. collapse_at i hl = Some hl' \<and> hl_ok hl' \<and> hl_hosts hl' = hl_hosts hl \<and>
    (length (hl_hr hl') = length (hl_hr hl) \<or> Suc (length (hl_hr hl')) = length (hl_hr hl))"
proof -
  obtain us a p b n vs where s: "hl_hr hl = us @ (a, p) # (b, n) # vs" "length us = i - 1"
  proof -
    have "hl_hr hl = take (i - 1) (hl_hr hl) @ hl_hr hl ! (i - 1) # hl_hr hl ! i # drop (Suc i) (hl_hr hl)"
      using assms(2,3) by (metis One_nat_def Cons_nth_drop_Suc Suc_pred append_take_drop_id less_imp_diff_less)
    moreover have "length (take (i - 1) (hl_hr hl)) = i - 1" using assms(3) by simp
    ultimately show ?thesis using that by (metis prod.collapse)
  qed
  have i: "i = Suc (length us)" using s(2) assms(2) by simp
  have nth: "hl_hr hl ! (i - 1) = (a, p)" "hl_hr hl ! i = (b, n)"
    using s(1) by (simp_all add: i nth_append)
  note nth = nth nth(1) [unfolded One_nat_def]
  show ?thesis
  proof (cases "if hostrange_prefix_cmp p n = 0 \<and> hr_hi p = hr_lo n - 1 then hostrange_width_combine p n else None")
    case None
    then show ?thesis using assms(1) by (simp add: collapse_at_def nth)
  next
    case (Some xy)
    obtain x y where xy: "xy = (x, y)" by fastforce
    then have c: "hostrange_prefix_cmp p n = 0" "hr_hi p = hr_lo n - 1" "hostrange_width_combine p n = Some (x, y)"
      using Some by (auto split: if_splits)
    have ok: "range_ok p" "range_ok n" using assms(1) s(1) by (simp_all add: hl_ok_def)
    note j = hosts_join [OF ok c]
    let ?h = "hl\<lparr>hl_hr := (hl_hr hl)[i - 1 := (a, x\<lparr>hr_hi := hr_hi n\<rparr>)]\<rparr>"
    have rs: "hl_hr ?h = us @ (a, x\<lparr>hr_hi := hr_hi n\<rparr>) # (b, n) # vs" using s by (simp add: list_update_append)
    have d: "hostlist_delete_range ?h i = Some (hostlist_shift_iterators (?h\<lparr>hl_hr := us @ (a, x\<lparr>hr_hi := hr_hi n\<rparr>) # vs\<rparr>) i 0 1)"
      using rs unfolding i by (simp add: hostlist_delete_range_def)
    have "collapse_at i hl = hostlist_delete_range ?h i" using Some xy by (simp add: collapse_at_def nth)
    then show ?thesis using d assms(1) s(1) j
      by (auto simp: hostlist_shift_iterators_def hl_ok_def hl_hosts_def)
  qed
qed

lemma collapse_loop_ok:
  "hl_ok hl \<Longrightarrow> i < length (hl_hr hl) \<or> i = 0 \<Longrightarrow> \<exists>hl'. collapse_loop i hl = Some hl' \<and> hl_ok hl' \<and> hl_hosts hl' = hl_hosts hl"
proof (induction i arbitrary: hl)
  case (Suc i)
  then obtain hl1 where h: "collapse_at (Suc i) hl = Some hl1" "hl_ok hl1" "hl_hosts hl1 = hl_hosts hl"
    "length (hl_hr hl1) = length (hl_hr hl) \<or> Suc (length (hl_hr hl1)) = length (hl_hr hl)"
    using collapse_at_ok [of hl "Suc i"] by auto
  then show ?case using Suc.IH [of hl1] Suc.prems by auto
qed simp

text \<open>Collapsing joins ranges and keeps the sequence of hosts.\<close>

lemma hostlist_collapse_correct:
  assumes "hl_ok hl"
  shows "\<exists>hl'. hostlist_collapse hl = Some hl' \<and> hl_ok hl' \<and> hl_hosts hl' = hl_hosts hl"
  unfolding hostlist_collapse_def by (rule collapse_loop_ok [OF assms]) auto

text \<open>Sorting overlapping ranges keeps the duplicates, in order.\<close>

lemma hostlist_sort_example:
  "map_option (\<lambda>hl. map snd (hl_hr hl)) (hostlist_sort id 9
     \<lparr>hl_hr = [(0, hostrange_create ''f'' 1 5 1), (1, hostrange_create ''f'' 3 4 1)], hl_nhosts = 7, hl_ilist = [], hl_next = 2\<rparr>) =
   Some [hostrange_create ''f'' 1 3 1, hostrange_create ''f'' 3 4 1, hostrange_create ''f'' 4 5 1]"
  by code_simp

end
