(* ===== verification/Lmt_Cerebro.thy ===== *)
theory Lmt_Cerebro
  imports Lmt_Runs Lmt_Ltop_Play Lmt_Ltop_View
begin

text \<open>
  Both ends of the monitoring daemon: the metric modules (\<open>cerebro/metric\<close>) that hand a metric string to the daemon, the
  client side (\<open>liblmt/lmtcerebro.c\<close>) that fetches what the daemon has collected, and \<open>utils/lmtmetric.c\<close>, which prints
  the strings. The daemon and its library are parameters.
\<close>

section \<open>Metric modules\<close>

datatype value_type = CT_NONE | CT_INT32 | CT_FLOAT | CT_STRING | CT_OTHER nat

abbreviation nul :: char where "nul \<equiv> CHR 0x00"

text \<open>\<open>_get_metric_value\<close> of the four modules: the return value, what it stores through its arguments (type, length and
  bytes), and the counters the encoder keeps. \<open>maxlen\<close> is \<open>CEREBRO_MAX_DATA_STRING_LEN\<close>, \<open>e\<close> the value of \<open>errno\<close>; \<open>None\<close> stands
  for a failing assertion, also of \<open>proc_destroy\<close>.\<close>

type_synonym metric_value = "value_type \<times> nat \<times> string"

definition finish_value :: "string option \<Rightarrow> pctx \<Rightarrow> (int \<times> metric_value option) option" where
  "finish_value r ctx =
     map_option (\<lambda>_. case r of Some s \<Rightarrow> (0, Some (CT_STRING, length s + 1, s @ [nul])) | None \<Rightarrow> (- 1, None)) (proc_destroy ctx)"

definition ost_metric_value :: "nat \<Rightarrow> sys \<Rightarrow> string option \<Rightarrow> errno \<Rightarrow> u64 \<times> u64 \<Rightarrow> ((int \<times> metric_value option) \<times> (u64 \<times> u64)) option" where
  "ost_metric_value maxlen sy uts e st = do {
     ((r, st'), ctx) \<leftarrow> lmt_ost_string_v2 sy uts (proc_create ''/'' e) st maxlen;
     v \<leftarrow> finish_value r ctx;
     Some (v, st')
   }"

definition mdt_metric_value :: "nat \<Rightarrow> sys \<Rightarrow> string option \<Rightarrow> errno \<Rightarrow> u64 \<times> u64 \<Rightarrow> ((int \<times> metric_value option) \<times> (u64 \<times> u64)) option" where
  "mdt_metric_value maxlen sy uts e st = do {
     ((r, st'), ctx) \<leftarrow> lmt_mdt_string_v3 sy uts (proc_create ''/'' e) st maxlen;
     v \<leftarrow> finish_value r ctx;
     Some (v, st')
   }"

definition osc_metric_value :: "nat \<Rightarrow> sys \<Rightarrow> string option \<Rightarrow> errno \<Rightarrow> (int \<times> metric_value option) option" where
  "osc_metric_value maxlen sy uts e = do {
     (r, ctx) \<leftarrow> lmt_osc_string_v1 sy uts (proc_create ''/'' e) maxlen;
     finish_value r ctx
   }"

definition router_metric_value :: "nat \<Rightarrow> sys \<Rightarrow> string option \<Rightarrow> errno \<Rightarrow> u64 \<times> u64 \<Rightarrow> ((int \<times> metric_value option) \<times> (u64 \<times> u64)) option" where
  "router_metric_value maxlen sy uts e st = do {
     ((r, st'), ctx) \<leftarrow> lmt_router_string_v1 sy uts (proc_create ''/'' e) st maxlen;
     v \<leftarrow> finish_value r ctx;
     Some (v, st')
   }"

text \<open>The other entries of a module: its name, its period, whether it sends on a period, whether it has a thread of its
  own, and what \<open>_cleanup\<close>, \<open>_destroy_metric_value\<close> and \<open>_send_message_function_pointer\<close> return.\<close>

record metric_module =
  mm_name :: string
  mm_period :: int
  mm_send_on_period :: bool
  mm_thread :: "unit option"
  mm_cleanup :: int
  mm_destroy_value :: int
  mm_send_message :: int

definition metric_module_of :: "int \<Rightarrow> string \<Rightarrow> metric_module" where
  "metric_module_of period name = \<lparr>mm_name = name, mm_period = period, mm_send_on_period = True, mm_thread = None,
     mm_cleanup = 0, mm_destroy_value = 0, mm_send_message = 0\<rparr>"

definition ost_module :: "int \<Rightarrow> metric_module" where "ost_module period = metric_module_of period ''lmt_ost''"
definition mdt_module :: "int \<Rightarrow> metric_module" where "mdt_module period = metric_module_of period ''lmt_mdt''"
definition osc_module :: "int \<Rightarrow> metric_module" where "osc_module period = metric_module_of period ''lmt_osc''"
definition router_module :: "int \<Rightarrow> metric_module" where "router_module period = metric_module_of period ''lmt_router''"

section \<open>Fetching metrics\<close>

record cbr_metric =
  cm_name :: string
  cm_nodename :: string
  cm_time :: u32
  cm_type :: value_type
  cm_value :: string

text \<open>A node list of the daemon: whether an iterator can be made for it, and for every node the name, time, type and bytes
  (\<open>None\<close> when an accessor fails) and whether the iterator moves on. \<open>cb_data\<close> is \<open>None\<close> when the metric cannot be fetched.\<close>

record nodelist =
  nl_iter :: bool
  nl_nodes :: "((string \<times> u32 \<times> value_type \<times> string) option \<times> bool) list"

record cbr =
  cb_handle :: bool
  cb_data :: "string \<Rightarrow> nodelist option"

definition create_cmetric :: "string \<Rightarrow> string \<Rightarrow> u32 \<Rightarrow> value_type \<Rightarrow> string \<Rightarrow> cbr_metric" where
  "create_cmetric name nodename time type value =
     \<lparr>cm_name = name, cm_nodename = nodename, cm_time = time, cm_type = type, cm_value = value\<rparr>"

text \<open>The string behind the pointer, \<open>Some None\<close> for a null pointer, \<open>None\<close> when the bytes have no terminating NUL.\<close>

definition lmt_cbr_get_val :: "cbr_metric \<Rightarrow> string option option" where
  "lmt_cbr_get_val c =
     (if cm_type c \<noteq> CT_STRING then Some None
      else if nul \<in> set (cm_value c) then Some (Some (takeWhile (\<lambda>x. x \<noteq> nul) (cm_value c)))
      else None)"

definition lmt_cbr_get_name :: "cbr_metric \<Rightarrow> string" where "lmt_cbr_get_name c = cm_name c"
definition lmt_cbr_get_nodename :: "cbr_metric \<Rightarrow> string" where "lmt_cbr_get_nodename c = cm_nodename c"
definition lmt_cbr_get_time :: "cbr_metric \<Rightarrow> int" where "lmt_cbr_get_time c = uint (cm_time c)"

text \<open>The loop over the nodes: the result list, and whether the end was reached.\<close>

fun nodes_loop :: "string \<Rightarrow> ((string \<times> u32 \<times> value_type \<times> string) option \<times> bool) list \<Rightarrow> cbr_metric list \<Rightarrow> cbr_metric list \<times> bool" where
  "nodes_loop name [] rl = (rl, True)"
| "nodes_loop name ((None, _) # ns) rl = (rl, False)"
| "nodes_loop name ((Some (nodename, time, type, value), moves) # ns) rl =
     (let rl' = rl @ [create_cmetric name nodename time type value]
      in if moves then nodes_loop name ns rl' else (rl', False))"

text \<open>Only the regular end of the loop sets the return value: on every error the caller gets \<open>junk\<close>, what the
  uninitialised variable holds.\<close>

definition get_metric_data :: "cbr \<Rightarrow> int \<Rightarrow> string \<Rightarrow> cbr_metric list \<Rightarrow> int \<times> cbr_metric list" where
  "get_metric_data ch junk name rl =
     (case cb_data ch name of
        None \<Rightarrow> (junk, rl)
      | Some n \<Rightarrow>
          if \<not> nl_iter n then (junk, rl)
          else (case nodes_loop name (nl_nodes n) rl of (rl', ok) \<Rightarrow> (if ok then 0 else junk, rl')))"

fun metrics_loop :: "cbr \<Rightarrow> int \<Rightarrow> string list \<Rightarrow> cbr_metric list \<Rightarrow> cbr_metric list option" where
  "metrics_loop ch junk [] rl = Some rl"
| "metrics_loop ch junk (name # names) rl =
     (case get_metric_data ch junk name rl of (r, rl') \<Rightarrow> if r < 0 then None else metrics_loop ch junk names rl')"

definition lmt_cbr_get_metrics :: "cbr \<Rightarrow> int \<Rightarrow> string \<Rightarrow> cbr_metric list option" where
  "lmt_cbr_get_metrics cb junk names =
     (if \<not> cb_handle cb then None else metrics_loop cb junk (list_tok names '','') [])"

text \<open>What \<open>ltop\<close> sees of a metric; \<open>None\<close> when it would read behind the bytes.\<close>

definition ltop_metric :: "cbr_metric \<Rightarrow> cmetric option" where
  "ltop_metric c = map_option (\<lambda>v. \<lparr>c_name = Some (lmt_cbr_get_name c), c_nodename = Some (lmt_cbr_get_nodename c), c_val = v,
     c_time = lmt_cbr_get_time c\<rparr>) (lmt_cbr_get_val c)"

fun ltop_metrics :: "cbr_metric list \<Rightarrow> cmetric list option" where
  "ltop_metrics [] = Some []"
| "ltop_metrics (c # cs) = (case ltop_metric c of None \<Rightarrow> None | Some m \<Rightarrow> map_option ((#) m) (ltop_metrics cs))"

definition poll_daemon :: "cbr \<Rightarrow> int \<Rightarrow> string option \<Rightarrow> int \<Rightarrow> int \<Rightarrow> tables \<Rightarrow> (tables \<times> string option \<times> int option) option" where
  "poll_daemon cb junk fs secs now tb =
     (case lmt_cbr_get_metrics cb junk ''lmt_mdt,lmt_ost,lmt_osc'' of
        None \<Rightarrow> poll_cerebro fs secs now None None None tb
      | Some l \<Rightarrow> (case ltop_metrics l of None \<Rightarrow> None | Some ms \<Rightarrow> poll_cerebro fs secs now (Some ms) None None tb))"

section \<open>The uninitialised result\<close>

text \<open>A metric that cannot be fetched either ends the whole query or is passed over, as the junk in \<open>retval\<close> decides.\<close>

lemma missing_metric_decided_by_junk:
  assumes "cb_handle cb" "cb_data cb ''lmt_mdt'' = None"
  shows "junk < 0 \<Longrightarrow> lmt_cbr_get_metrics cb junk ''lmt_mdt,lmt_ost,lmt_osc'' = None"
    and "0 \<le> junk \<Longrightarrow> lmt_cbr_get_metrics cb junk ''lmt_mdt,lmt_ost,lmt_osc'' = metrics_loop cb junk [''lmt_ost'', ''lmt_osc''] []"
proof -
  have t: "list_tok ''lmt_mdt,lmt_ost,lmt_osc'' '','' = [''lmt_mdt'', ''lmt_ost'', ''lmt_osc'']" by code_simp
  show "junk < 0 \<Longrightarrow> lmt_cbr_get_metrics cb junk ''lmt_mdt,lmt_ost,lmt_osc'' = None"
    using assms by (simp add: lmt_cbr_get_metrics_def t get_metric_data_def)
  show "0 \<le> junk \<Longrightarrow> lmt_cbr_get_metrics cb junk ''lmt_mdt,lmt_ost,lmt_osc'' = metrics_loop cb junk [''lmt_ost'', ''lmt_osc''] []"
    using assms by (simp add: lmt_cbr_get_metrics_def t get_metric_data_def)
qed

section \<open>From the server to the table\<close>

text \<open>The daemon holds one value of one metric, from one node.\<close>

definition holds_only :: "cbr \<Rightarrow> string \<Rightarrow> string \<Rightarrow> u32 \<Rightarrow> value_type \<Rightarrow> string \<Rightarrow> bool" where
  "holds_only cb name node t ty val \<longleftrightarrow> cb_handle cb \<and>
     (\<forall>n \<in> {''lmt_mdt'', ''lmt_ost'', ''lmt_osc''}. cb_data cb n =
        Some \<lparr>nl_iter = True, nl_nodes = if n = name then [(Some (node, t, ty, val), True)] else []\<rparr>)"

lemma metric_vers_ost: "metric_vers (ost_text host cpu mem is) = Some (FFin 2)"
proof -
  have d: "dec_string 2 = ''2''" "flt 2 = FFin 2" by code_simp+
  have "conv_float (CHR ''2'' # CHR '';'' # r) = SOk (FFin 2) (CHR '';'' # r)" for r
    using conv_float_integer [of 2 r] d by simp
  then show ?thesis
    unfolding metric_vers_def ost_text_def ost_header_def by (simp add: sscanf_def scanf_result_def)
qed

lemma poll_daemon_ost:
  assumes "holds_only cb ''lmt_ost'' node t CT_STRING (s @ [nul])" "nul \<notin> set s" "metric_vers s = Some (FFin 2)"
  shows "poll_daemon cb junk fs secs now tb =
    map_option (\<lambda>tb'. (tb', None, None)) (on_ost (\<lambda>l. decode_ost_v2 s fs l (uint t) secs) tb)"
proof -
  have tok: "list_tok ''lmt_mdt,lmt_ost,lmt_osc'' '','' = [''lmt_mdt'', ''lmt_ost'', ''lmt_osc'']" by code_simp
  have m: "lmt_cbr_get_metrics cb junk ''lmt_mdt,lmt_ost,lmt_osc'' = Some [create_cmetric ''lmt_ost'' node t CT_STRING (s @ [nul])]"
    using assms(1) by (simp add: holds_only_def lmt_cbr_get_metrics_def tok get_metric_data_def)
  have v: "takeWhile (\<lambda>x. x \<noteq> nul) (s @ [nul]) = s" using assms(2) by (induction s) auto
  show ?thesis
    unfolding poll_daemon_def m
    by (simp add: ltop_metric_def lmt_cbr_get_val_def create_cmetric_def v lmt_cbr_get_name_def lmt_cbr_get_nodename_def
        lmt_cbr_get_time_def poll_cerebro_def assms(3) poll_decode_def record_file_def option.map_comp o_def split: option.split)
qed

text \<open>C6: what a metric module measures on an object storage server is what \<open>ltop\<close> shows. When the module returns a value, the
  daemon hands exactly this value to the client, and the table shows the views \<open>V\<close>, then polling leaves a table that shows
  the views after receiving the target infos the run of the encoder read from the file system: each counter under its own
  name (percentages to six decimals), for the targets of the wanted file system, from this server without its domain and at
  the time of the metric; an info not newer than
  the target's last one is ignored, and other records keep their views. The names must hold no delimiter and the wanted
  targets be named \<open>fs-OSTxxxx\<close>; the value must hold no inner NUL.\<close>

theorem agent_to_ltop:
  assumes "ost_metric_value maxlen sy (Some host) e st = Some ((0, Some (ty, n, val)), st')" "field_ok host"
    and "nul \<notin> set (butlast val)" "holds_only cb ''lmt_ost'' node t ty val" "table_shows (tb_ost tb) V"
  shows "\<exists>cpu mem is c'. ost_run sy (proc_create ''/'' e) st cpu mem st' is c' \<and> n \<le> maxlen \<and>
    (list_all ostinfo_ok is \<and> list_all (\<lambda>i. wanted fs (oi_name i) \<longrightarrow> tgt_name_ok ''-OST'' (oi_name i)) is \<longrightarrow>
      (\<exists>l'. poll_daemon cb junk fs secs now tb = Some (tb\<lparr>tb_ost := l'\<rparr>, None, None) \<and>
        table_shows l' (receive_all (short_name host) (reread_f cpu) (reread_f mem) (uint t) secs
          (filter (\<lambda>i. wanted fs (oi_name i)) is) V)))"
proof -
  obtain s c' where s: "lmt_ost_string_v2 sy (Some host) (proc_create ''/'' e) st maxlen = Some ((Some s, st'), c')"
    "ty = CT_STRING" "n = length s + 1" "val = s @ [nul]"
    using assms(1) by (auto simp: ost_metric_value_def finish_value_def bind_eq_Some_conv split: option.splits)
  obtain cpu mem "is" where r: "ost_run sy (proc_create ''/'' e) st cpu mem st' is c'" "s = ost_text host cpu mem is" "length s < maxlen"
    using ost_string_run [OF s(1)] by auto
  have "\<exists>l'. poll_daemon cb junk fs secs now tb = Some (tb\<lparr>tb_ost := l'\<rparr>, None, None) \<and>
      table_shows l' (receive_all (short_name host) (reread_f cpu) (reread_f mem) (uint t) secs
        (filter (\<lambda>i. wanted fs (oi_name i)) is) V)"
    if ok: "list_all ostinfo_ok is" "list_all (\<lambda>i. wanted fs (oi_name i) \<longrightarrow> tgt_name_ok ''-OST'' (oi_name i)) is"
  proof -
    obtain l' where l': "decode_ost_v2 s fs (tb_ost tb) (uint t) secs = Some l'"
      "table_shows l' (receive_all (short_name host) (reread_f cpu) (reread_f mem) (uint t) secs (filter (\<lambda>i. wanted fs (oi_name i)) is) V)"
      using decode_ost_shows [OF assms(2) ok(1) assms(5) ok(2)] unfolding r(2) by blast
    have "poll_daemon cb junk fs secs now tb = map_option (\<lambda>tb'. (tb', None, None)) (on_ost (\<lambda>l. decode_ost_v2 s fs l (uint t) secs) tb)"
      by (rule poll_daemon_ost) (use assms(3,4) s r(2) metric_vers_ost in simp_all)
    then have "poll_daemon cb junk fs secs now tb = Some (tb\<lparr>tb_ost := l'\<rparr>, None, None)" using l'(1) by (simp add: on_ost_def)
    then show ?thesis using l'(2) by blast
  qed
  then show ?thesis using r(1,3) s(3) by (intro exI [of _ cpu] exI [of _ mem] exI [of _ "is"] exI [of _ c']) simp
qed

definition no_targets :: tables where
  "no_targets = \<lparr>tb_mdt = [], tb_ost = [], tb_heap = \<lparr>h_mem = (\<lambda>_. None), h_next = 0\<rparr>\<rparr>"

definition one_metric :: "string \<Rightarrow> cbr" where
  "one_metric val = \<lparr>cb_handle = True, cb_data = (\<lambda>n. Some \<lparr>nl_iter = True,
     nl_nodes = if n = ''lmt_ost'' then [(Some (''oss1'', 100, CT_STRING, val), True)] else []\<rparr>)\<rparr>"

text \<open>What the queries of the example return.\<close>

definition ost_example_info :: ostinfo where
  "ost_example_info = ostinfo_example\<lparr>oi_recov_status := ''COMPLETE  0s remaining''\<rparr>"

lemma ost_example_infos:
  assumes "ost_run ost_example (proc_create ''/'' E0) (0, 0) cpu mem st' is c'"
  shows "is = [ost_example_info]"
proof -
  have "Option.bind (proc_lustre_ostlist ost_example (proc_create ''/'' E0)) (\<lambda>(l, c1).
      Option.bind (proc_stat2 ost_example c1 0 0) (\<lambda>(_, c2). Option.bind (get_mem_usage ost_example c2) (\<lambda>(_, c3).
        map_option (\<lambda>q. (l, fst q)) (get_ostinfos ost_example c3 (the l))))) = Some (Some [''a-OST0''], [ost_example_info])"
    by code_simp
  then show ?thesis using assms by (auto simp: ost_run_def)
qed

theorem agent_to_ltop_witness:
  "\<exists>l' o1. poll_daemon (one_metric (ost_example_string @ [nul])) 0 None 12 101 no_targets =
       Some (no_targets\<lparr>tb_ost := l'\<rparr>, None, None) \<and>
     o1 \<in> set l' \<and> ost_key o1 = (''a'', ''0'') \<and> t_servername (o_common o1) = ''oss1'' \<and>
     sample_val (o_rbytes o1) 101 = FFin 77 \<and> sample_val (o_wbytes o1) 101 = FFin 0 \<and> sample_val (o_num_exports o1) 101 = FFin 15"
proof -
  obtain st' c' where "lmt_ost_string_v2 ost_example (Some ''oss1'') (proc_create ''/'' E0) (0, 0) 4096 =
    Some ((Some ost_example_string, st'), c')" "proc_destroy c' = Some ()" using ost_example_run by blast
  then have r: "ost_metric_value 4096 ost_example (Some ''oss1'') E0 (0, 0) =
    Some ((0, Some (CT_STRING, length ost_example_string + 1, ost_example_string @ [nul])), st')"
    by (simp add: ost_metric_value_def finish_value_def)
  have f: "field_ok ''oss1''" by (simp add: field_ok_def)
  have n: "nul \<notin> set (butlast (ost_example_string @ [nul]))" by code_simp
  have h: "holds_only (one_metric (ost_example_string @ [nul])) ''lmt_ost'' ''oss1'' 100 CT_STRING (ost_example_string @ [nul])"
    by (simp add: holds_only_def one_metric_def)
  have t: "table_shows (tb_ost no_targets) (\<lambda>_. None)" using table_shows_new by (simp add: no_targets_def)
  have sp: "strstr_split ''a-OST0'' ''-OST'' = Some (''a'', ''0'')" by simp
  have nm: "oi_name ost_example_info = ''a-OST0''" by (simp add: ost_example_info_def ostinfo_example_def)
  have ok: "list_all ostinfo_ok [ost_example_info]"
    "list_all (\<lambda>i. wanted None (oi_name i) \<longrightarrow> tgt_name_ok ''-OST'' (oi_name i)) [ost_example_info]"
    by (simp add: ostinfo_ok_def ost_example_info_def ostinfo_example_def field_ok_def, simp add: nm tgt_name_ok_def sp)
  obtain cpu mem "is" c2 where i: "ost_run ost_example (proc_create ''/'' E0) (0, 0) cpu mem st' is c2"
    "list_all ostinfo_ok is \<and> list_all (\<lambda>i. wanted None (oi_name i) \<longrightarrow> tgt_name_ok ''-OST'' (oi_name i)) is \<longrightarrow>
      (\<exists>l'. poll_daemon (one_metric (ost_example_string @ [nul])) 0 None 12 101 no_targets = Some (no_targets\<lparr>tb_ost := l'\<rparr>, None, None) \<and>
        table_shows l' (receive_all (short_name ''oss1'') (reread_f cpu) (reread_f mem) (uint (100 :: u32)) 12
          (filter (\<lambda>i. wanted None (oi_name i)) is) (\<lambda>_. None)))"
    using agent_to_ltop [OF r f n h t, of None 0 12 101] by blast
  obtain l' where l': "poll_daemon (one_metric (ost_example_string @ [nul])) 0 None 12 101 no_targets = Some (no_targets\<lparr>tb_ost := l'\<rparr>, None, None)"
    "table_shows l' (receive_all (short_name ''oss1'') (reread_f cpu) (reread_f mem) (uint (100 :: u32)) 12
       (filter (\<lambda>i. wanted None (oi_name i)) [ost_example_info]) (\<lambda>_. None))"
    using i(2) ok unfolding ost_example_infos [OF i(1)] by blast
  have "receive_all (short_name ''oss1'') (reread_f cpu) (reread_f mem) (uint (100 :: u32)) 12
      (filter (\<lambda>i. wanted None (oi_name i)) [ost_example_info]) (\<lambda>_. None) (''a'', ''0'') =
    Some (receive ''oss1'' (reread_f cpu) (reread_f mem) 100 ost_example_info (new_view 12))"
    by (simp add: receive_all_def wanted_def nm tgt_key_def sp short_name_def del: reread_f.simps)
  then obtain o1 where o1: "o1 \<in> set l'" "ost_key o1 = (''a'', ''0'')"
    "ost_shows o1 (receive ''oss1'' (reread_f cpu) (reread_f mem) 100 ost_example_info (new_view 12))"
    using l'(2) by (auto elim: table_shows_lookup)
  have v: "fp_of_u64 77 = FFin 77" "fp_of_u64 0 = FFin 0" "fp_of_u64 15 = FFin 15" by code_simp+
  have "t_servername (o_common o1) = ''oss1''" using o1(3) by (simp add: ost_shows_def receive_def new_view_def)
  moreover have "sample_val (o_rbytes o1) 101 = FFin 77" "sample_val (o_wbytes o1) 101 = FFin 0" "sample_val (o_num_exports o1) 101 = FFin 15"
    using ost_shows_columns(1) [OF o1(3), of Read_bytes] ost_shows_columns(1) [OF o1(3), of Write_bytes]
      ost_shows_columns(1) [OF o1(3), of Exports]
    by (simp_all add: receive_def new_view_def ost_example_info_def ostinfo_example_def v)
  ultimately show ?thesis using l'(1) o1(1,2) by blast
qed

section \<open>\<open>lmtmetric\<close>\<close>

text \<open>The metric, the root directory and the period; \<open>None\<close> when \<open>usage\<close> is printed. The options are what \<open>getopt\<close>
  returns, \<open>rest\<close> tells whether arguments are left.\<close>

fun take_options :: "(char \<times> string) list \<Rightarrow> string option \<times> string \<times> u64 \<Rightarrow> (string option \<times> string \<times> u64) option" where
  "take_options [] st = Some st"
| "take_options ((c, arg) # opts) (metric, proc_root, period) =
     (if c = CHR ''m'' then take_options opts (Some arg, proc_root, period)
      else if c = CHR ''r'' then take_options opts (metric, arg, period)
      else if c = CHR ''t'' then take_options opts (metric, proc_root, fst (strtoul10 arg))
      else None)"

definition known_metrics :: "string list" where
  "known_metrics = [''ost'', ''mdt'', ''osc'', ''router'', ''sysstat'']"

definition lmtmetric_options :: "(char \<times> string) list \<Rightarrow> bool \<Rightarrow> (string \<times> string \<times> u64) option" where
  "lmtmetric_options opts rest =
     (case take_options opts (None, ''/'', 0) of
        None \<Rightarrow> None
      | Some (metric, proc_root, period) \<Rightarrow>
          if rest then None
          else (case metric of
                  None \<Rightarrow> Some (''sysstat'', proc_root, period)
                | Some m \<Rightarrow> if m \<in> set known_metrics then Some (m, proc_root, period) else None))"

text \<open>\<open>%.2f\<close>.\<close>

fun print_2f :: "fp \<Rightarrow> string" where
  "print_2f (FFin r) =
     (let c = nat (round_half_even (\<bar>r\<bar> * 100)); d = dec_string (c mod 100)
      in (if r < 0 then ''-'' else []) @ dec_string (c div 100) @ ''.'' @ (if length d < 2 then ''0'' else []) @ d)"
| "print_2f (FInf s) = (if s then ''-inf'' else ''inf'')"
| "print_2f FNaN = ''-nan''"

definition sysstat :: "sys \<Rightarrow> pctx \<Rightarrow> u64 \<times> u64 \<Rightarrow> nat \<Rightarrow> ((string option \<times> (u64 \<times> u64)) \<times> pctx) option" where
  "sysstat sy c st len = do {
     (r, c1) \<leftarrow> proc_stat2 sy c (fst st) (snd st);
     case r of
       None \<Rightarrow> Some ((None, st), c1)
     | Some (cpuusage, cputot, cpupct) \<Rightarrow> do {
         (m, c2) \<leftarrow> proc_meminfo sy c1;
         case m of
           None \<Rightarrow> Some ((None, (cpuusage, cputot)), c2)
         | Some (ktot, kfree) \<Rightarrow>
             (let mempct = fp_mul (fp_div (fp_of_u64 (ktot - kfree)) (fp_of_u64 ktot)) (FFin 100)
              in Some ((Some (snd (snprintf len (''cpu_util: '' @ print_2f cpupct @ ''% mem_util: '' @ print_2f mempct @ ''%''))),
                        (cpuusage, cputot)), c2))
       }
   }"

datatype report = Printed string | Unavailable string | Failed string errno

definition metric_string :: "sys \<Rightarrow> string option \<Rightarrow> string \<Rightarrow> pctx \<Rightarrow> u64 \<times> u64 \<Rightarrow> nat \<Rightarrow> ((string option \<times> (u64 \<times> u64)) \<times> pctx) option" where
  "metric_string sy uts metric c st len =
     (if metric = ''sysstat'' then sysstat sy c st len
      else if metric = ''ost'' then lmt_ost_string_v2 sy uts c st len
      else if metric = ''mdt'' then lmt_mdt_string_v3 sy uts c st len
      else if metric = ''osc'' then map_option (\<lambda>(r, c'). ((r, st), c')) (lmt_osc_string_v1 sy uts c len)
      else lmt_router_string_v1 sy uts c st len)"

definition lmtmetric_pass :: "sys \<Rightarrow> string option \<Rightarrow> string \<Rightarrow> nat \<Rightarrow> pctx \<Rightarrow> u64 \<times> u64 \<Rightarrow> (report \<times> (u64 \<times> u64) \<times> pctx) option" where
  "lmtmetric_pass sy uts metric len c st =
     map_option (\<lambda>((r, st'), c').
         (case r of
            None \<Rightarrow> if perrno c' = E0 then Unavailable metric else Failed metric (perrno c')
          | Some s \<Rightarrow> Printed (metric @ '': '' @ s @ [newline]), st', c'))
       (metric_string sy uts metric (c\<lparr>perrno := E0\<rparr>) st len)"

text \<open>\<open>syss\<close> is what the file system holds at each pass; without a period there is one pass.\<close>

fun lmtmetric_loop :: "sys list \<Rightarrow> string option \<Rightarrow> string \<Rightarrow> nat \<Rightarrow> pctx \<Rightarrow> u64 \<times> u64 \<Rightarrow> (report list \<times> pctx) option" where
  "lmtmetric_loop [] uts metric len c st = Some ([], c)"
| "lmtmetric_loop (sy # syss) uts metric len c st =
     (case lmtmetric_pass sy uts metric len c st of
        None \<Rightarrow> None
      | Some (out, st', c') \<Rightarrow> map_option (\<lambda>(outs, c''). (out # outs, c'')) (lmtmetric_loop syss uts metric len c' st'))"

definition lmtmetric_main :: "(char \<times> string) list \<Rightarrow> bool \<Rightarrow> sys list \<Rightarrow> string option \<Rightarrow> nat \<Rightarrow> errno \<Rightarrow> report list option" where
  "lmtmetric_main opts rest syss uts len e =
     (case lmtmetric_options opts rest of
        None \<Rightarrow> None
      | Some (metric, proc_root, period) \<Rightarrow>
          (case lmtmetric_loop (if period > 0 then syss else take 1 syss) uts metric len (proc_create proc_root e) (0, 0) of
             None \<Rightarrow> None
           | Some (outs, c) \<Rightarrow> map_option (\<lambda>_. outs) (proc_destroy c)))"


end
