(* ===== verification/Lsd_Error.thy ===== *)
theory Lsd_Error
  imports Lmt_Cstdio
begin

text \<open>
  \<open>liblsd/error.c\<close>: messages and their destination. The state is the module's variables, the log files that are open and
  what has been written; \<open>None\<close> stands for undefined behaviour, a stream that is used or closed after it was closed.
  A message is the text \<open>vsnprintf\<close> makes of its arguments; which files can be opened and the texts of \<open>strerror_r\<close> are
  parameters.
\<close>

section \<open>State\<close>

datatype dest = DEST_LOGF | DEST_SYSLOG | DEST_CEREBRO

datatype logf = Stderr | Stdout | Logfile nat

text \<open>What a message turns into: a line of a stream, a call of \<open>syslog\<close> with a level, a line for the daemon.\<close>

datatype err_output = Line logf string | Syslog int string | Cerebro string

record errstate =
  es_prog :: string
  es_dest :: dest
  es_filename :: string
  es_logf :: "logf option"
  es_open :: "nat list"
  es_next :: nat
  es_facility :: int
  es_level :: int
  es_out :: "err_output list"

text \<open>The facilities and levels of \<open>syslog.h\<close>.\<close>

definition facility_tab :: "(string \<times> int) list" where
  "facility_tab = [(''daemon'', 24), (''local0'', 128), (''local1'', 136), (''local2'', 144), (''local3'', 152), (''local4'', 160),
     (''local5'', 168), (''local6'', 176), (''local7'', 184), (''user'', 8)]"

definition level_tab :: "(string \<times> int) list" where
  "level_tab = [(''emerg'', 0), (''alert'', 1), (''crit'', 2), (''err'', 3), (''warning'', 4), (''notice'', 5), (''info'', 6), (''debug'', 7)]"

definition error_init :: errstate where
  "error_init = \<lparr>es_prog = ''<unknown>'', es_dest = DEST_LOGF, es_filename = [], es_logf = None, es_open = [], es_next = 0,
     es_facility = 24, es_level = 3, es_out = []\<rparr>"

fun match_tab :: "string \<Rightarrow> (string \<times> int) list \<Rightarrow> int" where
  "match_tab s [] = - 1"
| "match_tab s ((t, n) # m) = (if t = s then n else match_tab s m)"

fun rmatch_tab :: "int \<Rightarrow> (string \<times> int) list \<Rightarrow> string option" where
  "rmatch_tab k [] = None"
| "rmatch_tab k ((t, n) # m) = (if n = k then Some t else rmatch_tab k m)"

text \<open>\<open>basename\<close>: what follows the last slash that is not trailing.\<close>

definition base_name :: "string \<Rightarrow> string" where
  "base_name p =
     (let q = dropWhile (\<lambda>c. c = CHR ''/'') (rev p)
      in if p = [] then ''.'' else if q = [] then ''/'' else rev (takeWhile (\<lambda>c. c \<noteq> CHR ''/'') q))"

definition err_init :: "string \<Rightarrow> errstate \<Rightarrow> errstate" where
  "err_init p es = es\<lparr>es_prog := base_name p\<rparr>"

section \<open>Output\<close>

definition close_logf :: "errstate \<Rightarrow> errstate option" where
  "close_logf es =
     (case es_logf es of
        Some (Logfile a) \<Rightarrow> if a \<in> set (es_open es) then Some (es\<lparr>es_open := filter (\<lambda>b. b \<noteq> a) (es_open es)\<rparr>) else None
      | _ \<Rightarrow> Some es)"

definition put_line :: "string \<Rightarrow> errstate \<Rightarrow> errstate option" where
  "put_line line es =
     (let f = (case es_logf es of None \<Rightarrow> Stderr | Some f \<Rightarrow> f); ok = (case f of Logfile a \<Rightarrow> a \<in> set (es_open es) | _ \<Rightarrow> True)
      in if ok then Some (es\<lparr>es_logf := Some f, es_out := es_out es @ [Line f line]\<rparr>) else None)"

definition verr :: "(int \<Rightarrow> string) \<Rightarrow> int \<Rightarrow> string \<Rightarrow> errstate \<Rightarrow> errstate option" where
  "verr strerror errnum text es =
     (let buf = snd (snprintf 256 text); errbuf = snd (snprintf 64 (strerror errnum)) in
      case es_dest es of
        DEST_LOGF \<Rightarrow> put_line (es_prog es @ '': '' @ buf @ '': '' @ errbuf @ [newline]) es
      | DEST_SYSLOG \<Rightarrow> Some (es\<lparr>es_out := es_out es @ [Syslog (es_level es) (buf @ '': '' @ errbuf)]\<rparr>)
      | DEST_CEREBRO \<Rightarrow> Some (es\<lparr>es_out := es_out es @ [Cerebro (es_prog es @ '': '' @ buf @ '': '' @ errbuf)]\<rparr>))"

definition vlog :: "string \<Rightarrow> errstate \<Rightarrow> errstate option" where
  "vlog text es =
     (let buf = snd (snprintf 256 text) in
      case es_dest es of
        DEST_LOGF \<Rightarrow> put_line (es_prog es @ '': '' @ buf @ [newline]) es
      | DEST_SYSLOG \<Rightarrow> Some (es\<lparr>es_out := es_out es @ [Syslog (es_level es) buf]\<rparr>)
      | DEST_CEREBRO \<Rightarrow> Some (es\<lparr>es_out := es_out es @ [Cerebro (es_prog es @ '': '' @ buf)]\<rparr>))"

text \<open>The functions that do not return give the state at the exit in \<open>Inl\<close>.\<close>

type_synonym outcome = "errstate + errstate"

definition err_exit :: "(int \<Rightarrow> string) \<Rightarrow> int \<Rightarrow> string \<Rightarrow> errstate \<Rightarrow> outcome option" where
  "err_exit strerror errno text es = map_option Inl (verr strerror errno text es)"

definition err :: "(int \<Rightarrow> string) \<Rightarrow> int \<Rightarrow> string \<Rightarrow> errstate \<Rightarrow> outcome option" where
  "err strerror errno text es = map_option Inr (verr strerror errno text es)"

definition errn_exit :: "(int \<Rightarrow> string) \<Rightarrow> int \<Rightarrow> string \<Rightarrow> errstate \<Rightarrow> outcome option" where
  "errn_exit strerror errnum text es = map_option Inl (verr strerror errnum text es)"

definition errn :: "(int \<Rightarrow> string) \<Rightarrow> int \<Rightarrow> string \<Rightarrow> errstate \<Rightarrow> outcome option" where
  "errn strerror errnum text es = map_option Inr (verr strerror errnum text es)"

definition msg_exit :: "string \<Rightarrow> errstate \<Rightarrow> outcome option" where
  "msg_exit text es = map_option Inl (vlog text es)"

definition msg :: "string \<Rightarrow> errstate \<Rightarrow> outcome option" where
  "msg text es = map_option Inr (vlog text es)"

definition lsd_fatal_error :: "string \<Rightarrow> nat \<Rightarrow> string \<Rightarrow> errstate \<Rightarrow> outcome option" where
  "lsd_fatal_error file line mesg es = msg_exit (''fatal error: '' @ mesg @ '': '' @ file @ ''::'' @ dec_string line) es"

definition lsd_nomem_error :: "string \<Rightarrow> nat \<Rightarrow> string \<Rightarrow> errstate \<Rightarrow> outcome option" where
  "lsd_nomem_error file line mesg es = msg_exit (''out of memory: '' @ mesg @ '': '' @ file @ ''::'' @ dec_string line) es"

section \<open>Destination\<close>

definition err_fini :: "errstate \<Rightarrow> errstate option" where
  "err_fini es = close_logf es"

definition set_syslog_facility :: "string \<Rightarrow> errstate \<Rightarrow> outcome option" where
  "set_syslog_facility s es =
     (let n = match_tab s facility_tab
      in if n < 0 then msg_exit (''unknown syslog facility: '' @ s) es else Some (Inr (es\<lparr>es_facility := n\<rparr>)))"

definition set_syslog_level :: "string \<Rightarrow> errstate \<Rightarrow> outcome option" where
  "set_syslog_level s es =
     (let n = match_tab s level_tab
      in if n < 0 then msg_exit (''unknown syslog level: '' @ s) es else Some (Inr (es\<lparr>es_level := n\<rparr>)))"

definition and_then :: "outcome option \<Rightarrow> (errstate \<Rightarrow> outcome option) \<Rightarrow> outcome option" where
  "and_then r f = (case r of None \<Rightarrow> None | Some (Inl es) \<Rightarrow> Some (Inl es) | Some (Inr es) \<Rightarrow> f es)"

definition set_file :: "(string \<Rightarrow> bool) \<Rightarrow> (int \<Rightarrow> string) \<Rightarrow> int \<Rightarrow> string \<Rightarrow> errstate \<Rightarrow> outcome option" where
  "set_file can_open strerror errno s es =
     (if can_open s then
        (let a = es_next es; es1 = es\<lparr>es_open := a # es_open es, es_next := a + 1\<rparr>
         in map_option (\<lambda>es2. Inr (es2\<lparr>es_logf := Some (Logfile a), es_filename := s, es_dest := DEST_LOGF\<rparr>)) (close_logf es1))
      else err_exit strerror errno (''could not open '' @ s @ '' for writing'') es)"

text \<open>With \<open>HAVE_CEREBRO_H\<close>. \<open>errno\<close> is what \<open>fopen\<close> sets.\<close>

definition err_set_dest :: "(string \<Rightarrow> bool) \<Rightarrow> (int \<Rightarrow> string) \<Rightarrow> int \<Rightarrow> string \<Rightarrow> errstate \<Rightarrow> outcome option" where
  "err_set_dest can_open strerror errno s es0 =
     (case err_fini es0 of
        None \<Rightarrow> None
      | Some es \<Rightarrow>
          if s = ''syslog'' then Some (Inr (es\<lparr>es_dest := DEST_SYSLOG\<rparr>))
          else if take 7 s = ''syslog:'' then
            (let fac = takeWhile (\<lambda>c. c \<noteq> CHR '':'') (drop 7 s); r = dropWhile (\<lambda>c. c \<noteq> CHR '':'') (drop 7 s)
             in and_then (and_then (set_syslog_facility fac es) (\<lambda>es. if r = [] then Some (Inr es) else set_syslog_level (tl r) es))
                  (\<lambda>es. Some (Inr (es\<lparr>es_dest := DEST_SYSLOG\<rparr>))))
          else if s = ''cerebro'' then Some (Inr (es\<lparr>es_dest := DEST_CEREBRO\<rparr>))
          else if s = ''stderr'' then Some (Inr (es\<lparr>es_logf := Some Stderr, es_dest := DEST_LOGF\<rparr>))
          else if s = ''stdout'' then Some (Inr (es\<lparr>es_logf := Some Stdout, es_dest := DEST_LOGF\<rparr>))
          else set_file can_open strerror errno s es)"

definition dest_buf_max :: nat where "dest_buf_max = 4096"

text \<open>\<open>%s\<close> prints a null pointer as \<open>(null)\<close>.\<close>

definition err_get_dest :: "errstate \<Rightarrow> string" where
  "err_get_dest es =
     snd (snprintf (dest_buf_max + 1)
       (case es_dest es of
          DEST_SYSLOG \<Rightarrow> ''syslog:'' @ (case rmatch_tab (es_facility es) facility_tab of None \<Rightarrow> ''(null)'' | Some t \<Rightarrow> t) @ '':'' @
            (case rmatch_tab (es_level es) level_tab of None \<Rightarrow> ''(null)'' | Some t \<Rightarrow> t)
        | DEST_LOGF \<Rightarrow> (case es_logf es of Some Stdout \<Rightarrow> ''stdout'' | Some Stderr \<Rightarrow> ''stderr'' | None \<Rightarrow> ''unknown''
                          | Some (Logfile _) \<Rightarrow> es_filename es)
        | DEST_CEREBRO \<Rightarrow> ''cerebro''))"

section \<open>What is set is what is read\<close>

lemma tabs_inverse:
  "(f, m) \<in> set facility_tab \<Longrightarrow> match_tab f facility_tab = m \<and> rmatch_tab m facility_tab = Some f \<and> 0 \<le> m \<and>
     CHR '':'' \<notin> set f \<and> length f < 10"
  "(l, n) \<in> set level_tab \<Longrightarrow> match_tab l level_tab = n \<and> rmatch_tab n level_tab = Some l \<and> 0 \<le> n \<and> length l < 10"
proof -
  have f: "list_all (\<lambda>(f, m). match_tab f facility_tab = m \<and> rmatch_tab m facility_tab = Some f \<and> 0 \<le> m \<and>
     CHR '':'' \<notin> set f \<and> length f < 10) facility_tab" by code_simp
  have l: "list_all (\<lambda>(l, n). match_tab l level_tab = n \<and> rmatch_tab n level_tab = Some l \<and> 0 \<le> n \<and> length l < 10) level_tab"
    by code_simp
  show "(f, m) \<in> set facility_tab \<Longrightarrow> match_tab f facility_tab = m \<and> rmatch_tab m facility_tab = Some f \<and> 0 \<le> m \<and>
     CHR '':'' \<notin> set f \<and> length f < 10" using bspec [OF f [unfolded list_all_iff], of "(f, m)"] by simp
  show "(l, n) \<in> set level_tab \<Longrightarrow> match_tab l level_tab = n \<and> rmatch_tab n level_tab = Some l \<and> 0 \<le> n \<and> length l < 10"
    using bspec [OF l [unfolded list_all_iff], of "(l, n)"] by simp
qed

text \<open>Every facility with every level can be set, and is what \<open>err_get_dest\<close> returns then.\<close>

lemma syslog_dest_roundtrip:
  assumes "(f, m) \<in> set facility_tab" "(l, n) \<in> set level_tab" "err_fini es = Some es1"
  shows "\<exists>es'. err_set_dest can_open strerror e (''syslog:'' @ f @ '':'' @ l) es = Some (Inr es') \<and>
    err_get_dest es' = ''syslog:'' @ f @ '':'' @ l"
proof -
  note t = tabs_inverse(1) [OF assms(1)] tabs_inverse(2) [OF assms(2)]
  have tw: "takeWhile (\<lambda>c. c \<noteq> CHR '':'') (f @ CHR '':'' # l) = f" "dropWhile (\<lambda>c. c \<noteq> CHR '':'') (f @ CHR '':'' # l) = CHR '':'' # l"
    using t by (auto intro!: takeWhile_append_stop dropWhile_append_stop)
  have "err_set_dest can_open strerror e (''syslog:'' @ f @ '':'' @ l) es =
    Some (Inr (es1\<lparr>es_facility := m, es_level := n, es_dest := DEST_SYSLOG\<rparr>))"
    using t tw by (simp add: err_set_dest_def assms(3) set_syslog_facility_def set_syslog_level_def and_then_def Let_def)
  moreover have "Suc (length l) \<le> 4089 - length f" using t by linarith
  ultimately show ?thesis using t by (simp add: err_get_dest_def snprintf_def dest_buf_max_def)
qed

text \<open>Changing from one log file to another closes the first one twice.\<close>

lemma two_log_files_undefined:
  assumes "es_logf es = Some (Logfile a)" "a \<in> set (es_open es)" "a < es_next es" "can_open s"
    and "s \<notin> {''syslog'', ''cerebro'', ''stderr'', ''stdout''}" "take 7 s \<noteq> ''syslog:''"
  shows "err_set_dest can_open strerror e s es = None"
  using assms by (auto simp: err_set_dest_def err_fini_def close_logf_def set_file_def Let_def)

text \<open>So does a message after the destination was changed from a file to an unknown facility: it goes to the closed file.\<close>

lemma unknown_facility_undefined:
  assumes "es_logf es = Some (Logfile a)" "a \<in> set (es_open es)" "es_dest es = DEST_LOGF"
  shows "err_set_dest can_open strerror e ''syslog:kern'' es = None"
proof -
  have "match_tab ''kern'' facility_tab = - 1" by code_simp
  then show ?thesis
    using assms by (simp add: err_set_dest_def err_fini_def close_logf_def set_syslog_facility_def and_then_def Let_def
        msg_exit_def vlog_def put_line_def)
qed

end
