(* ===== verification/Lmt_Conf.thy ===== *)
theory Lmt_Conf
  imports Lmt_Prelude
begin

text \<open>
  \<open>liblmt/lmtconf.c\<close>: the settings of the tools and their initialisation from a Lua script. The script is run by the
  Lua library: the values of its global variables are a parameter. Allocation failures are not modelled.
\<close>

section \<open>Settings\<close>

record config =
  db_rwuser :: "string option"
  db_rwpasswd :: "string option"
  db_rouser :: "string option"
  db_ropasswd :: "string option"
  db_host :: "string option"
  db_port :: int
  db_debug :: int
  db_autoconf :: int
  cbr_debug :: int
  proto_debug :: int

definition config_default :: config where
  "config_default =
     \<lparr>db_rwuser = None, db_rwpasswd = None, db_rouser = None, db_ropasswd = None, db_host = None, db_port = 0,
      db_debug = 0, db_autoconf = 1, cbr_debug = 0, proto_debug = 0\<rparr>"

definition lmt_conf_set_db_rouser :: "string \<Rightarrow> config \<Rightarrow> config" where
  "lmt_conf_set_db_rouser s c = c\<lparr>db_rouser := Some s\<rparr>"

definition lmt_conf_set_db_ropasswd :: "string \<Rightarrow> config \<Rightarrow> config" where
  "lmt_conf_set_db_ropasswd s c = c\<lparr>db_ropasswd := Some s\<rparr>"

definition lmt_conf_set_db_rwuser :: "string \<Rightarrow> config \<Rightarrow> config" where
  "lmt_conf_set_db_rwuser s c = c\<lparr>db_rwuser := Some s\<rparr>"

definition lmt_conf_set_db_rwpasswd :: "string \<Rightarrow> config \<Rightarrow> config" where
  "lmt_conf_set_db_rwpasswd s c = c\<lparr>db_rwpasswd := Some s\<rparr>"

definition lmt_conf_set_db_host :: "string \<Rightarrow> config \<Rightarrow> config" where
  "lmt_conf_set_db_host s c = c\<lparr>db_host := Some s\<rparr>"

definition lmt_conf_set_db_port :: "int \<Rightarrow> config \<Rightarrow> config" where
  "lmt_conf_set_db_port i c = c\<lparr>db_port := i\<rparr>"

section \<open>The configuration file\<close>

text \<open>What the Lua library answers on a global variable: \<open>lua_isnil\<close>, \<open>lua_isnumber\<close>, \<open>lua_isstring\<close>, the number as an
  \<open>int\<close> and the string.\<close>

record luaval =
  lv_nil :: bool
  lv_isnumber :: bool
  lv_isstring :: bool
  lv_int :: int
  lv_string :: string

text \<open>\<open>Inl\<close> is -1, \<open>Inr\<close> the new value of the variable.\<close>

definition lua_getglobal_int :: "(string \<Rightarrow> luaval) \<Rightarrow> string \<Rightarrow> int \<Rightarrow> unit + int" where
  "lua_getglobal_int L key i =
     (if \<not> lv_nil (L key) then
        (if \<not> lv_isnumber (L key) then Inl () else Inr (lv_int (L key)))
      else Inr i)"

definition lua_getglobal_string :: "(string \<Rightarrow> luaval) \<Rightarrow> string \<Rightarrow> string option \<Rightarrow> unit + string option" where
  "lua_getglobal_string L key s =
     (if \<not> lv_nil (L key) then
        (if \<not> lv_isstring (L key) then Inl () else Inr (Some (lv_string (L key))))
      else Inr s)"

text \<open>The settings in the order the file is asked for them: one step per variable.\<close>

definition set_str :: "(string \<Rightarrow> luaval) \<Rightarrow> string \<Rightarrow> (config \<Rightarrow> string option) \<Rightarrow> (string option \<Rightarrow> config \<Rightarrow> config) \<Rightarrow>
    config \<Rightarrow> config option" where
  "set_str L key get upd c = (case lua_getglobal_string L key (get c) of Inl _ \<Rightarrow> None | Inr s \<Rightarrow> Some (upd s c))"

definition set_int :: "(string \<Rightarrow> luaval) \<Rightarrow> string \<Rightarrow> (config \<Rightarrow> int) \<Rightarrow> (int \<Rightarrow> config \<Rightarrow> config) \<Rightarrow> config \<Rightarrow> config option" where
  "set_int L key get upd c = (case lua_getglobal_int L key (get c) of Inl _ \<Rightarrow> None | Inr i \<Rightarrow> Some (upd i c))"

definition conf_steps :: "(string \<Rightarrow> luaval) \<Rightarrow> (config \<Rightarrow> config option) list" where
  "conf_steps L =
     [set_str L ''lmt_db_rwuser'' db_rwuser (\<lambda>s c. c\<lparr>db_rwuser := s\<rparr>),
      set_str L ''lmt_db_rwpasswd'' db_rwpasswd (\<lambda>s c. c\<lparr>db_rwpasswd := s\<rparr>),
      set_str L ''lmt_db_rouser'' db_rouser (\<lambda>s c. c\<lparr>db_rouser := s\<rparr>),
      set_str L ''lmt_db_ropasswd'' db_ropasswd (\<lambda>s c. c\<lparr>db_ropasswd := s\<rparr>),
      set_str L ''lmt_db_host'' db_host (\<lambda>s c. c\<lparr>db_host := s\<rparr>),
      set_int L ''lmt_db_port'' db_port (\<lambda>i c. c\<lparr>db_port := i\<rparr>),
      set_int L ''lmt_db_debug'' db_debug (\<lambda>i c. c\<lparr>db_debug := i\<rparr>),
      set_int L ''lmt_db_autoconf'' db_autoconf (\<lambda>i c. c\<lparr>db_autoconf := i\<rparr>),
      set_int L ''lmt_cbr_debug'' cbr_debug (\<lambda>i c. c\<lparr>cbr_debug := i\<rparr>),
      set_int L ''lmt_proto_debug'' proto_debug (\<lambda>i c. c\<lparr>proto_debug := i\<rparr>)]"

fun run_steps :: "(config \<Rightarrow> config option) list \<Rightarrow> config \<Rightarrow> int \<times> config" where
  "run_steps [] c = (0, c)"
| "run_steps (f # fs) c = (case f c of None \<Rightarrow> (- 1, c) | Some c' \<Rightarrow> run_steps fs c')"

text \<open>\<open>readable\<close>: the default file can be read. \<open>load path\<close>: the globals after the script at \<open>path\<close> has run, or \<open>None\<close> when
  it does not load or fails. Without a path and without a default file the settings stay as they are.\<close>

definition lmt_conf_init :: "bool \<Rightarrow> string \<Rightarrow> (string \<Rightarrow> (string \<Rightarrow> luaval) option) \<Rightarrow> string option \<Rightarrow> config \<Rightarrow> int \<times> config" where
  "lmt_conf_init readable path_lmtconf load path c =
     (case (case path of None \<Rightarrow> if readable then Some path_lmtconf else None | Some p \<Rightarrow> Some p) of
        None \<Rightarrow> (0, c)
      | Some p \<Rightarrow> (case load p of None \<Rightarrow> (- 1, c) | Some L \<Rightarrow> run_steps (conf_steps L) c))"

section \<open>What a script sets\<close>

text \<open>A script none of whose variables has the wrong type sets exactly the variables it defines.\<close>

definition global_str :: "(string \<Rightarrow> luaval) \<Rightarrow> string \<Rightarrow> string option \<Rightarrow> string option" where
  "global_str L key s = (if lv_nil (L key) then s else Some (lv_string (L key)))"

definition global_int :: "(string \<Rightarrow> luaval) \<Rightarrow> string \<Rightarrow> int \<Rightarrow> int" where
  "global_int L key i = (if lv_nil (L key) then i else lv_int (L key))"

definition str_keys :: "string list" where
  "str_keys = [''lmt_db_rwuser'', ''lmt_db_rwpasswd'', ''lmt_db_rouser'', ''lmt_db_ropasswd'', ''lmt_db_host'']"

definition int_keys :: "string list" where
  "int_keys = [''lmt_db_port'', ''lmt_db_debug'', ''lmt_db_autoconf'', ''lmt_cbr_debug'', ''lmt_proto_debug'']"

definition well_typed :: "(string \<Rightarrow> luaval) \<Rightarrow> bool" where
  "well_typed L \<longleftrightarrow> (\<forall>k \<in> set str_keys. lv_nil (L k) \<or> lv_isstring (L k)) \<and> (\<forall>k \<in> set int_keys. lv_nil (L k) \<or> lv_isnumber (L k))"

lemma set_str_ok: "lv_nil (L key) \<or> lv_isstring (L key) \<Longrightarrow> set_str L key get upd c = Some (upd (global_str L key (get c)) c)"
  by (auto simp: set_str_def lua_getglobal_string_def global_str_def)

lemma set_int_ok: "lv_nil (L key) \<or> lv_isnumber (L key) \<Longrightarrow> set_int L key get upd c = Some (upd (global_int L key (get c)) c)"
  by (auto simp: set_int_def lua_getglobal_int_def global_int_def)

theorem conf_steps_correct:
  assumes "well_typed L"
  shows "run_steps (conf_steps L) c = (0,
    \<lparr>db_rwuser = global_str L ''lmt_db_rwuser'' (db_rwuser c), db_rwpasswd = global_str L ''lmt_db_rwpasswd'' (db_rwpasswd c),
     db_rouser = global_str L ''lmt_db_rouser'' (db_rouser c), db_ropasswd = global_str L ''lmt_db_ropasswd'' (db_ropasswd c),
     db_host = global_str L ''lmt_db_host'' (db_host c), db_port = global_int L ''lmt_db_port'' (db_port c),
     db_debug = global_int L ''lmt_db_debug'' (db_debug c), db_autoconf = global_int L ''lmt_db_autoconf'' (db_autoconf c),
     cbr_debug = global_int L ''lmt_cbr_debug'' (cbr_debug c), proto_debug = global_int L ''lmt_proto_debug'' (proto_debug c)\<rparr>)"
  using assms unfolding well_typed_def str_keys_def int_keys_def conf_steps_def by (simp add: set_str_ok set_int_ok)

end
