(* ===== verification/Lmt_Mysql.thy ===== *)
theory Lmt_Mysql
  imports Lmt_Cstdio Lsd_Hash Lmt_Conf Lmt_Mdt "HOL-Library.State_Monad"
begin

text \<open>
  \<open>liblmtdb/lmtmysql.c\<close>: the handle of a database, its cache of identifiers and the insertions.

  The MySQL client library and the clock are not part of the program. The state of a computation is the list of the
  calls made to them so far, and the parameter \<open>env\<close> answers a call from that list: every behaviour of a server is a
  choice of \<open>env\<close>. Messages, \<open>mysql_free_result\<close> and \<open>mysql_error\<close>, which have no effect, are left out, and so are
  failures to allocate memory.
\<close>

section \<open>The library\<close>

type_synonym conn = nat
type_synonym stmt = nat

text \<open>\<open>MYSQL_TYPE_LONG\<close> reads four bytes of the 64-bit variable it is bound to.\<close>

datatype sqlval = SqlLong u32 | SqlLonglong u64 | SqlFloat fp

datatype field_type = MYSQL_TYPE_VAR_STRING | MYSQL_TYPE_LONG | MYSQL_TYPE_OTHER

record sqlres =
  rs_types :: "field_type list"
  rs_rows :: "string list list"

datatype dbcall =
    Time | Init | Connect conn "string option" "string option" "string option" "string option" int bool | Close conn
  | Query conn string | Store_result conn | Next_result conn | Errno conn | Insert_id conn | List_dbs conn string
  | Select_db conn string | Stmt_init conn | Stmt_prepare stmt string | Stmt_bind stmt "sqlval list" | Stmt_execute stmt
  | Stmt_close stmt

type_synonym calls = "dbcall list"
type_synonym 'a io = "(calls, 'a) state"

text \<open>The answer to the last call of a list. \<open>env_time\<close> is the seconds of \<open>gettimeofday\<close>, \<open>env_connect\<close> whether
  \<open>mysql_real_connect\<close> succeeds; the \<open>int\<close> answers are 0 on success.\<close>

record env =
  env_time :: "calls \<Rightarrow> int option"
  env_ptr :: "calls \<Rightarrow> nat"
  env_connect :: "calls \<Rightarrow> bool"
  env_int :: "calls \<Rightarrow> int"
  env_result :: "calls \<Rightarrow> sqlres option"
  env_id :: "calls \<Rightarrow> u64"

definition ask :: "(calls \<Rightarrow> 'a) \<Rightarrow> dbcall \<Rightarrow> 'a io" where
  "ask f c = State (\<lambda>h. (f (h @ [c]), h @ [c]))"

lemma run_ask [simp]: "run_state (ask f c) h = (f (h @ [c]), h @ [c])"
  by (simp add: ask_def)

definition tell :: "dbcall \<Rightarrow> unit io" where
  "tell c = ask (\<lambda>_. ()) c"

definition er_dup_entry :: int where "er_dup_entry = 1062"

section \<open>Statements\<close>

text \<open>A caret stands for the single quote.\<close>

definition sq :: "string \<Rightarrow> string" where
  "sq s = map (\<lambda>c. if c = CHR ''^'' then CHR 0x27 else c) s"

definition sql_ins_timestamp_info :: string where
  "sql_ins_timestamp_info = ''insert into TIMESTAMP_INFO (TIMESTAMP) values ( FROM_UNIXTIME(?) )''"

definition sql_ins_mds_data :: string where
  "sql_ins_mds_data =
     ''insert into MDS_DATA (MDS_ID, TS_ID, PCT_CPU, KBYTES_FREE, KBYTES_USED, INODES_FREE, '' @
     ''INODES_USED) values ( ?, ?, ?, ?, ?, ?, ?)''"

definition sql_ins_mds_ops_data :: string where
  "sql_ins_mds_ops_data =
     ''insert into MDS_OPS_DATA (MDS_ID, OPERATION_ID, TS_ID, SAMPLES, SUM, SUMSQUARES) values (?, ?, ?, ?, ?, ?)''"

definition sql_ins_oss_data :: string where
  "sql_ins_oss_data = ''insert into OSS_DATA (OSS_ID, TS_ID, PCT_CPU, PCT_MEMORY) values (?, ?, ?, ?)''"

definition sql_ins_ost_data :: string where
  "sql_ins_ost_data =
     ''insert into OST_DATA (OST_ID, TS_ID, READ_BYTES, WRITE_BYTES, KBYTES_FREE, KBYTES_USED, '' @
     ''INODES_FREE, INODES_USED) values ( ?, ?, ?, ?, ?, ?, ?, ?)''"

definition sql_ins_router_data :: string where
  "sql_ins_router_data = ''insert into ROUTER_DATA (ROUTER_ID, TS_ID, BYTES, PCT_CPU) values (?, ?, ?, ?)''"

definition sql_sel_mds_info :: string where "sql_sel_mds_info = ''select HOSTNAME, MDS_ID from MDS_INFO''"
definition sql_sel_mdt_info :: string where "sql_sel_mdt_info = ''select MDS_NAME, MDS_ID from MDS_INFO''"
definition sql_sel_oss_info :: string where "sql_sel_oss_info = ''select HOSTNAME, OSS_ID from OSS_INFO''"
definition sql_sel_ost_info :: string where "sql_sel_ost_info = ''select OST_NAME, OST_ID from OST_INFO''"
definition sql_sel_router_info :: string where "sql_sel_router_info = ''select HOSTNAME, ROUTER_ID from ROUTER_INFO''"
definition sql_sel_operation_info :: string where
  "sql_sel_operation_info = ''select OPERATION_NAME, OPERATION_ID from OPERATION_INFO''"

definition sql_ins_mds_info_tmpl :: string where
  "sql_ins_mds_info_tmpl =
     sq ''insert into MDS_INFO (FILESYSTEM_ID, MDS_NAME, HOSTNAME, DEVICE_NAME) values (^1^, ^%s^, ^%s^, ^^)''"

definition sql_ins_oss_info_tmpl :: string where
  "sql_ins_oss_info_tmpl = sq ''insert into OSS_INFO (FILESYSTEM_ID, HOSTNAME) values (^1^, ^%s^)''"

definition sql_ins_ost_info_tmpl :: string where
  "sql_ins_ost_info_tmpl =
     sq ''insert into OST_INFO (OSS_ID, OST_NAME, HOSTNAME, DEVICE_NAME, OFFLINE) values (%lu,^%s^, ^%s^, ^^, ^0^)''"

definition sql_ins_router_info_tmpl :: string where
  "sql_ins_router_info_tmpl =
     sq ''insert into ROUTER_INFO (ROUTER_NAME, HOSTNAME, ROUTER_GROUP_ID) values (^%s^, ^%s^, 0)''"

definition sql_sel_mds_info_tmpl :: string where
  "sql_sel_mds_info_tmpl = sq ''select HOSTNAME, MDS_ID from MDS_INFO where HOSTNAME = ^%s^''"

definition sql_sel_mdt_info_tmpl :: string where
  "sql_sel_mdt_info_tmpl = sq ''select MDS_NAME, MDS_ID from MDS_INFO where MDS_NAME = ^%s^''"

definition sql_sel_oss_info_tmpl :: string where
  "sql_sel_oss_info_tmpl = sq ''select HOSTNAME, OSS_ID from OSS_INFO where HOSTNAME = ^%s^''"

definition sql_sel_ost_info_tmpl :: string where
  "sql_sel_ost_info_tmpl = sq ''select OST_NAME, OST_ID from OST_INFO where OST_NAME = ^%s^''"

definition sql_sel_router_info_tmpl :: string where
  "sql_sel_router_info_tmpl = sq ''select HOSTNAME, ROUTER_ID from ROUTER_INFO where HOSTNAME = ^%s^''"

definition sql_drop_fs :: string where "sql_drop_fs = ''drop database `filesystem_%s`''"
definition sql_create_fs :: string where "sql_create_fs = ''create database `filesystem_%s`''"
definition sql_use_fs :: string where "sql_use_fs = ''use `filesystem_%s`''"

definition sql_ins_filesystem_info :: string where
  "sql_ins_filesystem_info =
     sq ''insert into FILESYSTEM_INFO (FILESYSTEM_NAME, FILESYSTEM_MOUNT_NAME, SCHEMA_VERSION) values (^%s^, ^^, ^%s^)''"

definition sql_check_for_operation :: string where
  "sql_check_for_operation = sq ''select * from OPERATION_INFO where OPERATION_NAME = ^%s^''"

definition sql_insert_operation_info :: string where
  "sql_insert_operation_info = sq ''insert into OPERATION_INFO (OPERATION_NAME, UNITS) values (^%s^, ^reqs^)''"

text \<open>\<open>snprintf\<close> of a template into a buffer of \<open>len\<close> bytes; its conversions are \<open>%s\<close> and \<open>%lu\<close>, and the arguments are
  given as texts.\<close>

fun sql_text :: "string \<Rightarrow> string list \<Rightarrow> string" where
  "sql_text (c # d # t) args =
     (if c = CHR ''%'' \<and> d = CHR ''s'' then (case args of [] \<Rightarrow> sql_text t [] | a # as \<Rightarrow> a @ sql_text t as)
      else if c = CHR ''%'' \<and> d = CHR ''l'' then (case args of [] \<Rightarrow> sql_text (tl t) [] | a # as \<Rightarrow> a @ sql_text (tl t) as)
      else c # sql_text (d # t) args)"
| "sql_text s args = s"

definition sql_printf :: "nat \<Rightarrow> string \<Rightarrow> string list \<Rightarrow> string" where
  "sql_printf len tmpl args = snd (snprintf len (sql_text tmpl args))"

section \<open>The handle\<close>

record svcid =
  sv_key :: string
  sv_id :: u64

record lmt_db =
  db_conn :: conn
  db_name :: string
  ins_timestamp_info :: "stmt option"
  ins_mds_data :: "stmt option"
  ins_mds_ops_data :: "stmt option"
  ins_oss_data :: "stmt option"
  ins_ost_data :: "stmt option"
  ins_router_data :: "stmt option"
  db_timestamp :: u64
  db_timestamp_id :: u64
  db_idhash :: "(string, svcid) hash_tab option"

definition idhash_size :: int where "idhash_size = 256"

text \<open>The part of the name behind the first underscore.\<close>

definition lmt_db_fsname :: "lmt_db \<Rightarrow> string" where
  "lmt_db_fsname db =
     (if CHR ''_'' \<in> set (db_name db) then tl (dropWhile (\<lambda>c. c \<noteq> CHR ''_'') (db_name db)) else db_name db)"

section \<open>Identifiers\<close>

definition create_svcid :: "string \<Rightarrow> string \<Rightarrow> u64 \<Rightarrow> svcid" where
  "create_svcid key_prefix key i =
     (let keylen = length key + length key_prefix + 2
      in \<lparr>sv_key = snd (snprintf keylen (key_prefix @ ''_'' @ key)), sv_id = i\<rparr>)"

definition verify_type :: "sqlres \<Rightarrow> nat \<Rightarrow> field_type \<Rightarrow> int" where
  "verify_type res i t = (if i < length (rs_types res) \<and> rs_types res ! i = t then 0 else - 1)"

text \<open>The insertion of one row into the cache.\<close>

definition insert_svcid :: "lmt_db \<Rightarrow> svcid \<Rightarrow> int \<times> lmt_db" where
  "insert_svcid db s =
     (case db_idhash db of None \<Rightarrow> (- 1, db)
      | Some h \<Rightarrow> (case hash_insert h (Some (sv_key s)) (Some s) True E0 of
          (r, h', _) \<Rightarrow> (if r = None then - 1 else 0, db\<lparr>db_idhash := Some h'\<rparr>)))"

fun populate_rows :: "lmt_db \<Rightarrow> string \<Rightarrow> sqlres \<Rightarrow> string list list \<Rightarrow> int \<times> lmt_db" where
  "populate_rows db pfx res [] = (0, db)"
| "populate_rows db pfx res (row # rows) =
     (if verify_type res 0 MYSQL_TYPE_VAR_STRING < 0 then (- 1, db)
      else if verify_type res 1 MYSQL_TYPE_LONG < 0 then (- 1, db)
      else case insert_svcid db (create_svcid pfx (row ! 0) (fst (strtoul10 (row ! 1)))) of
             (r, db') \<Rightarrow> if r < 0 then (- 1, db') else populate_rows db' pfx res rows)"

definition populate_idhash_all :: "env \<Rightarrow> lmt_db \<Rightarrow> string \<Rightarrow> string \<Rightarrow> (int \<times> lmt_db) io" where
  "populate_idhash_all e db pfx sql =
     do { rc \<leftarrow> ask (env_int e) (Query (db_conn db) sql);
          if rc \<noteq> 0 then State_Monad.return (- 1, db)
          else do { res \<leftarrow> ask (env_result e) (Store_result (db_conn db));
                    State_Monad.return (case res of None \<Rightarrow> (- 1, db) | Some r \<Rightarrow> populate_rows db pfx r (rs_rows r)) } }"

text \<open>Only the first row is read.\<close>

definition populate_idhash_one :: "env \<Rightarrow> lmt_db \<Rightarrow> string \<Rightarrow> string \<Rightarrow> string \<Rightarrow> (u64 option \<times> lmt_db) io" where
  "populate_idhash_one e db pfx tmpl a1 =
     do { rc \<leftarrow> ask (env_int e) (Query (db_conn db) (sql_printf (length a1 + length tmpl + 1) tmpl [a1]));
          if rc \<noteq> 0 then State_Monad.return (None, db)
          else do { res \<leftarrow> ask (env_result e) (Store_result (db_conn db));
                    State_Monad.return (case res of None \<Rightarrow> (None, db)
                      | Some r \<Rightarrow> (case rs_rows r of [] \<Rightarrow> (None, db)
                        | row # _ \<Rightarrow>
                            if verify_type r 0 MYSQL_TYPE_VAR_STRING < 0 then (None, db)
                            else if verify_type r 1 MYSQL_TYPE_LONG < 0 then (None, db)
                            else let i = fst (strtoul10 (row ! 1))
                                 in case insert_svcid db (create_svcid pfx (row ! 0) i) of
                                      (rc, db') \<Rightarrow> (if rc < 0 then None else Some i, db'))) } }"

fun populate_seq :: "env \<Rightarrow> lmt_db \<Rightarrow> (string \<times> string) list \<Rightarrow> (int \<times> lmt_db) io" where
  "populate_seq e db [] = State_Monad.return (0, db)"
| "populate_seq e db ((pfx, sql) # ps) =
     do { r \<leftarrow> populate_idhash_all e db pfx sql;
          if fst r < 0 then State_Monad.return (- 1, snd r) else populate_seq e (snd r) ps }"

definition populate_idhash :: "env \<Rightarrow> lmt_db \<Rightarrow> (int \<times> lmt_db) io" where
  "populate_idhash e db = populate_seq e db
     [(''mds'', sql_sel_mds_info), (''mdt'', sql_sel_mdt_info), (''oss'', sql_sel_oss_info), (''ost'', sql_sel_ost_info),
      (''router'', sql_sel_router_info), (''op'', sql_sel_operation_info)]"

definition lookup_idhash :: "lmt_db \<Rightarrow> string \<Rightarrow> string \<Rightarrow> u64 option" where
  "lookup_idhash db svctype name =
     (let len = length svctype + length name + 2; key = snd (snprintf len (svctype @ ''_'' @ name))
      in case db_idhash db of None \<Rightarrow> None | Some h \<Rightarrow> map_option sv_id (fst (hash_find h (Some key))))"

definition lmt_db_lookup :: "lmt_db \<Rightarrow> string \<Rightarrow> string \<Rightarrow> int" where
  "lmt_db_lookup db svctype name = (if lookup_idhash db svctype name = None then - 1 else 0)"

text \<open>\<open>_mapfun\<close>: the caller's function sees the part of the key behind the first underscore.\<close>

definition mapfun :: "string \<Rightarrow> (string \<Rightarrow> 's \<Rightarrow> int \<times> 's) \<Rightarrow> svcid \<Rightarrow> string \<Rightarrow> 's \<times> nat \<Rightarrow> int \<times> (string \<times> svcid) \<times> ('s \<times> nat)" where
  "mapfun svctype mf data key arg =
     (case arg of (s, err) \<Rightarrow>
        if CHR ''_'' \<in> set key \<and> (let p = takeWhile (\<lambda>c. c \<noteq> CHR ''_'') key in take (length p) svctype = p)
        then (case mf (tl (dropWhile (\<lambda>c. c \<noteq> CHR ''_'') key)) s of
                (r, s') \<Rightarrow> (0, (key, data), (s', if r < 0 then err + 1 else err)))
        else (0, (key, data), (s, err)))"

definition lmt_db_server_map :: "lmt_db \<Rightarrow> string \<Rightarrow> (string \<Rightarrow> 's \<Rightarrow> int \<times> 's) \<Rightarrow> 's \<Rightarrow> int \<times> 's" where
  "lmt_db_server_map db svctype mf arg =
     (case db_idhash db of None \<Rightarrow> (- 1, arg)
      | Some h \<Rightarrow> (case hash_for_each h (Some (mapfun svctype mf)) (arg, 0) E0 of
          (n, h', (s, err), _) \<Rightarrow> (if err > 0 then - 1 else 0, s)))"

section \<open>Automatic configuration\<close>

text \<open>The identifier of the new row, or \<open>None\<close> for -1.\<close>

definition insert_mds_info :: "env \<Rightarrow> lmt_db \<Rightarrow> string \<Rightarrow> string \<Rightarrow> (u64 option \<times> lmt_db) io" where
  "insert_mds_info e db mdsname mdtname =
     do { rc \<leftarrow> ask (env_int e) (Query (db_conn db)
            (sql_printf (length sql_ins_mds_info_tmpl + length mdsname + length mdtname + 1) sql_ins_mds_info_tmpl [mdtname, mdsname]));
          if rc \<noteq> 0 then State_Monad.return (None, db)
          else do { r1 \<leftarrow> populate_idhash_one e db ''mds'' sql_sel_mds_info_tmpl mdsname;
                    if fst r1 = None then State_Monad.return r1
                    else populate_idhash_one e (snd r1) ''mdt'' sql_sel_mdt_info_tmpl mdtname } }"

definition insert_oss_info :: "env \<Rightarrow> lmt_db \<Rightarrow> string \<Rightarrow> (u64 option \<times> lmt_db) io" where
  "insert_oss_info e db ossname =
     do { rc \<leftarrow> ask (env_int e) (Query (db_conn db)
            (sql_printf (length sql_ins_oss_info_tmpl + length ossname + 1) sql_ins_oss_info_tmpl [ossname]));
          if rc \<noteq> 0 then State_Monad.return (None, db)
          else populate_idhash_one e db ''oss'' sql_sel_oss_info_tmpl ossname }"

definition insert_ost_info :: "env \<Rightarrow> lmt_db \<Rightarrow> string \<Rightarrow> string \<Rightarrow> (u64 option \<times> lmt_db) io" where
  "insert_ost_info e db ossname ostname =
     do { r \<leftarrow> (case lookup_idhash db ''oss'' ossname of
                 Some oss_id \<Rightarrow> State_Monad.return (Some oss_id, db)
               | None \<Rightarrow> insert_oss_info e db ossname);
          case r of
            (None, db1) \<Rightarrow> State_Monad.return (None, db1)
          | (Some oss_id, db1) \<Rightarrow>
              do { rc \<leftarrow> ask (env_int e) (Query (db_conn db1)
                     (sql_printf (length sql_ins_ost_info_tmpl + length ossname + length ostname + 16 + 1)
                        sql_ins_ost_info_tmpl [print_u64 oss_id, ostname, ossname]));
                   if rc \<noteq> 0 then State_Monad.return (None, db1)
                   else populate_idhash_one e db1 ''ost'' sql_sel_ost_info_tmpl ostname } }"

definition insert_router_info :: "env \<Rightarrow> lmt_db \<Rightarrow> string \<Rightarrow> (u64 option \<times> lmt_db) io" where
  "insert_router_info e db rtrname =
     do { rc \<leftarrow> ask (env_int e) (Query (db_conn db)
            (sql_printf (length sql_ins_router_info_tmpl + length rtrname * 2 + 1) sql_ins_router_info_tmpl [rtrname, rtrname]));
          if rc \<noteq> 0 then State_Monad.return (None, db)
          else populate_idhash_one e db ''router'' sql_sel_router_info_tmpl rtrname }"

section \<open>Insertion of data\<close>

definition lmt_update_interval :: u64 where "lmt_update_interval = 5"

definition update_timestamp :: "env \<Rightarrow> lmt_db \<Rightarrow> (int \<times> lmt_db) io" where
  "update_timestamp e db =
     (case ins_timestamp_info db of
        None \<Rightarrow> State_Monad.return (- 1, db)
      | Some st \<Rightarrow>
          do { tv \<leftarrow> ask (env_time e) Time;
               case tv of
                 None \<Rightarrow> State_Monad.return (- 1, db)
               | Some tv_sec \<Rightarrow>
                   (let timestamp = of_int tv_sec - of_int tv_sec mod lmt_update_interval
                    in if timestamp \<le> db_timestamp db then State_Monad.return (0, db)
                       else do { b \<leftarrow> ask (env_int e) (Stmt_bind st [SqlLonglong timestamp]);
                                 if b \<noteq> 0 then State_Monad.return (- 1, db)
                                 else do { x \<leftarrow> ask (env_int e) (Stmt_execute st);
                                           if x \<noteq> 0 then State_Monad.return (- 1, db)
                                           else do { i \<leftarrow> ask (env_id e) (Insert_id (db_conn db));
                                                     State_Monad.return (0, db\<lparr>db_timestamp := timestamp, db_timestamp_id := i\<rparr>) } } }) })"

text \<open>What every insertion does with its statement: a duplicate entry is not an error.\<close>

definition exec_insert :: "env \<Rightarrow> lmt_db \<Rightarrow> stmt \<Rightarrow> sqlval list \<Rightarrow> int io" where
  "exec_insert e db st params =
     do { b \<leftarrow> ask (env_int e) (Stmt_bind st params);
          if b \<noteq> 0 then State_Monad.return (- 1)
          else do { x \<leftarrow> ask (env_int e) (Stmt_execute st);
                    if x \<noteq> 0
                    then do { n \<leftarrow> ask (env_int e) (Errno (db_conn db));
                              State_Monad.return (if n = er_dup_entry then 0 else - 1) }
                    else State_Monad.return 0 } }"

text \<open>The identifier of a server: from the cache, or from a new row when automatic configuration is on. \<open>Inl\<close> is the
  return value of the caller.\<close>

definition find_id :: "config \<Rightarrow> lmt_db \<Rightarrow> string \<Rightarrow> string \<Rightarrow> (u64 option \<times> lmt_db) io \<Rightarrow> ((int + u64) \<times> lmt_db) io" where
  "find_id cf db svctype name ins =
     (case lookup_idhash db svctype name of
        Some i \<Rightarrow> State_Monad.return (Inr i, db)
      | None \<Rightarrow>
          if db_autoconf cf \<noteq> 0
          then do { r \<leftarrow> ins; State_Monad.return (case r of (None, db') \<Rightarrow> (Inl (- 1), db') | (Some i, db') \<Rightarrow> (Inr i, db')) }
          else State_Monad.return (Inl 0, db))"

definition lmt_db_insert_mds_data :: "env \<Rightarrow> config \<Rightarrow> lmt_db \<Rightarrow> string \<Rightarrow> string \<Rightarrow> fp \<Rightarrow> u64 \<Rightarrow> u64 \<Rightarrow> u64 \<Rightarrow> u64 \<Rightarrow>
    (int \<times> lmt_db) io" where
  "lmt_db_insert_mds_data e cf db mdsname mdtname pct_cpu kbytes_free kbytes_used inodes_free inodes_used =
     (case ins_mds_data db of
        None \<Rightarrow> State_Monad.return (- 1, db)
      | Some st \<Rightarrow>
          do { r \<leftarrow> find_id cf db ''mdt'' mdtname (insert_mds_info e db mdsname mdtname);
               case r of
                 (Inl rc, db1) \<Rightarrow> State_Monad.return (rc, db1)
               | (Inr mds_id, db1) \<Rightarrow>
                   do { t \<leftarrow> update_timestamp e db1;
                        if fst t < 0 then State_Monad.return (- 1, snd t)
                        else do { rc \<leftarrow> exec_insert e (snd t) st
                                    [SqlLong (ucast mds_id), SqlLong (ucast (db_timestamp_id (snd t))), SqlFloat pct_cpu,
                                     SqlLonglong kbytes_free, SqlLonglong kbytes_used, SqlLonglong inodes_free,
                                     SqlLonglong inodes_used];
                                  State_Monad.return (rc, snd t) } } })"

definition lmt_db_insert_mds_ops_data :: "env \<Rightarrow> lmt_db \<Rightarrow> string \<Rightarrow> string \<Rightarrow> u64 \<Rightarrow> u64 \<Rightarrow> u64 \<Rightarrow> int io" where
  "lmt_db_insert_mds_ops_data e db mdtname opname samples tsum sumsquares =
     (case ins_mds_ops_data db of
        None \<Rightarrow> State_Monad.return (- 1)
      | Some st \<Rightarrow>
          (case lookup_idhash db ''mdt'' mdtname of
             None \<Rightarrow> State_Monad.return 0
           | Some mds_id \<Rightarrow>
               (case lookup_idhash db ''op'' opname of
                  None \<Rightarrow> State_Monad.return 0
                | Some op_id \<Rightarrow>
                    exec_insert e db st
                      [SqlLong (ucast mds_id), SqlLong (ucast op_id), SqlLong (ucast (db_timestamp_id db)),
                       SqlLonglong samples, SqlLonglong tsum, SqlLonglong sumsquares])))"

definition lmt_db_insert_oss_data :: "env \<Rightarrow> config \<Rightarrow> lmt_db \<Rightarrow> string \<Rightarrow> fp \<Rightarrow> fp \<Rightarrow> (int \<times> lmt_db) io" where
  "lmt_db_insert_oss_data e cf db ossname pct_cpu pct_memory =
     (case ins_oss_data db of
        None \<Rightarrow> State_Monad.return (- 1, db)
      | Some st \<Rightarrow>
          do { r \<leftarrow> find_id cf db ''oss'' ossname (insert_oss_info e db ossname);
               case r of
                 (Inl rc, db1) \<Rightarrow> State_Monad.return (rc, db1)
               | (Inr oss_id, db1) \<Rightarrow>
                   do { t \<leftarrow> update_timestamp e db1;
                        if fst t < 0 then State_Monad.return (- 1, snd t)
                        else do { rc \<leftarrow> exec_insert e (snd t) st
                                    [SqlLong (ucast oss_id), SqlLong (ucast (db_timestamp_id (snd t))), SqlFloat pct_cpu,
                                     SqlFloat pct_memory];
                                  State_Monad.return (rc, snd t) } } })"

definition lmt_db_insert_ost_data :: "env \<Rightarrow> config \<Rightarrow> lmt_db \<Rightarrow> string \<Rightarrow> string \<Rightarrow> u64 \<Rightarrow> u64 \<Rightarrow> u64 \<Rightarrow> u64 \<Rightarrow> u64 \<Rightarrow> u64 \<Rightarrow>
    (int \<times> lmt_db) io" where
  "lmt_db_insert_ost_data e cf db ossname ostname read_bytes write_bytes kbytes_free kbytes_used inodes_free inodes_used =
     (case ins_ost_data db of
        None \<Rightarrow> State_Monad.return (- 1, db)
      | Some st \<Rightarrow>
          do { r \<leftarrow> find_id cf db ''ost'' ostname (insert_ost_info e db ossname ostname);
               case r of
                 (Inl rc, db1) \<Rightarrow> State_Monad.return (rc, db1)
               | (Inr ost_id, db1) \<Rightarrow>
                   do { t \<leftarrow> update_timestamp e db1;
                        if fst t < 0 then State_Monad.return (- 1, snd t)
                        else do { rc \<leftarrow> exec_insert e (snd t) st
                                    [SqlLong (ucast ost_id), SqlLong (ucast (db_timestamp_id (snd t))),
                                     SqlLonglong read_bytes, SqlLonglong write_bytes, SqlLonglong kbytes_free,
                                     SqlLonglong kbytes_used, SqlLonglong inodes_free, SqlLonglong inodes_used];
                                  State_Monad.return (rc, snd t) } } })"

definition lmt_db_insert_router_data :: "env \<Rightarrow> config \<Rightarrow> lmt_db \<Rightarrow> string \<Rightarrow> u64 \<Rightarrow> fp \<Rightarrow> (int \<times> lmt_db) io" where
  "lmt_db_insert_router_data e cf db rtrname bytes pct_cpu =
     (case ins_router_data db of
        None \<Rightarrow> State_Monad.return (- 1, db)
      | Some st \<Rightarrow>
          do { r \<leftarrow> find_id cf db ''router'' rtrname (insert_router_info e db rtrname);
               case r of
                 (Inl rc, db1) \<Rightarrow> State_Monad.return (rc, db1)
               | (Inr router_id, db1) \<Rightarrow>
                   do { t \<leftarrow> update_timestamp e db1;
                        if fst t < 0 then State_Monad.return (- 1, snd t)
                        else do { rc \<leftarrow> exec_insert e (snd t) st
                                    [SqlLong (ucast router_id), SqlLong (ucast (db_timestamp_id (snd t))),
                                     SqlLonglong bytes, SqlFloat pct_cpu];
                                  State_Monad.return (rc, snd t) } } })"

section \<open>Handles\<close>

definition prepare_stmt :: "env \<Rightarrow> conn \<Rightarrow> string \<Rightarrow> stmt option io" where
  "prepare_stmt e c sql =
     do { s \<leftarrow> ask (env_ptr e) (Stmt_init c);
          rc \<leftarrow> ask (env_int e) (Stmt_prepare s sql);
          if rc \<noteq> 0 then do { tell (Stmt_close s); State_Monad.return None }
          else State_Monad.return (Some s) }"

definition close_stmt :: "stmt option \<Rightarrow> unit io" where
  "close_stmt s = (case s of None \<Rightarrow> State_Monad.return () | Some st \<Rightarrow> tell (Stmt_close st))"

definition lmt_db_destroy :: "lmt_db \<Rightarrow> unit io" where
  "lmt_db_destroy db =
     do { close_stmt (ins_timestamp_info db);
          close_stmt (ins_mds_data db);
          close_stmt (ins_mds_ops_data db);
          close_stmt (ins_oss_data db);
          close_stmt (ins_ost_data db);
          close_stmt (ins_router_data db);
          tell (Close (db_conn db)) }"

definition db_user :: "config \<Rightarrow> bool \<Rightarrow> string option" where
  "db_user cf readonly = (if readonly then db_rouser cf else db_rwuser cf)"

definition db_pass :: "config \<Rightarrow> bool \<Rightarrow> string option" where
  "db_pass cf readonly = (if readonly then db_ropasswd cf else db_rwpasswd cf)"

text \<open>The handle after the statements are prepared, and whether one of them failed.\<close>

definition prepare_all :: "env \<Rightarrow> lmt_db \<Rightarrow> (bool \<times> lmt_db) io" where
  "prepare_all e db =
     do { s1 \<leftarrow> prepare_stmt e (db_conn db) sql_ins_timestamp_info;
          s2 \<leftarrow> prepare_stmt e (db_conn db) sql_ins_mds_data;
          s3 \<leftarrow> prepare_stmt e (db_conn db) sql_ins_mds_ops_data;
          s4 \<leftarrow> prepare_stmt e (db_conn db) sql_ins_oss_data;
          s5 \<leftarrow> prepare_stmt e (db_conn db) sql_ins_ost_data;
          s6 \<leftarrow> prepare_stmt e (db_conn db) sql_ins_router_data;
          State_Monad.return (None \<in> set [s1, s2, s3, s4, s5, s6],
            db\<lparr>ins_timestamp_info := s1, ins_mds_data := s2, ins_mds_ops_data := s3, ins_oss_data := s4,
               ins_ost_data := s5, ins_router_data := s6\<rparr>) }"

definition idhash_create :: "(string, svcid) hash_tab option" where
  "idhash_create = fst (hash_create idhash_size (Some hash_key_string) (Some strcmp) True True True E0)"

definition lmt_db_create :: "env \<Rightarrow> config \<Rightarrow> bool \<Rightarrow> string \<Rightarrow> lmt_db option io" where
  "lmt_db_create e cf readonly dbname =
     do { c \<leftarrow> ask (env_ptr e) Init;
          ok \<leftarrow> ask (env_connect e) (Connect c (db_host cf) (db_user cf readonly) (db_pass cf readonly) (Some dbname) (db_port cf) False);
          let db = \<lparr>db_conn = c, db_name = dbname, ins_timestamp_info = None, ins_mds_data = None, ins_mds_ops_data = None,
                    ins_oss_data = None, ins_ost_data = None, ins_router_data = None, db_timestamp = 0, db_timestamp_id = 0,
                    db_idhash = None\<rparr>;
          if \<not> ok then do { lmt_db_destroy db; State_Monad.return None }
          else do { p \<leftarrow> (if readonly then State_Monad.return (False, db) else prepare_all e db);
                    if fst p then do { lmt_db_destroy (snd p); State_Monad.return None }
                    else do { r \<leftarrow> populate_idhash e ((snd p)\<lparr>db_idhash := idhash_create\<rparr>);
                              if fst r < 0 then do { lmt_db_destroy (snd r); State_Monad.return None }
                              else State_Monad.return (Some (snd r)) } } }"

text \<open>The names of the file system databases.\<close>

definition lmt_db_list :: "env \<Rightarrow> config \<Rightarrow> string option \<Rightarrow> string option \<Rightarrow> string list option io" where
  "lmt_db_list e cf user pass =
     do { c \<leftarrow> ask (env_ptr e) Init;
          ok \<leftarrow> ask (env_connect e) (Connect c (db_host cf) user pass None (db_port cf) False);
          res \<leftarrow> (if ok then ask (env_result e) (List_dbs c ''filesystem_%'') else State_Monad.return None);
          tell (Close c);
          State_Monad.return (map_option (\<lambda>r. map (\<lambda>row. row ! 0) (rs_rows r)) res) }"

fun destroy_all :: "lmt_db list \<Rightarrow> unit io" where
  "destroy_all [] = State_Monad.return ()"
| "destroy_all (db # dbs) = do { lmt_db_destroy db; destroy_all dbs }"

text \<open>The handles made so far are in \<open>handles\<close>; all are destroyed when one cannot be made.\<close>

fun create_all_loop :: "env \<Rightarrow> config \<Rightarrow> bool \<Rightarrow> string list \<Rightarrow> lmt_db list \<Rightarrow> lmt_db list option io" where
  "create_all_loop e cf readonly [] handles = State_Monad.return (Some handles)"
| "create_all_loop e cf readonly (s # l) handles =
     do { r \<leftarrow> lmt_db_create e cf readonly s;
          case r of
            None \<Rightarrow> do { destroy_all handles; State_Monad.return None }
          | Some db \<Rightarrow> create_all_loop e cf readonly l (handles @ [db]) }"

definition lmt_db_create_all :: "env \<Rightarrow> config \<Rightarrow> bool \<Rightarrow> lmt_db list option io" where
  "lmt_db_create_all e cf readonly =
     do { l \<leftarrow> lmt_db_list e cf (db_user cf readonly) (db_pass cf readonly);
          case l of None \<Rightarrow> State_Monad.return None | Some names \<Rightarrow> create_all_loop e cf readonly names [] }"

section \<open>Administration\<close>

definition lmt_db_drop :: "env \<Rightarrow> config \<Rightarrow> string option \<Rightarrow> string option \<Rightarrow> string \<Rightarrow> int io" where
  "lmt_db_drop e cf user pass fs =
     do { c \<leftarrow> ask (env_ptr e) Init;
          ok \<leftarrow> ask (env_connect e) (Connect c (db_host cf) user pass None (db_port cf) False);
          rc \<leftarrow> (if ok then ask (env_int e) (Query c (sql_printf (length sql_drop_fs + length fs + 1) sql_drop_fs [fs]))
                else State_Monad.return 1);
          tell (Close c);
          State_Monad.return (if rc \<noteq> 0 then - 1 else 0) }"

text \<open>The results of the statements of the schema; \<open>None\<close> when there are more than \<open>fuel\<close>.\<close>

fun next_results :: "env \<Rightarrow> conn \<Rightarrow> nat \<Rightarrow> unit option io" where
  "next_results e c 0 = State_Monad.return None"
| "next_results e c (Suc fuel) =
     do { ask (env_result e) (Store_result c);
          rc \<leftarrow> ask (env_int e) (Next_result c);
          if rc = 0 then next_results e c fuel else State_Monad.return (Some ()) }"

fun query_seq :: "env \<Rightarrow> conn \<Rightarrow> string list \<Rightarrow> int io" where
  "query_seq e c [] = State_Monad.return 0"
| "query_seq e c (q # qs) =
     do { rc \<leftarrow> ask (env_int e) (Query c q); if rc \<noteq> 0 then State_Monad.return (- 1) else query_seq e c qs }"

definition lmt_db_add :: "env \<Rightarrow> config \<Rightarrow> nat \<Rightarrow> string option \<Rightarrow> string option \<Rightarrow> string \<Rightarrow> string \<Rightarrow> string \<Rightarrow> int option io" where
  "lmt_db_add e cf fuel user pass fs schema_vers sql_schema =
     do { c \<leftarrow> ask (env_ptr e) Init;
          ok \<leftarrow> ask (env_connect e) (Connect c (db_host cf) user pass None (db_port cf) True);
          rc \<leftarrow> (if ok then query_seq e c
                   [sql_printf (length sql_create_fs + length fs + 1) sql_create_fs [fs],
                    sql_printf (length sql_use_fs + length fs + 1) sql_use_fs [fs], sql_schema]
                else State_Monad.return (- 1));
          if rc < 0 then do { tell (Close c); State_Monad.return (Some (- 1)) }
          else do { d \<leftarrow> next_results e c fuel;
                    case d of None \<Rightarrow> State_Monad.return None
                    | Some _ \<Rightarrow>
                        do { rc \<leftarrow> query_seq e c
                               [sql_printf (length sql_ins_filesystem_info + length fs + length schema_vers + 1)
                                  sql_ins_filesystem_info [fs, schema_vers]];
                             tell (Close c);
                             State_Monad.return (Some rc) } } }"

definition add_new_op :: "env \<Rightarrow> conn \<Rightarrow> string \<Rightarrow> int io" where
  "add_new_op e c opname =
     do { rc \<leftarrow> ask (env_int e) (Query c (sql_printf (length sql_check_for_operation + length opname + 1) sql_check_for_operation [opname]));
          if rc \<noteq> 0 then State_Monad.return (- rc)
          else do { res \<leftarrow> ask (env_result e) (Store_result c);
                    if (case res of None \<Rightarrow> False | Some r \<Rightarrow> rs_rows r \<noteq> []) then State_Monad.return 0
                    else do { n \<leftarrow> ask (env_int e) (Errno c);
                              if n \<noteq> 0 then State_Monad.return (- n)
                              else do { rc \<leftarrow> ask (env_int e) (Query c
                                          (sql_printf (length sql_insert_operation_info + length opname + 1) sql_insert_operation_info [opname]));
                                        State_Monad.return (- rc) } } } }"

text \<open>The return value of the last addition, or of the one that failed.\<close>

fun add_ops :: "env \<Rightarrow> conn \<Rightarrow> string list \<Rightarrow> int \<Rightarrow> int io" where
  "add_ops e c [] retval = State_Monad.return retval"
| "add_ops e c (opname # ops) retval =
     do { rc \<leftarrow> add_new_op e c opname; if rc < 0 then State_Monad.return rc else add_ops e c ops rc }"

definition lmt_db_update_ops :: "env \<Rightarrow> config \<Rightarrow> string option \<Rightarrow> string option \<Rightarrow> string \<Rightarrow> int io" where
  "lmt_db_update_ops e cf user pass fs =
     do { c \<leftarrow> ask (env_ptr e) Init;
          ok \<leftarrow> ask (env_connect e) (Connect c (db_host cf) user pass None (db_port cf) True);
          let fs_name = ''filesystem_'' @ fs;
          if \<not> ok then do { tell (Close c); State_Monad.return 0 }
          else do { res \<leftarrow> ask (env_result e) (List_dbs c ''filesystem_%'');
                    if \<not> (case res of None \<Rightarrow> False | Some r \<Rightarrow> list_ex (\<lambda>row. take (length fs_name) (row ! 0) = fs_name) (rs_rows r))
                    then do { tell (Close c); State_Monad.return 0 }
                    else do { ask (env_int e) (Select_db c fs_name);
                              rc \<leftarrow> add_ops e c get_all_opnames 0;
                              tell (Close c);
                              State_Monad.return rc } } }"

end
