(* ===== verification/Lmt_Db.thy ===== *)
theory Lmt_Db
  imports Lmt_Mysql Lmt_Ost Lmt_Osc
begin

text \<open>
  \<open>liblmtdb/lmtdb.c\<close> and the callback of \<open>cerebro/monitor/mysql.c\<close>: metric strings are decoded and inserted into the
  database of their file system; a failed insertion makes the next call reconnect, at most every 15 seconds.
\<close>

section \<open>Connections\<close>

record lmtdb =
  dbs :: "lmt_db list option"
  last_connect :: int
  reconnect_needed :: bool

definition lmtdb_init :: lmtdb where
  "lmtdb_init = \<lparr>dbs = None, last_connect = 0, reconnect_needed = True\<rparr>"

definition min_reconnect_secs :: int where "min_reconnect_secs = 15"

definition init_db_ifneeded :: "env \<Rightarrow> config \<Rightarrow> lmtdb \<Rightarrow> (int \<times> lmtdb) io" where
  "init_db_ifneeded e cf g =
     (if reconnect_needed g then
        do { (case dbs g of None \<Rightarrow> State_Monad.return () | Some l \<Rightarrow> destroy_all l);
             let g1 = g\<lparr>dbs := None\<rparr>;
             now \<leftarrow> ask (env_time e) Time;
             case now of
               None \<Rightarrow> State_Monad.return (- 1, g1)
             | Some tv_sec \<Rightarrow>
                 if tv_sec - last_connect g1 < min_reconnect_secs then State_Monad.return (- 1, g1)
                 else do { r \<leftarrow> lmt_db_create_all e cf False;
                           State_Monad.return (case r of
                               None \<Rightarrow> (- 1, g1\<lparr>last_connect := tv_sec\<rparr>)
                             | Some l \<Rightarrow> (0, g1\<lparr>last_connect := tv_sec, dbs := Some l, reconnect_needed := False\<rparr>)) } }
      else State_Monad.return (0, g))"

definition trigger_db_reconnect :: "lmtdb \<Rightarrow> lmtdb" where
  "trigger_db_reconnect g = g\<lparr>reconnect_needed := True\<rparr>"

text \<open>The position of the database in the list.\<close>

definition svc_to_db :: "lmtdb \<Rightarrow> string \<Rightarrow> nat option" where
  "svc_to_db g name =
     (let len = length (takeWhile (\<lambda>c. c \<noteq> CHR ''-'') name)
      in case dbs g of None \<Rightarrow> None
         | Some l \<Rightarrow>
             (let i = length (takeWhile (\<lambda>db. take len (lmt_db_fsname db) \<noteq> take len name) l)
              in if i < length l then Some i else None))"

definition get_db :: "lmtdb \<Rightarrow> nat \<Rightarrow> lmt_db" where
  "get_db g i = the (dbs g) ! i"

definition set_db :: "lmtdb \<Rightarrow> nat \<Rightarrow> lmt_db \<Rightarrow> lmtdb" where
  "set_db g i db = g\<lparr>dbs := map_option (\<lambda>l. l[i := db]) (dbs g)\<rparr>"

text \<open>The state after an insertion into database \<open>i\<close>: a failure makes the next call reconnect.\<close>

definition done_insert :: "lmtdb \<Rightarrow> nat \<Rightarrow> int \<times> lmt_db \<Rightarrow> lmtdb" where
  "done_insert g i r =
     (let g1 = set_db g i (snd r) in if fst r < 0 then trigger_db_reconnect g1 else g1)"

section \<open>Handlers\<close>

definition insert_ostinfo :: "env \<Rightarrow> config \<Rightarrow> string \<Rightarrow> fp \<Rightarrow> fp \<Rightarrow> string \<Rightarrow> lmtdb \<Rightarrow> lmtdb io" where
  "insert_ostinfo e cf ossname pct_cpu pct_mem s g =
     (case lmt_ost_decode_v2_ostinfo s of
        None \<Rightarrow> State_Monad.return g
      | Some o1 \<Rightarrow>
          (case svc_to_db g (oi_name o1) of
             None \<Rightarrow> State_Monad.return g
           | Some i \<Rightarrow>
               do { r1 \<leftarrow> lmt_db_insert_ost_data e cf (get_db g i) ossname (oi_name o1) (oi_read_bytes o1) (oi_write_bytes o1)
                      (oi_kbytes_free o1) (oi_kbytes_total o1 - oi_kbytes_free o1)
                      (oi_inodes_free o1) (oi_inodes_total o1 - oi_inodes_free o1);
                    let g1 = done_insert g i r1;
                    if fst r1 < 0 then State_Monad.return g1
                    else do { r2 \<leftarrow> lmt_db_insert_oss_data e cf (get_db g1 i) ossname pct_cpu pct_mem;
                              State_Monad.return (done_insert g1 i r2) } }))"

fun for_each :: "('a \<Rightarrow> 's \<Rightarrow> 's io) \<Rightarrow> 'a list \<Rightarrow> 's \<Rightarrow> 's io" where
  "for_each f [] g = State_Monad.return g"
| "for_each f (x # xs) g = do { g1 \<leftarrow> f x g; for_each f xs g1 }"

definition lmt_db_insert_ost_v2 :: "env \<Rightarrow> config \<Rightarrow> string \<Rightarrow> lmtdb \<Rightarrow> lmtdb io" where
  "lmt_db_insert_ost_v2 e cf s g =
     do { r \<leftarrow> init_db_ifneeded e cf g;
          if fst r < 0 then State_Monad.return (snd r)
          else case lmt_ost_decode_v2 s of
                 None \<Rightarrow> State_Monad.return (snd r)
               | Some (ossname, pct_cpu, pct_mem, ostinfo) \<Rightarrow>
                   for_each (insert_ostinfo e cf ossname pct_cpu pct_mem) ostinfo (snd r) }"

definition insert_mds_ops :: "env \<Rightarrow> nat \<Rightarrow> string \<Rightarrow> string \<Rightarrow> lmtdb \<Rightarrow> lmtdb io" where
  "insert_mds_ops e i mdtname s g =
     (case lmt_mdt_decode_v1_mdops s of
        None \<Rightarrow> State_Monad.return g
      | Some (opname, samples, tsum, sumsquares) \<Rightarrow>
          do { rc \<leftarrow> lmt_db_insert_mds_ops_data e (get_db g i) mdtname opname samples tsum sumsquares;
               State_Monad.return (if rc < 0 then trigger_db_reconnect g else g) })"

text \<open>The insertion of a decoded target and its operations; the same for the legacy string.\<close>

definition insert_mdt :: "env \<Rightarrow> config \<Rightarrow> string \<Rightarrow> fp \<Rightarrow> string \<Rightarrow> u64 list \<Rightarrow> string list \<Rightarrow> lmtdb \<Rightarrow> lmtdb io" where
  "insert_mdt e cf mdsname pct_cpu mdtname ns mdops g =
     (case svc_to_db g mdtname of
        None \<Rightarrow> State_Monad.return g
      | Some i \<Rightarrow>
          do { r \<leftarrow> lmt_db_insert_mds_data e cf (get_db g i) mdsname mdtname pct_cpu
                 (ns ! 2) (ns ! 3 - ns ! 2) (ns ! 0) (ns ! 1 - ns ! 0);
               let g1 = done_insert g i r;
               if fst r < 0 then State_Monad.return g1
               else for_each (insert_mds_ops e i mdtname) mdops g1 })"

definition insert_mds :: "env \<Rightarrow> config \<Rightarrow> string \<Rightarrow> fp \<Rightarrow> fp \<Rightarrow> nat \<Rightarrow> string \<Rightarrow> lmtdb \<Rightarrow> lmtdb io" where
  "insert_mds e cf mdsname pct_cpu pct_mem ver s g =
     (case (if ver = 1 then lmt_mdt_decode_v1_mdtinfo s
            else if ver = 2 then lmt_mdt_decode_v2_mdtinfo s
            else if ver = 3 then lmt_mdt_decode_v3_mdtinfo s else Some None) of
        Some (Some (mdtname, ns, recov_status, mdops)) \<Rightarrow> insert_mdt e cf mdsname pct_cpu mdtname ns mdops g
      | _ \<Rightarrow> State_Monad.return g)"

definition lmt_db_insert_mdt_v1_v2_v3 :: "env \<Rightarrow> config \<Rightarrow> nat \<Rightarrow> string \<Rightarrow> lmtdb \<Rightarrow> lmtdb io" where
  "lmt_db_insert_mdt_v1_v2_v3 e cf ver s g =
     do { r \<leftarrow> init_db_ifneeded e cf g;
          if fst r < 0 then State_Monad.return (snd r)
          else case lmt_mdt_decode_v1_v2_v3 s ver of
                 Some (Some (mdsname, pct_cpu, pct_mem, mdtinfo)) \<Rightarrow>
                   for_each (insert_mds e cf mdsname pct_cpu pct_mem ver) mdtinfo (snd r)
               | _ \<Rightarrow> State_Monad.return (snd r) }"

definition lmt_db_insert_mdt_v1 :: "env \<Rightarrow> config \<Rightarrow> string \<Rightarrow> lmtdb \<Rightarrow> lmtdb io" where
  "lmt_db_insert_mdt_v1 e cf = lmt_db_insert_mdt_v1_v2_v3 e cf 1"

definition lmt_db_insert_mdt_v2 :: "env \<Rightarrow> config \<Rightarrow> string \<Rightarrow> lmtdb \<Rightarrow> lmtdb io" where
  "lmt_db_insert_mdt_v2 e cf = lmt_db_insert_mdt_v1_v2_v3 e cf 2"

definition lmt_db_insert_mdt_v3 :: "env \<Rightarrow> config \<Rightarrow> string \<Rightarrow> lmtdb \<Rightarrow> lmtdb io" where
  "lmt_db_insert_mdt_v3 e cf = lmt_db_insert_mdt_v1_v2_v3 e cf 3"

text \<open>The databases from number \<open>i\<close> on; \<open>n\<close> are left. The first failure ends the loop.\<close>

fun router_loop :: "env \<Rightarrow> config \<Rightarrow> string \<Rightarrow> u64 \<Rightarrow> fp \<Rightarrow> nat \<Rightarrow> nat \<Rightarrow> lmtdb \<Rightarrow> lmtdb io" where
  "router_loop e cf rtrname bytes pct_cpu i 0 g = State_Monad.return g"
| "router_loop e cf rtrname bytes pct_cpu i (Suc n) g =
     do { r \<leftarrow> lmt_db_insert_router_data e cf (get_db g i) rtrname bytes pct_cpu;
          let g1 = done_insert g i r;
          if fst r < 0 then State_Monad.return g1 else router_loop e cf rtrname bytes pct_cpu (i + 1) n g1 }"

definition lmt_db_insert_router_v1 :: "env \<Rightarrow> config \<Rightarrow> string \<Rightarrow> lmtdb \<Rightarrow> lmtdb io" where
  "lmt_db_insert_router_v1 e cf s g =
     do { r \<leftarrow> init_db_ifneeded e cf g;
          if fst r < 0 then State_Monad.return (snd r)
          else case lmt_router_decode_v1 s of
                 None \<Rightarrow> State_Monad.return (snd r)
               | Some (rtrname, pct_cpu, pct_mem, bytes) \<Rightarrow>
                   router_loop e cf rtrname bytes pct_cpu 0 (length (the (dbs (snd r)))) (snd r) }"

definition lmt_db_insert_mds_v2 :: "env \<Rightarrow> config \<Rightarrow> string \<Rightarrow> lmtdb \<Rightarrow> lmtdb io" where
  "lmt_db_insert_mds_v2 e cf s g =
     do { r \<leftarrow> init_db_ifneeded e cf g;
          if fst r < 0 then State_Monad.return (snd r)
          else case lmt_mds_decode_v2 s of
                 None \<Rightarrow> State_Monad.return (snd r)
               | Some (mdsname, mdtname, pct_cpu, pct_mem, ns, mdops) \<Rightarrow>
                   insert_mdt e cf mdsname pct_cpu mdtname ns mdops (snd r) }"

text \<open>Databases that do not know the server are passed over.\<close>

fun oss_loop :: "env \<Rightarrow> config \<Rightarrow> string \<Rightarrow> fp \<Rightarrow> fp \<Rightarrow> nat \<Rightarrow> nat \<Rightarrow> lmtdb \<Rightarrow> lmtdb io" where
  "oss_loop e cf ossname pct_cpu pct_mem i 0 g = State_Monad.return g"
| "oss_loop e cf ossname pct_cpu pct_mem i (Suc n) g =
     (if lmt_db_lookup (get_db g i) ''oss'' ossname < 0 then oss_loop e cf ossname pct_cpu pct_mem (i + 1) n g
      else do { r \<leftarrow> lmt_db_insert_oss_data e cf (get_db g i) ossname pct_cpu pct_mem;
                let g1 = done_insert g i r;
                if fst r < 0 then State_Monad.return g1 else oss_loop e cf ossname pct_cpu pct_mem (i + 1) n g1 })"

definition lmt_db_insert_oss_v1 :: "env \<Rightarrow> config \<Rightarrow> string \<Rightarrow> lmtdb \<Rightarrow> lmtdb io" where
  "lmt_db_insert_oss_v1 e cf s g =
     do { r \<leftarrow> init_db_ifneeded e cf g;
          if fst r < 0 then State_Monad.return (snd r)
          else case lmt_oss_decode_v1 s of
                 None \<Rightarrow> State_Monad.return (snd r)
               | Some (ossname, pct_cpu, pct_mem) \<Rightarrow>
                   oss_loop e cf ossname pct_cpu pct_mem 0 (length (the (dbs (snd r)))) (snd r) }"

definition lmt_db_insert_ost_v1 :: "env \<Rightarrow> config \<Rightarrow> string \<Rightarrow> lmtdb \<Rightarrow> lmtdb io" where
  "lmt_db_insert_ost_v1 e cf s g =
     do { r \<leftarrow> init_db_ifneeded e cf g;
          if fst r < 0 then State_Monad.return (snd r)
          else case lmt_ost_decode_v1 s of
                 None \<Rightarrow> State_Monad.return (snd r)
               | Some (ossname, ostname, read_bytes, write_bytes, kbytes_free, kbytes_total, inodes_free, inodes_total) \<Rightarrow>
                   (case svc_to_db (snd r) ostname of
                      None \<Rightarrow> State_Monad.return (snd r)
                    | Some i \<Rightarrow>
                        do { r1 \<leftarrow> lmt_db_insert_ost_data e cf (get_db (snd r) i) ossname ostname read_bytes write_bytes
                               kbytes_free (kbytes_total - kbytes_free) inodes_free (inodes_total - inodes_free);
                             State_Monad.return (done_insert (snd r) i r1) }) }"

section \<open>The monitor\<close>

definition metric_update :: "env \<Rightarrow> config \<Rightarrow> string \<Rightarrow> bool \<Rightarrow> string \<Rightarrow> lmtdb \<Rightarrow> lmtdb io" where
  "metric_update e cf metric_name is_string s g =
     (if \<not> is_string then State_Monad.return g
      else case sscanf [DFloat, semi] s of (n, vs) \<Rightarrow>
        if n \<noteq> 1 then State_Monad.return g
        else let vers = sval_fp (vs ! 0)
             in if metric_name = ''lmt_ost'' \<and> vers = FFin 2 then lmt_db_insert_ost_v2 e cf s g
                else if metric_name = ''lmt_mdt'' \<and> vers = FFin 3 then lmt_db_insert_mdt_v3 e cf s g
                else if metric_name = ''lmt_router'' \<and> vers = FFin 1 then lmt_db_insert_router_v1 e cf s g
                else if metric_name = ''lmt_mdt'' \<and> vers = FFin 2 then lmt_db_insert_mdt_v2 e cf s g
                else if metric_name = ''lmt_oss'' \<and> vers = FFin 1 then lmt_db_insert_oss_v1 e cf s g
                else if metric_name = ''lmt_ost'' \<and> vers = FFin 1 then lmt_db_insert_ost_v1 e cf s g
                else State_Monad.return g)"

end
