(* ===== verification/Lmt_Db_Facts.thy ===== *)
theory Lmt_Db_Facts
  imports Lmt_Db
begin

text \<open>
  What the database layer does: the calls it may make, the cache of identifiers, the choice of the database, and the
  statements a metric string leads to.
\<close>

section \<open>Calls\<close>

text \<open>All calls a computation adds satisfy \<open>P\<close>.\<close>

definition calls_in :: "(dbcall \<Rightarrow> bool) \<Rightarrow> 'a io \<Rightarrow> bool" where
  "calls_in P m \<longleftrightarrow> (\<forall>h. \<exists>cs. snd (run_state m h) = h @ cs \<and> list_all P cs)"

named_theorems calls

lemma calls_return [calls]: "calls_in P (State_Monad.return x)"
  by (simp add: calls_in_def)

lemma calls_ask [calls]: "P c \<Longrightarrow> calls_in P (ask f c)"
  by (simp add: calls_in_def)

lemma calls_tell [calls]: "P c \<Longrightarrow> calls_in P (tell c)"
  by (simp add: tell_def calls_ask)

lemma calls_bind [calls]:
  assumes "calls_in P m" "\<And>x. calls_in P (f x)"
  shows "calls_in P (State_Monad.bind m f)"
proof -
  have "\<exists>cs. snd (run_state (State_Monad.bind m f) h) = h @ cs \<and> list_all P cs" for h
  proof -
    obtain x h1 where m: "run_state m h = (x, h1)" by (cases "run_state m h")
    obtain cs where cs: "h1 = h @ cs" "list_all P cs" using assms(1) m unfolding calls_in_def by (metis snd_conv)
    obtain ds where ds: "snd (run_state (f x) h1) = h1 @ ds" "list_all P ds" using assms(2) [of x] unfolding calls_in_def by blast
    show ?thesis using m cs ds by (intro exI [of _ "cs @ ds"]) simp
  qed
  then show ?thesis by (simp add: calls_in_def)
qed

lemma calls_option [calls]: "calls_in P m \<Longrightarrow> (\<And>x. calls_in P (f x)) \<Longrightarrow> calls_in P (case r of None \<Rightarrow> m | Some x \<Rightarrow> f x)"
  by (cases r) simp_all

lemma calls_if [calls]: "(b \<Longrightarrow> calls_in P m) \<Longrightarrow> (\<not> b \<Longrightarrow> calls_in P n) \<Longrightarrow> calls_in P (if b then m else n)"
  by simp

lemma calls_prod [calls]: "(\<And>x y. calls_in P (f x y)) \<Longrightarrow> calls_in P (case r of (x, y) \<Rightarrow> f x y)"
  by (cases r) simp

lemma calls_sum [calls]: "(\<And>x. calls_in P (f x)) \<Longrightarrow> (\<And>x. calls_in P (g x)) \<Longrightarrow> calls_in P (case r of Inl x \<Rightarrow> f x | Inr x \<Rightarrow> g x)"
  by (cases r) simp_all

lemma calls_list [calls]: "calls_in P m \<Longrightarrow> (\<And>x xs. calls_in P (f x xs)) \<Longrightarrow> calls_in P (case r of [] \<Rightarrow> m | x # xs \<Rightarrow> f x xs)"
  by (cases r) simp_all

lemma calls_let [calls]: "calls_in P (f x) \<Longrightarrow> calls_in P (let y = x in f y)"
  by simp

lemma calls_for_each [calls]: "(\<And>x g. calls_in P (f x g)) \<Longrightarrow> calls_in P (for_each f xs g)"
  by (induction xs arbitrary: g) (simp_all add: calls)

text \<open>Nothing is opened or closed.\<close>

fun keeps_open :: "dbcall \<Rightarrow> bool" where
  "keeps_open (Connect c host user pass db port multi) = False"
| "keeps_open (Close c) = False"
| "keeps_open (Init) = False"
| "keeps_open call = True"

lemma quiet_ids [calls]: "calls_in keeps_open (populate_idhash_one e db pfx tmpl a1)"
  unfolding populate_idhash_one_def by (intro calls) simp_all

lemma quiet_info [calls]:
  "calls_in keeps_open (insert_mds_info e db mdsname mdtname)" "calls_in keeps_open (insert_oss_info e db ossname)"
  "calls_in keeps_open (insert_router_info e db rtrname)"
  unfolding insert_mds_info_def insert_oss_info_def insert_router_info_def by (intro calls; simp)+

lemma quiet_ost_info [calls]: "calls_in keeps_open (insert_ost_info e db ossname ostname)"
  unfolding insert_ost_info_def by (intro calls; simp)

lemma quiet_find_id [calls]: "calls_in keeps_open ins \<Longrightarrow> calls_in keeps_open (find_id cf db svctype name ins)"
  unfolding find_id_def by (intro calls)

lemma quiet_timestamp [calls]: "calls_in keeps_open (update_timestamp e db)"
  unfolding update_timestamp_def by (intro calls; simp)

lemma quiet_exec [calls]: "calls_in keeps_open (exec_insert e db st params)"
  unfolding exec_insert_def by (intro calls; simp)

lemma quiet_data [calls]:
  "calls_in keeps_open (lmt_db_insert_mds_data e cf db mdsname mdtname pct_cpu a b c d)"
  "calls_in keeps_open (lmt_db_insert_mds_ops_data e db mdtname opname x y z)"
  "calls_in keeps_open (lmt_db_insert_oss_data e cf db ossname pct_cpu pct_mem)"
  "calls_in keeps_open (lmt_db_insert_ost_data e cf db ossname ostname p q r s t u)"
  "calls_in keeps_open (lmt_db_insert_router_data e cf db rtrname bytes pct_cpu)"
  unfolding lmt_db_insert_mds_data_def lmt_db_insert_mds_ops_data_def lmt_db_insert_oss_data_def lmt_db_insert_ost_data_def
    lmt_db_insert_router_data_def
  by (intro calls)+

section \<open>Results\<close>

named_theorems results

lemma pred_return [results]: "P x \<Longrightarrow> pred_state P (State_Monad.return x)"
  by (auto intro: pred_stateI)

lemma pred_bind [results]: "(\<And>x. pred_state P (f x)) \<Longrightarrow> pred_state P (State_Monad.bind m f)"
  by (auto intro!: pred_stateI split: prod.splits) (metis pred_stateD)

lemma pred_option [results]: "(r = None \<Longrightarrow> pred_state P m) \<Longrightarrow> (\<And>x. r = Some x \<Longrightarrow> pred_state P (f x)) \<Longrightarrow>
    pred_state P (case r of None \<Rightarrow> m | Some x \<Rightarrow> f x)"
  by (cases r) simp_all

lemma pred_if [results]: "(b \<Longrightarrow> pred_state P m) \<Longrightarrow> (\<not> b \<Longrightarrow> pred_state P n) \<Longrightarrow> pred_state P (if b then m else n)"
  by simp

lemma pred_prod [results]: "(\<And>x y. r = (x, y) \<Longrightarrow> pred_state P (f x y)) \<Longrightarrow> pred_state P (case r of (x, y) \<Rightarrow> f x y)"
  by (cases r) simp

lemma pred_let [results]: "pred_state P (f x) \<Longrightarrow> pred_state P (let y = x in f y)"
  by simp

lemma pred_for_each [results]: "Q g \<Longrightarrow> (\<And>x g. Q g \<Longrightarrow> pred_state Q (f x g)) \<Longrightarrow> pred_state Q (for_each f xs g)"
proof (induction xs arbitrary: g)
  case (Cons x xs)
  show ?case
  proof (rule pred_stateI)
    fix g' h h' assume "run_state (for_each f (x # xs) g) h = (g', h')"
    then obtain g1 h1 where "run_state (f x g) h = (g1, h1)" "run_state (for_each f xs g1) h1 = (g', h')"
      by (auto split: prod.splits)
    then show "Q g'" using Cons pred_stateD by metis
  qed
qed (simp add: results)

text \<open>What the insertions keep: the time of the last connection, the number of databases, and that there are
  databases unless a connection is needed.\<close>

definition same_conn :: "int \<Rightarrow> nat option \<Rightarrow> lmtdb \<Rightarrow> bool" where
  "same_conn t n g \<longleftrightarrow> last_connect g = t \<and> map_option length (dbs g) = n"

lemma same_conn_done [simp]: "same_conn t n (done_insert g i r) = same_conn t n g"
  by (cases "dbs g") (simp_all add: same_conn_def done_insert_def set_db_def trigger_db_reconnect_def Let_def)

lemma same_conn_trigger [simp]: "same_conn t n (trigger_db_reconnect g) = same_conn t n g"
  by (simp add: same_conn_def trigger_db_reconnect_def)


lemma quiet_insert_ostinfo [calls]: "calls_in keeps_open (insert_ostinfo e cf ossname pct_cpu pct_mem s g)"
  unfolding insert_ostinfo_def by (intro calls)


lemma quiet_insert_mds_ops [calls]: "calls_in keeps_open (insert_mds_ops e i mdtname s g)"
  unfolding insert_mds_ops_def by (intro calls)


lemma quiet_insert_mdt [calls]: "calls_in keeps_open (insert_mdt e cf mdsname pct_cpu mdtname ns mdops g)"
  unfolding insert_mdt_def by (intro calls)


lemma quiet_insert_mds [calls]: "calls_in keeps_open (insert_mds e cf mdsname pct_cpu pct_mem ver s g)"
  unfolding insert_mds_def by (intro calls)


lemma quiet_router_loop [calls]: "calls_in keeps_open (router_loop e cf rtrname bytes pct_cpu i k g)"
  by (induction k arbitrary: i g) (auto simp: Let_def intro!: calls)


lemma quiet_oss_loop [calls]: "calls_in keeps_open (oss_loop e cf ossname pct_cpu pct_mem i k g)"
  by (induction k arbitrary: i g) (auto simp: Let_def intro!: calls)

section \<open>Reconnecting\<close>





















section \<open>Properties\<close>


section \<open>The database of a target\<close>

text \<open>The database chosen for a target is the first one whose file system name begins with the part of the target's
  name before the hyphen; so when the file system \<open>fs\<close> has its own database behind that of a file system \<open>fs x\<close>, its data
  goes to a database that is not its own.\<close>

theorem svc_to_db_first_prefix:
  assumes "dbs g = Some l" "j < length l" "lmt_db_fsname (l ! j) = fs" "CHR ''-'' \<notin> set fs"
  shows "\<exists>i. svc_to_db g (fs @ ''-'' @ t) = Some i \<and> i \<le> j \<and> take (length fs) (lmt_db_fsname (l ! i)) = fs \<and>
    (\<forall>k < i. take (length fs) (lmt_db_fsname (l ! k)) \<noteq> fs) \<and>
    (\<forall>k x. k < j \<and> lmt_db_fsname (l ! k) = fs @ x \<longrightarrow> i < j)"
proof -
  let ?P = "\<lambda>db. take (length fs) (lmt_db_fsname db) \<noteq> fs"
  let ?i = "length (takeWhile ?P l)"
  have tw: "takeWhile (\<lambda>c. c \<noteq> CHR ''-'') (fs @ ''-'' @ t) = fs"
    using assms(4) by (subst takeWhile_append2) auto
  have nj: "\<not> ?P (l ! j)" using assms(3) by simp
  have le: "?i \<le> k" if "k < length l" "\<not> ?P (l ! k)" for k
  proof (rule ccontr)
    assume "\<not> ?i \<le> k"
    then have "l ! k \<in> set (takeWhile ?P l)" by (metis nth_mem not_le takeWhile_nth)
    then show False using set_takeWhileD that(2) by metis
  qed
  have lt: "?i < length l" using le [OF assms(2) nj] assms(2) by simp
  have at: "\<not> ?P (l ! ?i)" using nth_length_takeWhile [OF lt] by simp
  have before: "?P (l ! k)" if "k < ?i" for k
  proof -
    have "takeWhile ?P l ! k \<in> set (takeWhile ?P l)" using that by (rule nth_mem)
    then have "l ! k \<in> set (takeWhile ?P l)" by (simp only: takeWhile_nth [OF that])
    then show ?thesis by (rule set_takeWhileD [THEN conjunct2])
  qed
  have "svc_to_db g (fs @ ''-'' @ t) = Some ?i" using assms(1) lt unfolding svc_to_db_def tw Let_def by simp
  moreover have "?i < j" if "k < j" "lmt_db_fsname (l ! k) = fs @ x" for k x
  proof -
    have "?i \<le> k" by (rule le) (use that assms(2) in simp_all)
    then show ?thesis using that by simp
  qed
  ultimately show ?thesis using le [OF assms(2) nj] at before by blast
qed

definition example_handle :: "string \<Rightarrow> lmt_db" where
  "example_handle name = \<lparr>db_conn = 1, db_name = name, ins_timestamp_info = Some 1, ins_mds_data = Some 2,
     ins_mds_ops_data = Some 3, ins_oss_data = Some 4, ins_ost_data = Some 5, ins_router_data = Some 6, db_timestamp = 100,
     db_timestamp_id = 7, db_idhash = idhash_create\<rparr>"

theorem svc_to_db_first_prefix_witness:
  "svc_to_db \<lparr>dbs = Some [example_handle ''filesystem_lc10'', example_handle ''filesystem_lc1''], last_connect = 0,
     reconnect_needed = False\<rparr> ''lc1-OST0000'' = Some 0"
proof -
  let ?l = "[example_handle ''filesystem_lc10'', example_handle ''filesystem_lc1'']"
  let ?g = "\<lparr>dbs = Some ?l, last_connect = 0, reconnect_needed = False\<rparr>"
  have n: "lmt_db_fsname (?l ! 0) = ''lc1'' @ ''0''" "lmt_db_fsname (?l ! 1) = ''lc1''"
    by (simp_all add: lmt_db_fsname_def example_handle_def)
  obtain i where i: "svc_to_db ?g (''lc1'' @ ''-'' @ ''OST0000'') = Some i" "i < 1"
    using svc_to_db_first_prefix [of ?g ?l 1 "''lc1''" "''OST0000''"] n by auto
  then show ?thesis by simp
qed

section \<open>Timestamps\<close>

text \<open>\<open>_update_timestamp\<close> reads the clock and inserts the time rounded down to a multiple of 5 seconds exactly when it is
  later than the last one inserted; on success the handle holds the new time and the row's identifier.\<close>

theorem update_timestamp_correct:
  assumes "ins_timestamp_info db = Some st" "env_time e (h @ [Time]) = Some tv" "0 \<le> tv" "tv < 2 ^ 63"
    and "run_state (update_timestamp e db) h = ((rc, db'), h')"
  shows "if of_int (tv - tv mod 5) \<le> db_timestamp db then rc = 0 \<and> db' = db \<and> h' = h @ [Time]
    else if rc = 0 then
      h' = h @ [Time, Stmt_bind st [SqlLonglong (of_int (tv - tv mod 5))], Stmt_execute st, Insert_id (db_conn db)] \<and>
      db' = db\<lparr>db_timestamp := of_int (tv - tv mod 5), db_timestamp_id := env_id e h'\<rparr> \<and> db_timestamp db < db_timestamp db'
    else rc = - 1 \<and> db' = db"
proof -
  have "uint (of_int tv :: u64) = tv" using assms(3,4) by (simp add: uint_word_of_int_eq take_bit_int_eq_self)
  then have "uint (of_int tv mod lmt_update_interval) = tv mod 5" by (simp add: lmt_update_interval_def uint_mod)
  then have "of_int tv mod lmt_update_interval = (of_int (tv mod 5) :: u64)"
    by (metis word_of_int_uint)
  then have r: "of_int tv - of_int tv mod lmt_update_interval = (of_int (tv - tv mod 5) :: u64)" by simp
  show ?thesis using assms(1,2,5)
    by (auto simp: update_timestamp_def Let_def r split: if_splits)
qed

section \<open>The cache of identifiers\<close>

definition svckey :: "string \<Rightarrow> string \<Rightarrow> string" where
  "svckey pfx name = pfx @ ''_'' @ name"

definition db_ids :: "lmt_db \<Rightarrow> string \<Rightarrow> u64 option" where
  "db_ids db k = (case db_idhash db of None \<Rightarrow> None | Some h \<Rightarrow> map_option sv_id (lookup h k))"

definition db_ok :: "lmt_db \<Rightarrow> bool" where
  "db_ok db \<longleftrightarrow> (case db_idhash db of None \<Rightarrow> False | Some h \<Rightarrow> hash_inv h)"

lemma create_svcid_eq: "create_svcid pfx name i = \<lparr>sv_key = svckey pfx name, sv_id = i\<rparr>"
  by (simp add: create_svcid_def svckey_def snprintf_def)

lemma lookup_idhash_eq: "db_ok db \<Longrightarrow> lookup_idhash db svctype name = db_ids db (svckey svctype name)"
  by (auto simp: lookup_idhash_def db_ids_def svckey_def snprintf_def db_ok_def hash_find_spec split: option.splits)

lemma insert_svcid_new:
  assumes "db_ok db" "db_ids db (sv_key s) = None"
  shows "\<exists>db'. insert_svcid db s = (0, db') \<and> db_ok db' \<and> db_ids db' = (db_ids db)(sv_key s \<mapsto> sv_id s)"
proof -
  obtain h where h: "db_idhash db = Some h" "hash_inv h" using assms(1) by (auto simp: db_ok_def split: option.splits)
  have new: "lookup h (sv_key s) = None" using assms(2) h by (simp add: db_ids_def)
  obtain h' where i: "hash_insert h (Some (sv_key s)) (Some s) True E0 = (Some s, h', E0)" "hash_inv h'"
    "lookup h' = (lookup h)(sv_key s \<mapsto> s)" using hash_insert_new [OF h(2) new] by blast
  have "db_ids (db\<lparr>db_idhash := Some h'\<rparr>) = (db_ids db)(sv_key s \<mapsto> sv_id s)"
    using h(1) i(3) by (auto simp: db_ids_def fun_eq_iff)
  then show ?thesis using h(1) i by (simp add: insert_svcid_def db_ok_def)
qed

lemma insert_svcid_dup:
  assumes "db_ok db" "db_ids db (sv_key s) = Some i"
  shows "insert_svcid db s = (- 1, db)"
proof -
  obtain h where h: "db_idhash db = Some h" "hash_inv h" using assms(1) by (auto simp: db_ok_def split: option.splits)
  then obtain w where "lookup h (sv_key s) = Some w" using assms(2) by (auto simp: db_ids_def)
  then show ?thesis using h by (simp add: insert_svcid_def hash_insert_dup)
qed

text \<open>What the rows of a result stand for.\<close>

definition row_ids :: "string \<Rightarrow> string list list \<Rightarrow> (string \<times> u64) list" where
  "row_ids pfx rows = map (\<lambda>row. (svckey pfx (row ! 0), fst (strtoul10 (row ! 1)))) rows"

definition columns_ok :: "sqlres \<Rightarrow> bool" where
  "columns_ok res \<longleftrightarrow> verify_type res 0 MYSQL_TYPE_VAR_STRING = 0 \<and> verify_type res 1 MYSQL_TYPE_LONG = 0"

lemma populate_rows_ok:
  assumes "db_ok db" "columns_ok res" "distinct (map fst (row_ids pfx rows))"
    and "\<forall>k \<in> fst ` set (row_ids pfx rows). db_ids db k = None"
  shows "\<exists>db'. populate_rows db pfx res rows = (0, db') \<and> db_ok db' \<and> db_ids db' = db_ids db ++ map_of (row_ids pfx rows)"
  using assms
proof (induction rows arbitrary: db)
  case (Cons row rows)
  let ?s = "create_svcid pfx (row ! 0) (fst (strtoul10 (row ! 1)))"
  have "db_ids db (sv_key ?s) = None" using Cons(5) by (simp add: create_svcid_eq row_ids_def)
  then obtain db1 where i: "insert_svcid db ?s = (0, db1)" "db_ok db1" "db_ids db1 = (db_ids db)(sv_key ?s \<mapsto> sv_id ?s)"
    using insert_svcid_new [OF Cons(2)] by blast
  have d: "distinct (map fst (row_ids pfx rows))" using Cons(4) by (simp add: row_ids_def)
  have e: "row_ids pfx (row # rows) = (svckey pfx (row ! 0), fst (strtoul10 (row ! 1))) # row_ids pfx rows"
    by (simp add: row_ids_def)
  have new: "svckey pfx (row ! 0) \<notin> fst ` set (row_ids pfx rows)" using Cons(4) by (simp add: e)
  have "\<forall>k \<in> fst ` set (row_ids pfx rows). db_ids db1 k = None"
  proof
    fix k assume k: "k \<in> fst ` set (row_ids pfx rows)"
    then have "k \<noteq> svckey pfx (row ! 0)" using new by metis
    then show "db_ids db1 k = None" using Cons(5) k by (auto simp: i(3) create_svcid_eq e)
  qed
  then obtain db' where r: "populate_rows db1 pfx res rows = (0, db')" "db_ok db'" "db_ids db' = db_ids db1 ++ map_of (row_ids pfx rows)"
    using Cons(1) [OF i(2) Cons(3) d] by blast
  have "svckey pfx (row ! 0) \<notin> dom (map_of (row_ids pfx rows))" using new by (simp add: dom_map_of_conv_image_fst)
  then have "db_ids db' = db_ids db ++ map_of (row_ids pfx (row # rows))"
    by (simp add: r(3) i(3) create_svcid_eq e map_add_upd_left)
  then show ?case using r i(1) Cons(3) by (simp add: columns_ok_def)
qed (simp add: row_ids_def)

lemma populate_rows_dup:
  assumes "db_ok db" "\<not> distinct (map fst (row_ids pfx rows)) \<or> (\<exists>k \<in> fst ` set (row_ids pfx rows). db_ids db k \<noteq> None)"
  shows "fst (populate_rows db pfx res rows) = - 1"
  using assms
proof (induction rows arbitrary: db)
  case (Cons row rows)
  let ?s = "create_svcid pfx (row ! 0) (fst (strtoul10 (row ! 1)))"
  show ?case
  proof (cases "db_ids db (sv_key ?s)")
    case (Some i)
    then show ?thesis using insert_svcid_dup [OF Cons(2) Some] by simp
  next
    case None
    obtain db1 where i: "insert_svcid db ?s = (0, db1)" "db_ok db1" "db_ids db1 = (db_ids db)(sv_key ?s \<mapsto> sv_id ?s)"
      using insert_svcid_new [OF Cons(2) None] by blast
    have "\<not> distinct (map fst (row_ids pfx rows)) \<or> (\<exists>k \<in> fst ` set (row_ids pfx rows). db_ids db1 k \<noteq> None)"
      using Cons(3) None by (auto simp: i(3) create_svcid_eq row_ids_def)
    then show ?thesis using Cons(1) [OF i(2)] i(1) by simp
  qed
qed (simp add: row_ids_def)

text \<open>C31: loading a table into the cache succeeds exactly when its names are different and new; afterwards the cache maps every
  name to the identifier of its row and everything else as before, and \<open>_lookup_idhash\<close> returns just that.\<close>

theorem populate_rows_correct:
  assumes "db_ok db" "columns_ok res"
  shows "case populate_rows db pfx res rows of (rc, db') \<Rightarrow>
    (rc = 0 \<longleftrightarrow> distinct (map fst (row_ids pfx rows)) \<and> (\<forall>k \<in> fst ` set (row_ids pfx rows). db_ids db k = None)) \<and>
    (rc = 0 \<longrightarrow> (\<forall>svctype name. lookup_idhash db' svctype name =
       (db_ids db ++ map_of (row_ids pfx rows)) (svckey svctype name)))"
proof (cases "distinct (map fst (row_ids pfx rows)) \<and> (\<forall>k \<in> fst ` set (row_ids pfx rows). db_ids db k = None)")
  case True
  then obtain db' where "populate_rows db pfx res rows = (0, db')" "db_ok db'" "db_ids db' = db_ids db ++ map_of (row_ids pfx rows)"
    using populate_rows_ok [OF assms] by blast
  then show ?thesis using True by (simp add: lookup_idhash_eq)
next
  case False
  then have "fst (populate_rows db pfx res rows) = - 1" by (intro populate_rows_dup [OF assms(1)]) blast
  then show ?thesis using False by (auto split: prod.splits)
qed

definition two_servers :: sqlres where
  "two_servers = \<lparr>rs_types = [MYSQL_TYPE_VAR_STRING, MYSQL_TYPE_LONG], rs_rows = [[''oss1'', ''3''], [''oss2'', ''4'']]\<rparr>"

lemma example_handle_ok: "db_ok (example_handle s)" "db_ids (example_handle s) = Map.empty"
proof -
  obtain h :: "(string, svcid) hash_tab" where h: "idhash_create = Some h" "hash_inv h" "lookup h = Map.empty"
  proof -
    obtain h :: "(string, svcid) hash_tab" and e' where c: "hash_create idhash_size (Some hash_key_string) (Some strcmp) True True True E0 = (Some h, e')"
      by (auto simp: hash_create_def idhash_size_def Let_def)
    then show thesis using that [of h] hash_create_inv [OF c] by (simp add: idhash_create_def)
  qed
  then show "db_ok (example_handle s)" "db_ids (example_handle s) = Map.empty"
    by (simp_all add: db_ok_def db_ids_def example_handle_def fun_eq_iff h)
qed

theorem populate_rows_correct_witness:
  "\<exists>db'. populate_rows (example_handle ''filesystem_a'') ''oss'' two_servers (rs_rows two_servers) = (0, db') \<and>
     lookup_idhash db' ''oss'' ''oss2'' = Some 4 \<and> lookup_idhash db' ''oss'' ''oss3'' = None"
proof -
  have c: "columns_ok two_servers" by (simp add: columns_ok_def verify_type_def two_servers_def)
  have r: "row_ids ''oss'' (rs_rows two_servers) = [(''oss_oss1'', 3), (''oss_oss2'', 4)]" by code_simp
  show ?thesis
    using populate_rows_correct [where db = "example_handle ''filesystem_a''" and pfx = "''oss''" and rows = "rs_rows two_servers", OF example_handle_ok(1) c]
    unfolding r example_handle_ok(2) by (auto simp: svckey_def split: prod.splits)
qed

section \<open>Two targets on one metadata server\<close>







section \<open>From the metric string to the statements\<close>

text \<open>Every call succeeds, and the clock stays within the interval of the last timestamp.\<close>

definition accepts :: "env \<Rightarrow> lmt_db \<Rightarrow> bool" where
  "accepts e db \<longleftrightarrow> (\<forall>h. env_int e h = 0 \<and>
     (case env_time e h of None \<Rightarrow> False | Some t \<Rightarrow> of_int t - of_int t mod lmt_update_interval \<le> db_timestamp db))"

text \<open>The identifiers of a target and of its server are in the cache, and the statements are prepared.\<close>

definition knows :: "lmt_db \<Rightarrow> string \<Rightarrow> string \<Rightarrow> bool" where
  "knows db ossname ostname \<longleftrightarrow>
     lookup_idhash db ''ost'' ostname \<noteq> None \<and> lookup_idhash db ''oss'' ossname \<noteq> None \<and>
     ins_timestamp_info db \<noteq> None \<and> ins_ost_data db \<noteq> None \<and> ins_oss_data db \<noteq> None"

definition ost_calls :: "lmt_db \<Rightarrow> string \<Rightarrow> fp \<Rightarrow> fp \<Rightarrow> ostinfo \<Rightarrow> calls" where
  "ost_calls db ossname pct_cpu pct_mem i =
     (let ts = SqlLong (ucast (db_timestamp_id db)); a = the (ins_ost_data db); b = the (ins_oss_data db)
      in [Time, Stmt_bind a [SqlLong (ucast (the (lookup_idhash db ''ost'' (oi_name i)))), ts, SqlLonglong (oi_read_bytes i),
            SqlLonglong (oi_write_bytes i), SqlLonglong (oi_kbytes_free i), SqlLonglong (oi_kbytes_total i - oi_kbytes_free i),
            SqlLonglong (oi_inodes_free i), SqlLonglong (oi_inodes_total i - oi_inodes_free i)], Stmt_execute a,
          Time, Stmt_bind b [SqlLong (ucast (the (lookup_idhash db ''oss'' ossname))), ts, SqlFloat pct_cpu, SqlFloat pct_mem],
            Stmt_execute b])"

lemma timestamp_current:
  assumes "accepts e db" "ins_timestamp_info db \<noteq> None"
  shows "run_state (update_timestamp e db) h = ((0, db), h @ [Time])"
proof -
  have "case env_time e (h @ [Time]) of None \<Rightarrow> False | Some t \<Rightarrow> of_int t - of_int t mod lmt_update_interval \<le> db_timestamp db"
    using assms(1) by (simp add: accepts_def)
  then obtain t where t: "env_time e (h @ [Time]) = Some t" "of_int t - of_int t mod lmt_update_interval \<le> db_timestamp db"
    by (cases "env_time e (h @ [Time])") simp_all
  then show ?thesis using assms(2) by (auto simp: update_timestamp_def Let_def)
qed

lemma exec_accepts: "accepts e db \<Longrightarrow> run_state (exec_insert e db st params) h = (0, h @ [Stmt_bind st params, Stmt_execute st])"
  by (simp add: exec_insert_def accepts_def)

lemma ost_inserted:
  assumes "accepts e db" "knows db ossname (oi_name i)"
  shows "run_state (lmt_db_insert_ost_data e cf db ossname (oi_name i) (oi_read_bytes i) (oi_write_bytes i) (oi_kbytes_free i)
      (oi_kbytes_total i - oi_kbytes_free i) (oi_inodes_free i) (oi_inodes_total i - oi_inodes_free i)) h =
    ((0, db), h @ take 3 (ost_calls db ossname pct_cpu pct_mem i))"
    "run_state (lmt_db_insert_oss_data e cf db ossname pct_cpu pct_mem) h =
      ((0, db), h @ drop 3 (ost_calls db ossname pct_cpu pct_mem i))"
proof -
  have ts: "ins_timestamp_info db \<noteq> None" using assms(2) by (simp add: knows_def)
  obtain a b st sb where k: "lookup_idhash db ''ost'' (oi_name i) = Some a" "lookup_idhash db ''oss'' ossname = Some b"
    "ins_ost_data db = Some st" "ins_oss_data db = Some sb" using assms(2) by (auto simp: knows_def)
  show "run_state (lmt_db_insert_ost_data e cf db ossname (oi_name i) (oi_read_bytes i) (oi_write_bytes i) (oi_kbytes_free i)
      (oi_kbytes_total i - oi_kbytes_free i) (oi_inodes_free i) (oi_inodes_total i - oi_inodes_free i)) h =
    ((0, db), h @ take 3 (ost_calls db ossname pct_cpu pct_mem i))"
    using k timestamp_current [OF assms(1) ts] exec_accepts [OF assms(1)]
    by (simp add: lmt_db_insert_ost_data_def find_id_def ost_calls_def Let_def)
  show "run_state (lmt_db_insert_oss_data e cf db ossname pct_cpu pct_mem) h =
      ((0, db), h @ drop 3 (ost_calls db ossname pct_cpu pct_mem i))"
    using k timestamp_current [OF assms(1) ts] exec_accepts [OF assms(1)]
    by (simp add: lmt_db_insert_oss_data_def find_id_def ost_calls_def Let_def)
qed

lemma set_get_db: "dbs g = Some l \<Longrightarrow> set_db g i (get_db g i) = g"
  by (simp add: set_db_def get_db_def)

text \<open>The database named after the file system of a target, the part of its name before the hyphen. No other file system
  database may have a name that only extends this one, because \<open>_svc_to_db\<close> compares prefixes.\<close>

definition fs_of :: "string \<Rightarrow> string" where
  "fs_of name = takeWhile (\<lambda>c. c \<noteq> CHR ''-'') name"

definition home_db :: "lmt_db list \<Rightarrow> string \<Rightarrow> lmt_db option" where
  "home_db l name = find (\<lambda>db. db_name db = ''filesystem_'' @ fs_of name) l"

definition no_longer_fs :: "lmt_db list \<Rightarrow> string \<Rightarrow> bool" where
  "no_longer_fs l name \<longleftrightarrow> list_all (\<lambda>db. \<exists>fs. db_name db = ''filesystem_'' @ fs \<and> (take (length (fs_of name)) fs = fs_of name \<longrightarrow> fs = fs_of name)) l"

lemma fsname_of_name: "db_name db = ''filesystem_'' @ fs \<Longrightarrow> lmt_db_fsname db = fs"
  by (simp add: lmt_db_fsname_def)

lemma find_takeWhile:
  "find P l = Some x \<Longrightarrow> length (takeWhile (\<lambda>x. \<not> P x) l) < length l \<and> l ! length (takeWhile (\<lambda>x. \<not> P x) l) = x"
  by (induction l) (auto split: if_splits)

lemma svc_to_db_home:
  assumes "dbs g = Some l" "home_db l name = Some db" "no_longer_fs l name"
  shows "\<exists>k. svc_to_db g name = Some k \<and> get_db g k = db"
proof -
  have t: "take (length (fs_of name)) name = fs_of name" unfolding fs_of_def by (metis append_eq_conv_conj takeWhile_dropWhile_id)
  have p: "take (length (fs_of name)) (lmt_db_fsname d) \<noteq> fs_of name \<longleftrightarrow> \<not> db_name d = ''filesystem_'' @ fs_of name" if "d \<in> set l" for d
  proof -
    have "\<exists>fs. db_name d = ''filesystem_'' @ fs \<and> (take (length (fs_of name)) fs = fs_of name \<longrightarrow> fs = fs_of name)"
      using assms(3) that unfolding no_longer_fs_def list_all_iff by (rule bspec)
    then obtain fs where fs: "db_name d = ''filesystem_'' @ fs" "take (length (fs_of name)) fs = fs_of name \<longrightarrow> fs = fs_of name"
      by (elim exE conjE)
    then show ?thesis using fsname_of_name [OF fs(1)] by auto
  qed
  have "takeWhile (\<lambda>d. take (length (fs_of name)) (lmt_db_fsname d) \<noteq> fs_of name) l = takeWhile (\<lambda>d. \<not> db_name d = ''filesystem_'' @ fs_of name) l"
    by (rule takeWhile_cong [OF refl]) (rule p)
  then show ?thesis using find_takeWhile [OF assms(2) [unfolded home_db_def]] assms(1) t
    by (simp add: svc_to_db_def get_db_def fs_of_def [symmetric] Let_def)
qed

definition ready :: "env \<Rightarrow> lmt_db list \<Rightarrow> string \<Rightarrow> ostinfo \<Rightarrow> bool" where
  "ready e l ossname i \<longleftrightarrow> no_longer_fs l (oi_name i) \<and>
     (case home_db l (oi_name i) of None \<Rightarrow> False | Some db \<Rightarrow> accepts e db \<and> knows db ossname (oi_name i))"

lemma ostinfo_inserted:
  assumes "dbs g = Some l" "ready e l ossname i" "ostinfo_ok i"
  shows "run_state (insert_ostinfo e cf ossname pct_cpu pct_mem (ost_string i) g) h =
    (g, h @ ost_calls (the (home_db l (oi_name i))) ossname pct_cpu pct_mem i)"
proof -
  obtain db where h: "home_db l (oi_name i) = Some db" "accepts e db" "knows db ossname (oi_name i)" "no_longer_fs l (oi_name i)"
    using assms(2) by (auto simp: ready_def split: option.splits)
  obtain k where k: "svc_to_db g (oi_name i) = Some k" "get_db g k = db" using svc_to_db_home [OF assms(1) h(1,4)] by blast
  have s: "done_insert g k (0, db) = g" using set_get_db [OF assms(1), of k] k(2) by (simp add: done_insert_def Let_def)
  show ?thesis using ost_inserted [OF h(2,3), where pct_cpu = pct_cpu and pct_mem = pct_mem] k s decode_ost_string [OF assms(3)] h(1)
    by (simp add: insert_ostinfo_def Let_def)
qed

lemma for_each_inserted:
  assumes "\<And>i h. i \<in> set is \<Longrightarrow> run_state (f (t i) g) h = (g, h @ cs i)"
  shows "run_state (for_each f (map t is) g) h = (g, h @ concat (map cs is))"
  using assms by (induction "is" arbitrary: h) auto

lemma conv_float_2: "conv_float (CHR ''2'' # CHR '';'' # r) = SOk (FFin 2) (CHR '';'' # r)"
proof -
  have "dec_string 2 = ''2''" "flt 2 = FFin 2" by code_simp+
  then show ?thesis using conv_float_integer [of 2 r] by simp
qed

text \<open>C8: the monitor's callback on the metric string of an object storage server makes, for every target in order, exactly
  two insertions into the database named after the file system of the target: the counters of the target with the used
  kilobytes and inodes as differences, and the percentages of the server, both with the identifier of the current timestamp;
  nothing else is called and the state stays as it is. This holds when no reconnection is needed, the database exists and no
  listed file system has a longer name that begins with that of the target, its cache knows the target and the server, its
  statements are prepared, all calls succeed, the clock is within the interval of the last timestamp, and the names in the
  string hold no delimiter.\<close>

theorem ost_metric_inserted:
  assumes "field_ok host" "list_all ostinfo_ok is" "\<not> reconnect_needed g" "dbs g = Some l" "list_all (ready e l host) is"
  shows "run_state (metric_update e cf ''lmt_ost'' True (ost_text host cpu mem is) g) h =
    (g, h @ concat (map (\<lambda>i. ost_calls (the (home_db l (oi_name i))) host (reread_f cpu) (reread_f mem) i) is))"
proof -
  have v: "sscanf [DFloat, semi] (ost_text host cpu mem is) = (1, [VF (FFin 2)])"
  proof -
    have "\<exists>r. scan_dirs [DFloat, semi] (ost_text host cpu mem is) = ([VF (FFin 2)], r, False)"
      unfolding ost_text_def ost_header_def fmt_dirs by (simp add: conv_float_2)
    then show ?thesis by (auto simp: sscanf_def scanf_result_def)
  qed
  have f: "run_state (for_each (insert_ostinfo e cf host (reread_f cpu) (reread_f mem)) (map ost_string is) g) h =
    (g, h @ concat (map (\<lambda>i. ost_calls (the (home_db l (oi_name i))) host (reread_f cpu) (reread_f mem) i) is))"
    by (rule for_each_inserted, rule ostinfo_inserted [OF assms(4)]) (use assms in \<open>simp_all add: list_all_iff\<close>)
  show ?thesis
    using assms(3) f by (simp add: metric_update_def v sval_fp_def lmt_db_insert_ost_v2_def init_db_ifneeded_def
        decode_ost_text [OF assms(1,2)])
qed

definition full_handle :: lmt_db where
  "full_handle = (example_handle ''filesystem_a'')\<lparr>db_idhash := Some \<lparr>hcount = 2, hsize = 1,
     table = [[(''ost_a-OST0'', \<lparr>sv_key = ''ost_a-OST0'', sv_id = 8\<rparr>), (''oss_oss1'', \<lparr>sv_key = ''oss_oss1'', sv_id = 3\<rparr>)]],
     cmp_f = strcmp, del_f = True, key_f = hash_key_string\<rparr>\<rparr>"

definition accepting_env :: env where
  "accepting_env = \<lparr>env_time = (\<lambda>h. Some 100), env_ptr = length, env_connect = (\<lambda>h. True), env_int = (\<lambda>h. 0),
     env_result = (\<lambda>h. None), env_id = (\<lambda>h. 1)\<rparr>"

lemma full_handle_facts:
  "lookup_idhash full_handle ''ost'' ''a-OST0'' = Some 8" "lookup_idhash full_handle ''oss'' ''oss1'' = Some 3"
  "lmt_db_fsname full_handle = ''a''" "db_timestamp full_handle = 100" "db_timestamp_id full_handle = 7"
  "ins_timestamp_info full_handle = Some 1" "ins_oss_data full_handle = Some 4" "ins_ost_data full_handle = Some 5"
  by (simp_all add: full_handle_def example_handle_def lookup_idhash_def snprintf_def hash_find_def slot_def lmt_db_fsname_def)

text \<open>The second of two databases is the one of the target.\<close>

theorem ost_metric_inserted_witness:
  "run_state (metric_update accepting_env config_default ''lmt_ost'' True (ost_text ''oss1'' (FFin 50) (FFin 75) [ostinfo_example])
      \<lparr>dbs = Some [example_handle ''filesystem_b'', full_handle], last_connect = 0, reconnect_needed = False\<rparr>) [] =
    (\<lparr>dbs = Some [example_handle ''filesystem_b'', full_handle], last_connect = 0, reconnect_needed = False\<rparr>,
     [Time, Stmt_bind 5 [SqlLong 8, SqlLong 7, SqlLonglong 77, SqlLonglong 0, SqlLonglong 13, SqlLonglong 1, SqlLonglong 11, SqlLonglong 1],
      Stmt_execute 5, Time, Stmt_bind 4 [SqlLong 3, SqlLong 7, SqlFloat (reread_f (FFin 50)), SqlFloat (reread_f (FFin 75))],
      Stmt_execute 4])"
proof -
  let ?l = "[example_handle ''filesystem_b'', full_handle]"
  let ?g = "\<lparr>dbs = Some ?l, last_connect = 0, reconnect_needed = False\<rparr>"
  have n: "oi_name ostinfo_example = ''a-OST0''" by (simp add: ostinfo_example_def)
  have names: "db_name (example_handle ''filesystem_b'') = ''filesystem_'' @ ''b''" "db_name full_handle = ''filesystem_'' @ ''a''"
    by (simp_all add: example_handle_def full_handle_def)
  have fs: "fs_of ''a-OST0'' = ''a''" by (simp add: fs_of_def)
  have t: "home_db ?l ''a-OST0'' = Some full_handle" unfolding home_db_def fs find.simps names by simp
  have nl: "no_longer_fs ?l ''a-OST0''" using names unfolding no_longer_fs_def fs list.pred_inject by fastforce
  have "(100 :: u64) mod lmt_update_interval = 0" by code_simp
  then have r: "ready accepting_env ?l ''oss1'' ostinfo_example"
    by (simp add: ready_def n t nl accepts_def knows_def full_handle_facts accepting_env_def)
  have f: "field_ok ''oss1''" "list_all ostinfo_ok [ostinfo_example]" by (simp_all add: field_ok_def ostinfo_ok_def ostinfo_example_def)
  have c: "ost_calls full_handle ''oss1'' cpu mem ostinfo_example =
    [Time, Stmt_bind 5 [SqlLong 8, SqlLong 7, SqlLonglong 77, SqlLonglong 0, SqlLonglong 13, SqlLonglong 1, SqlLonglong 11, SqlLonglong 1],
      Stmt_execute 5, Time, Stmt_bind 4 [SqlLong 3, SqlLong 7, SqlFloat cpu, SqlFloat mem], Stmt_execute 4]" for cpu mem
    by (simp add: ost_calls_def n full_handle_facts Let_def) (simp add: ostinfo_example_def)
  show ?thesis
    using ost_metric_inserted [OF f, of ?g ?l accepting_env config_default "FFin 50" "FFin 75" "[]"] r by (simp add: t n c)
qed

section \<open>The size of the statements\<close>

lemma sql_text_length: "length (sql_text t args) \<le> length t + sum_list (map length args)"
  by (induction t args rule: sql_text.induct) (auto split: list.splits)

lemma sql_printf_fits: "length t + sum_list (map length args) < len \<Longrightarrow> sql_printf len t args = sql_text t args"
  using sql_text_length [of t args] by (simp add: sql_printf_def snprintf_def)

lemma print_u64_20: "length (print_u64 i) \<le> 20"
proof -
  have "unat i < 10 ^ 20" by (rule less_le_trans [OF unat_u64_bound]) simp
  then have "length (dec_string (unat i)) \<le> 20" by (intro length_dec_string_le) simp_all
  then show ?thesis by (simp add: print_u64_def)
qed

text \<open>The template of \<open>OST_INFO\<close> has seven characters of conversions, which with the 16 of the size are enough for a 64-bit
  number.\<close>

lemma ost_info_text:
  "length (sql_text sql_ins_ost_info_tmpl [i, ostname, ossname]) + 7 = length sql_ins_ost_info_tmpl + length i + length ostname + length ossname"
  by (simp add: sql_ins_ost_info_tmpl_def sq_def)

text \<open>No statement that is sent to the server is cut: the sizes computed for the buffers are large enough for every name and
  every 64-bit identifier.\<close>

theorem statements_complete:
  "sql_printf (length sql_ins_mds_info_tmpl + length mds + length mdt + 1) sql_ins_mds_info_tmpl [mdt, mds] =
     sql_text sql_ins_mds_info_tmpl [mdt, mds] \<and>
   sql_printf (length sql_ins_oss_info_tmpl + length oss + 1) sql_ins_oss_info_tmpl [oss] = sql_text sql_ins_oss_info_tmpl [oss] \<and>
   sql_printf (length sql_ins_ost_info_tmpl + length oss + length ost + 16 + 1) sql_ins_ost_info_tmpl [print_u64 i, ost, oss] =
     sql_text sql_ins_ost_info_tmpl [print_u64 i, ost, oss] \<and>
   sql_printf (length sql_ins_router_info_tmpl + length rtr * 2 + 1) sql_ins_router_info_tmpl [rtr, rtr] =
     sql_text sql_ins_router_info_tmpl [rtr, rtr] \<and>
   sql_printf (length name + length tmpl + 1) tmpl [name] = sql_text tmpl [name]"
proof (intro conjI)
  have "length (sql_text sql_ins_ost_info_tmpl [print_u64 i, ost, oss]) < length sql_ins_ost_info_tmpl + length oss + length ost + 16 + 1"
    using ost_info_text [of "print_u64 i" ost oss] print_u64_20 [of i] by linarith
  then show "sql_printf (length sql_ins_ost_info_tmpl + length oss + length ost + 16 + 1) sql_ins_ost_info_tmpl [print_u64 i, ost, oss] =
     sql_text sql_ins_ost_info_tmpl [print_u64 i, ost, oss]"
    by (simp add: sql_printf_def snprintf_def)
qed (rule sql_printf_fits, simp)+

end
