(* ===== verification/Lmt_Init.thy ===== *)
theory Lmt_Init
  imports Lmt_Db_Facts
begin

text \<open>
  \<open>utils/lmtinit.c\<close>: the administration tool. Its options are what \<open>getopt\<close> returns; the configuration, the schema file, the
  password that is typed and the memory behind the buffer of the schema are parameters. The result is what is printed on
  the standard output and the exit status; messages on the standard error and those of \<open>lmt_db_update_ops\<close> are left out.
\<close>

section \<open>Options\<close>

record init_opts =
  io_aopt :: bool
  io_dopt :: bool
  io_lopt :: bool
  io_Popt :: bool
  io_xopt :: bool
  io_oopt :: bool
  io_fsname :: "string option"
  io_conffile :: "string option"
  io_schemafile :: "string option"
  io_user :: "string option"
  io_pass :: "string option"

definition init_opts_none :: init_opts where
  "init_opts_none =
     \<lparr>io_aopt = False, io_dopt = False, io_lopt = False, io_Popt = False, io_xopt = False, io_oopt = False, io_fsname = None,
      io_conffile = None, io_schemafile = None, io_user = None, io_pass = None\<rparr>"

text \<open>\<open>None\<close> for an option that is not known.\<close>

definition init_option :: "char \<Rightarrow> string \<Rightarrow> init_opts \<Rightarrow> init_opts option" where
  "init_option c arg p =
     (if c = CHR ''a'' then Some (p\<lparr>io_aopt := True, io_fsname := Some arg\<rparr>)
      else if c = CHR ''d'' then Some (p\<lparr>io_dopt := True, io_fsname := Some arg\<rparr>)
      else if c = CHR ''l'' then Some (p\<lparr>io_lopt := True\<rparr>)
      else if c = CHR ''c'' then Some (p\<lparr>io_conffile := Some arg\<rparr>)
      else if c = CHR ''s'' then Some (p\<lparr>io_schemafile := Some arg\<rparr>)
      else if c = CHR ''u'' then Some (p\<lparr>io_user := Some arg\<rparr>)
      else if c = CHR ''p'' then Some (p\<lparr>io_pass := Some arg\<rparr>)
      else if c = CHR ''P'' then Some (p\<lparr>io_Popt := True\<rparr>)
      else if c = CHR ''x'' then Some (p\<lparr>io_xopt := True\<rparr>)
      else if c = CHR ''o'' then Some (p\<lparr>io_oopt := True, io_fsname := Some arg\<rparr>)
      else None)"

fun init_options :: "(char \<times> string) list \<Rightarrow> init_opts \<Rightarrow> init_opts option" where
  "init_options [] p = Some p"
| "init_options ((c, arg) # opts) p = (case init_option c arg p of None \<Rightarrow> None | Some p' \<Rightarrow> init_options opts p')"

section \<open>The environment\<close>

text \<open>The file of the schema: whether it can be opened, its size according to \<open>fstat\<close>, and what \<open>read\<close> yields.\<close>

record schema_file =
  sf_open :: bool
  sf_size :: "nat option"
  sf_read :: "string option"

record init_env =
  ie_argv :: "string list"
  ie_optind :: nat
  ie_readable :: bool
  ie_conf :: string
  ie_load :: "string \<Rightarrow> (string \<Rightarrow> luaval) option"
  ie_getpass :: "string option"
  ie_schema :: "string \<Rightarrow> schema_file"
  ie_schema_path :: string
  ie_memory :: string
  ie_fuel :: nat

type_synonym init_result = "string list \<times> int"

definition lmt_schema_version :: string where "lmt_schema_version = ''1.1''"

section \<open>Actions\<close>

definition list_line :: "string \<Rightarrow> string" where
  "list_line s = (if CHR ''_'' \<in> set s then tl (dropWhile (\<lambda>c. c \<noteq> CHR ''_'') s) else s)"

definition init_list :: "env \<Rightarrow> config \<Rightarrow> string option \<Rightarrow> string option \<Rightarrow> init_result io" where
  "init_list e cf user pass =
     do { l \<leftarrow> lmt_db_list e cf user pass;
          State_Monad.return (case l of None \<Rightarrow> ([], 1) | Some names \<Rightarrow> (map list_line names, 0)) }"

definition init_del :: "env \<Rightarrow> config \<Rightarrow> string option \<Rightarrow> string option \<Rightarrow> string \<Rightarrow> init_result io" where
  "init_del e cf user pass fsname =
     do { rc \<leftarrow> lmt_db_drop e cf user pass fsname; State_Monad.return ([], if rc < 0 then 1 else 0) }"

text \<open>The bytes of the file; the buffer has no room for a NUL.\<close>

definition read_schema :: "schema_file \<Rightarrow> string option" where
  "read_schema f =
     (if \<not> sf_open f then None
      else case sf_size f of
          None \<Rightarrow> None
        | Some n \<Rightarrow>
            (case sf_read f of
               None \<Rightarrow> None
             | Some buf \<Rightarrow> if buf = [] then None else if length buf \<noteq> n then None else Some buf))"

text \<open>The statement the buffer denotes ends at the first NUL, wherever it is.\<close>

definition c_string :: "string \<Rightarrow> string \<Rightarrow> string" where
  "c_string buf memory = takeWhile (\<lambda>c. c \<noteq> CHR 0x00) (buf @ memory)"

definition init_add :: "env \<Rightarrow> config \<Rightarrow> init_env \<Rightarrow> string option \<Rightarrow> string option \<Rightarrow> string \<Rightarrow> string option \<Rightarrow> init_result option io" where
  "init_add e cf ie user pass fsname schemafile =
     (case read_schema (ie_schema ie (case schemafile of Some f \<Rightarrow> f | None \<Rightarrow> ie_schema_path ie)) of
        None \<Rightarrow> State_Monad.return (Some ([], 1))
      | Some buf \<Rightarrow>
          do { rc \<leftarrow> lmt_db_add e cf (ie_fuel ie) user pass fsname lmt_schema_version (c_string buf (ie_memory ie));
               State_Monad.return (map_option (\<lambda>rc. ([], if rc < 0 then 1 else 0)) rc) })"

definition print_d :: "int \<Rightarrow> string" where
  "print_d i = (if i < 0 then ''-'' else []) @ dec_string (nat \<bar>i\<bar>)"

definition or_empty :: "string option \<Rightarrow> string" where
  "or_empty s = (case s of Some t \<Rightarrow> t | None \<Rightarrow> [])"

definition init_xconf :: "config \<Rightarrow> string option \<Rightarrow> string option \<Rightarrow> init_result" where
  "init_xconf cf user pass =
     ([''dbhost:'' @ or_empty (db_host cf), ''dbport:'' @ print_d (db_port cf), ''dbuser:'' @ or_empty user,
       ''dbauth:'' @ or_empty pass], 0)"

definition init_update :: "env \<Rightarrow> config \<Rightarrow> string option \<Rightarrow> string option \<Rightarrow> string \<Rightarrow> init_result io" where
  "init_update e cf user pass fsname =
     do { rc \<leftarrow> lmt_db_update_ops e cf user pass fsname;
          State_Monad.return (if rc < 0 then [''failed to update ops for '' @ fsname] else [], 0) }"

section \<open>The program\<close>

definition flags :: "init_opts \<Rightarrow> bool list" where
  "flags p = [io_aopt p, io_dopt p, io_lopt p, io_xopt p, io_oopt p]"

text \<open>The argument of \<open>printf\<close> for an error in the options, or \<open>None\<close> when they are accepted; \<open>Some []\<close> when the message goes
  to the standard error.\<close>

definition check_options :: "init_env \<Rightarrow> init_opts \<Rightarrow> string list option" where
  "check_options ie p =
     (if ie_optind ie < length (ie_argv ie) then
        Some [''ERROR: unexpected arguments, have '' @ dec_string (ie_optind ie) @ '' expected '' @ dec_string (length (ie_argv ie)),
              CHR 0x09 # concat (map (\<lambda>(i, s). s @ (if Suc i < length (ie_argv ie) then '' '' else [])) (enumerate 0 (ie_argv ie)))]
      else if list_all Not (flags p) then
        Some [''ERROR: one of these must be enabled: -a -d -l -x -o (0,0,0,0,0)'']
      else if length (filter (\<lambda>b. b) (flags p)) > 1 then Some []
      else if io_pass p \<noteq> None \<and> io_Popt p then Some []
      else if io_xopt p \<and> (io_Popt p \<or> io_user p \<noteq> None \<or> io_pass p \<noteq> None) then Some []
      else None)"

definition init_user :: "config \<Rightarrow> init_opts \<Rightarrow> string option" where
  "init_user cf p = (case io_user p of Some u \<Rightarrow> Some u | None \<Rightarrow> if io_lopt p then db_rouser cf else db_rwuser cf)"

definition init_pass :: "config \<Rightarrow> init_env \<Rightarrow> init_opts \<Rightarrow> string option" where
  "init_pass cf ie p =
     (if io_Popt p then ie_getpass ie
      else case io_pass p of Some w \<Rightarrow> Some w | None \<Rightarrow> if io_lopt p then db_ropasswd cf else db_rwpasswd cf)"

definition init_action :: "env \<Rightarrow> config \<Rightarrow> init_env \<Rightarrow> init_opts \<Rightarrow> init_result option io" where
  "init_action e cf ie p =
     (let user = init_user cf p; pass = init_pass cf ie p; fs = or_empty (io_fsname p);
          total = (\<lambda>m. do { r \<leftarrow> m; State_Monad.return (Some r) })
      in if io_lopt p then total (init_list e cf user pass)
         else if io_dopt p then total (init_del e cf user pass fs)
         else if io_aopt p then init_add e cf ie user pass fs (io_schemafile p)
         else if io_xopt p then State_Monad.return (Some (init_xconf cf user pass))
         else if io_oopt p then total (init_update e cf user pass fs)
         else State_Monad.return (Some ([], 0)))"

definition lmtinit_main :: "env \<Rightarrow> init_env \<Rightarrow> (char \<times> string) list \<Rightarrow> init_result option io" where
  "lmtinit_main e ie opts =
     (case init_options opts init_opts_none of
        None \<Rightarrow> State_Monad.return (Some ([], 1))
      | Some p \<Rightarrow>
          (case lmt_conf_init (ie_readable ie) (ie_conf ie) (ie_load ie) (io_conffile p) config_default of
             (rc, cf) \<Rightarrow>
               if rc < 0 then State_Monad.return (Some ([], 1))
               else case check_options ie p of
                   Some out \<Rightarrow> State_Monad.return (Some (out, 1))
                 | None \<Rightarrow> init_action e (cf\<lparr>db_debug := 1\<rparr>) ie p))"

section \<open>What the tool does\<close>

text \<open>Nothing is changed: no statement is sent and no database selected.\<close>

fun reads :: "dbcall \<Rightarrow> bool" where
  "reads (Query c q) = False"
| "reads (Select_db c d) = False"
| "reads (Stmt_init c) = False"
| "reads (Stmt_prepare s q) = False"
| "reads (Stmt_bind s vs) = False"
| "reads (Stmt_execute s) = False"
| "reads _ = True"

lemma init_option_flags:
  assumes "init_option c arg p = Some p'"
  shows "io_aopt p' = (io_aopt p \<or> c = CHR ''a'')" "io_dopt p' = (io_dopt p \<or> c = CHR ''d'')"
    "io_lopt p' = (io_lopt p \<or> c = CHR ''l'')" "io_oopt p' = (io_oopt p \<or> c = CHR ''o'')"
  using assms unfolding init_option_def by (simp_all split: if_split_asm) force+

lemma init_options_flags:
  "init_options opts p = Some p' \<Longrightarrow>
   io_aopt p' = (io_aopt p \<or> CHR ''a'' \<in> fst ` set opts) \<and> io_dopt p' = (io_dopt p \<or> CHR ''d'' \<in> fst ` set opts) \<and>
   io_lopt p' = (io_lopt p \<or> CHR ''l'' \<in> fst ` set opts) \<and> io_oopt p' = (io_oopt p \<or> CHR ''o'' \<in> fst ` set opts)"
proof (induction opts arbitrary: p)
  case (Cons a opts)
  obtain c arg where a: "a = (c, arg)" by (cases a)
  obtain p1 where p1: "init_option c arg p = Some p1" "init_options opts p1 = Some p'"
    using Cons.prems a by (auto split: option.splits)
  show ?case using Cons.IH [OF p1(2)] init_option_flags [OF p1(1)] a by simp blast
qed simp

lemma reads_list: "calls_in reads (lmt_db_list e cf user pass)"
  unfolding lmt_db_list_def by (intro calls; simp)

text \<open>C33: without one of the options a, d and o, whatever the other options, the configuration and the server are, no
  statement is sent to the server and no database is selected.\<close>

theorem lmtinit_list_readonly:
  assumes "{CHR ''a'', CHR ''d'', CHR ''o''} \<inter> fst ` set opts = {}"
  shows "calls_in reads (lmtinit_main e ie opts)"
proof (cases "init_options opts init_opts_none")
  case None
  then show ?thesis by (simp add: lmtinit_main_def calls_return)
next
  case (Some p)
  have f: "\<not> io_aopt p" "\<not> io_dopt p" "\<not> io_oopt p"
    using init_options_flags [OF Some] assms by (auto simp: init_opts_none_def)
  have "calls_in reads (init_action e cf ie p)" for cf
    using f unfolding init_action_def init_list_def Let_def by (auto intro!: calls reads_list)
  then show ?thesis using Some by (auto simp: lmtinit_main_def intro!: calls)
qed

text \<open>The statement sent for the schema has at its end what the memory holds behind the buffer, up to the first NUL.\<close>

lemma c_string_unterminated:
  "CHR 0x00 \<notin> set buf \<Longrightarrow> c_string buf memory = buf @ takeWhile (\<lambda>c. c \<noteq> CHR 0x00) memory"
  unfolding c_string_def by (rule takeWhile_append2) metis

text \<open>A server that accepts every statement and answers the schema with \<open>n\<close> further results.\<close>

definition accepts_all :: "env \<Rightarrow> nat \<Rightarrow> bool" where
  "accepts_all e n \<longleftrightarrow>
     (\<forall>h c host user pass db port multi. env_connect e (h @ [Connect c host user pass db port multi])) \<and>
     (\<forall>h c q. env_int e (h @ [Query c q]) = 0) \<and>
     (\<forall>h c. env_int e (h @ [Next_result c]) = 0 \<longleftrightarrow> length (filter (\<lambda>x. x = Next_result c) h) < n)"

lemma next_result_answer:
  "accepts_all e n \<Longrightarrow> env_int e (h @ [Next_result c]) = 0 \<longleftrightarrow> length (filter (\<lambda>x. x = Next_result c) h) < n"
  unfolding accepts_all_def by blast

lemma next_results_run:
  assumes "accepts_all e n" "length (filter (\<lambda>x. x = Next_result c) h) + k = n" "k < fuel"
  shows "run_state (next_results e c fuel) h = (Some (), h @ concat (replicate (Suc k) [Store_result c, Next_result c]))"
  using assms(2,3)
proof (induction k arbitrary: h fuel)
  case 0
  then obtain f where "fuel = Suc f" by (cases fuel) auto
  moreover have "env_int e ((h @ [Store_result c]) @ [Next_result c]) \<noteq> 0"
    using next_result_answer [OF assms(1), of "h @ [Store_result c]" c] 0 by simp
  ultimately show ?case by simp
next
  case (Suc k)
  then obtain f where f: "fuel = Suc f" "k < f" by (cases fuel) auto
  let ?h = "h @ [Store_result c, Next_result c]"
  have "env_int e ?h = 0" using next_result_answer [OF assms(1), of "h @ [Store_result c]" c] Suc.prems by simp
  moreover have "run_state (next_results e c f) ?h = (Some (), ?h @ concat (replicate (Suc k) [Store_result c, Next_result c]))"
    by (rule Suc.IH) (use Suc.prems f in auto)
  ultimately show ?case using f by simp
qed

lemma sql_printf_whole: "length (sql_text tmpl args) < len \<Longrightarrow> sql_printf len tmpl args = sql_text tmpl args"
  by (simp add: sql_printf_def snprintf_def)

lemma admin_statements:
  "sql_printf (length sql_create_fs + length fs + 1) sql_create_fs [fs] = ''create database `filesystem_'' @ fs @ ''`''"
  "sql_printf (length sql_use_fs + length fs + 1) sql_use_fs [fs] = ''use `filesystem_'' @ fs @ ''`''"
  "sql_printf (length sql_ins_filesystem_info + length fs + length v + 1) sql_ins_filesystem_info [fs, v] =
     sq ''insert into FILESYSTEM_INFO (FILESYSTEM_NAME, FILESYSTEM_MOUNT_NAME, SCHEMA_VERSION) values (^'' @ fs @ sq ''^, ^^, ^'' @ v @ sq ''^)''"
  by (subst sql_printf_whole; simp add: sql_create_fs_def sql_use_fs_def sql_ins_filesystem_info_def sq_def)+

lemmas admin_statements_Suc = admin_statements [unfolded Suc_eq_plus1 [symmetric]]

lemma query_run: "accepts_all e n \<Longrightarrow> run_state (query_seq e c qs) h = (0, h @ map (Query c) qs)"
  by (induction qs arbitrary: h) (simp_all add: accepts_all_def)

definition add_calls :: "conn \<Rightarrow> config \<Rightarrow> string option \<Rightarrow> string option \<Rightarrow> string \<Rightarrow> string \<Rightarrow> nat \<Rightarrow> calls" where
  "add_calls c cf user pass fs schema n =
     [Init, Connect c (db_host cf) user pass None (db_port cf) True, Query c (''create database `filesystem_'' @ fs @ ''`''),
      Query c (''use `filesystem_'' @ fs @ ''`''), Query c schema] @ concat (replicate (Suc n) [Store_result c, Next_result c]) @
     [Query c (sq ''insert into FILESYSTEM_INFO (FILESYSTEM_NAME, FILESYSTEM_MOUNT_NAME, SCHEMA_VERSION) values (^'' @ fs @
        sq ''^, ^^, ^'' @ lmt_schema_version @ sq ''^)''), Close c]"

lemma db_add_run:
  assumes "accepts_all e n" "n < fuel"
  shows "run_state (lmt_db_add e cf fuel user pass fs lmt_schema_version schema) [] =
    (Some 0, add_calls (env_ptr e [Init]) cf user pass fs schema n)"
proof -
  let ?c = "env_ptr e [Init]"
  have ok: "env_connect e [Init, Connect ?c (db_host cf) user pass None (db_port cf) True]"
    using assms(1) unfolding accepts_all_def by (metis append_Cons append_Nil)
  show ?thesis
    using ok next_results_run [OF assms(1), where c = ?c and k = n and fuel = fuel] assms(2)
    by (simp add: lmt_db_add_def query_run [OF assms(1)] admin_statements_Suc tell_def add_calls_def del: replicate.simps query_seq.simps)
qed

text \<open>C32: with the option a, a readable schema without NULs and a server that accepts the statements, whatever it answers
  to the later statements of the schema, the tool exits with 0, and its calls are these: as the user for writing it
  creates the database, switches to it, sends the schema (followed by what the memory behind the buffer holds), fetches
  all results, enters the file system and closes the connection.\<close>

theorem lmtinit_add_correct:
  assumes "accepts_all e n" "n < ie_fuel ie" "length (ie_argv ie) \<le> ie_optind ie"
    and "lmt_conf_init (ie_readable ie) (ie_conf ie) (ie_load ie) None config_default = (0, cf)"
    and "read_schema (ie_schema ie (ie_schema_path ie)) = Some buf" "CHR 0x00 \<notin> set buf"
  shows "run_state (lmtinit_main e ie [(CHR ''a'', fs)]) [] =
    (Some ([], 0), add_calls (env_ptr e [Init]) cf (db_rwuser cf) (db_rwpasswd cf) fs
       (buf @ takeWhile (\<lambda>c. c \<noteq> CHR 0x00) (ie_memory ie)) n)"
proof -
  have "init_options [(CHR ''a'', fs)] init_opts_none = Some (init_opts_none\<lparr>io_aopt := True, io_fsname := Some fs\<rparr>)"
    by (simp add: init_option_def)
  moreover have "add_calls c (cf\<lparr>db_debug := 1\<rparr>) u w f s k = add_calls c cf u w f s k" for c u w f s k
    by (simp add: add_calls_def)
  ultimately show ?thesis
    using assms(3-5) db_add_run [OF assms(1,2)] c_string_unterminated [OF assms(6)]
    by (simp add: lmtinit_main_def check_options_def flags_def init_opts_none_def init_action_def Let_def init_add_def
        init_user_def init_pass_def or_empty_def)
qed

text \<open>Listing: the names of the file systems, in the order of the server, whatever characters they contain.\<close>

lemma list_line_filesystem: "list_line (''filesystem_'' @ fs) = fs"
  by (simp add: list_line_def)

lemma lmtinit_list_correct:
  assumes "env_connect e [Init, Connect (env_ptr e [Init]) (db_host cf) user pass None (db_port cf) False]"
    and "env_result e [Init, Connect (env_ptr e [Init]) (db_host cf) user pass None (db_port cf) False, List_dbs (env_ptr e [Init]) ''filesystem_%''] =
      Some \<lparr>rs_types = ts, rs_rows = map (\<lambda>fs. [''filesystem_'' @ fs]) fss\<rparr>"
  shows "fst (run_state (init_list e cf user pass) []) = (fss, 0)"
  using assms by (simp add: init_list_def lmt_db_list_def tell_def comp_def list_line_def)

definition quiet_server :: "nat \<Rightarrow> env" where
  "quiet_server n =
     \<lparr>env_time = (\<lambda>_. Some 0), env_ptr = (\<lambda>_. 7), env_connect = (\<lambda>_. True),
      env_int = (\<lambda>h. case last h of
          Next_result c \<Rightarrow> if length (filter (\<lambda>x. x = Next_result c) (butlast h)) < n then 0 else - 1
        | _ \<Rightarrow> 0),
      env_result = (\<lambda>_. None), env_id = (\<lambda>_. 0)\<rparr>"

definition init_example :: init_env where
  "init_example =
     \<lparr>ie_argv = [''lmtinit'', ''-a'', ''lc1''], ie_optind = 3, ie_readable = False, ie_conf = ''/etc/lmt/lmt.conf'',
      ie_load = (\<lambda>_. None), ie_getpass = None,
      ie_schema = (\<lambda>_. \<lparr>sf_open = True, sf_size = Some 14, sf_read = Some ''create table t''\<rparr>),
      ie_schema_path = ''/usr/share/lmt/create_schema-1.1.sql'', ie_memory = [CHR 0x00], ie_fuel = 9\<rparr>"

theorem lmtinit_add_correct_witness:
  "run_state (lmtinit_main (quiet_server 2) init_example [(CHR ''a'', ''lc1'')]) [] =
    (Some ([], 0), add_calls 7 config_default None None ''lc1'' ''create table t'' 2)"
proof -
  have a: "accepts_all (quiet_server 2) 2" by (simp add: accepts_all_def quiet_server_def)
  have r: "read_schema (ie_schema init_example (ie_schema_path init_example)) = Some ''create table t''"
    by (simp add: init_example_def read_schema_def)
  have c: "lmt_conf_init (ie_readable init_example) (ie_conf init_example) (ie_load init_example) None config_default = (0, config_default)"
    by (simp add: init_example_def lmt_conf_init_def)
  from lmtinit_add_correct [OF a _ _ c r, of "''lc1''"] show ?thesis
    by (simp add: init_example_def quiet_server_def config_default_def)
qed

theorem lmtinit_list_readonly_witness:
  "calls_in reads (lmtinit_main (quiet_server 0) init_example [(CHR ''l'', []), (CHR ''u'', ''root'')])"
  by (rule lmtinit_list_readonly) simp

text \<open>A failed update of the operations does not show in the exit status.\<close>

lemma update_failure_exits_0:
  "snd (fst (run_state (init_update e cf user pass fs) h)) = 0"
  by (simp add: init_update_def split: prod.split)

end
